(* ===== verification/Boxd_Prelude.thy ===== *)
theory Boxd_Prelude
  imports Main "HOL-Library.Word"
begin

text \<open>
  Shared vocabulary of the development: machine integers and byte slices of the Go
  sources, the little-endian and big-endian number codecs of the Go standard library
  (\<^verbatim>\<open>encoding/binary\<close>, \<^verbatim>\<open>math/big\<close>) that the components call, Go slice
  expressions, and the list and word lemmas that several components share.
\<close>

unbundle bit_operations_syntax

named_theorems go_defs \<open>definitions of the Go standard library operations used by the model\<close>

section \<open>Types\<close>

type_synonym byte = "8 word"
type_synonym bytes = "byte list"
type_synonym u16 = "16 word"
type_synonym u32 = "32 word"
type_synonym u64 = "64 word"

section \<open>Generic list and word lemmas\<close>

lemma take_length_append [simp]: "take (length xs) (xs @ ys) = xs"
  by simp

lemma nth_append_length_add [simp]: "(xs @ ys) ! (length xs + i) = ys ! i"
  by (simp add: nth_append)

lemma take_drop_append_mid:
  assumes "length pre = p"
  shows "take (length xs) (drop p (pre @ xs @ post)) = xs"
  using assms by auto

lemma unat_of_nat_less:
  assumes "n < 2 ^ LENGTH('a::len)"
  shows "unat (of_nat n :: 'a word) = n"
  using assms by (simp add: unat_of_nat)

lemma byte_of_nat_unat [simp]: "of_nat (unat (b :: byte)) = b"
  by simp

lemma unat_byte_less [simp]: "unat (b :: byte) < 256"
  using unsigned_less [of b, where ?'a = nat] by simp

section \<open>Little-endian numbers (\<^verbatim>\<open>binary.LittleEndian\<close>)\<close>

text \<open>
  \<^verbatim>\<open>PutUint16/32/64\<close> write the low byte first; \<^verbatim>\<open>Uint16/32/64\<close> read it back. The
  width is the first argument of \<^term>\<open>le_put\<close>; the readers of the model take exactly
  that many bytes before calling \<^term>\<open>le_get\<close>.
\<close>

primrec le_put :: "nat \<Rightarrow> 'a::len word \<Rightarrow> bytes" where
  "le_put 0 w = []"
| "le_put (Suc n) w = ucast w # le_put n (drop_bit 8 w)"

primrec le_get :: "bytes \<Rightarrow> 'a::len word" where
  "le_get [] = 0"
| "le_get (b # bs) = ucast b OR push_bit 8 (le_get bs)"

lemma length_le_put [simp]: "length (le_put n w) = n"
  by (induction n arbitrary: w) auto

lemma le_get_le_put_take: "le_get (le_put n w) = take_bit (8 * n) (w :: 'a::len word)"
proof (induction n arbitrary: w)
  case 0
  then show ?case by simp
next
  case (Suc n)
  have "ucast (ucast w :: byte) OR push_bit 8 (take_bit (8 * n) (drop_bit 8 w))
      = take_bit (8 * Suc n) w"
    by (rule bit_eqI)
      (auto simp: bit_simps not_less less_diff_conv2 add.commute)
  with Suc show ?case by simp
qed

lemma le_get_le_put [simp]:
  assumes "LENGTH('a::len) \<le> 8 * n"
  shows "le_get (le_put n (w :: 'a word)) = w"
  using assms by (simp add: le_get_le_put_take take_bit_word_eq_self)

lemma le_put_le_get:
  assumes "8 * length bs \<le> LENGTH('a::len)"
  shows "le_put (length bs) (le_get bs :: 'a word) = bs"
  using assms
proof (induction bs)
  case Nil
  then show ?case by simp
next
  case (Cons b bs)
  let ?r = "le_get bs :: 'a word"
  have low: "ucast (ucast b OR push_bit 8 ?r :: 'a word) = b"
    using Cons.prems by (intro bit_eqI) (auto simp: bit_simps)
  have len: "8 * length bs \<le> LENGTH('a)" "8 \<le> LENGTH('a)"
    using Cons.prems by auto
  have small: "take_bit (8 * length bs) ?r = ?r"
    using Cons.IH [OF len(1)] le_get_le_put_take [of "length bs" ?r] by simp
  have "drop_bit 8 (ucast b OR push_bit 8 ?r :: 'a word) = ?r"
  proof (rule bit_eqI)
    fix k
    assume "possible_bit TYPE('a word) k"
    then have k: "k < LENGTH('a)" by simp
    have "bit ?r k \<longleftrightarrow> bit ?r k \<and> k < 8 * length bs"
      by (metis bit_take_bit_iff small)
    with k Cons.prems show "bit (drop_bit 8 (ucast b OR push_bit 8 ?r)) k = bit ?r k"
      by (auto simp: bit_simps dest: bit_imp_le_length)
  qed
  with Cons.IH [OF len(1)] low show ?case by simp
qed

section \<open>Big-endian naturals (\<^verbatim>\<open>math/big\<close>)\<close>

text \<open>
  \<^verbatim>\<open>SetBytes\<close> reads an unsigned big-endian number, \<^verbatim>\<open>Bytes\<close> writes the absolute
  value in the fewest bytes (none for 0).
\<close>

definition big_set_bytes :: "bytes \<Rightarrow> nat" where
  "big_set_bytes bs = foldl (\<lambda>acc b. acc * 256 + unat b) 0 bs"

fun big_bytes :: "nat \<Rightarrow> bytes" where
  "big_bytes n = (if n = 0 then [] else big_bytes (n div 256) @ [of_nat (n mod 256)])"

declare big_bytes.simps [simp del]

lemma big_bytes_0 [simp]: "big_bytes 0 = []"
  by (simp add: big_bytes.simps)

lemma big_set_bytes_Nil [simp]: "big_set_bytes [] = 0"
  by (simp add: big_set_bytes_def)

lemma big_set_bytes_snoc [simp]: "big_set_bytes (bs @ [b]) = big_set_bytes bs * 256 + unat b"
  by (simp add: big_set_bytes_def)

lemma big_set_bytes_0_iff: "big_set_bytes bs = 0 \<longleftrightarrow> (\<forall>b\<in>set bs. b = 0)"
  by (induction bs rule: rev_induct) (auto simp: unat_eq_0)

lemma length_big_bytes_le: "n < 256 ^ k \<Longrightarrow> length (big_bytes n) \<le> k"
proof (induction k arbitrary: n)
  case (Suc k)
  then have "n div 256 < 256 ^ k" by (simp add: less_mult_imp_div_less mult.commute)
  with Suc.IH [of "n div 256"] show ?case by (subst big_bytes.simps) simp
qed simp

lemma big_set_bytes_big_bytes [simp]: "big_set_bytes (big_bytes n) = n"
proof (induction n rule: big_bytes.induct)
  case (1 n)
  show ?case
  proof (cases "n = 0")
    case False
    have "unat (of_nat (n mod 256) :: byte) = n mod 256"
      by (simp add: unat_of_nat_less)
    with 1 False show ?thesis by (subst big_bytes.simps) simp
  qed simp
qed

text \<open>The signed reading of the low 64 bits of a magnitude: \<^verbatim>\<open>big.Int.Int64()\<close>.\<close>

definition big_int64 :: "nat \<Rightarrow> int" where
  "big_int64 n = sint (of_nat n :: u64)"

text \<open>\<^verbatim>\<open>big.Int.IsInt64()\<close> of a non-negative number.\<close>

definition big_is_int64 :: "nat \<Rightarrow> bool" where
  "big_is_int64 n \<longleftrightarrow> n < 2 ^ 63"

lemma sint_of_nat_u64: "n < 2 ^ 63 \<Longrightarrow> sint (of_nat n :: u64) = int n"
  by (simp add: signed_of_nat signed_take_bit_int_eq_self)

section \<open>64-bit \<^verbatim>\<open>int\<close> arithmetic\<close>

text \<open>
  Go's \<^verbatim>\<open>int\<close> has 64 bits on the targets of this program and wraps around. Where a sum
  can leave the range, the model adds with \<^term>\<open>add_int\<close>.
\<close>

definition wrap_int :: "int \<Rightarrow> int" where
  "wrap_int i = (i + 2 ^ 63) mod 2 ^ 64 - 2 ^ 63"

definition add_int :: "int \<Rightarrow> int \<Rightarrow> int" where
  "add_int a b = wrap_int (a + b)"

lemma wrap_int_id: "- (2 ^ 63) \<le> i \<Longrightarrow> i < 2 ^ 63 \<Longrightarrow> wrap_int i = i"
  by (simp add: wrap_int_def)

lemma add_int_id: "- (2 ^ 63) \<le> a + b \<Longrightarrow> a + b < 2 ^ 63 \<Longrightarrow> add_int a b = a + b"
  by (simp add: add_int_def wrap_int_id)

end
