(* ===== verification/Opcode.thy ===== *)
theory Opcode
  imports Boxd_Prelude
begin

text \<open>
  \<^verbatim>\<open>src/script/opcode.go\<close>: the byte values of the script operations and their
  printed names. \<^verbatim>\<open>OpCode\<close> is a renamed \<^verbatim>\<open>byte\<close>, so every byte is an opcode and
  the constants are definitions, not constructors of a datatype. They are collected in
  \<open>opcode_defs\<close>.
\<close>

named_theorems opcode_defs \<open>byte values of the script opcodes\<close>

type_synonym OpCode = byte

section \<open>Values\<close>

definition OP0 :: OpCode where [opcode_defs]: "OP0 = 0x00"
definition OPFALSE :: OpCode where [opcode_defs]: "OPFALSE = 0x00"
definition OPDATA20 :: OpCode where [opcode_defs]: "OPDATA20 = 0x14"
definition OPPUSHDATA1 :: OpCode where [opcode_defs]: "OPPUSHDATA1 = 0x4c"
definition OPPUSHDATA2 :: OpCode where [opcode_defs]: "OPPUSHDATA2 = 0x4d"
definition OPPUSHDATA4 :: OpCode where [opcode_defs]: "OPPUSHDATA4 = 0x4e"
definition OP1NEGATE :: OpCode where [opcode_defs]: "OP1NEGATE = 0x4f"
definition OPRESERVED :: OpCode where [opcode_defs]: "OPRESERVED = 0x50"
definition OP1 :: OpCode where [opcode_defs]: "OP1 = 0x51"
definition OPTRUE :: OpCode where [opcode_defs]: "OPTRUE = 0x51"
definition OP2 :: OpCode where [opcode_defs]: "OP2 = 0x52"
definition OP3 :: OpCode where [opcode_defs]: "OP3 = 0x53"
definition OP4 :: OpCode where [opcode_defs]: "OP4 = 0x54"
definition OP5 :: OpCode where [opcode_defs]: "OP5 = 0x55"
definition OP6 :: OpCode where [opcode_defs]: "OP6 = 0x56"
definition OP7 :: OpCode where [opcode_defs]: "OP7 = 0x57"
definition OP8 :: OpCode where [opcode_defs]: "OP8 = 0x58"
definition OP9 :: OpCode where [opcode_defs]: "OP9 = 0x59"
definition OP10 :: OpCode where [opcode_defs]: "OP10 = 0x5a"
definition OP11 :: OpCode where [opcode_defs]: "OP11 = 0x5b"
definition OP12 :: OpCode where [opcode_defs]: "OP12 = 0x5c"
definition OP13 :: OpCode where [opcode_defs]: "OP13 = 0x5d"
definition OP14 :: OpCode where [opcode_defs]: "OP14 = 0x5e"
definition OP15 :: OpCode where [opcode_defs]: "OP15 = 0x5f"
definition OP16 :: OpCode where [opcode_defs]: "OP16 = 0x60"
definition OPNOP :: OpCode where [opcode_defs]: "OPNOP = 0x61"
definition OPVER :: OpCode where [opcode_defs]: "OPVER = 0x62"
definition OPIF :: OpCode where [opcode_defs]: "OPIF = 0x63"
definition OPNOTIF :: OpCode where [opcode_defs]: "OPNOTIF = 0x64"
definition OPVERIF :: OpCode where [opcode_defs]: "OPVERIF = 0x65"
definition OPVERNOTIF :: OpCode where [opcode_defs]: "OPVERNOTIF = 0x66"
definition OPELSE :: OpCode where [opcode_defs]: "OPELSE = 0x67"
definition OPENDIF :: OpCode where [opcode_defs]: "OPENDIF = 0x68"
definition OPVERIFY :: OpCode where [opcode_defs]: "OPVERIFY = 0x69"
definition OPRETURN :: OpCode where [opcode_defs]: "OPRETURN = 0x6a"
definition OPTOALTSTACK :: OpCode where [opcode_defs]: "OPTOALTSTACK = 0x6b"
definition OPFROMALTSTACK :: OpCode where [opcode_defs]: "OPFROMALTSTACK = 0x6c"
definition OP2DROP :: OpCode where [opcode_defs]: "OP2DROP = 0x6d"
definition OP2DUP :: OpCode where [opcode_defs]: "OP2DUP = 0x6e"
definition OP3DUP :: OpCode where [opcode_defs]: "OP3DUP = 0x6f"
definition OP2OVER :: OpCode where [opcode_defs]: "OP2OVER = 0x70"
definition OP2ROT :: OpCode where [opcode_defs]: "OP2ROT = 0x71"
definition OP2SWAP :: OpCode where [opcode_defs]: "OP2SWAP = 0x72"
definition OPIFDUP :: OpCode where [opcode_defs]: "OPIFDUP = 0x73"
definition OPDEPTH :: OpCode where [opcode_defs]: "OPDEPTH = 0x74"
definition OPDROP :: OpCode where [opcode_defs]: "OPDROP = 0x75"
definition OPDUP :: OpCode where [opcode_defs]: "OPDUP = 0x76"
definition OPNIP :: OpCode where [opcode_defs]: "OPNIP = 0x77"
definition OPOVER :: OpCode where [opcode_defs]: "OPOVER = 0x78"
definition OPPICK :: OpCode where [opcode_defs]: "OPPICK = 0x79"
definition OPROLL :: OpCode where [opcode_defs]: "OPROLL = 0x7a"
definition OPROT :: OpCode where [opcode_defs]: "OPROT = 0x7b"
definition OPSWAP :: OpCode where [opcode_defs]: "OPSWAP = 0x7c"
definition OPTUCK :: OpCode where [opcode_defs]: "OPTUCK = 0x7d"
definition OPCAT :: OpCode where [opcode_defs]: "OPCAT = 0x7e"
definition OPSUBSTR :: OpCode where [opcode_defs]: "OPSUBSTR = 0x7f"
definition OPLEFT :: OpCode where [opcode_defs]: "OPLEFT = 0x80"
definition OPRIGHT :: OpCode where [opcode_defs]: "OPRIGHT = 0x81"
definition OPSIZE :: OpCode where [opcode_defs]: "OPSIZE = 0x82"
definition OPINVERT :: OpCode where [opcode_defs]: "OPINVERT = 0x83"
definition OPAND :: OpCode where [opcode_defs]: "OPAND = 0x84"
definition OPOR :: OpCode where [opcode_defs]: "OPOR = 0x85"
definition OPXOR :: OpCode where [opcode_defs]: "OPXOR = 0x86"
definition OPEQUAL :: OpCode where [opcode_defs]: "OPEQUAL = 0x87"
definition OPEQUALVERIFY :: OpCode where [opcode_defs]: "OPEQUALVERIFY = 0x88"
definition OPRESERVED1 :: OpCode where [opcode_defs]: "OPRESERVED1 = 0x89"
definition OPRESERVED2 :: OpCode where [opcode_defs]: "OPRESERVED2 = 0x8a"
definition OP1ADD :: OpCode where [opcode_defs]: "OP1ADD = 0x8b"
definition OP1SUB :: OpCode where [opcode_defs]: "OP1SUB = 0x8c"
definition OP2MUL :: OpCode where [opcode_defs]: "OP2MUL = 0x8d"
definition OP2DIV :: OpCode where [opcode_defs]: "OP2DIV = 0x8e"
definition OPNEGATE :: OpCode where [opcode_defs]: "OPNEGATE = 0x8f"
definition OPABS :: OpCode where [opcode_defs]: "OPABS = 0x90"
definition OPNOT :: OpCode where [opcode_defs]: "OPNOT = 0x91"
definition OP0NOTEQUAL :: OpCode where [opcode_defs]: "OP0NOTEQUAL = 0x92"
definition OPADD :: OpCode where [opcode_defs]: "OPADD = 0x93"
definition OPSUB :: OpCode where [opcode_defs]: "OPSUB = 0x94"
definition OPMUL :: OpCode where [opcode_defs]: "OPMUL = 0x95"
definition OPDIV :: OpCode where [opcode_defs]: "OPDIV = 0x96"
definition OPMOD :: OpCode where [opcode_defs]: "OPMOD = 0x97"
definition OPLSHIFT :: OpCode where [opcode_defs]: "OPLSHIFT = 0x98"
definition OPRSHIFT :: OpCode where [opcode_defs]: "OPRSHIFT = 0x99"
definition OPBOOLAND :: OpCode where [opcode_defs]: "OPBOOLAND = 0x9a"
definition OPBOOLOR :: OpCode where [opcode_defs]: "OPBOOLOR = 0x9b"
definition OPNUMEQUAL :: OpCode where [opcode_defs]: "OPNUMEQUAL = 0x9c"
definition OPNUMEQUALVERIFY :: OpCode where [opcode_defs]: "OPNUMEQUALVERIFY = 0x9d"
definition OPNUMNOTEQUAL :: OpCode where [opcode_defs]: "OPNUMNOTEQUAL = 0x9e"
definition OPLESSTHAN :: OpCode where [opcode_defs]: "OPLESSTHAN = 0x9f"
definition OPGREATERTHAN :: OpCode where [opcode_defs]: "OPGREATERTHAN = 0xa0"
definition OPLESSTHANOREQUAL :: OpCode where [opcode_defs]: "OPLESSTHANOREQUAL = 0xa1"
definition OPGREATERTHANOREQUAL :: OpCode where [opcode_defs]: "OPGREATERTHANOREQUAL = 0xa2"
definition OPMIN :: OpCode where [opcode_defs]: "OPMIN = 0xa3"
definition OPMAX :: OpCode where [opcode_defs]: "OPMAX = 0xa4"
definition OPWITHIN :: OpCode where [opcode_defs]: "OPWITHIN = 0xa5"
definition OPRIPEMD160 :: OpCode where [opcode_defs]: "OPRIPEMD160 = 0xa6"
definition OPSHA1 :: OpCode where [opcode_defs]: "OPSHA1 = 0xa7"
definition OPSHA256 :: OpCode where [opcode_defs]: "OPSHA256 = 0xa8"
definition OPHASH160 :: OpCode where [opcode_defs]: "OPHASH160 = 0xa9"
definition OPHASH256 :: OpCode where [opcode_defs]: "OPHASH256 = 0xaa"
definition OPCODESEPARATOR :: OpCode where [opcode_defs]: "OPCODESEPARATOR = 0xab"
definition OPCHECKSIG :: OpCode where [opcode_defs]: "OPCHECKSIG = 0xac"
definition OPCHECKSIGVERIFY :: OpCode where [opcode_defs]: "OPCHECKSIGVERIFY = 0xad"
definition OPCHECKMULTISIG :: OpCode where [opcode_defs]: "OPCHECKMULTISIG = 0xae"
definition OPCHECKMULTISIGVERIFY :: OpCode where [opcode_defs]: "OPCHECKMULTISIGVERIFY = 0xaf"
definition OPCHECKLOCKTIMEVERIFY :: OpCode where [opcode_defs]: "OPCHECKLOCKTIMEVERIFY = 0xb0"
definition OPCONTRACT :: OpCode where [opcode_defs]: "OPCONTRACT = 0xb1"

section \<open>Names\<close>

text \<open>The cases of the switch in \<^verbatim>\<open>opCodeToName\<close>, in the source's order.\<close>

definition opcode_names :: "(OpCode \<times> string) list" where
  "opcode_names =
    [(OP0, ''OP_0''),
     (OPPUSHDATA1, ''OP_PUSHDATA1''),
     (OPPUSHDATA2, ''OP_PUSHDATA2''),
     (OPPUSHDATA4, ''OP_PUSHDATA4''),
     (OP1NEGATE, ''-1''),
     (OPRESERVED, ''OP_RESERVED''),
     (OP1, ''OP_1''),
     (OP2, ''OP_2''),
     (OP3, ''OP_3''),
     (OP4, ''OP_4''),
     (OP5, ''OP_5''),
     (OP6, ''OP_6''),
     (OP7, ''OP_7''),
     (OP8, ''OP_8''),
     (OP9, ''OP_9''),
     (OP10, ''OP_10''),
     (OP11, ''OP_11''),
     (OP12, ''OP_12''),
     (OP13, ''OP_13''),
     (OP14, ''OP_14''),
     (OP15, ''OP_15''),
     (OP16, ''OP_16''),
     (OPNOP, ''OP_NOP''),
     (OPVER, ''OP_VER''),
     (OPIF, ''OP_IF''),
     (OPNOTIF, ''OP_NOTIF''),
     (OPVERIF, ''OP_VERIF''),
     (OPVERNOTIF, ''OP_VERNOTIF''),
     (OPELSE, ''OP_ELSE''),
     (OPENDIF, ''OP_ENDIF''),
     (OPVERIFY, ''OP_VERIFY''),
     (OPRETURN, ''OP_RETURN''),
     (OPTOALTSTACK, ''OP_TOALTSTACK''),
     (OPFROMALTSTACK, ''OP_FROMALTSTACK''),
     (OP2DROP, ''OP_2DROP''),
     (OP2DUP, ''OP_2DUP''),
     (OP3DUP, ''OP_3DUP''),
     (OP2OVER, ''OP_2OVER''),
     (OP2ROT, ''OP_2ROT''),
     (OP2SWAP, ''OP_2SWAP''),
     (OPIFDUP, ''OP_IFDUP''),
     (OPDEPTH, ''OP_DEPTH''),
     (OPDROP, ''OP_DROP''),
     (OPDUP, ''OP_DUP''),
     (OPNIP, ''OP_NIP''),
     (OPOVER, ''OP_OVER''),
     (OPPICK, ''OP_PICK''),
     (OPROLL, ''OP_ROLL''),
     (OPROT, ''OP_ROT''),
     (OPSWAP, ''OP_SWAP''),
     (OPTUCK, ''OP_TUCK''),
     (OPCAT, ''OP_CAT''),
     (OPSUBSTR, ''OP_SUBSTR''),
     (OPLEFT, ''OP_LEFT''),
     (OPRIGHT, ''OP_RIGHT''),
     (OPSIZE, ''OP_SIZE''),
     (OPINVERT, ''OP_INVERT''),
     (OPAND, ''OP_AND''),
     (OPOR, ''OP_OR''),
     (OPXOR, ''OP_XOR''),
     (OPEQUAL, ''OP_EQUAL''),
     (OPEQUALVERIFY, ''OP_EQUALVERIFY''),
     (OPRESERVED1, ''OP_RESERVED1''),
     (OPRESERVED2, ''OP_RESERVED2''),
     (OP1ADD, ''OP_1ADD''),
     (OP1SUB, ''OP_1SUB''),
     (OP2MUL, ''OP_2MUL''),
     (OP2DIV, ''OP_2DIV''),
     (OPNEGATE, ''OP_NEGATE''),
     (OPABS, ''OP_ABS''),
     (OPNOT, ''OP_NOT''),
     (OP0NOTEQUAL, ''OP_0NOTEQUAL''),
     (OPADD, ''OP_ADD''),
     (OPSUB, ''OP_SUB''),
     (OPMUL, ''OP_MUL''),
     (OPDIV, ''OP_DIV''),
     (OPMOD, ''OP_MOD''),
     (OPLSHIFT, ''OP_LSHIFT''),
     (OPRSHIFT, ''OP_RSHIFT''),
     (OPBOOLAND, ''OP_BOOLAND''),
     (OPBOOLOR, ''OP_BOOLOR''),
     (OPNUMEQUAL, ''OP_NUMEQUAL''),
     (OPNUMEQUALVERIFY, ''OP_NUMEQUALVERIFY''),
     (OPNUMNOTEQUAL, ''OP_NUMNOTEQUAL''),
     (OPLESSTHAN, ''OP_LESSTHAN''),
     (OPGREATERTHAN, ''OP_GREATERTHAN''),
     (OPLESSTHANOREQUAL, ''OP_LESSTHANOREQUAL''),
     (OPGREATERTHANOREQUAL, ''OP_GREATERTHANOREQUAL''),
     (OPMIN, ''OP_MIN''),
     (OPMAX, ''OP_MAX''),
     (OPWITHIN, ''OP_WITHIN''),
     (OPRIPEMD160, ''OP_RIPEMD160''),
     (OPSHA1, ''OP_SHA1''),
     (OPSHA256, ''OP_SHA256''),
     (OPHASH160, ''OP_HASH160''),
     (OPHASH256, ''OP_HASH256''),
     (OPCODESEPARATOR, ''OP_CODESEPARATOR''),
     (OPCHECKSIG, ''OP_CHECKSIG''),
     (OPCHECKSIGVERIFY, ''OP_CHECKSIGVERIFY''),
     (OPCHECKMULTISIG, ''OP_CHECKMULTISIG''),
     (OPCHECKMULTISIGVERIFY, ''OP_CHECKMULTISIGVERIFY''),
     (OPCHECKLOCKTIMEVERIFY, ''OP_CHECKLOCKTIMEVERIFY''),
     (OPCONTRACT, ''OP_CONTRACT'')]"

definition opCodeToName :: "OpCode \<Rightarrow> string" where
  "opCodeToName opCode =
     (case map_of opcode_names opCode of Some n \<Rightarrow> n | None \<Rightarrow> ''OP_UNKNOWN'')"

text \<open>Every printed name belongs to one byte value: the table has no repeated key and no
  repeated name, and the fallback name is not in it.\<close>

lemma opcode_keys_distinct: "distinct (map fst opcode_names)"
  by (simp add: opcode_names_def opcode_defs)

lemma opcode_names_distinct: "distinct (map snd opcode_names)"
  by (simp add: opcode_names_def)

lemma opcode_names_known: "''OP_UNKNOWN'' \<notin> snd ` set opcode_names"
  by (simp add: opcode_names_def)

lemma opCodeToName_eq_iff:
  assumes "opCodeToName a = opCodeToName b" and "opCodeToName a \<noteq> ''OP_UNKNOWN''"
  shows "a = b"
proof -
  from assms obtain n where a: "map_of opcode_names a = Some n" and b: "map_of opcode_names b = Some n"
    by (auto simp: opCodeToName_def split: option.splits)
  then have "(a, n) \<in> set opcode_names" "(b, n) \<in> set opcode_names"
    by (auto dest: map_of_SomeD)
  with opcode_names_distinct show ?thesis
    by (metis (mono_tags) distinct_map inj_onD prod.inject snd_conv)
qed

end
