(* ===== verification/Byte_Codec.thy ===== *)
theory Byte_Codec
  imports Boxd_Prelude
begin

text \<open>
  The byte-level serialisation layer, \<^verbatim>\<open>src/util/bytes.go\<close> and
  \<^verbatim>\<open>src/util/common.go\<close>: fixed-width integers in the default (little) endianness,
  the variable-length integers of \<^verbatim>\<open>encoding/binary\<close>, length-prefixed byte strings
  and hexadecimal strings. A reader is the list of bytes still unread, a writer the list
  of bytes written so far (every caller passes a \<^verbatim>\<open>bytes.Buffer\<close>, whose writes do
  not fail).

  The locale \<open>codec\<close> states what a writer/reader pair promises to the serialisers above
  it; it is interpreted for every pair of the package, and the composite formats of the
  other components are derived from those interpretations.
\<close>

section \<open>Readers\<close>

datatype read_error = EOF | UnexpectedEOF | VarintOverflow | MakeslicePanic

type_synonym 'a reader = "bytes \<Rightarrow> read_error + ('a \<times> bytes)"

text \<open>\<^verbatim>\<open>io.ReadFull\<close> on a buffer of \<open>n\<close> bytes.\<close>

definition read_full :: "nat \<Rightarrow> bytes reader" where
  "read_full n r =
     (if n \<le> length r then Inr (take n r, drop n r)
      else if r = [] then Inl EOF else Inl UnexpectedEOF)"

definition read_bind :: "read_error + ('a \<times> bytes) \<Rightarrow> ('a \<Rightarrow> 'b reader) \<Rightarrow> read_error + ('b \<times> bytes)"
where
  "read_bind m k = (case m of Inl e \<Rightarrow> Inl e | Inr (x, r) \<Rightarrow> k x r)"

lemma read_bind_simps [simp]:
  "read_bind (Inl e) k = Inl e"
  "read_bind (Inr (x, r)) k = k x r"
  by (simp_all add: read_bind_def)

lemma read_full_append [simp]: "length xs = n \<Longrightarrow> read_full n (xs @ rest) = Inr (xs, rest)"
  by (simp add: read_full_def)

lemma read_full_Cons [simp]: "read_full (Suc 0) (x # rest) = Inr ([x], rest)"
  by (simp add: read_full_def)

lemma read_full_short: "length r < n \<Longrightarrow> \<exists>e. read_full n r = Inl e"
  by (auto simp: read_full_def)

section \<open>Fixed-width integers\<close>

text \<open>\<^verbatim>\<open>binaryFreeList.Uint8/16/32/64\<close> and \<^verbatim>\<open>PutUint8/16/32/64\<close>.\<close>

definition Uint8 :: "byte reader" where
  "Uint8 r = read_bind (read_full 1 r) (\<lambda>buf rest. Inr (hd buf, rest))"

definition Uint16 :: "u16 reader" where
  "Uint16 r = read_bind (read_full 2 r) (\<lambda>buf rest. Inr (le_get buf, rest))"

definition Uint32 :: "u32 reader" where
  "Uint32 r = read_bind (read_full 4 r) (\<lambda>buf rest. Inr (le_get buf, rest))"

definition Uint64 :: "u64 reader" where
  "Uint64 r = read_bind (read_full 8 r) (\<lambda>buf rest. Inr (le_get buf, rest))"

definition PutUint8 :: "bytes \<Rightarrow> byte \<Rightarrow> bytes" where
  "PutUint8 w v = w @ [v]"

definition PutUint16 :: "bytes \<Rightarrow> u16 \<Rightarrow> bytes" where
  "PutUint16 w v = w @ le_put 2 v"

definition PutUint32 :: "bytes \<Rightarrow> u32 \<Rightarrow> bytes" where
  "PutUint32 w v = w @ le_put 4 v"

definition PutUint64 :: "bytes \<Rightarrow> u64 \<Rightarrow> bytes" where
  "PutUint64 w v = w @ le_put 8 v"

definition ReadUint8 :: "byte reader" where "ReadUint8 r = Uint8 r"
definition WriteUint8 :: "bytes \<Rightarrow> byte \<Rightarrow> bytes" where "WriteUint8 w v = PutUint8 w v"
definition ReadUint16 :: "u16 reader" where "ReadUint16 r = Uint16 r"
definition WriteUint16 :: "bytes \<Rightarrow> u16 \<Rightarrow> bytes" where "WriteUint16 w v = PutUint16 w v"
definition ReadUint32 :: "u32 reader" where "ReadUint32 r = Uint32 r"
definition WriteUint32 :: "bytes \<Rightarrow> u32 \<Rightarrow> bytes" where "WriteUint32 w v = PutUint32 w v"
definition ReadUint64 :: "u64 reader" where "ReadUint64 r = Uint64 r"
definition WriteUint64 :: "bytes \<Rightarrow> u64 \<Rightarrow> bytes" where "WriteUint64 w v = PutUint64 w v"

text \<open>
  The signed variants convert to the unsigned type of the same width before writing and
  back after reading. A signed value is an \<^typ>\<open>int\<close>; the conversions are
  \<^verbatim>\<open>uint32(v)\<close> (reduction modulo the width) and \<^verbatim>\<open>int32(v)\<close> (two's complement).
\<close>

definition ReadInt64 :: "int reader" where
  "ReadInt64 r = read_bind (Uint64 r) (\<lambda>v rest. Inr (sint v, rest))"

definition WriteInt64 :: "bytes \<Rightarrow> int \<Rightarrow> bytes" where
  "WriteInt64 w v = PutUint64 w (of_int v)"

definition ReadInt32 :: "int reader" where
  "ReadInt32 r = read_bind (Uint32 r) (\<lambda>v rest. Inr (sint v, rest))"

definition WriteInt32 :: "bytes \<Rightarrow> int \<Rightarrow> bytes" where
  "WriteInt32 w v = PutUint32 w (of_int v)"

definition ReadInt16 :: "int reader" where
  "ReadInt16 r = read_bind (Uint16 r) (\<lambda>v rest. Inr (sint v, rest))"

definition WriteInt16 :: "bytes \<Rightarrow> int \<Rightarrow> bytes" where
  "WriteInt16 w v = PutUint16 w (of_int v)"

definition ReadInt8 :: "int reader" where
  "ReadInt8 r = read_bind (Uint8 r) (\<lambda>v rest. Inr (sint v, rest))"

definition WriteInt8 :: "bytes \<Rightarrow> int \<Rightarrow> bytes" where
  "WriteInt8 w v = PutUint8 w (of_int v)"

text \<open>The slice conversions at the top of \<^verbatim>\<open>bytes.go\<close>; reading a short slice panics.\<close>

definition FromUint64 :: "u64 \<Rightarrow> bytes" where "FromUint64 v = le_put 8 v"
definition FromUint32 :: "u32 \<Rightarrow> bytes" where "FromUint32 v = le_put 4 v"
definition FromUint16 :: "u16 \<Rightarrow> bytes" where "FromUint16 v = le_put 2 v"

definition slice_u64 :: "bytes \<Rightarrow> u64 option" where
  "slice_u64 data = (if length data < 8 then None else Some (le_get (take 8 data)))"

definition slice_u32 :: "bytes \<Rightarrow> u32 option" where
  "slice_u32 data = (if length data < 4 then None else Some (le_get (take 4 data)))"

definition slice_u16 :: "bytes \<Rightarrow> u16 option" where
  "slice_u16 data = (if length data < 2 then None else Some (le_get (take 2 data)))"

section \<open>Variable-length integers\<close>

text \<open>
  \<^verbatim>\<open>binary.PutUvarint\<close>: seven bits per byte, least significant group first, the high
  bit set on every byte but the last.
\<close>

function put_uvarint :: "u64 \<Rightarrow> bytes" where
  "put_uvarint x =
     (if x < 0x80 then [ucast x] else (ucast x OR 0x80) # put_uvarint (drop_bit 7 x))"
  by pat_completeness auto

lemma drop_bit7_less: "\<not> x < 0x80 \<Longrightarrow> unat (drop_bit 7 (x :: u64)) < unat x"
proof -
  assume "\<not> x < 0x80"
  then have "128 \<le> unat x" by (simp add: word_less_nat_alt)
  moreover have "unat (drop_bit 7 x) = unat x div 128"
    by (simp add: drop_bit_eq_div unat_div)
  ultimately show ?thesis by simp
qed

termination put_uvarint
  by (relation "measure unat") (auto dest: drop_bit7_less)

declare put_uvarint.simps [simp del]

text \<open>
  \<^verbatim>\<open>binary.ReadUvarint\<close>: reads until a byte without the high bit, which must come
  within ten bytes and be at most 1 in the tenth; \<open>i\<close> counts the bytes read, \<open>x\<close>
  collects the value and \<open>s\<close> is the shift of the next group.
\<close>

fun uvarint_loop :: "nat \<Rightarrow> u64 \<Rightarrow> nat \<Rightarrow> u64 reader" where
  "uvarint_loop i x s [] = Inl EOF"
| "uvarint_loop i x s (b # r) =
     (if b < 0x80 then
        (if 9 < i \<or> i = 9 \<and> 1 < b then Inl VarintOverflow
         else Inr (x OR push_bit s (ucast b), r))
      else uvarint_loop (Suc i) (x OR push_bit s (ucast (b AND 0x7f))) (s + 7) r)"

definition ReadUvarint :: "u64 reader" where
  "ReadUvarint r = uvarint_loop 0 0 0 r"

definition WriteUvarint :: "bytes \<Rightarrow> u64 \<Rightarrow> bytes" where
  "WriteUvarint w v = w @ put_uvarint v"

text \<open>Signed variants: the sign is moved to the lowest bit.\<close>

definition ReadVarint :: "int reader" where
  "ReadVarint r = read_bind (ReadUvarint r)
     (\<lambda>ux rest. let x = drop_bit 1 ux
                in Inr (sint (if bit ux 0 then NOT x else x), rest))"

definition WriteVarint :: "bytes \<Rightarrow> int \<Rightarrow> bytes" where
  "WriteVarint w v = w @ put_uvarint
     (let ux = push_bit 1 (of_int v) in if v < 0 then NOT ux else ux)"

section \<open>Byte strings\<close>

definition ReadBytesOfLength :: "u32 \<Rightarrow> bytes reader" where
  "ReadBytesOfLength l r = read_full (unat l) r"

definition WriteBytes :: "bytes \<Rightarrow> bytes \<Rightarrow> bytes" where
  "WriteBytes w v = w @ v"

text \<open>\<^verbatim>\<open>make\<close> panics on a length beyond the address space of the Go runtime on 64-bit systems.\<close>

definition maxAlloc :: nat where "maxAlloc = 2 ^ 48"

definition ReadVarBytes :: "bytes reader" where
  "ReadVarBytes r =
     read_bind (ReadUvarint r) (\<lambda>l rest. if maxAlloc < unat l then Inl MakeslicePanic else read_full (unat l) rest)"

definition WriteVarBytes :: "bytes \<Rightarrow> bytes \<Rightarrow> bytes" where
  "WriteVarBytes w v = WriteBytes (WriteUvarint w (of_nat (length v))) v"

section \<open>Bitwise operations on byte strings\<close>

definition ANDBytes :: "bytes \<Rightarrow> bytes \<Rightarrow> bytes" where
  "ANDBytes a b = map (\<lambda>(x, y). x AND y) (zip a b)"

definition ORBytes :: "bytes \<Rightarrow> bytes \<Rightarrow> bytes" where
  "ORBytes a b = map (\<lambda>(x, y). x OR y) (zip a b)"

definition BitIndexes :: "bytes \<Rightarrow> u32 list" where
  "BitIndexes data =
     map of_nat (filter (\<lambda>i. (data ! (i div 8)) AND push_bit (7 - i mod 8) 1 \<noteq> 0)
       [0 ..< length data * 8])"

definition IsPrefixed :: "bytes \<Rightarrow> bytes \<Rightarrow> bool" where
  "IsPrefixed s p =
     (if length s < length p then False else take (length p) s = p)"

text \<open>\<^verbatim>\<open>HashBytes\<close>: the 32-bit FNV-1a hash of \<^verbatim>\<open>hash/fnv\<close>.\<close>

definition HashBytes :: "bytes \<Rightarrow> u32" where
  "HashBytes a = foldl (\<lambda>h c. (h XOR ucast c) * 16777619) 2166136261 a"

definition Less :: "bytes \<Rightarrow> bytes \<Rightarrow> bool" where
  "Less a b \<longleftrightarrow> HashBytes a < HashBytes b"

section \<open>Hexadecimal strings\<close>

definition hex_digit :: "nat \<Rightarrow> char" where
  "hex_digit n = ''0123456789abcdef'' ! n"

definition Hex :: "bytes \<Rightarrow> string" where
  "Hex data = concat (map (\<lambda>b. [hex_digit (unat b div 16), hex_digit (unat b mod 16)]) data)"

definition from_hex_digit :: "char \<Rightarrow> nat option" where
  "from_hex_digit c =
     (let n = of_char c :: nat in
      if 48 \<le> n \<and> n \<le> 57 then Some (n - 48)
      else if 97 \<le> n \<and> n \<le> 102 then Some (n - 97 + 10)
      else if 65 \<le> n \<and> n \<le> 70 then Some (n - 65 + 10) else None)"

text \<open>\<^verbatim>\<open>hex.DecodeString\<close>: an odd length or a foreign character is an error.\<close>

fun FromHex :: "string \<Rightarrow> bytes option" where
  "FromHex [] = Some []"
| "FromHex [c] = None"
| "FromHex (c # d # cs) =
     (case (from_hex_digit c, from_hex_digit d) of
        (Some h, Some l) \<Rightarrow> map_option (\<lambda>bs. of_nat (h * 16 + l) # bs) (FromHex cs)
      | _ \<Rightarrow> None)"

section \<open>What a writer/reader pair promises\<close>

locale codec =
  fixes enc :: "'a \<Rightarrow> bytes"
    and dec :: "'a reader"
    and valid :: "'a \<Rightarrow> bool"
  assumes dec_enc: "valid x \<Longrightarrow> dec (enc x @ rest) = Inr (x, rest)"
begin

lemma dec_enc_Nil: "valid x \<Longrightarrow> dec (enc x) = Inr (x, [])"
  using dec_enc [of x "[]"] by simp

lemma bind_enc: "valid x \<Longrightarrow> read_bind (dec (enc x @ rest)) k = k x rest"
  by (simp add: dec_enc)

lemma enc_prefix_free:
  assumes "valid x" and "valid y" and "enc x @ r = enc y @ s"
  shows "x = y \<and> r = s"
proof -
  have "Inr (x, r) = dec (enc x @ r)" using dec_enc [OF assms(1)] by simp
  also have "\<dots> = dec (enc y @ s)" by (simp only: assms(3))
  also have "\<dots> = Inr (y, s)" by (rule dec_enc [OF assms(2)])
  finally show ?thesis by simp
qed

end

locale fixed_codec = codec +
  fixes width :: nat
  assumes enc_width: "valid x \<Longrightarrow> length (enc x) = width"
    and dec_short: "length r < width \<Longrightarrow> \<exists>e. dec r = Inl e"
begin

lemma dec_truncated:
  assumes "valid x" and "n < width"
  shows "\<exists>e. dec (take n (enc x)) = Inl e"
  using assms by (intro dec_short) (simp add: enc_width)

end

text \<open>Two formats written one after the other are again a format.\<close>

locale codec_seq = fst: codec encA decA validA + snd: codec encB decB validB
  for encA :: "'a \<Rightarrow> bytes" and decA validA
    and encB :: "'b \<Rightarrow> bytes" and decB validB
begin

sublocale pair: codec
  "\<lambda>(a, b). encA a @ encB b"
  "\<lambda>r. read_bind (decA r) (\<lambda>a r. read_bind (decB r) (\<lambda>b r. Inr ((a, b), r)))"
  "\<lambda>(a, b). validA a \<and> validB b"
  by unfold_locales (auto simp: fst.bind_enc snd.bind_enc)

end

section \<open>Laws of the fixed-width integers\<close>

lemmas read_uint_defs = Uint8_def Uint16_def Uint32_def Uint64_def
  ReadUint8_def ReadUint16_def ReadUint32_def ReadUint64_def
  ReadInt8_def ReadInt16_def ReadInt32_def ReadInt64_def

lemmas write_uint_defs = PutUint8_def PutUint16_def PutUint32_def PutUint64_def
  WriteUint8_def WriteUint16_def WriteUint32_def WriteUint64_def
  WriteInt8_def WriteInt16_def WriteInt32_def WriteInt64_def

lemma read_bind_short:
  "length r < n \<Longrightarrow> \<exists>e. read_bind (read_full n r) k = Inl e"
  using read_full_short [of r n] by auto

interpretation u8: fixed_codec "WriteUint8 []" ReadUint8 "\<lambda>_. True" 1
  by unfold_locales (auto simp: read_uint_defs write_uint_defs intro: read_bind_short)

interpretation u16: fixed_codec "WriteUint16 []" ReadUint16 "\<lambda>_. True" 2
  by unfold_locales (auto simp: read_uint_defs write_uint_defs intro: read_bind_short)

interpretation u32: fixed_codec "WriteUint32 []" ReadUint32 "\<lambda>_. True" 4
  by unfold_locales (auto simp: read_uint_defs write_uint_defs intro: read_bind_short)

interpretation u64: fixed_codec "WriteUint64 []" ReadUint64 "\<lambda>_. True" 8
  by unfold_locales (auto simp: read_uint_defs write_uint_defs intro: read_bind_short)

definition int_range :: "nat \<Rightarrow> int \<Rightarrow> bool" where
  "int_range w v \<longleftrightarrow> - (2 ^ (w - 1)) \<le> v \<and> v < 2 ^ (w - 1)"

lemma sint_of_int_range:
  assumes "int_range LENGTH('a::len) v"
  shows "sint (of_int v :: 'a word) = v"
  using assms by (simp add: int_range_def signed_of_int signed_take_bit_int_eq_self)

interpretation i64: fixed_codec "WriteInt64 []" ReadInt64 "int_range 64" 8
  by unfold_locales
    (auto simp: read_uint_defs write_uint_defs sint_of_int_range dest: read_full_short)

interpretation i32: fixed_codec "WriteInt32 []" ReadInt32 "int_range 32" 4
  by unfold_locales
    (auto simp: read_uint_defs write_uint_defs sint_of_int_range dest: read_full_short)

section \<open>Laws of the variable-length integers\<close>

lemma bit_0x7f: "bit (0x7f :: 'a::len word) n \<longleftrightarrow> n < 7 \<and> n < LENGTH('a)"
proof -
  have "(0x7f :: 'a word) = mask 7" by (simp add: mask_eq_exp_minus_1)
  then show ?thesis by (simp only: bit_mask_iff possible_bit_word) auto
qed

lemma bit_0x80: "bit (0x80 :: 'a::len word) n \<longleftrightarrow> n = 7 \<and> n < LENGTH('a)"
proof -
  have "(0x80 :: 'a word) = 2 ^ 7" by simp
  then show ?thesis by (simp only: bit_exp_iff possible_bit_word) auto
qed

lemma ucast_byte_less:
  assumes "(x :: u64) < 0x80"
  shows "(ucast x :: byte) < 0x80" and "ucast (ucast x :: byte) = x"
proof -
  have x: "unat x < 128" using assms by (simp add: word_less_nat_alt)
  then have "unat (ucast x :: byte) = unat x" by (simp add: unsigned_ucast_eq unsigned_take_bit_eq take_bit_nat_eq_self)
  with x show "(ucast x :: byte) < 0x80" by (simp add: word_less_nat_alt)
  show "ucast (ucast x :: byte) = x"
    using x by (simp add: word_unat_eq_iff unsigned_ucast_eq unsigned_take_bit_eq take_bit_nat_eq_self)
qed

lemma high_bit_byte: "\<not> (b :: byte) OR 0x80 < 0x80"
  using le_word_or1 [of "0x80 :: byte" b] by simp

lemma low_group_aux:
  assumes "\<And>n. bit h n \<longleftrightarrow> n = 7" and "\<And>n. bit m n \<longleftrightarrow> n < 7"
  shows "ucast ((ucast x OR h :: byte) AND m) = (x :: u64) AND mask 7"
  by (rule bit_eqI) (auto simp: bit_simps assms)

lemma low_group:
  "ucast ((ucast x OR 0x80 :: byte) AND 0x7f) = (x :: u64) AND mask 7"
  by (rule low_group_aux; simp only: bit_0x7f bit_0x80; simp; linarith)

lemma group_join:
  "push_bit s ((x :: u64) AND mask 7) OR push_bit (s + 7) (drop_bit 7 x) = push_bit s x"
proof (rule bit_eqI)
  fix n
  have *: "7 + (n - (s + 7)) = n - s" if "\<not> n - s < 7" using that by simp
  show "bit (push_bit s (x AND mask 7) OR push_bit (s + 7) (drop_bit 7 x)) n = bit (push_bit s x) n"
    using * by (cases "n - s < 7") (auto simp: bit_simps)
qed

lemma uvarint_put_small:
  assumes "x < 0x80" and "i \<le> 9" and "unat x < 2 ^ (64 - 7 * i)"
  shows "uvarint_loop i acc s (put_uvarint x @ rest) = Inr (acc OR push_bit s x, rest)"
proof -
  have "\<not> (1 :: byte) < ucast x" if "i = 9"
  proof -
    have "unat x < 2" using that assms by simp
    then show ?thesis
      by (simp add: word_less_nat_alt unsigned_ucast_eq unsigned_take_bit_eq take_bit_nat_eq_self)
  qed
  then have "\<not> (9 < i \<or> i = 9 \<and> (1 :: byte) < ucast x)" using assms(2) by auto
  with assms(1) show ?thesis
    unfolding put_uvarint.simps [of x] by (simp only: if_True if_False append_Cons append_Nil uvarint_loop.simps ucast_byte_less)
qed

lemma drop_bit7_bound:
  assumes "unat (x :: u64) < 2 ^ (64 - 7 * i)" and "i \<le> 8"
  shows "unat (drop_bit 7 x) < 2 ^ (64 - 7 * Suc i)"
proof -
  have "64 - 7 * i = (64 - 7 * Suc i) + 7" using assms(2) by simp
  then have "unat x < 2 ^ (64 - 7 * Suc i) * 2 ^ 7"
    using assms(1) by (simp only: power_add)
  then have "unat x div 2 ^ 7 < 2 ^ (64 - 7 * Suc i)"
    by (rule less_mult_imp_div_less)
  moreover have "unat (drop_bit 7 x) = unat x div 2 ^ 7"
    by (simp add: drop_bit_eq_div unat_div)
  ultimately show ?thesis by (simp only:)
qed

lemma uvarint_loop_put:
  assumes "i \<le> 9" and "unat x < 2 ^ (64 - 7 * i)"
  shows "uvarint_loop i acc (7 * i) (put_uvarint x @ rest) = Inr (acc OR push_bit (7 * i) x, rest)"
  using assms
proof (induction x arbitrary: i acc rule: put_uvarint.induct)
  case (1 x)
  show ?case
  proof (cases "x < 0x80")
    case True
    with "1.prems" show ?thesis by (intro uvarint_put_small)
  next
    case False
    have big: "128 \<le> unat x" using False by (simp add: word_less_nat_alt)
    have i: "i \<le> 8"
    proof (rule ccontr)
      assume "\<not> i \<le> 8"
      with "1.prems"(1) have "i = 9" by simp
      with "1.prems"(2) big show False by simp
    qed
    have suc: "7 * i + 7 = 7 * Suc i" by simp
    have "uvarint_loop (Suc i) (acc OR push_bit (7 * i) (x AND mask 7)) (7 * Suc i)
        (put_uvarint (drop_bit 7 x) @ rest)
      = Inr ((acc OR push_bit (7 * i) (x AND mask 7)) OR push_bit (7 * Suc i) (drop_bit 7 x), rest)"
      using i by (intro "1.IH" [OF False] drop_bit7_bound "1.prems") auto
    then show ?thesis
      using False unfolding put_uvarint.simps [of x]
      by (simp only: if_False append_Cons uvarint_loop.simps high_bit_byte low_group suc)
        (simp only: or.assoc group_join flip: suc)
  qed
qed

lemma ReadUvarint_put: "ReadUvarint (put_uvarint x @ rest) = Inr (x, rest)"
  using uvarint_loop_put [of 0 x 0 rest] unsigned_less [of x, where ?'a = nat]
  by (simp add: ReadUvarint_def)

interpretation uvarint: codec "WriteUvarint []" ReadUvarint "\<lambda>_. True"
  by unfold_locales (simp add: WriteUvarint_def ReadUvarint_put)

lemma bit_shl1: "bit (push_bit 1 (w :: u64)) n \<longleftrightarrow> 0 < n \<and> n < 64 \<and> bit w (n - 1)"
  by (simp only: bit_push_bit_iff possible_bit_word) auto

lemma zigzag_neg:
  assumes "bit (w :: u64) 63"
  shows "NOT (drop_bit 1 (NOT (push_bit 1 w))) = w" and "bit (NOT (push_bit 1 w)) 0"
proof -
  show "NOT (drop_bit 1 (NOT (push_bit 1 w))) = w"
  proof (rule bit_eqI)
    fix n
    assume "possible_bit TYPE(u64) n"
    then show "bit (NOT (drop_bit 1 (NOT (push_bit 1 w)))) n = bit w n"
      using assms by (cases "n = 63"; simp only: bit_not_iff bit_drop_bit_eq comp_apply bit_shl1 possible_bit_word; auto dest: bit_imp_le_length)
  qed
qed (simp only: bit_not_iff bit_shl1 possible_bit_word, simp)

lemma zigzag_nonneg:
  assumes "\<not> bit (w :: u64) 63"
  shows "drop_bit 1 (push_bit 1 w) = w" and "\<not> bit (push_bit 1 w) 0"
proof -
  show "drop_bit 1 (push_bit 1 w) = w"
  proof (rule bit_eqI)
    fix n
    assume "possible_bit TYPE(u64) n"
    then show "bit (drop_bit 1 (push_bit 1 w)) n = bit w n"
      using assms by (cases "n = 63"; simp only: bit_not_iff bit_drop_bit_eq comp_apply bit_shl1 possible_bit_word; auto dest: bit_imp_le_length)
  qed
qed (simp only: bit_shl1, simp)

lemma sign_bit_of_int: "int_range 64 v \<Longrightarrow> bit (of_int v :: u64) 63 \<longleftrightarrow> v < 0"
  using bit_last_iff [of "of_int v :: u64"] sint_of_int_range [where 'a = 64, of v] by simp

lemma ReadVarint_put:
  assumes "int_range 64 v"
  shows "ReadVarint (WriteVarint [] v @ rest) = Inr (v, rest)"
proof (cases "v < 0")
  case True
  then have "bit (of_int v :: u64) 63" using sign_bit_of_int [OF assms] by simp
  from zigzag_neg [OF this] True sint_of_int_range [where 'a = 64] assms show ?thesis
    by (simp only: ReadVarint_def WriteVarint_def append_Nil Let_def if_True ReadUvarint_put read_bind_simps) simp
next
  case False
  then have "\<not> bit (of_int v :: u64) 63" using sign_bit_of_int [OF assms] by simp
  from zigzag_nonneg [OF this] False sint_of_int_range [where 'a = 64] assms show ?thesis
    by (simp only: ReadVarint_def WriteVarint_def append_Nil Let_def if_False ReadUvarint_put read_bind_simps) simp
qed

interpretation varint: codec "WriteVarint []" ReadVarint "int_range 64"
  by unfold_locales (rule ReadVarint_put)

interpretation var_bytes: codec "WriteVarBytes []" ReadVarBytes "\<lambda>v. length v \<le> maxAlloc"
  by unfold_locales
    (simp add: WriteVarBytes_def WriteBytes_def ReadVarBytes_def WriteUvarint_def ReadUvarint_put unat_of_nat_less maxAlloc_def)

section \<open>Laws of byte strings and hexadecimal strings\<close>

lemma length_ANDBytes [simp]: "length (ANDBytes a b) = min (length a) (length b)"
  by (simp add: ANDBytes_def)

lemma length_ORBytes [simp]: "length (ORBytes a b) = min (length a) (length b)"
  by (simp add: ORBytes_def)

lemma nth_ORBytes: "i < length a \<Longrightarrow> i < length b \<Longrightarrow> ORBytes a b ! i = a ! i OR b ! i"
  by (simp add: ORBytes_def)

lemma and_single_bit: "(b :: byte) AND 2 ^ k = 0 \<longleftrightarrow> \<not> bit b k"
  by (simp add: and_exp_eq_0_iff_not_bit)

lemma BitIndexes_iff:
  assumes "length data < 2 ^ 29"
  shows "j \<in> set (BitIndexes data) \<longleftrightarrow>
    unat j < length data * 8 \<and> bit (data ! (unat j div 8)) (7 - unat j mod 8)"
proof -
  have un: "unat (of_nat i :: u32) = i" if "i < length data * 8" for i
    using that assms by (intro unat_of_nat_less) simp
  have "j \<in> set (BitIndexes data) \<longleftrightarrow>
    (\<exists>i < length data * 8. bit (data ! (i div 8)) (7 - i mod 8) \<and> j = of_nat i)"
    by (auto simp: BitIndexes_def and_single_bit)
  also have "\<dots> \<longleftrightarrow> unat j < length data * 8 \<and> bit (data ! (unat j div 8)) (7 - unat j mod 8)"
    using un by (auto intro: exI [of _ "unat j"])
  finally show ?thesis .
qed

lemma IsPrefixed_iff: "IsPrefixed s p \<longleftrightarrow> (\<exists>t. s = p @ t)"
  by (auto simp: IsPrefixed_def) (metis append_take_drop_id)

lemma less_16_cases:
  "(n :: nat) < 16 \<Longrightarrow> n \<in> {0, 1, 2, 3, 4, 5, 6, 7, 8, 9, 10, 11, 12, 13, 14, 15}"
  by (simp add: numeral_eq_Suc less_Suc_eq)

lemma from_hex_digit_hex_digit: "n < 16 \<Longrightarrow> from_hex_digit (hex_digit n) = Some n"
  by (drule less_16_cases) (auto simp: from_hex_digit_def hex_digit_def Let_def)

lemma FromHex_Hex: "FromHex (Hex data) = Some data"
proof (induction data)
  case (Cons b bs)
  have "unat b div 16 < 16" using unat_byte_less [of b] by linarith
  with Cons show ?case
    by (simp add: Hex_def from_hex_digit_hex_digit mult.commute [of _ 16])
qed (simp add: Hex_def)

lemma length_Hex: "length (Hex data) = 2 * length data"
  by (induction data) (simp_all add: Hex_def)

end
