(* ===== verification/Chain_Types.thy ===== *)
theory Chain_Types
  imports Byte_Codec
begin

text \<open>
  The data types of the chain: hashes (\<^verbatim>\<open>src/crypto/hash.go\<close>), address hashes
  (\<^verbatim>\<open>src/core/types/address.go\<close>), transactions with their conversion to and from
  protobuf messages (\<^verbatim>\<open>src/core/types/transaction.go\<close>) and unspent outputs
  (\<^verbatim>\<open>src/core/types/utxo.go\<close>).

  A Go array \<^verbatim>\<open>[32]byte\<close> or \<^verbatim>\<open>[20]byte\<close> is a byte list of that length
  (\<open>hash_wf\<close>, \<open>addr_wf\<close>). Pointers that the code tests for nil are options.
  The hash functions, the signature scheme and the protobuf encoding come from packages
  outside the repository: they are the fields of the parameter record \<open>crypto_ops\<close>.
\<close>

section \<open>Hashes\<close>

definition HashSize :: nat where "HashSize = 32"

definition Ripemd160Size :: nat where "Ripemd160Size = 20"

definition hash_wf :: "bytes \<Rightarrow> bool" where "hash_wf h \<longleftrightarrow> length h = HashSize"

definition addr_wf :: "bytes \<Rightarrow> bool" where "addr_wf a \<longleftrightarrow> length a = Ripemd160Size"

definition ZeroHash :: bytes where "ZeroHash = replicate HashSize 0"

definition ZeroAddressHash :: bytes where "ZeroAddressHash = replicate Ripemd160Size 0"

text \<open>Go's \<^verbatim>\<open>copy(dst[off:], src)\<close>: as many bytes as both sides have.\<close>

definition copy_at :: "bytes \<Rightarrow> nat \<Rightarrow> bytes \<Rightarrow> bytes" where
  "copy_at dst off src =
     (let n = min (length dst - off) (length src)
      in take off dst @ take n src @ drop (off + n) dst)"

text \<open>\<^verbatim>\<open>SetBytes\<close> of a hash and of an address hash keeps the last bytes of a long
  argument and leaves the front of the receiver alone for a short one.\<close>

definition hash_SetBytes :: "bytes \<Rightarrow> bytes \<Rightarrow> bytes" where
  "hash_SetBytes h b =
     (let b' = (if HashSize < length b then drop (length b - HashSize) b else b)
      in copy_at h (HashSize - length b') b')"

definition addr_SetBytes :: "bytes \<Rightarrow> bytes \<Rightarrow> bytes" where
  "addr_SetBytes a b =
     (let b' = (if Ripemd160Size < length b then drop (length b - Ripemd160Size) b else b)
      in copy_at a (Ripemd160Size - length b') b')"

definition BytesToHash :: "bytes \<Rightarrow> bytes" where
  "BytesToHash b = hash_SetBytes ZeroHash b"

definition BytesToAddressHash :: "bytes \<Rightarrow> bytes" where
  "BytesToAddressHash b = addr_SetBytes ZeroAddressHash b"

text \<open>A hash prints as the hexadecimal form of its reversed bytes.\<close>

definition hash_String :: "bytes \<Rightarrow> string" where
  "hash_String h = Hex (rev h)"

definition hash_SetString :: "bytes \<Rightarrow> string \<Rightarrow> bytes option" where
  "hash_SetString h str =
     (case FromHex str of
        None \<Rightarrow> None
      | Some buf \<Rightarrow> if length buf \<noteq> HashSize then None else Some (hash_SetBytes h (rev buf)))"

definition NormalizeAddressHash :: "bytes option \<Rightarrow> bytes" where
  "NormalizeAddressHash addrHash =
     (case addrHash of
        None \<Rightarrow> ZeroHash
      | Some a \<Rightarrow> if a = ZeroAddressHash then ZeroHash else copy_at ZeroHash 12 a)"

section \<open>Transactions\<close>

record OutPoint =
  Hash :: bytes
  Index :: u32

record TxIn =
  PrevOutPoint :: OutPoint
  ScriptSig :: bytes
  Sequence :: u32

record TxOut =
  Value :: u64
  ScriptPubKey :: bytes

record TxData =
  DataTyp :: int
  Content :: bytes

text \<open>
  \<open>cached_hash\<close> is the unexported field \<^verbatim>\<open>hash\<close>: nil until the hash has been
  computed or the transaction has been read from a message.
\<close>

record Transaction =
  cached_hash :: "bytes option"
  TxTyp :: int
  Version :: int
  Vin :: "TxIn list"
  Vout :: "TxOut list"
  Data :: "TxData option"
  Magic :: u32
  LockTime :: int

definition UnknownTx :: int where "UnknownTx = 0"
definition PayToPubkTx :: int where "PayToPubkTx = 1"
definition ContractTx :: int where "ContractTx = 2"
definition TokenIssueTx :: int where "TokenIssueTx = 4"
definition TokenTransferTx :: int where "TokenTransferTx = 5"
definition SplitTx :: int where "SplitTx = 8"
definition ErrorTx :: int where "ErrorTx = 0xffffffff"

definition MaxUint32 :: u32 where "MaxUint32 = 0xffffffff"

definition NewOutPoint :: "bytes option \<Rightarrow> u32 \<Rightarrow> OutPoint" where
  "NewOutPoint hash index =
     (case hash of
        None \<Rightarrow> \<lparr>Hash = ZeroHash, Index = index\<rparr>
      | Some h \<Rightarrow> \<lparr>Hash = h, Index = index\<rparr>)"

definition NewNullOutPoint :: OutPoint where
  "NewNullOutPoint = \<lparr>Hash = ZeroHash, Index = MaxUint32\<rparr>"

definition NewTx :: "int \<Rightarrow> u32 \<Rightarrow> int \<Rightarrow> Transaction" where
  "NewTx ver magic lockTime =
     \<lparr>cached_hash = None, TxTyp = UnknownTx, Version = ver, Vin = [], Vout = [], Data = None,
      Magic = magic, LockTime = lockTime\<rparr>"

definition NewTxOut :: "u64 \<Rightarrow> bytes \<Rightarrow> TxOut" where
  "NewTxOut value scriptPubKey = \<lparr>Value = value, ScriptPubKey = scriptPubKey\<rparr>"

definition NewTxIn :: "OutPoint \<Rightarrow> bytes \<Rightarrow> u32 \<Rightarrow> TxIn" where
  "NewTxIn prevOutPoint scriptSig seq =
     \<lparr>PrevOutPoint = prevOutPoint, ScriptSig = scriptSig, Sequence = seq\<rparr>"

definition AppendVin :: "Transaction \<Rightarrow> TxIn list \<Rightarrow> Transaction" where
  "AppendVin tx ins = tx\<lparr>Vin := Vin tx @ ins\<rparr>"

definition AppendVout :: "Transaction \<Rightarrow> TxOut list \<Rightarrow> Transaction" where
  "AppendVout tx outs = tx\<lparr>Vout := Vout tx @ outs\<rparr>"

definition WithData :: "Transaction \<Rightarrow> int \<Rightarrow> bytes \<Rightarrow> Transaction" where
  "WithData tx typ code = tx\<lparr>Data := Some \<lparr>DataTyp = typ, Content = code\<rparr>\<rparr>"

text \<open>
  The second test compares the 20 last bytes of the hash with the 8 last bytes of
  \<^verbatim>\<open>ZeroAddressHash\<close>, as the source does.
\<close>

definition IsContractType :: "OutPoint \<Rightarrow> bool" where
  "IsContractType op =
     (if Index op \<noteq> 0 then False
      else if take 12 (Hash op) \<noteq> take 12 ZeroAddressHash
            \<or> drop 12 (Hash op) = drop 12 ZeroAddressHash then False
      else True)"

text \<open>\<^verbatim>\<open>Copy\<close> leaves the cached hash out.\<close>

definition tx_Copy :: "Transaction \<Rightarrow> Transaction" where
  "tx_Copy tx =
     \<lparr>cached_hash = None, TxTyp = TxTyp tx, Version = Version tx,
      Vin = map (\<lambda>i. \<lparr>PrevOutPoint = PrevOutPoint i, ScriptSig = ScriptSig i,
                       Sequence = Sequence i\<rparr>) (Vin tx),
      Vout = map (\<lambda>out. \<lparr>Value = Value out, ScriptPubKey = ScriptPubKey out\<rparr>) (Vout tx),
      Data = Data tx, Magic = Magic tx, LockTime = LockTime tx\<rparr>"

definition FixedGasPrice :: u64 where "FixedGasPrice = 50"
definition TransferGasLimit :: u64 where "TransferGasLimit = 21000"
definition TransferFee :: u64 where "TransferFee = FixedGasPrice * TransferGasLimit"
definition InOutNumPerExtraFee :: nat where "InOutNumPerExtraFee = 16"

definition ExtraFee :: "Transaction \<Rightarrow> u64" where
  "ExtraFee tx =
     of_nat ((length (Vin tx) + length (Vout tx)) div InOutNumPerExtraFee) * TransferFee"

definition RoughSize :: "Transaction \<Rightarrow> nat" where
  "RoughSize tx =
     16 + (\<Sum>i\<leftarrow>Vin tx. HashSize + 4 + 4 + length (ScriptSig i))
        + (\<Sum>out\<leftarrow>Vout tx. 8 + length (ScriptPubKey out))
        + (case Data tx of None \<Rightarrow> 0 | Some d \<Rightarrow> 4 + length (Content d))"

definition OutputAmount :: "Transaction \<Rightarrow> u64" where
  "OutputAmount tx = foldl (\<lambda>total out. total + Value out) 0 (Vout tx)"

section \<open>Parameters: hashing, signatures, protobuf encoding\<close>

text \<open>
  \<open>sha256\<close> and \<open>ripemd160\<close> are the digests of the Go library; \<open>parse_sig\<close>,
  \<open>parse_pubkey\<close> and \<open>sig_verify\<close> are \<^verbatim>\<open>ParseDERSignature\<close>, \<^verbatim>\<open>ParsePubKey\<close> and
  \<^verbatim>\<open>Signature.Verify\<close> of \<^verbatim>\<open>btcec\<close>; \<open>marshal_tx\<close> is \<^verbatim>\<open>proto.Marshal\<close> of the
  transaction's message.
\<close>

record ('sig, 'pk) crypto_ops =
  sha256 :: "bytes \<Rightarrow> bytes"
  ripemd160 :: "bytes \<Rightarrow> bytes"
  parse_sig :: "bytes \<Rightarrow> 'sig option"
  parse_pubkey :: "bytes \<Rightarrow> 'pk option"
  sig_verify :: "'sig \<Rightarrow> bytes \<Rightarrow> 'pk \<Rightarrow> bool"
  marshal_tx :: "Transaction \<Rightarrow> bytes option"

definition Hash160 :: "('sig, 'pk) crypto_ops \<Rightarrow> bytes \<Rightarrow> bytes" where
  "Hash160 c b = ripemd160 c (sha256 c b)"

definition DoubleHashH :: "('sig, 'pk) crypto_ops \<Rightarrow> bytes \<Rightarrow> bytes" where
  "DoubleHashH c b = (let first = sha256 c b in sha256 c first)"

definition CalcTxHash :: "('sig, 'pk) crypto_ops \<Rightarrow> Transaction \<Rightarrow> bytes option" where
  "CalcTxHash c tx = (case marshal_tx c tx of None \<Rightarrow> None | Some data \<Rightarrow> Some (DoubleHashH c data))"

text \<open>\<^verbatim>\<open>TxHash\<close> also stores what it computed; the returned transaction has it.\<close>

definition TxHash :: "('sig, 'pk) crypto_ops \<Rightarrow> Transaction \<Rightarrow> bytes option \<times> Transaction" where
  "TxHash c tx =
     (case cached_hash tx of
        Some h \<Rightarrow> (Some h, tx)
      | None \<Rightarrow> (case CalcTxHash c tx of
                    None \<Rightarrow> (None, tx)
                  | Some h \<Rightarrow> (Some h, tx\<lparr>cached_hash := Some h\<rparr>)))"

definition ResetTxHash :: "Transaction \<Rightarrow> Transaction" where
  "ResetTxHash tx = tx\<lparr>cached_hash := None\<rparr>"

section \<open>Protobuf messages\<close>

record PbOutPoint =
  pb_Hash :: bytes
  pb_Index :: u32

record PbTxIn =
  pb_PrevOutPoint :: "PbOutPoint option"
  pb_ScriptSig :: bytes
  pb_Sequence :: u32

record PbTransaction =
  pb_Version :: int
  pb_Vin :: "PbTxIn option list"
  pb_Vout :: "TxOut list"
  pb_Data :: "TxData option"
  pb_Magic :: u32
  pb_LockTime :: int

text \<open>A \<^verbatim>\<open>proto.Message\<close> is an interface value: a typed pointer, which may be nil.\<close>

datatype proto_message =
  MsgOutPoint "PbOutPoint option"
| MsgTxIn "PbTxIn option"
| MsgTransaction "PbTransaction option"

datatype conv_error =
  ErrSerializeOutPoint
| ErrEmptyProtoMessage
| ErrInvalidOutPointProtoMessage
| ErrInvalidTxInProtoMessage
| ErrInvalidTxProtoMessage

definition OutPoint_ToProtoMessage :: "OutPoint \<Rightarrow> proto_message" where
  "OutPoint_ToProtoMessage op = MsgOutPoint (Some \<lparr>pb_Hash = Hash op, pb_Index = Index op\<rparr>)"

fun OutPoint_FromProtoMessage :: "OutPoint \<Rightarrow> proto_message \<Rightarrow> conv_error + OutPoint" where
  "OutPoint_FromProtoMessage op (MsgOutPoint (Some m)) =
     Inr (op\<lparr>Hash := copy_at (Hash op) 0 (pb_Hash m), Index := pb_Index m\<rparr>)"
| "OutPoint_FromProtoMessage op (MsgOutPoint None) = Inl ErrEmptyProtoMessage"
| "OutPoint_FromProtoMessage op _ = Inl ErrInvalidOutPointProtoMessage"

definition zero_OutPoint :: OutPoint where
  "zero_OutPoint = \<lparr>Hash = ZeroHash, Index = 0\<rparr>"

definition TxIn_ToProtoMessage :: "TxIn \<Rightarrow> conv_error + proto_message" where
  "TxIn_ToProtoMessage i =
     (case OutPoint_ToProtoMessage (PrevOutPoint i) of
        MsgOutPoint p \<Rightarrow>
          Inr (MsgTxIn (Some \<lparr>pb_PrevOutPoint = p, pb_ScriptSig = ScriptSig i,
                               pb_Sequence = Sequence i\<rparr>))
      | _ \<Rightarrow> Inl ErrSerializeOutPoint)"

fun TxIn_FromProtoMessage :: "proto_message \<Rightarrow> conv_error + TxIn" where
  "TxIn_FromProtoMessage (MsgTxIn (Some m)) =
     (case OutPoint_FromProtoMessage zero_OutPoint (MsgOutPoint (pb_PrevOutPoint m)) of
        Inl e \<Rightarrow> Inl e
      | Inr outPoint \<Rightarrow>
          Inr \<lparr>PrevOutPoint = outPoint, ScriptSig = pb_ScriptSig m, Sequence = pb_Sequence m\<rparr>)"
| "TxIn_FromProtoMessage (MsgTxIn None) = Inl ErrEmptyProtoMessage"
| "TxIn_FromProtoMessage _ = Inl ErrInvalidTxInProtoMessage"

fun vins_to_proto :: "TxIn list \<Rightarrow> conv_error + PbTxIn option list" where
  "vins_to_proto [] = Inr []"
| "vins_to_proto (v # vs) =
     (case TxIn_ToProtoMessage v of
        Inl e \<Rightarrow> Inl e
      | Inr m \<Rightarrow>
          (case vins_to_proto vs of
             Inl e \<Rightarrow> Inl e
           | Inr ms \<Rightarrow> (case m of MsgTxIn p \<Rightarrow> Inr (p # ms) | _ \<Rightarrow> Inr ms)))"

definition Tx_ToProtoMessage :: "Transaction \<Rightarrow> conv_error + proto_message" where
  "Tx_ToProtoMessage tx =
     (case vins_to_proto (Vin tx) of
        Inl e \<Rightarrow> Inl e
      | Inr vins \<Rightarrow>
          Inr (MsgTransaction (Some
            \<lparr>pb_Version = Version tx, pb_Vin = vins, pb_Vout = Vout tx, pb_Data = Data tx,
             pb_Magic = Magic tx, pb_LockTime = LockTime tx\<rparr>)))"

fun vins_from_proto :: "PbTxIn option list \<Rightarrow> conv_error + TxIn list" where
  "vins_from_proto [] = Inr []"
| "vins_from_proto (m # ms) =
     (case TxIn_FromProtoMessage (MsgTxIn m) of
        Inl e \<Rightarrow> Inl e
      | Inr v \<Rightarrow> (case vins_from_proto ms of Inl e \<Rightarrow> Inl e | Inr vs \<Rightarrow> Inr (v # vs)))"

text \<open>
  \<open>msg_hash\<close> stands for \<^verbatim>\<open>calcProtoMsgDoubleHash\<close> of the message, whose error is
  dropped (nil hash); the receiver \<open>tx\<close> keeps its type tag.
\<close>

fun Tx_FromProtoMessage ::
  "(PbTransaction \<Rightarrow> bytes option) \<Rightarrow> Transaction \<Rightarrow> proto_message \<Rightarrow> conv_error + Transaction"
where
  "Tx_FromProtoMessage msg_hash tx (MsgTransaction (Some m)) =
     (case vins_from_proto (pb_Vin m) of
        Inl e \<Rightarrow> Inl e
      | Inr vins \<Rightarrow>
          Inr (tx\<lparr>cached_hash := msg_hash m, Version := pb_Version m, Vin := vins,
                  Vout := pb_Vout m, Data := pb_Data m, Magic := pb_Magic m,
                  LockTime := pb_LockTime m\<rparr>))"
| "Tx_FromProtoMessage msg_hash tx (MsgTransaction None) = Inl ErrEmptyProtoMessage"
| "Tx_FromProtoMessage msg_hash tx _ = Inl ErrInvalidTxProtoMessage"

section \<open>Unspent outputs\<close>

text \<open>The flag bits \<^verbatim>\<open>spent\<close> and \<^verbatim>\<open>modified\<close> of \<^verbatim>\<open>utxoFlags\<close>.\<close>

definition spent :: byte where "spent = 1"
definition modified :: byte where "modified = 2"

record UtxoWrap =
  utxo_value :: u64
  utxo_script :: bytes
  utxo_height :: u32
  utxo_flags :: byte

definition NewUtxoWrap :: "u64 \<Rightarrow> bytes \<Rightarrow> u32 \<Rightarrow> UtxoWrap" where
  "NewUtxoWrap v s h = \<lparr>utxo_value = v, utxo_script = s, utxo_height = h, utxo_flags = modified\<rparr>"

text \<open>\<^verbatim>\<open>&types.UtxoWrap{}\<close>\<close>

definition empty_UtxoWrap :: UtxoWrap where
  "empty_UtxoWrap = \<lparr>utxo_value = 0, utxo_script = [], utxo_height = 0, utxo_flags = 0\<rparr>"

definition IsModified :: "UtxoWrap \<Rightarrow> bool" where
  "IsModified u \<longleftrightarrow> utxo_flags u AND modified = modified"

definition Modified :: "UtxoWrap \<Rightarrow> UtxoWrap" where
  "Modified u = u\<lparr>utxo_flags := utxo_flags u OR modified\<rparr>"

definition IsSpent :: "UtxoWrap \<Rightarrow> bool" where
  "IsSpent u \<longleftrightarrow> utxo_flags u AND spent = spent"

definition Spend :: "UtxoWrap \<Rightarrow> UtxoWrap" where
  "Spend u = (if IsSpent u then u else u\<lparr>utxo_flags := utxo_flags u OR (spent OR modified)\<rparr>)"

definition UnSpend :: "UtxoWrap \<Rightarrow> UtxoWrap" where
  "UnSpend u = u\<lparr>utxo_flags := modified\<rparr>"

definition SetValue :: "u64 \<Rightarrow> UtxoWrap \<Rightarrow> UtxoWrap" where
  "SetValue v u = Modified (u\<lparr>utxo_value := v\<rparr>)"

definition AddValue :: "u64 \<Rightarrow> UtxoWrap \<Rightarrow> UtxoWrap" where
  "AddValue v u = Modified (u\<lparr>utxo_value := utxo_value u + v\<rparr>)"

definition SetScript :: "bytes \<Rightarrow> UtxoWrap \<Rightarrow> UtxoWrap" where
  "SetScript s u = u\<lparr>utxo_script := s\<rparr>"

section \<open>Laws\<close>

subsection \<open>Hashes and addresses\<close>

lemmas size_defs = HashSize_def Ripemd160Size_def hash_wf_def addr_wf_def ZeroHash_def ZeroAddressHash_def

lemma hash_wf_ZeroHash [simp]: "hash_wf ZeroHash"
  by (simp add: size_defs)

lemma length_copy_at [simp]: "off \<le> length dst \<Longrightarrow> length (copy_at dst off src) = length dst"
  by (simp add: copy_at_def Let_def)

lemma copy_at_full [simp]: "length dst = length src \<Longrightarrow> copy_at dst 0 src = src"
  by (simp add: copy_at_def)

lemma copy_at_tail: "off + length src = length dst \<Longrightarrow> copy_at dst off src = take off dst @ src"
  by (simp add: copy_at_def)

lemma hash_SetBytes_full: "hash_wf h \<Longrightarrow> hash_wf b \<Longrightarrow> hash_SetBytes h b = b"
  by (simp add: hash_SetBytes_def size_defs)

lemma hash_SetBytes_wf: "hash_wf h \<Longrightarrow> hash_wf (hash_SetBytes h b)"
  by (simp add: hash_SetBytes_def size_defs Let_def)

lemma hash_string_roundtrip:
  assumes "hash_wf h" and "hash_wf r"
  shows "hash_SetString r (hash_String h) = Some h"
  using assms by (simp add: hash_SetString_def hash_String_def FromHex_Hex hash_SetBytes_full hash_wf_def)

lemma normalize_wf: "addr_wf a \<Longrightarrow> hash_wf (NormalizeAddressHash (Some a))"
  by (simp add: NormalizeAddressHash_def size_defs)

lemma normalize_nonzero:
  assumes "addr_wf a" and "a \<noteq> ZeroAddressHash"
  shows "NormalizeAddressHash (Some a) = replicate 12 0 @ a"
  using assms by (simp add: NormalizeAddressHash_def copy_at_tail size_defs numeral_eq_Suc)

lemma replicate_32: "replicate 32 x = replicate 12 x @ replicate 20 x"
  by (simp flip: replicate_add)

lemma normalize_append: "addr_wf a \<Longrightarrow> NormalizeAddressHash (Some a) = replicate 12 0 @ a"
proof (cases "a = ZeroAddressHash")
  case True
  then show ?thesis
    by (simp add: NormalizeAddressHash_def ZeroHash_def HashSize_def replicate_32
        ZeroAddressHash_def Ripemd160Size_def)
qed (simp add: normalize_nonzero)

lemma normalize_roundtrip:
  assumes "addr_wf a"
  shows "BytesToAddressHash (NormalizeAddressHash (Some a)) = a"
  using assms
  by (simp add: normalize_append BytesToAddressHash_def addr_SetBytes_def Let_def)
    (simp add: size_defs)

lemma normalize_inj:
  "addr_wf a \<Longrightarrow> addr_wf b \<Longrightarrow> NormalizeAddressHash (Some a) = NormalizeAddressHash (Some b) \<Longrightarrow> a = b"
  by (simp add: normalize_append)

text \<open>
  For a 32-byte hash the comparison with the 8 last bytes of the zero address can never
  succeed, so the test only looks at the index and the 12 leading bytes; the all-zero
  outpoint counts as a contract outpoint.
\<close>

lemma IsContractType_iff:
  assumes "hash_wf (Hash op)"
  shows "IsContractType op \<longleftrightarrow> Index op = 0 \<and> take 12 (Hash op) = replicate 12 0"
proof -
  have "length (drop 12 (Hash op)) \<noteq> length (drop 12 ZeroAddressHash)"
    using assms by (simp add: size_defs)
  then have "drop 12 (Hash op) \<noteq> drop 12 ZeroAddressHash" by metis
  then show ?thesis by (simp add: IsContractType_def size_defs)
qed

lemma IsContractType_normalized:
  "addr_wf a \<Longrightarrow> IsContractType (NewOutPoint (Some (NormalizeAddressHash (Some a))) 0)"
  by (subst IsContractType_iff) (simp_all add: NewOutPoint_def normalize_append size_defs)

subsection \<open>Protobuf conversion\<close>

lemma OutPoint_proto_roundtrip:
  assumes "hash_wf (Hash op)" and "hash_wf (Hash op0)"
  shows "OutPoint_FromProtoMessage op0 (OutPoint_ToProtoMessage op) = Inr op"
  using assms by (simp add: OutPoint_ToProtoMessage_def hash_wf_def)

lemma TxIn_proto_roundtrip:
  assumes "hash_wf (Hash (PrevOutPoint i))"
  shows "\<exists>m. TxIn_ToProtoMessage i = Inr (MsgTxIn (Some m))
    \<and> TxIn_FromProtoMessage (MsgTxIn (Some m)) = Inr i"
  using assms
  by (simp add: TxIn_ToProtoMessage_def OutPoint_ToProtoMessage_def zero_OutPoint_def hash_wf_def size_defs)

definition tx_wf :: "Transaction \<Rightarrow> bool" where
  "tx_wf tx \<longleftrightarrow> (\<forall>i\<in>set (Vin tx). hash_wf (Hash (PrevOutPoint i)))"

lemma vins_proto_roundtrip:
  assumes "\<forall>i\<in>set vs. hash_wf (Hash (PrevOutPoint i))"
  shows "\<exists>ms. vins_to_proto vs = Inr ms \<and> vins_from_proto ms = Inr vs"
  using assms
proof (induction vs)
  case (Cons v vs)
  from Cons obtain ms where "vins_to_proto vs = Inr ms" "vins_from_proto ms = Inr vs" by auto
  moreover from Cons.prems TxIn_proto_roundtrip [of v] obtain m
    where "TxIn_ToProtoMessage v = Inr (MsgTxIn (Some m))"
      "TxIn_FromProtoMessage (MsgTxIn (Some m)) = Inr v" by auto
  ultimately show ?case by (simp del: TxIn_FromProtoMessage.simps)
qed simp

text \<open>
  Reading back the message of a transaction into a fresh transaction gives all fields but
  the type tag, which is not part of the message, and fills in the cached hash.
\<close>

lemma tx_proto_roundtrip:
  assumes "tx_wf tx"
  shows "\<exists>m. Tx_ToProtoMessage tx = Inr (MsgTransaction (Some m))
    \<and> Tx_FromProtoMessage msg_hash (NewTx v mg lt) (MsgTransaction (Some m))
        = Inr (tx\<lparr>cached_hash := msg_hash m, TxTyp := UnknownTx\<rparr>)"
proof -
  from assms vins_proto_roundtrip [of "Vin tx"] obtain ms
    where "vins_to_proto (Vin tx) = Inr ms" "vins_from_proto ms = Inr (Vin tx)"
    by (auto simp: tx_wf_def)
  then show ?thesis by (simp add: Tx_ToProtoMessage_def NewTx_def)
qed

lemma map_TxIn_id: "map (\<lambda>i. \<lparr>PrevOutPoint = PrevOutPoint i, ScriptSig = ScriptSig i,
    Sequence = Sequence i\<rparr>) vs = vs"
  by (rule map_idI) simp

lemma map_TxOut_id: "map (\<lambda>out. \<lparr>Value = Value out, ScriptPubKey = ScriptPubKey out\<rparr>) vs = vs"
  by (rule map_idI) simp

lemma tx_Copy_fields: "tx_Copy tx = tx\<lparr>cached_hash := None\<rparr>"
  by (cases tx) (simp add: tx_Copy_def map_TxIn_id map_TxOut_id)

lemma TxHash_cached: "TxHash c tx = (Some h, tx') \<Longrightarrow> TxHash c tx' = (Some h, tx')"
  by (auto simp: TxHash_def split: option.splits)

subsection \<open>Flags of unspent outputs\<close>

lemma flag_bits:
  "(b :: byte) AND 1 = 1 \<longleftrightarrow> bit b 0" "b AND 2 = 2 \<longleftrightarrow> bit b 1"
proof -
  have "(b AND 2 ^ k = 2 ^ k) \<longleftrightarrow> bit b k" if "k < 8" for k
  proof
    assume "b AND 2 ^ k = 2 ^ k"
    then have "bit (b AND 2 ^ k) k" using that by (simp add: bit_exp_iff)
    then show "bit b k" by (simp add: bit_and_iff)
  next
    assume "bit b k"
    then show "b AND 2 ^ k = 2 ^ k"
      by (intro bit_eqI) (auto simp: bit_and_iff bit_exp_iff)
  qed
  from this [of 0] this [of 1] show "b AND 1 = 1 \<longleftrightarrow> bit b 0" "b AND 2 = 2 \<longleftrightarrow> bit b 1"
    by simp_all
qed

lemma IsSpent_bit: "IsSpent u \<longleftrightarrow> bit (utxo_flags u) 0"
  by (simp add: IsSpent_def spent_def flag_bits)

lemma IsModified_bit: "IsModified u \<longleftrightarrow> bit (utxo_flags u) 1"
  by (simp add: IsModified_def modified_def flag_bits)

lemma bit_flags:
  "bit spent 0" "\<not> bit spent 1" "bit modified 1" "\<not> bit modified 0"
  by (simp_all add: spent_def modified_def)

lemmas utxo_defs = NewUtxoWrap_def empty_UtxoWrap_def Modified_def Spend_def UnSpend_def
  SetValue_def AddValue_def SetScript_def

lemma utxo_spent_simps [simp]:
  "IsSpent (Spend u)"
  "\<not> IsSpent (UnSpend u)"
  "\<not> IsSpent (NewUtxoWrap v s h)"
  "\<not> IsSpent empty_UtxoWrap"
  "IsSpent (SetValue v u) = IsSpent u"
  "IsSpent (AddValue v u) = IsSpent u"
  by (simp_all add: utxo_defs IsSpent_bit bit_flags bit_or_iff)

lemma utxo_modified_simps [simp]:
  "IsModified (UnSpend u)"
  "IsModified (NewUtxoWrap v s h)"
  "IsModified (SetValue v u)"
  "IsModified (AddValue v u)"
  "\<not> IsSpent u \<Longrightarrow> IsModified (Spend u)"
  by (simp_all add: utxo_defs IsModified_bit bit_flags [simplified] bit_or_iff)

lemma utxo_field_simps [simp]:
  "utxo_value (Spend u) = utxo_value u" "utxo_script (Spend u) = utxo_script u"
  "utxo_height (Spend u) = utxo_height u"
  "utxo_value (UnSpend u) = utxo_value u" "utxo_script (UnSpend u) = utxo_script u"
  "utxo_height (UnSpend u) = utxo_height u"
  "utxo_value (SetValue v u) = v" "utxo_value (AddValue v u) = utxo_value u + v"
  "utxo_script (AddValue v u) = utxo_script u" "utxo_script (SetValue v u) = utxo_script u"
  "utxo_value (NewUtxoWrap v s h) = v" "utxo_script (NewUtxoWrap v s h) = s"
  "utxo_height (NewUtxoWrap v s h) = h"
  by (simp_all add: utxo_defs)

lemma Spend_idem [simp]: "Spend (Spend u) = Spend u"
  by (subst Spend_def) simp

lemma UnSpend_Spend_NewUtxoWrap: "UnSpend (Spend (NewUtxoWrap v s h)) = NewUtxoWrap v s h"
  by (simp add: utxo_defs IsSpent_bit bit_flags)

end
