(* ===== verification/Script_Base.thy ===== *)
theory Script_Base
  imports Opcode Chain_Types
begin

text \<open>
  Building and parsing scripts, \<^verbatim>\<open>src/script/script.go\<close> (the builder methods,
  \<^verbatim>\<open>parseNextOp\<close>, \<^verbatim>\<open>getNthOp\<close>, \<^verbatim>\<open>parse\<close>, \<^verbatim>\<open>Disasm\<close>) with the errors of
  \<^verbatim>\<open>src/script/error.go\<close>. A script is a byte string. A Go function that returns
  several values next to an error keeps all of them here, because callers such as
  \<^verbatim>\<open>Validate\<close> use them without looking at the error.

  The abstract view of a script is a list of items, pushes and operations; \<open>assemble\<close>
  writes it as bytes and the central lemma is that \<^verbatim>\<open>parse\<close> recovers the items.
\<close>

section \<open>Errors\<close>

datatype script_error =
  ErrScriptBound
| ErrNoEnoughDataOPPUSHDATA1
| ErrNoEnoughDataOPPUSHDATA2
| ErrNoEnoughDataOPPUSHDATA4
| ErrInvalidStackOperation
| ErrBadOpcode
| ErrScriptEqualVerify
| ErrScriptSignatureVerifyFail
| ErrInputIndexOutOfBound
| ErrAddressNotApplicable
| ErrOpReturn
| ErrInvalidSplitAddrScript
| ErrScriptLockTimeVerifyFail
| ErrInvalidContractScript
| ErrInvalidContractParams
| ErrInvalidPKHash
| ErrFinalStackEmpty
| ErrFinalTopStackEleFalse
| ErrCountNegative
| ErrOther string
| Panic

section \<open>Building\<close>

definition AddOpCode :: "bytes \<Rightarrow> OpCode \<Rightarrow> bytes" where
  "AddOpCode s opCode = s @ [opCode]"

definition AddOperand :: "bytes \<Rightarrow> bytes \<Rightarrow> bytes" where
  "AddOperand s operand =
     (let dataLen = length operand;
          s' = (if dataLen < unat OPPUSHDATA1 then s @ [of_nat dataLen]
                else if dataLen \<le> 0xff then s @ [OPPUSHDATA1, of_nat dataLen]
                else if dataLen \<le> 0xffff then s @ [OPPUSHDATA2] @ le_put 2 (of_nat dataLen :: u16)
                else s @ [OPPUSHDATA4] @ le_put 4 (of_nat dataLen :: u32))
      in s' @ operand)"

definition AddScript :: "bytes \<Rightarrow> bytes \<Rightarrow> bytes" where
  "AddScript s script = s @ script"

section \<open>Parsing\<close>

type_synonym Operand = "bytes option"

type_synonym op_result = "OpCode \<times> Operand \<times> nat \<times> script_error option"

text \<open>The common tail of \<^verbatim>\<open>parseNextOp\<close>: bound check, then the operand's bytes.\<close>

definition read_operand :: "bytes \<Rightarrow> OpCode \<Rightarrow> nat \<Rightarrow> nat \<Rightarrow> op_result" where
  "read_operand s opCode operandSize pc =
     (if length s - pc < operandSize then (opCode, None, pc, Some ErrScriptBound)
      else (opCode, Some (take operandSize (drop pc s)), pc + operandSize, None))"

text \<open>
  For \<^verbatim>\<open>OPPUSHDATA4\<close> the source reads the size with \<^verbatim>\<open>binary.LittleEndian.Uint16\<close>,
  that is from the first two of the four size bytes.
\<close>

definition parseNextOp :: "bytes \<Rightarrow> nat \<Rightarrow> op_result" where
  "parseNextOp s pc0 =
     (if length s \<le> pc0 then (0, None, pc0, Some ErrScriptBound)
      else
        (let opCode = s ! pc0; pc = pc0 + 1 in
         if OPPUSHDATA4 < opCode then (opCode, None, pc, None)
         else if opCode < OPPUSHDATA1 then read_operand s opCode (unat opCode) pc
         else if opCode = OPPUSHDATA1 then
           (if length s - pc < 1 then (opCode, None, pc, Some ErrNoEnoughDataOPPUSHDATA1)
            else read_operand s opCode (unat (s ! pc)) (pc + 1))
         else if opCode = OPPUSHDATA2 then
           (if length s - pc < 2 then (opCode, None, pc, Some ErrNoEnoughDataOPPUSHDATA2)
            else read_operand s opCode
              (unat (le_get (take 2 (take 2 (drop pc s))) :: u16)) (pc + 2))
         else
           (if length s - pc < 4 then (opCode, None, pc, Some ErrNoEnoughDataOPPUSHDATA4)
            else read_operand s opCode
              (unat (le_get (take 2 (take 4 (drop pc s))) :: u16)) (pc + 4))))"

text \<open>\<^verbatim>\<open>getNthOp\<close> returns zero values next to an error.\<close>

primrec getNthOp :: "bytes \<Rightarrow> nat \<Rightarrow> nat \<Rightarrow> op_result" where
  "getNthOp s pc 0 =
     (case parseNextOp s pc of
        (opCode, operand, newPc, Some err) \<Rightarrow> (0, None, 0, Some err)
      | (opCode, operand, newPc, None) \<Rightarrow> (opCode, operand, newPc, None))"
| "getNthOp s pc (Suc n) =
     (case parseNextOp s pc of
        (opCode, operand, newPc, Some err) \<Rightarrow> (0, None, 0, Some err)
      | (opCode, operand, newPc, None) \<Rightarrow> getNthOp s newPc n)"

lemma read_operand_progress:
  "read_operand s b n pc = (opCode, operand, newPc, None) \<Longrightarrow> pc \<le> length s \<Longrightarrow>
     pc \<le> newPc \<and> newPc \<le> length s"
  by (auto simp: read_operand_def split: if_splits)

lemma parseNextOp_progress:
  assumes "parseNextOp s pc = (opCode, operand, newPc, None)"
  shows "pc < newPc" and "newPc \<le> length s"
  using assms
  by (auto simp: parseNextOp_def Let_def split: if_splits dest!: read_operand_progress)

text \<open>The elements of a parsed script: the Go code puts operands, opcodes and errors into
  one \<^verbatim>\<open>[]interface{}\<close>.\<close>

datatype element = EOperand bytes | EOpCode OpCode | EError script_error

function parse_from :: "bytes \<Rightarrow> nat \<Rightarrow> element list" where
  "parse_from s pc =
     (if pc < length s then
        (case parseNextOp s pc of
           (opCode, operand, newPc, Some err) \<Rightarrow> [EError err]
         | (opCode, operand, newPc, None) \<Rightarrow>
             (case operand of Some d \<Rightarrow> EOperand d | None \<Rightarrow> EOpCode opCode) # parse_from s newPc)
      else [])"
  by pat_completeness auto

termination parse_from
  by (relation "measure (\<lambda>(s, pc). length s - pc)")
    (auto dest!: sym [of _ "parseNextOp _ _"] dest: parseNextOp_progress)

declare parse_from.simps [simp del]

definition parse :: "bytes \<Rightarrow> element list" where
  "parse s = parse_from s 0"

text \<open>\<open>err_text\<close> is the text \<^verbatim>\<open>Error()\<close> gives for an error.\<close>

fun join_strings :: "string list \<Rightarrow> string" where
  "join_strings [] = []"
| "join_strings [x] = x"
| "join_strings (x # xs) = x @ '' '' @ join_strings xs"

definition Disasm :: "(script_error \<Rightarrow> string) \<Rightarrow> bytes \<Rightarrow> string" where
  "Disasm err_text s = join_strings (map (\<lambda>e. case e of
       EOperand v \<Rightarrow> Hex v
     | EOpCode v \<Rightarrow> opCodeToName v
     | EError v \<Rightarrow> ''[Error: '' @ err_text v @ '']'') (parse s))"

definition getSigOpCount :: "bytes \<Rightarrow> nat" where
  "getSigOpCount s = length (filter (\<lambda>e. case e of
       EOpCode v \<Rightarrow> v = OPCHECKSIG \<or> v = OPCHECKSIGVERIFY \<or>
                    v = OPCHECKMULTISIG \<or> v = OPCHECKMULTISIGVERIFY
     | _ \<Rightarrow> False) (parse s))"

section \<open>Abstract view\<close>

text \<open>A script as a list of items and its byte form.\<close>

datatype item = Push bytes | Op OpCode

fun item_bytes :: "item \<Rightarrow> bytes" where
  "item_bytes (Push d) = AddOperand [] d"
| "item_bytes (Op b) = [b]"

definition assemble :: "item list \<Rightarrow> bytes" where
  "assemble is = concat (map item_bytes is)"

fun item_ok :: "item \<Rightarrow> bool" where
  "item_ok (Push d) \<longleftrightarrow> length d \<le> 0xffff"
| "item_ok (Op b) \<longleftrightarrow> OPPUSHDATA4 < b"

fun item_element :: "item \<Rightarrow> element" where
  "item_element (Push d) = EOperand d"
| "item_element (Op b) = EOpCode b"

fun item_operand :: "item \<Rightarrow> Operand" where
  "item_operand (Push d) = Some d"
| "item_operand (Op b) = None"

definition item_code :: "item \<Rightarrow> OpCode" where
  "item_code i = hd (item_bytes i)"

section \<open>Laws of building and parsing\<close>

lemmas push_defs = AddOperand_def OPPUSHDATA1_def OPPUSHDATA2_def OPPUSHDATA4_def

lemma AddOperand_append: "AddOperand s d = s @ AddOperand [] d"
  by (simp add: AddOperand_def Let_def)

lemma AddOperand_item: "AddOperand s d = s @ item_bytes (Push d)"
  by (simp add: AddOperand_append [of s])

lemma AddOpCode_item: "AddOpCode s b = s @ item_bytes (Op b)"
  by (simp add: AddOpCode_def)

lemma assemble_Nil [simp]: "assemble [] = []"
  by (simp add: assemble_def)

lemma assemble_Cons [simp]: "assemble (i # is) = item_bytes i @ assemble is"
  by (simp add: assemble_def)

lemma assemble_append [simp]: "assemble (is @ js) = assemble is @ assemble js"
  by (simp add: assemble_def)

lemmas build_items = AddOperand_item AddOpCode_item AddScript_def

lemma item_bytes_not_Nil [simp]: "item_bytes i \<noteq> []"
  by (cases i) (simp_all add: AddOperand_def Let_def)

lemma read_operand_shift:
  "read_operand (pre @ s) b n (length pre + pc) =
     (case read_operand s b n pc of (c, d, pc', e) \<Rightarrow> (c, d, length pre + pc', e))"
  by (simp add: read_operand_def)

text \<open>Parsing does not look at the bytes before the program counter.\<close>

lemma parseNextOp_shift:
  "parseNextOp (pre @ s) (length pre + pc) =
     (case parseNextOp s pc of (c, d, pc', e) \<Rightarrow> (c, d, length pre + pc', e))"
proof -
  have r: "read_operand (pre @ s) b n (k + (length pre + pc)) =
     (case read_operand s b n (k + pc) of (c, d, pc', e) \<Rightarrow> (c, d, length pre + pc', e))" for b n k
    using read_operand_shift [of pre s b n "k + pc"] by (simp add: ac_simps)
  note rs = r [of _ _ "Suc 0"] r [of _ _ "Suc (Suc 0)"] r [of _ _ "Suc (Suc (Suc 0))"]
    r [of _ _ "Suc (Suc (Suc (Suc (Suc 0))))"]
  show ?thesis
    by (simp add: parseNextOp_def Let_def nth_append eval_nat_numeral rs [simplified])
qed

lemma getNthOp_shift:
  "getNthOp (pre @ s) (length pre + pc) n =
     (case getNthOp s pc n of
        (c, d, pc', None) \<Rightarrow> (c, d, length pre + pc', None)
      | (c, d, pc', Some e) \<Rightarrow> (c, d, pc', Some e))"
  by (induction n arbitrary: pc) (auto simp: parseNextOp_shift split: prod.splits option.splits)

lemma parse_from_shift:
  "parse_from (pre @ s) (length pre + pc) = parse_from s pc"
  by (induction s pc rule: parse_from.induct)
    (subst parse_from.simps, subst (2) parse_from.simps,
     auto simp: parseNextOp_shift split: prod.splits option.splits)

text \<open>One item at the program counter.\<close>

lemma parseNextOp_Op:
  "OPPUSHDATA4 < b \<Longrightarrow> parseNextOp (b # rest) 0 = (b, None, 1, None)"
  by (simp add: parseNextOp_def)

lemma parseNextOp_Push:
  assumes "length d \<le> 0xffff"
  shows "parseNextOp (item_bytes (Push d) @ rest) 0 =
    (item_code (Push d), Some d, length (item_bytes (Push d)), None)"
proof -
  consider "length d < 0x4c" | "0x4c \<le> length d" "length d \<le> 0xff" | "0xff < length d" by linarith
  then show ?thesis
  proof cases
    case 1
    then have "(of_nat (length d) :: byte) < 0x4c" "\<not> 0x4e < (of_nat (length d) :: byte)"
      "unat (of_nat (length d) :: byte) = length d"
      by (simp_all add: word_less_nat_alt unat_of_nat_less)
    with 1 show ?thesis
      by (auto simp: push_defs Let_def parseNextOp_def read_operand_def item_code_def)
  next
    case 2
    then have "unat (of_nat (length d) :: byte) = length d"
      by (simp add: unat_of_nat_less)
    with 2 show ?thesis
      by (auto simp: push_defs Let_def parseNextOp_def read_operand_def item_code_def)
  next
    case 3
    then have "unat (of_nat (length d) :: u16) = length d"
      using assms by (simp add: unat_of_nat_less)
    moreover have "take 2 (le_put 2 (of_nat (length d) :: u16) @ d @ rest) = le_put 2 (of_nat (length d) :: u16)"
      by simp
    ultimately show ?thesis using 3 assms
      by (simp add: push_defs Let_def parseNextOp_def read_operand_def item_code_def le_get_le_put)
  qed
qed

lemma parseNextOp_item:
  assumes "item_ok i"
  shows "parseNextOp (item_bytes i @ rest) 0 =
    (item_code i, item_operand i, length (item_bytes i), None)"
  using assms parseNextOp_Push [of _ rest] parseNextOp_Op [of _ rest]
  by (cases i) (simp_all add: item_code_def)

lemma parseNextOp_item_at:
  assumes "item_ok i"
  shows "parseNextOp (pre @ item_bytes i @ rest) (length pre) =
    (item_code i, item_operand i, length pre + length (item_bytes i), None)"
  using parseNextOp_shift [of pre "item_bytes i @ rest" 0] parseNextOp_item [OF assms, of rest]
  by simp

lemma parse_from_assemble:
  "list_all item_ok is \<Longrightarrow> parse_from (pre @ assemble is) (length pre) = map item_element is"
proof (induction "is" arbitrary: pre)
  case Nil
  then show ?case by (simp add: parse_from.simps)
next
  case (Cons i "is")
  have e: "(case item_operand i of None \<Rightarrow> EOpCode (item_code i) | Some d \<Rightarrow> EOperand d) = item_element i"
    by (cases i) (simp_all add: item_code_def)
  from Cons.prems parseNextOp_item_at [of i pre "assemble is"]
    Cons.IH [of "pre @ item_bytes i"] e
  show ?case
    by (subst parse_from.simps) simp
qed

lemma getNthOp_assemble:
  assumes "list_all item_ok is" and "n < length is"
  shows "getNthOp (pre @ assemble is @ rest) (length pre) n =
    (item_code (is ! n), item_operand (is ! n),
     length pre + length (assemble (take (Suc n) is)), None)"
  using assms
proof (induction n arbitrary: pre "is")
  case 0
  then obtain i js where "is = i # js" by (cases "is") auto
  with 0 parseNextOp_item_at [of i pre "assemble js @ rest"] show ?case by simp
next
  case (Suc n)
  then obtain i js where "is = i # js" by (cases "is") auto
  with Suc.prems parseNextOp_item_at [of i pre "assemble js @ rest"]
    Suc.IH [of js "pre @ item_bytes i"]
  show ?case by simp
qed

lemma getNthOp_end:
  assumes "list_all item_ok is" and "length is \<le> n"
  shows "getNthOp (pre @ assemble is) (length pre) n = (0, None, 0, Some ErrScriptBound)"
  using assms
proof (induction n arbitrary: pre "is")
  case 0
  then show ?case by (simp add: parseNextOp_def)
next
  case (Suc n)
  show ?case
  proof (cases "is")
    case Nil
    then show ?thesis by (simp add: parseNextOp_def)
  next
    case (Cons i js)
    with Suc.prems parseNextOp_item_at [of i pre "assemble js"] Suc.IH [of js "pre @ item_bytes i"]
    show ?thesis by simp
  qed
qed

section \<open>Properties\<close>

text \<open>C13: Parsing recovers every script the builder writes: for any sequence of operations and
  of pushes of at most 65535 bytes, \<^verbatim>\<open>parse\<close> of the assembled bytes is exactly that
  sequence, with no error element.\<close>

theorem parse_assemble:
  assumes "list_all item_ok is"
  shows "parse (assemble is) = map item_element is"
  using parse_from_assemble [OF assms, of "[]"] by (simp add: parse_def)

theorem parse_assemble_witness:
  "parse [OPDUP, OPHASH160, 2, 7, 9, OPEQUALVERIFY, OPCHECKSIG] =
     [EOpCode OPDUP, EOpCode OPHASH160, EOperand [7, 9], EOpCode OPEQUALVERIFY, EOpCode OPCHECKSIG]"
  using parse_assemble [of "[Op OPDUP, Op OPHASH160, Push [7, 9], Op OPEQUALVERIFY, Op OPCHECKSIG]"]
  by (simp add: AddOperand_def opcode_defs)

text \<open>Operands longer than 65535 bytes do not survive: the builder writes a four byte size and
  the parser reads only two bytes of it, so it returns the operand cut to its length modulo 65536
  and goes on parsing in the middle of the operand.\<close>

theorem pushdata4_truncates:
  assumes "0xffff < length d" and "length d < 2 ^ 32"
  shows "parseNextOp (AddOperand [] d @ rest) 0 =
    (OPPUSHDATA4, Some (take (length d mod 65536) d), 5 + length d mod 65536, None)"
proof -
  have *: "take 2 (le_put 4 w) = le_put 2 w" for w :: u32
    by (simp add: eval_nat_numeral)
  have **: "(le_get (le_put 2 (w :: u32)) :: u16) = ucast w" for w
    by (rule bit_word_eqI) (auto simp: numeral_2_eq_2 bit_simps simp del: push_bit_numeral_minus_1)
  have "unat (ucast (of_nat (length d) :: u32) :: u16) = length d mod 65536"
    by (simp add: unsigned_ucast_eq unsigned_take_bit_eq unat_of_nat take_bit_eq_mod mod_mod_cancel)
  moreover have "length d mod 65536 \<le> length d" "length d mod 65536 - length d = 0" "\<not> length d + length rest < length d mod 65536"
    using mod_less_eq_dividend [of "length d" 65536] by linarith+
  ultimately show ?thesis using assms
    by (simp add: push_defs Let_def parseNextOp_def read_operand_def * **)
qed

theorem pushdata4_truncates_witness:
  "parseNextOp (AddOperand [] (replicate 65537 7)) 0 = (OPPUSHDATA4, Some [7], 6, None)"
  using pushdata4_truncates [of "replicate 65537 7" "[]"] by simp

end
