(* ===== verification/Script_Class.thy ===== *)
theory Script_Class
  imports Script_Base
begin

text \<open>
  The script templates of \<^verbatim>\<open>src/script/script.go\<close> and \<^verbatim>\<open>src/script/token.go\<close>: the
  builders of locking and unlocking scripts, the recognisers that classify a locking
  script, the readers of addresses, token parameters, split-address lists and contract
  parameters. A nil Go slice or pointer next to an error is dropped; a runtime panic
  of the Go code is the error value \<^term>\<open>Panic\<close>.
\<close>

section \<open>Builders\<close>

definition p2PKHScriptLen :: nat where "p2PKHScriptLen = 25"
definition p2SHScriptLen :: nat where "p2SHScriptLen = 23"
definition MaxSplitAddrs :: nat where "MaxSplitAddrs = 32"
definition MaxOpReturnSize :: nat where "MaxOpReturnSize = 512"

definition PayToPubKeyHashScript :: "bytes \<Rightarrow> bytes" where
  "PayToPubKeyHashScript pubKeyHash =
     AddOpCode (AddOpCode (AddOperand (AddOpCode (AddOpCode [] OPDUP) OPHASH160) pubKeyHash)
       OPEQUALVERIFY) OPCHECKSIG"

text \<open>\<^verbatim>\<open>big.Int.Bytes\<close> is the absolute value, big endian.\<close>

definition PayToPubKeyHashCLTVScript :: "bytes \<Rightarrow> int \<Rightarrow> bytes" where
  "PayToPubKeyHashCLTVScript pubKeyHash blockTimeOrHeight =
     AddOpCode (AddOpCode (AddOperand (AddOpCode (AddOpCode (AddOpCode
       (AddOperand [] (big_bytes (nat \<bar>blockTimeOrHeight\<bar>))) OPCHECKLOCKTIMEVERIFY)
       OPDUP) OPHASH160) pubKeyHash) OPEQUALVERIFY) OPCHECKSIG"

text \<open>The signature is taken in its serialized form.\<close>

definition SignatureScript :: "bytes \<Rightarrow> bytes \<Rightarrow> bytes" where
  "SignatureScript sigBytes pubKey = AddOperand (AddOperand [] sigBytes) pubKey"

definition StandardCoinbaseSignatureScript :: "u32 \<Rightarrow> bytes" where
  "StandardCoinbaseSignatureScript height =
     AddOperand (AddOperand [] (big_bytes (unat height))) (big_bytes 0)"

fun split_pairs :: "bytes \<Rightarrow> (bytes \<times> u32) list \<Rightarrow> bytes" where
  "split_pairs s [] = s"
| "split_pairs s ((addr, w) # r) = split_pairs (AddOperand (AddOperand s addr) (le_put 4 w)) r"

definition SplitAddrScript ::
  "('sig, 'pk) crypto_ops \<Rightarrow> bytes list \<Rightarrow> u32 list \<Rightarrow> bytes option" where
  "SplitAddrScript c addrs weights =
     (if length addrs = 0 \<or> length addrs \<noteq> length weights \<or> MaxSplitAddrs < length addrs then None
      else
        (let s = split_pairs [] (zip addrs weights);
             scriptHash = Hash160 c s
         in Some (AddScript (AddOperand (AddOpCode (AddOpCode [] OPRETURN) OP0) scriptHash) s)))"

section \<open>Recognisers\<close>

definition IsPayToPubKeyHash :: "bytes \<Rightarrow> bool" where
  "IsPayToPubKeyHash ss =
     (if length ss \<noteq> p2PKHScriptLen then False
      else ss ! 0 = OPDUP \<and> ss ! 1 = OPHASH160 \<and> ss ! 2 = of_nat Ripemd160Size \<and>
           ss ! 23 = OPEQUALVERIFY \<and> ss ! 24 = OPCHECKSIG)"

definition IsPayToPubKeyHashCLTVScript :: "bytes \<Rightarrow> bool" where
  "IsPayToPubKeyHashCLTVScript ss =
     (let l = length ss in
      27 \<le> l \<and> ss ! (l - 1) = OPCHECKSIG \<and> ss ! (l - 2) = OPEQUALVERIFY \<and>
      ss ! (l - 23) = of_nat Ripemd160Size \<and> ss ! (l - 24) = OPHASH160 \<and>
      ss ! (l - 25) = OPDUP \<and> ss ! (l - 26) = OPCHECKLOCKTIMEVERIFY)"

definition IsPayToScriptHash :: "bytes \<Rightarrow> bool" where
  "IsPayToScriptHash ss =
     (if length ss \<noteq> p2SHScriptLen then False
      else ss ! 0 = OPHASH160 \<and> ss ! 1 = of_nat Ripemd160Size \<and> ss ! 22 = OPEQUAL)"

function split_chunks_ok :: "bytes \<Rightarrow> nat \<Rightarrow> bool" where
  "split_chunks_ok ss i =
     (if i < length ss then
        if ss ! i \<noteq> of_nat Ripemd160Size \<or> ss ! (i + 21) \<noteq> 4 then False
        else if (i + 26) div 26 = MaxSplitAddrs then False
        else split_chunks_ok ss (i + 26)
      else True)"
  by pat_completeness auto

termination split_chunks_ok
  by (relation "measure (\<lambda>(ss, i). length ss - i)") auto

declare split_chunks_ok.simps [simp del]

definition IsSplitAddrScript :: "bytes \<Rightarrow> bool" where
  "IsSplitAddrScript ss =
     (if length ss < 49 then False
      else if (length ss - 23) mod 26 \<noteq> 0 \<or> ss ! 0 \<noteq> OPRETURN \<or> ss ! 1 \<noteq> OP0 then False
      else split_chunks_ok ss 23)"

definition IsContractSig :: "bytes \<Rightarrow> bool" where
  "IsContractSig sig \<longleftrightarrow> length sig = 10 \<and> sig ! 0 = OPCONTRACT \<and> sig ! 1 = 8"

definition IsContractPubkey :: "bytes \<Rightarrow> bool" where
  "IsContractPubkey ss =
     (if length ss \<noteq> 66 then False
      else if ss ! 0 \<noteq> OPCONTRACT \<or> ss ! 1 \<noteq> of_nat Ripemd160Size \<or>
              ss ! 22 \<noteq> of_nat Ripemd160Size \<or> ss ! 43 \<noteq> 8 \<or> ss ! 52 \<noteq> 8 \<or> ss ! 61 \<noteq> 4
      then False else True)"

text \<open>A nil operand has length 0.\<close>

definition operand_bytes :: "Operand \<Rightarrow> bytes" where
  "operand_bytes od = (case od of None \<Rightarrow> [] | Some d \<Rightarrow> d)"

definition IsOpReturnScript :: "bytes \<Rightarrow> bool" where
  "IsOpReturnScript s =
     (if length s < 3 then False
      else if s ! 0 \<noteq> OPRETURN then False
      else if s ! 1 = OP0 then False
      else case parseNextOp s 1 of
          (_, operand, newPc, Some err) \<Rightarrow> False
        | (_, operand, newPc, None) \<Rightarrow>
            if MaxOpReturnSize < length (operand_bytes operand) then False
            else if length s \<noteq> newPc then False else True)"

section \<open>Tokens\<close>

definition ascii :: "string \<Rightarrow> bytes" where
  "ascii = map of_char"

definition TokenNameKey :: bytes where "TokenNameKey = ascii ''Name''"
definition TokenSymbolKey :: bytes where "TokenSymbolKey = ascii ''Symbol''"
definition TokenAmountKey :: bytes where "TokenAmountKey = ascii ''Amount''"
definition TokenDecimalsKey :: bytes where "TokenDecimalsKey = ascii ''Decimals''"
definition TokenTxHashKey :: bytes where "TokenTxHashKey = ascii ''TokenTxHash''"
definition TokenTxOutIdxKey :: bytes where "TokenTxOutIdxKey = ascii ''TokenTxOutIdx''"

record IssueParams =
  Name :: bytes
  Symbol :: bytes
  TotalSupply :: u64
  Decimals :: byte

record TransferParams =
  TokenID :: OutPoint
  Amount :: u64

definition add_param :: "bytes \<Rightarrow> bytes \<Rightarrow> bytes \<Rightarrow> bytes" where
  "add_param s key operand =
     AddOpCode (AddOperand (AddOpCode (AddOperand s key) OPDROP) operand) OPDROP"

definition IssueTokenScript :: "bytes \<Rightarrow> IssueParams \<Rightarrow> bytes" where
  "IssueTokenScript addrHash params =
     (let script = PayToPubKeyHashScript addrHash;
          script = add_param script TokenNameKey (Name params);
          script = add_param script TokenSymbolKey (Symbol params);
          script = add_param script TokenAmountKey (le_put 8 (TotalSupply params))
      in add_param script TokenDecimalsKey [Decimals params])"

text \<open>\<^verbatim>\<open>binary.LittleEndian.Uint64/Uint32\<close> and the index \<^verbatim>\<open>operand[0]\<close> panic on a
  short operand.\<close>

definition GetIssueParams :: "bytes \<Rightarrow> script_error + IssueParams" where
  "GetIssueParams s =
     (case getNthOp s 0 7 of (_, _, _, Some err) \<Rightarrow> Inl err | (_, name, pc, None) \<Rightarrow>
     (case getNthOp s pc 3 of (_, _, _, Some err) \<Rightarrow> Inl err | (_, symbol, pc, None) \<Rightarrow>
     (case getNthOp s pc 3 of (_, _, _, Some err) \<Rightarrow> Inl err | (_, supply, pc, None) \<Rightarrow>
     (case slice_u64 (operand_bytes supply) of None \<Rightarrow> Inl Panic | Some totalSupply \<Rightarrow>
     (case getNthOp s pc 3 of (_, _, _, Some err) \<Rightarrow> Inl err | (_, decimals, _, None) \<Rightarrow>
     (case operand_bytes decimals of [] \<Rightarrow> Inl Panic | d # _ \<Rightarrow>
        Inr \<lparr>Name = operand_bytes name, Symbol = operand_bytes symbol,
             TotalSupply = totalSupply, Decimals = d\<rparr>))))))"

definition TransferTokenScript :: "bytes \<Rightarrow> TransferParams \<Rightarrow> bytes" where
  "TransferTokenScript addrHash params =
     (let script = PayToPubKeyHashScript addrHash;
          script = add_param script TokenTxHashKey (Hash (TokenID params));
          script = add_param script TokenTxOutIdxKey (le_put 4 (Index (TokenID params)))
      in add_param script TokenAmountKey (le_put 8 (Amount params)))"

definition GetTransferParams :: "bytes \<Rightarrow> script_error + TransferParams" where
  "GetTransferParams s =
     (case getNthOp s 0 7 of (_, _, _, Some err) \<Rightarrow> Inl err | (_, operand, pc, None) \<Rightarrow>
      if min HashSize (length (operand_bytes operand)) \<noteq> HashSize
      then Inl (ErrOther ''tx hash size'')
      else
     (case getNthOp s pc 3 of (_, _, _, Some err) \<Rightarrow> Inl err | (_, idx, pc, None) \<Rightarrow>
     (case slice_u32 (operand_bytes idx) of None \<Rightarrow> Inl Panic | Some index \<Rightarrow>
     (case getNthOp s pc 3 of (_, _, _, Some err) \<Rightarrow> Inl err | (_, amt, _, None) \<Rightarrow>
     (case slice_u64 (operand_bytes amt) of None \<Rightarrow> Inl Panic | Some amount \<Rightarrow>
        Inr \<lparr>TokenID = \<lparr>Hash = take HashSize (operand_bytes operand), Index = index\<rparr>,
             Amount = amount\<rparr>)))))"

definition toOperand :: "element \<Rightarrow> bytes" where
  "toOperand e = (case e of EOperand v \<Rightarrow> v | _ \<Rightarrow> [])"

definition IsTokenIssue :: "bytes \<Rightarrow> bool" where
  "IsTokenIssue s =
     (if length s < p2PKHScriptLen then False
      else if \<not> IsPayToPubKeyHash (take p2PKHScriptLen s) then False
      else
        (let r = parse (drop p2PKHScriptLen s) in
         length r = 16 \<and>
         toOperand (r ! 0) = TokenNameKey \<and> r ! 1 = EOpCode OPDROP \<and> r ! 3 = EOpCode OPDROP \<and>
         toOperand (r ! 4) = TokenSymbolKey \<and> r ! 5 = EOpCode OPDROP \<and> r ! 7 = EOpCode OPDROP \<and>
         toOperand (r ! 8) = TokenAmountKey \<and> r ! 9 = EOpCode OPDROP \<and> r ! 11 = EOpCode OPDROP \<and>
         toOperand (r ! 12) = TokenDecimalsKey \<and> r ! 13 = EOpCode OPDROP \<and> r ! 15 = EOpCode OPDROP))"

definition IsTokenTransfer :: "bytes \<Rightarrow> bool" where
  "IsTokenTransfer s =
     (if length s < p2PKHScriptLen then False
      else if \<not> IsPayToPubKeyHash (take p2PKHScriptLen s) then False
      else
        (let r = parse (drop p2PKHScriptLen s) in
         length r = 12 \<and>
         toOperand (r ! 0) = TokenTxHashKey \<and> r ! 1 = EOpCode OPDROP \<and> r ! 3 = EOpCode OPDROP \<and>
         toOperand (r ! 4) = TokenTxOutIdxKey \<and> r ! 5 = EOpCode OPDROP \<and> r ! 7 = EOpCode OPDROP \<and>
         toOperand (r ! 8) = TokenAmountKey \<and> r ! 9 = EOpCode OPDROP \<and> r ! 11 = EOpCode OPDROP))"

definition P2PKHScriptPrefix :: "bytes \<Rightarrow> bytes option" where
  "P2PKHScriptPrefix s = (if length s < p2PKHScriptLen then None else Some (take p2PKHScriptLen s))"

section \<open>Addresses in scripts\<close>

datatype Address =
  AddressPubKeyHash bytes
| AddressTypeSplit bytes
| AddressContract bytes

definition NewAddressPubKeyHash :: "bytes \<Rightarrow> script_error + Address" where
  "NewAddressPubKeyHash pkHash =
     (if length pkHash \<noteq> Ripemd160Size then Inl ErrInvalidPKHash
      else Inr (AddressPubKeyHash (copy_at ZeroAddressHash 0 pkHash)))"

definition NewSplitAddressFromHash :: "bytes \<Rightarrow> script_error + Address" where
  "NewSplitAddressFromHash hash =
     (if length hash \<noteq> Ripemd160Size then Inl ErrInvalidPKHash
      else Inr (AddressTypeSplit (copy_at ZeroAddressHash 0 hash)))"

definition NewContractAddressFromHash :: "bytes \<Rightarrow> script_error + Address" where
  "NewContractAddressFromHash hash =
     (if length hash \<noteq> Ripemd160Size then Inl ErrInvalidPKHash
      else Inr (AddressContract (copy_at ZeroAddressHash 0 hash)))"

fun address_hash :: "Address \<Rightarrow> bytes" where
  "address_hash (AddressPubKeyHash h) = h"
| "address_hash (AddressTypeSplit h) = h"
| "address_hash (AddressContract h) = h"

datatype PubkType =
  UnknownPubk | PayToPubk | TokenTransferPubk | TokenIssuePubk | ContractPubk | SplitAddrPubk
| PayToPubkCLTV | PayToScriptPubk | OpReturnPubk

definition pubkType :: "bytes \<Rightarrow> PubkType" where
  "pubkType s =
     (if IsPayToPubKeyHash s then PayToPubk
      else if IsTokenTransfer s then TokenTransferPubk
      else if IsTokenIssue s then TokenIssuePubk
      else if IsContractPubkey s then ContractPubk
      else if IsSplitAddrScript s then SplitAddrPubk
      else if IsPayToPubKeyHashCLTVScript s then PayToPubkCLTV
      else if IsPayToScriptHash s then PayToScriptPubk
      else if IsOpReturnScript s then OpReturnPubk
      else UnknownPubk)"

text \<open>A nil address without an error (contract deployment) is \<^term>\<open>Inr None\<close>.\<close>

definition ParseContractAddr :: "bytes \<Rightarrow> script_error + Address option" where
  "ParseContractAddr s =
     (case getNthOp s 22 0 of
        (_, _, _, Some err) \<Rightarrow> Inl err
      | (_, operand, _, None) \<Rightarrow>
          if length (operand_bytes operand) \<noteq> Ripemd160Size then Inl ErrInvalidContractScript
          else if operand_bytes operand = ZeroAddressHash then Inr None
          else map_sum id Some (NewContractAddressFromHash (operand_bytes operand)))"

definition ExtractAddress :: "bytes \<Rightarrow> script_error + Address option" where
  "ExtractAddress s =
     (let at = (\<lambda>pc new. case getNthOp s pc 0 of
          (_, _, _, Some err) \<Rightarrow> Inl err
        | (_, pubKeyHash, _, None) \<Rightarrow> map_sum id Some (new (operand_bytes pubKeyHash)))
      in case pubkType s of
           PayToPubk \<Rightarrow> at 2 NewAddressPubKeyHash
         | TokenTransferPubk \<Rightarrow> at 2 NewAddressPubKeyHash
         | TokenIssuePubk \<Rightarrow> at 2 NewAddressPubKeyHash
         | ContractPubk \<Rightarrow> ParseContractAddr s
         | SplitAddrPubk \<Rightarrow> at 2 NewSplitAddressFromHash
         | PayToPubkCLTV \<Rightarrow> at (length s - 23) NewAddressPubKeyHash
         | PayToScriptPubk \<Rightarrow> at 1 NewAddressPubKeyHash
         | _ \<Rightarrow> Inl ErrAddressNotApplicable)"

definition IsStandard :: "bytes \<Rightarrow> bool" where
  "IsStandard s = (case ExtractAddress s of Inr _ \<Rightarrow> True | Inl _ \<Rightarrow> IsOpReturnScript s)"

section \<open>Split addresses\<close>

definition GetSplitAddrScriptPrefix :: "bytes \<Rightarrow> bytes" where
  "GetSplitAddrScriptPrefix s =
     (case getNthOp s 0 0 of (opCode, _, _, _) \<Rightarrow>
      case getNthOp s 1 0 of (opCode2, _, pc, _) \<Rightarrow>
      case getNthOp s pc 0 of (_, operandHash, _, _) \<Rightarrow>
        AddOperand (AddOpCode (AddOpCode [] opCode) opCode2) (operand_bytes operandHash))"

lemma getNthOp_progress:
  "getNthOp s pc n = (opCode, operand, newPc, None) \<Longrightarrow> pc + n < newPc \<and> newPc \<le> length s"
proof (induction n arbitrary: pc)
  case 0
  then show ?case
    by (auto split: prod.splits option.splits dest: parseNextOp_progress)
next
  case (Suc n)
  then obtain c d pc' where p: "parseNextOp s pc = (c, d, pc', None)"
    and "getNthOp s pc' n = (opCode, operand, newPc, None)"
    by (auto split: prod.splits option.splits)
  from Suc.IH [OF this(2)] parseNextOp_progress [OF p] show ?case by simp
qed

function split_loop ::
  "bytes \<Rightarrow> nat \<Rightarrow> nat \<Rightarrow> bytes list \<Rightarrow> u32 list \<Rightarrow> script_error + (bytes list \<times> u32 list)"
where
  "split_loop s pc i addrs weights =
     (case getNthOp s pc i of
        (_, _, _, Some err) \<Rightarrow>
          if err = ErrScriptBound then Inr (addrs, weights) else Inl ErrInvalidSplitAddrScript
      | (_, operand, _, None) \<Rightarrow>
          if i mod 2 = 0 then
            (case NewAddressPubKeyHash (operand_bytes operand) of
               Inl _ \<Rightarrow> Inl ErrInvalidSplitAddrScript
             | Inr addr \<Rightarrow> split_loop s pc (i + 1) (addrs @ [address_hash addr]) weights)
          else if length (operand_bytes operand) \<noteq> 4 then Inl ErrInvalidSplitAddrScript
          else split_loop s pc (i + 1) addrs (weights @ [le_get (operand_bytes operand)]))"
  by pat_completeness auto

termination split_loop
  by (relation "measure (\<lambda>(s, pc, i, _). Suc (length s) - i)")
    (auto dest!: sym [of _ "getNthOp _ _ _"] getNthOp_progress)

declare split_loop.simps [simp del]

text \<open>With fewer weights than addresses the index \<^verbatim>\<open>weights[i]\<close> is out of range.\<close>

definition ParseSplitAddrScript ::
  "('sig, 'pk) crypto_ops \<Rightarrow> bytes \<Rightarrow> script_error + (bytes list \<times> u32 list)" where
  "ParseSplitAddrScript c s =
     (case getNthOp s 0 0 of (opCode, _, pc, err) \<Rightarrow>
      if err \<noteq> None \<or> opCode \<noteq> OPRETURN then Inl ErrInvalidSplitAddrScript else
      case getNthOp s pc 0 of (opCode, _, pc, err) \<Rightarrow>
      if err \<noteq> None \<or> opCode \<noteq> OP0 then Inl ErrInvalidSplitAddrScript else
      case getNthOp s pc 0 of (_, operandHash, pc, err) \<Rightarrow>
      if err \<noteq> None \<or> length (operand_bytes operandHash) \<noteq> Ripemd160Size
      then Inl ErrInvalidSplitAddrScript else
      case split_loop s pc 0 [] [] of
        Inl e \<Rightarrow> Inl e
      | Inr (addrs, weights) \<Rightarrow>
          if MaxSplitAddrs < length addrs then Inl ErrInvalidSplitAddrScript
          else if length weights < length addrs then Inl Panic
          else if Hash160 c (split_pairs [] (zip addrs weights)) \<noteq> operand_bytes operandHash
          then Inl ErrInvalidSplitAddrScript
          else Inr (addrs, weights))"

section \<open>Contracts\<close>

record VMTxParams =
  GasLimit :: u64
  Nonce :: u64
  VmVersion :: "32 word"
  From :: bytes
  To :: bytes

datatype ContractType = ContractUnkownType | ContractCreationType | ContractCallType

definition ZeroContractAddress :: bytes where "ZeroContractAddress = ZeroAddressHash"

text \<open>\<^verbatim>\<open>MaxInt64 / FixedGasPrice\<close> is the exclusive bound on the gas limit.\<close>

definition MaxInt64 :: u64 where "MaxInt64 = 0x7fffffffffffffff"

definition MakeContractScriptPubkey ::
  "bytes option \<Rightarrow> bytes option \<Rightarrow> u64 \<Rightarrow> u64 \<Rightarrow> 32 word \<Rightarrow> script_error + bytes" where
  "MakeContractScriptPubkey from to gasLimit nonce version =
     (case from of
        None \<Rightarrow> Inl ErrInvalidContractParams
      | Some from_h \<Rightarrow>
          if gasLimit = 0 then Inl ErrInvalidContractParams
          else if gasLimit \<ge> MaxInt64 div FixedGasPrice then Inl ErrInvalidContractParams
          else
            (let s = AddOpCode [] OPCONTRACT;
                 toHash = (case to of None \<Rightarrow> ZeroContractAddress | Some t \<Rightarrow> t);
                 s = AddOperand (AddOperand s from_h) toHash;
                 s = AddOperand s (le_put 8 nonce);
                 s = AddOperand s (le_put 8 gasLimit)
             in Inr (AddOperand s (le_put 4 version))))"

definition MakeContractScriptSig :: "u64 \<Rightarrow> bytes" where
  "MakeContractScriptSig nonce = AddOperand (AddOpCode [] OPCONTRACT) (le_put 8 nonce)"

definition readUint64 :: "bytes \<Rightarrow> nat \<Rightarrow> u64 \<times> nat \<times> script_error option" where
  "readUint64 s pc =
     (case getNthOp s pc 0 of
        (_, _, pc, Some err) \<Rightarrow> (0, pc, Some err)
      | (_, operand, pc, None) \<Rightarrow>
          if length (operand_bytes operand) \<noteq> 8
          then (0, pc, Some (ErrOther ''operand is not 8 bytes when readUInt64''))
          else (le_get (operand_bytes operand), pc, None))"

definition readUint32 :: "bytes \<Rightarrow> nat \<Rightarrow> u32 \<times> nat \<times> script_error option" where
  "readUint32 s pc =
     (case getNthOp s pc 0 of
        (_, _, pc, Some err) \<Rightarrow> (0, pc, Some err)
      | (_, operand, pc, None) \<Rightarrow>
          if length (operand_bytes operand) \<noteq> 4
          then (0, pc, Some (ErrOther ''operand is not 4 bytes when readUInt32''))
          else (le_get (operand_bytes operand), pc, None))"

text \<open>
  The error of the last read is tested with \<^verbatim>\<open>if err != nil\<close> where the variable that
  holds it is \<^verbatim>\<open>e\<close>, so it is not looked at: parsing goes on with the returned version
  and program counter.
\<close>

definition ParseContractParams :: "bytes \<Rightarrow> script_error + (VMTxParams \<times> ContractType)" where
  "ParseContractParams s =
     (case getNthOp s 0 0 of (opCode, _, pc, err) \<Rightarrow>
      if err \<noteq> None \<or> opCode \<noteq> OPCONTRACT then Inl ErrInvalidContractScript else
      case getNthOp s pc 0 of (_, _, _, Some err) \<Rightarrow> Inl err | (_, from, pc, None) \<Rightarrow>
      if length (operand_bytes from) \<noteq> Ripemd160Size then Inl ErrInvalidContractScript else
      case getNthOp s pc 0 of (_, _, _, Some err) \<Rightarrow> Inl err | (_, to, pc, None) \<Rightarrow>
      if length (operand_bytes to) \<noteq> Ripemd160Size then Inl ErrInvalidContractScript else
      case readUint64 s pc of (_, _, Some err) \<Rightarrow> Inl err | (nonce, pc, None) \<Rightarrow>
      case readUint64 s pc of (_, _, Some err) \<Rightarrow> Inl err | (gasLimit, pc, None) \<Rightarrow>
      case readUint32 s pc of (ver, pc, _) \<Rightarrow>
      case getNthOp s pc 0 of (_, _, _, e) \<Rightarrow>
      if e \<noteq> Some ErrScriptBound then Inl ErrInvalidContractScript
      else Inr (\<lparr>GasLimit = gasLimit, Nonce = nonce, VmVersion = ver,
                 From = copy_at ZeroAddressHash 0 (operand_bytes from),
                 To = copy_at ZeroAddressHash 0 (operand_bytes to)\<rparr>,
                if copy_at ZeroAddressHash 0 (operand_bytes to) = ZeroContractAddress
                then ContractCreationType else ContractCallType))"

definition ParseContractFrom :: "bytes \<Rightarrow> script_error + Address" where
  "ParseContractFrom s =
     (case getNthOp s 1 0 of
        (_, _, _, Some err) \<Rightarrow> Inl err
      | (_, operand, _, None) \<Rightarrow>
          if length (operand_bytes operand) \<noteq> Ripemd160Size then Inl ErrInvalidContractScript
          else NewAddressPubKeyHash (operand_bytes operand))"

definition ParseContractNonce :: "bytes \<Rightarrow> script_error + u64" where
  "ParseContractNonce s =
     (case getNthOp s 43 0 of
        (_, _, _, Some err) \<Rightarrow> Inl err
      | (_, operand, _, None) \<Rightarrow>
          if length (operand_bytes operand) \<noteq> 8
          then Inl (ErrOther ''nonce must be 8 byte in script'')
          else Inr (le_get (operand_bytes operand)))"

definition ParseContractGas :: "bytes \<Rightarrow> script_error + u64" where
  "ParseContractGas s =
     (case getNthOp s 52 0 of
        (_, _, _, Some err) \<Rightarrow> Inl err
      | (_, operand, _, None) \<Rightarrow>
          if length (operand_bytes operand) \<noteq> 8
          then Inl (ErrOther ''gas must be 8 byte in script'')
          else Inr (le_get (operand_bytes operand)))"

definition ParseContractInfo :: "bytes \<Rightarrow> script_error + (Address \<times> Address option \<times> u64)" where
  "ParseContractInfo s =
     (case ParseContractFrom s of Inl e \<Rightarrow> Inl e | Inr from \<Rightarrow>
      case ParseContractAddr s of Inl e \<Rightarrow> Inl e | Inr contractAddress \<Rightarrow>
      case ParseContractNonce s of Inl e \<Rightarrow> Inl e | Inr nonce \<Rightarrow>
        Inr (from, contractAddress, nonce))"

section \<open>Scripts as items\<close>

named_theorems script_items

lemma p2pkh_items [script_items]:
  "PayToPubKeyHashScript h =
     assemble [Op OPDUP, Op OPHASH160, Push h, Op OPEQUALVERIFY, Op OPCHECKSIG]"
  by (simp only: PayToPubKeyHashScript_def build_items assemble_Cons assemble_Nil append_assoc
      append_Nil append_Nil2)

lemma cltv_items [script_items]:
  "PayToPubKeyHashCLTVScript h t =
     assemble [Push (big_bytes (nat \<bar>t\<bar>)), Op OPCHECKLOCKTIMEVERIFY, Op OPDUP, Op OPHASH160, Push h,
       Op OPEQUALVERIFY, Op OPCHECKSIG]"
  by (simp only: PayToPubKeyHashCLTVScript_def build_items assemble_Cons assemble_Nil append_assoc
      append_Nil append_Nil2)

lemma sig_items [script_items]:
  "SignatureScript sig pk = assemble [Push sig, Push pk]"
  by (simp only: SignatureScript_def build_items assemble_Cons assemble_Nil append_assoc
      append_Nil append_Nil2)

definition pair_items :: "(bytes \<times> u32) list \<Rightarrow> item list" where
  "pair_items ps = concat (map (\<lambda>(a, w). [Push a, Push (le_put 4 w)]) ps)"

lemma split_pairs_append: "split_pairs s ps = s @ assemble (pair_items ps)"
  by (induction s ps rule: split_pairs.induct)
    (simp_all add: pair_items_def build_items del: item_bytes.simps)

lemma add_param_items:
  "add_param s key d = s @ assemble [Push key, Op OPDROP, Push d, Op OPDROP]"
  by (simp only: add_param_def build_items assemble_Cons assemble_Nil append_assoc
      append_Nil append_Nil2)

definition issue_items :: "IssueParams \<Rightarrow> item list" where
  "issue_items p =
     [Push TokenNameKey, Op OPDROP, Push (Name p), Op OPDROP,
      Push TokenSymbolKey, Op OPDROP, Push (Symbol p), Op OPDROP,
      Push TokenAmountKey, Op OPDROP, Push (le_put 8 (TotalSupply p)), Op OPDROP,
      Push TokenDecimalsKey, Op OPDROP, Push [Decimals p], Op OPDROP]"

definition transfer_items :: "TransferParams \<Rightarrow> item list" where
  "transfer_items p =
     [Push TokenTxHashKey, Op OPDROP, Push (Hash (TokenID p)), Op OPDROP,
      Push TokenTxOutIdxKey, Op OPDROP, Push (le_put 4 (Index (TokenID p))), Op OPDROP,
      Push TokenAmountKey, Op OPDROP, Push (le_put 8 (Amount p)), Op OPDROP]"

lemma issue_script_items:
  "IssueTokenScript h p = PayToPubKeyHashScript h @ assemble (issue_items p)"
  by (simp only: IssueTokenScript_def Let_def add_param_items issue_items_def assemble_Cons
      assemble_Nil append_assoc append_Nil append_Nil2)

lemma transfer_script_items:
  "TransferTokenScript h p = PayToPubKeyHashScript h @ assemble (transfer_items p)"
  by (simp only: TransferTokenScript_def Let_def add_param_items transfer_items_def assemble_Cons
      assemble_Nil append_assoc append_Nil append_Nil2)

definition contract_items :: "bytes \<Rightarrow> bytes \<Rightarrow> u64 \<Rightarrow> u64 \<Rightarrow> 32 word \<Rightarrow> item list" where
  "contract_items from to nonce gas ver =
     [Op OPCONTRACT, Push from, Push to, Push (le_put 8 nonce), Push (le_put 8 gas),
      Push (le_put 4 ver)]"

lemma contract_script_items:
  assumes "gas \<noteq> 0" and "gas < MaxInt64 div FixedGasPrice"
  shows "MakeContractScriptPubkey (Some from) to gas nonce ver =
    Inr (assemble (contract_items from (case to of None \<Rightarrow> ZeroContractAddress | Some t \<Rightarrow> t) nonce gas ver))"
  using assms
  by (simp add: MakeContractScriptPubkey_def Let_def contract_items_def build_items
      del: item_bytes.simps)

lemma contract_script_error:
  "from = None \<or> gas = 0 \<or> MaxInt64 div FixedGasPrice \<le> gas \<Longrightarrow>
     MakeContractScriptPubkey from to gas nonce ver = Inl ErrInvalidContractParams"
  by (auto simp: MakeContractScriptPubkey_def split: option.split)

section \<open>Small pushes\<close>

lemma item_bytes_small:
  "length d < 76 \<Longrightarrow> item_bytes (Push d) = of_nat (length d) # d"
  by (simp add: AddOperand_def OPPUSHDATA1_def)

lemma item_code_op [simp]: "item_code (Op b) = b"
  by (simp add: item_code_def)

lemma operand_bytes_simps [simp]:
  "operand_bytes None = []" "operand_bytes (Some d) = d"
  by (simp_all add: operand_bytes_def)

lemma op_gt_pushdata4 [simp]:
  "OPPUSHDATA4 < OPDUP" "OPPUSHDATA4 < OPHASH160" "OPPUSHDATA4 < OPEQUALVERIFY"
  "OPPUSHDATA4 < OPEQUAL" "OPPUSHDATA4 < OPCHECKSIG" "OPPUSHDATA4 < OPDROP"
  "OPPUSHDATA4 < OPRETURN" "OPPUSHDATA4 < OPCONTRACT" "OPPUSHDATA4 < OPCODESEPARATOR"
  "OPPUSHDATA4 < OPCHECKLOCKTIMEVERIFY" "OPPUSHDATA4 < OPCHECKMULTISIG"
  by (simp_all add: opcode_defs)

lemma length_token_keys [simp]:
  "length TokenNameKey = 4" "length TokenSymbolKey = 6" "length TokenAmountKey = 6"
  "length TokenDecimalsKey = 8" "length TokenTxHashKey = 11" "length TokenTxOutIdxKey = 13"
  by (simp_all add: TokenNameKey_def TokenSymbolKey_def TokenAmountKey_def TokenDecimalsKey_def
      TokenTxHashKey_def TokenTxOutIdxKey_def ascii_def)

lemma length_p2pkh: "length h = Ripemd160Size \<Longrightarrow> length (PayToPubKeyHashScript h) = p2PKHScriptLen"
  by (simp add: p2pkh_items item_bytes_small Ripemd160Size_def p2PKHScriptLen_def
      del: item_bytes.simps(1))

lemma list_split_at: "n \<le> length xs \<Longrightarrow> xs = take n xs @ drop n xs"
  by simp

lemma nth_append_drop: "n < length xs \<Longrightarrow> drop n xs = xs ! n # drop (Suc n) xs"
  by (simp add: Cons_nth_drop_Suc)

lemma p2pkh_bytes:
  "length h = Ripemd160Size \<Longrightarrow>
     PayToPubKeyHashScript h = [OPDUP, OPHASH160, 20] @ h @ [OPEQUALVERIFY, OPCHECKSIG]"
  by (simp add: p2pkh_items item_bytes_small Ripemd160Size_def del: item_bytes.simps(1))

lemma IsPayToPubKeyHash_iff:
  "IsPayToPubKeyHash s \<longleftrightarrow> (\<exists>h. length h = Ripemd160Size \<and> s = PayToPubKeyHashScript h)"
proof
  assume A: "IsPayToPubKeyHash s"
  then have len: "length s = 25"
    by (simp add: IsPayToPubKeyHash_def p2PKHScriptLen_def split: if_splits)
  let ?h = "take 20 (drop 3 s)"
  have "s = [s ! 0, s ! 1, s ! 2] @ ?h @ [s ! 23, s ! 24]"
    using len by (intro nth_equalityI) (auto simp: nth_append nth_Cons' less_Suc_eq numeral_eq_Suc)
  with A len have "s = PayToPubKeyHashScript ?h"
    by (simp add: p2pkh_bytes IsPayToPubKeyHash_def p2PKHScriptLen_def Ripemd160Size_def)
  with len show "\<exists>h. length h = Ripemd160Size \<and> s = PayToPubKeyHashScript h"
    by (intro exI [of _ ?h]) (simp add: Ripemd160Size_def)
next
  assume "\<exists>h. length h = Ripemd160Size \<and> s = PayToPubKeyHashScript h"
  then show "IsPayToPubKeyHash s"
    by (auto simp: p2pkh_bytes IsPayToPubKeyHash_def p2PKHScriptLen_def Ripemd160Size_def nth_append)
qed

lemma IsPayToScriptHash_iff:
  "IsPayToScriptHash s \<longleftrightarrow>
     (\<exists>h. length h = Ripemd160Size \<and> s = assemble [Op OPHASH160, Push h, Op OPEQUAL])"
proof
  assume A: "IsPayToScriptHash s"
  then have len: "length s = 23"
    by (simp add: IsPayToScriptHash_def p2SHScriptLen_def split: if_splits)
  let ?h = "take 20 (drop 2 s)"
  have "s = [s ! 0, s ! 1] @ ?h @ [s ! 22]"
    using len by (intro nth_equalityI) (auto simp: nth_append nth_Cons' less_Suc_eq numeral_eq_Suc)
  with A len have "s = assemble [Op OPHASH160, Push ?h, Op OPEQUAL]"
    by (simp add: item_bytes_small IsPayToScriptHash_def p2SHScriptLen_def Ripemd160Size_def
        del: item_bytes.simps(1))
  with len show "\<exists>h. length h = Ripemd160Size \<and> s = assemble [Op OPHASH160, Push h, Op OPEQUAL]"
    by (intro exI [of _ ?h]) (simp add: Ripemd160Size_def)
next
  assume "\<exists>h. length h = Ripemd160Size \<and> s = assemble [Op OPHASH160, Push h, Op OPEQUAL]"
  then show "IsPayToScriptHash s"
    by (auto simp: item_bytes_small IsPayToScriptHash_def p2SHScriptLen_def Ripemd160Size_def
        nth_append simp del: item_bytes.simps(1))
qed

section \<open>Reading the items back\<close>

text \<open>The byte offset at which item \<open>k\<close> of a script starts.\<close>

definition item_pc :: "item list \<Rightarrow> nat \<Rightarrow> nat" where
  "item_pc is k = length (assemble (take k is))"

lemma item_pc_0 [simp]: "item_pc is 0 = 0"
  by (simp add: item_pc_def)

lemma getNthOp_items:
  assumes "list_all item_ok is" and "k + n < length is"
  shows "getNthOp (assemble is) (item_pc is k) n =
    (item_code (is ! (k + n)), item_operand (is ! (k + n)), item_pc is (Suc (k + n)), None)"
proof -
  have s: "assemble is = assemble (take k is) @ assemble (drop k is) @ []"
    by (simp flip: assemble_append)
  have ok: "list_all item_ok (drop k is)"
    using assms(1) by (auto simp: list_all_iff dest: in_set_dropD)
  have "take k is @ take (Suc n) (drop k is) = take (Suc (k + n)) is"
    by (metis add_Suc_right take_add)
  then have "length (assemble (take k is)) + length (assemble (take (Suc n) (drop k is)))
      = item_pc is (Suc (k + n))"
    by (simp add: item_pc_def flip: assemble_append length_append)
  then show ?thesis
    using getNthOp_assemble [OF ok, of n "assemble (take k is)" "[]"] assms(2)
    by (subst s) (simp add: item_pc_def)
qed

lemma getNthOp_items_end:
  assumes "list_all item_ok is" and "k \<le> length is" and "length is \<le> k + n"
  shows "getNthOp (assemble is) (item_pc is k) n = (0, None, 0, Some ErrScriptBound)"
proof -
  have s: "assemble is = assemble (take k is) @ assemble (drop k is)"
    by (simp flip: assemble_append)
  have ok: "list_all item_ok (drop k is)"
    using assms(1) by (auto simp: list_all_iff dest: in_set_dropD)
  show ?thesis
    using getNthOp_end [OF ok, of n "assemble (take k is)"] assms(2,3)
    by (subst s) (simp add: item_pc_def)
qed

declare getNthOp.simps [simp del]

lemma getNthOp_reads:
  assumes "list_all item_ok is" and "is ! j = i" and "j < length is" and "j = k + n" and "j' = Suc j"
  shows "getNthOp (assemble is) (item_pc is k) n = (item_code i, item_operand i, item_pc is j', None)"
  using getNthOp_items [of "is" k n] assms by simp

lemmas getNthOp_reads_first = getNthOp_reads [where k = 0, simplified]

lemma item_ok_small: "length d < 76 \<Longrightarrow> item_ok (Push d)"
  by simp

lemma copy_at_addr: "length h = Ripemd160Size \<Longrightarrow> copy_at ZeroAddressHash 0 h = h"
  by (simp add: copy_at_def ZeroAddressHash_def)

subsection \<open>Contracts\<close>

lemma contract_items_ok:
  "length frm = Ripemd160Size \<Longrightarrow> length to = Ripemd160Size \<Longrightarrow>
     list_all item_ok (contract_items frm to nonce gas ver)"
  by (simp add: contract_items_def Ripemd160Size_def)

lemma contract_items_nth:
  "length (contract_items frm to nonce gas ver) = 6"
  "contract_items frm to nonce gas ver ! 0 = Op OPCONTRACT"
  "contract_items frm to nonce gas ver ! Suc 0 = Push frm"
  "contract_items frm to nonce gas ver ! 2 = Push to"
  "contract_items frm to nonce gas ver ! 3 = Push (le_put 8 nonce)"
  "contract_items frm to nonce gas ver ! 4 = Push (le_put 8 gas)"
  "contract_items frm to nonce gas ver ! 5 = Push (le_put 4 ver)"
  by (simp_all add: contract_items_def)

lemma contract_items_parse:
  assumes "length frm = Ripemd160Size" and "length to = Ripemd160Size"
  shows "ParseContractParams (assemble (contract_items frm to nonce gas ver)) =
    Inr (\<lparr>GasLimit = gas, Nonce = nonce, VmVersion = ver, From = frm, To = to\<rparr>,
         if to = ZeroAddressHash then ContractCreationType else ContractCallType)"
proof -
  define js where "js = contract_items frm to nonce gas ver"
  note ok = contract_items_ok [OF assms, of nonce gas ver, folded js_def]
  note nth = contract_items_nth [of frm to nonce gas ver, folded js_def]
  have ops:
    "getNthOp (assemble js) (item_pc js 0) 0 = (item_code (Op OPCONTRACT), item_operand (Op OPCONTRACT), item_pc js 1, None)"
    "getNthOp (assemble js) (item_pc js 1) 0 = (item_code (Push frm), item_operand (Push frm), item_pc js 2, None)"
    "getNthOp (assemble js) (item_pc js 2) 0 = (item_code (Push to), item_operand (Push to), item_pc js 3, None)"
    "getNthOp (assemble js) (item_pc js 3) 0 =
       (item_code (Push (le_put 8 nonce)), item_operand (Push (le_put 8 nonce)), item_pc js 4, None)"
    "getNthOp (assemble js) (item_pc js 4) 0 =
       (item_code (Push (le_put 8 gas)), item_operand (Push (le_put 8 gas)), item_pc js 5, None)"
    "getNthOp (assemble js) (item_pc js 5) 0 =
       (item_code (Push (le_put 4 ver)), item_operand (Push (le_put 4 ver)), item_pc js 6, None)"
    "getNthOp (assemble js) (item_pc js 6) 0 = (0, None, 0, Some ErrScriptBound)"
    by - ((rule getNthOp_reads [OF ok nth(2)] getNthOp_reads [OF ok nth(3)]
          getNthOp_reads [OF ok nth(4)] getNthOp_reads [OF ok nth(5)] getNthOp_reads [OF ok nth(6)]
          getNthOp_reads [OF ok nth(7)] getNthOp_items_end [OF ok]; simp add: nth)+)
  show ?thesis
    by (simp add: ParseContractParams_def readUint64_def readUint32_def ops [simplified] assms
        copy_at_addr ZeroContractAddress_def flip: js_def)
qed

lemma drop_cut: "drop n xs = take k (drop n xs) @ drop (n + k) xs"
  by (metis append_take_drop_id drop_drop add.commute)

lemma drop_nth: "n < length xs \<Longrightarrow> drop n xs = xs ! n # drop (n + 1) xs"
  by (simp add: Cons_nth_drop_Suc)

lemma IsContractPubkey_iff:
  "IsContractPubkey s \<longleftrightarrow>
     (\<exists>frm to nonce gas ver. length frm = Ripemd160Size \<and> length to = Ripemd160Size \<and>
        s = assemble (contract_items frm to nonce gas ver))"
proof
  assume A: "IsContractPubkey s"
  then have len: "length s = 66"
    by (simp add: IsContractPubkey_def split: if_splits)
  have b: "s ! 0 = OPCONTRACT" "s ! 1 = 20" "s ! 22 = 20" "s ! 43 = 8" "s ! 52 = 8" "s ! 61 = 4"
    using A by (auto simp: IsContractPubkey_def Ripemd160Size_def split: if_splits)
  have "s = [s ! 0, s ! 1] @ take 20 (drop 2 s) @ [s ! 22] @ take 20 (drop 23 s) @ [s ! 43]
      @ take 8 (drop 44 s) @ [s ! 52] @ take 8 (drop 53 s) @ [s ! 61] @ take 4 (drop 62 s)"
  proof -
    have "s = s ! 0 # s ! 1 # drop 2 s"
      using len drop_nth [of 0 s] drop_nth [of 1 s] by (simp add: numeral_2_eq_2)
    moreover have "drop 2 s = take 20 (drop 2 s) @ s ! 22 # drop 23 s"
      using len drop_cut [of 2 s 20] drop_nth [of 22 s] by simp
    moreover have "drop 23 s = take 20 (drop 23 s) @ s ! 43 # drop 44 s"
      using len drop_cut [of 23 s 20] drop_nth [of 43 s] by simp
    moreover have "drop 44 s = take 8 (drop 44 s) @ s ! 52 # drop 53 s"
      using len drop_cut [of 44 s 8] drop_nth [of 52 s] by simp
    moreover have "drop 53 s = take 8 (drop 53 s) @ s ! 61 # take 4 (drop 62 s)"
      using len drop_cut [of 53 s 8] drop_nth [of 61 s] by simp
    ultimately show ?thesis
      by (metis append_Cons append_Nil)
  qed
  moreover have "le_put 8 (le_get (take 8 (drop n s)) :: u64) = take 8 (drop n s)" if "n + 8 \<le> 66" for n
    using that len le_put_le_get [of "take 8 (drop n s)", where 'a = 64] by simp
  moreover have "le_put 4 (le_get (take 4 (drop 62 s)) :: 32 word) = take 4 (drop 62 s)"
    using len le_put_le_get [of "take 4 (drop 62 s)", where 'a = 32] by simp
  ultimately have "s = assemble (contract_items (take 20 (drop 2 s)) (take 20 (drop 23 s))
      (le_get (take 8 (drop 44 s))) (le_get (take 8 (drop 53 s))) (le_get (take 4 (drop 62 s))))"
    using len b
    by (simp add: contract_items_def item_bytes_small del: item_bytes.simps(1))
  with len show "\<exists>frm to nonce gas ver. length frm = Ripemd160Size \<and> length to = Ripemd160Size \<and>
        s = assemble (contract_items frm to nonce gas ver)"
    by (intro exI conjI) (auto simp: Ripemd160Size_def)
next
  assume "\<exists>frm to nonce gas ver. length frm = Ripemd160Size \<and> length to = Ripemd160Size \<and>
        s = assemble (contract_items frm to nonce gas ver)"
  then show "IsContractPubkey s"
    by (auto simp: contract_items_def item_bytes_small IsContractPubkey_def Ripemd160Size_def nth_append
        simp del: item_bytes.simps(1))
qed

subsection \<open>Tokens\<close>

definition p2pkh_item_list :: "bytes \<Rightarrow> item list" where
  "p2pkh_item_list h = [Op OPDUP, Op OPHASH160, Push h, Op OPEQUALVERIFY, Op OPCHECKSIG]"

lemma issue_items_ok:
  "length (Name p) \<le> 0xffff \<Longrightarrow> length (Symbol p) \<le> 0xffff \<Longrightarrow> list_all item_ok (issue_items p)"
  by (simp add: issue_items_def)

lemma transfer_items_ok: "hash_wf (Hash (TokenID p)) \<Longrightarrow> list_all item_ok (transfer_items p)"
  by (simp add: transfer_items_def hash_wf_def HashSize_def)

lemma issue_script_parse:
  assumes "length h = Ripemd160Size" and "length (Name p) \<le> 0xffff" and "length (Symbol p) \<le> 0xffff"
  shows "GetIssueParams (IssueTokenScript h p) = Inr p"
proof -
  define js where "js = p2pkh_item_list h @ issue_items p"
  have ok: "list_all item_ok js"
    using assms issue_items_ok [of p] by (simp add: js_def p2pkh_item_list_def Ripemd160Size_def)
  have len: "length js = 21" by (simp add: js_def p2pkh_item_list_def issue_items_def)
  have s: "IssueTokenScript h p = assemble js"
    by (simp add: issue_script_items p2pkh_items js_def p2pkh_item_list_def)
  have nth: "js ! 7 = Push (Name p)" "js ! 11 = Push (Symbol p)"
    "js ! 15 = Push (le_put 8 (TotalSupply p))" "js ! 19 = Push [Decimals p]"
    by (simp_all add: js_def p2pkh_item_list_def issue_items_def)
  have ops:
    "getNthOp (assemble js) (item_pc js 0) 7 =
      (item_code (Push (Name p)), item_operand (Push (Name p)), item_pc js 8, None)"
    "getNthOp (assemble js) (item_pc js 8) 3 =
      (item_code (Push (Symbol p)), item_operand (Push (Symbol p)), item_pc js 12, None)"
    "getNthOp (assemble js) (item_pc js 12) 3 =
      (item_code (Push (le_put 8 (TotalSupply p))), item_operand (Push (le_put 8 (TotalSupply p))), item_pc js 16, None)"
    "getNthOp (assemble js) (item_pc js 16) 3 =
      (item_code (Push [Decimals p]), item_operand (Push [Decimals p]), item_pc js 20, None)"
    by - ((rule getNthOp_reads [OF ok nth(1)] getNthOp_reads [OF ok nth(2)]
        getNthOp_reads [OF ok nth(3)] getNthOp_reads [OF ok nth(4)]; simp add: len)+)
  show ?thesis
    by (simp add: s GetIssueParams_def ops [simplified] slice_u64_def)
qed

lemma transfer_script_parse:
  assumes "length h = Ripemd160Size" and "hash_wf (Hash (TokenID p))"
  shows "GetTransferParams (TransferTokenScript h p) = Inr p"
proof -
  define js where "js = p2pkh_item_list h @ transfer_items p"
  have ok: "list_all item_ok js"
    using assms transfer_items_ok [of p] by (simp add: js_def p2pkh_item_list_def Ripemd160Size_def)
  have len: "length js = 17" by (simp add: js_def p2pkh_item_list_def transfer_items_def)
  have s: "TransferTokenScript h p = assemble js"
    by (simp add: transfer_script_items p2pkh_items js_def p2pkh_item_list_def)
  have nth: "js ! 7 = Push (Hash (TokenID p))" "js ! 11 = Push (le_put 4 (Index (TokenID p)))"
    "js ! 15 = Push (le_put 8 (Amount p))"
    by (simp_all add: js_def p2pkh_item_list_def transfer_items_def)
  have ops:
    "getNthOp (assemble js) (item_pc js 0) 7 =
      (item_code (Push (Hash (TokenID p))), item_operand (Push (Hash (TokenID p))), item_pc js 8, None)"
    "getNthOp (assemble js) (item_pc js 8) 3 =
      (item_code (Push (le_put 4 (Index (TokenID p)))), item_operand (Push (le_put 4 (Index (TokenID p)))),
       item_pc js 12, None)"
    "getNthOp (assemble js) (item_pc js 12) 3 =
      (item_code (Push (le_put 8 (Amount p))), item_operand (Push (le_put 8 (Amount p))), item_pc js 16, None)"
    by - ((rule getNthOp_reads [OF ok nth(1)] getNthOp_reads [OF ok nth(2)]
        getNthOp_reads [OF ok nth(3)]; simp add: len)+)
  show ?thesis
    using assms(2)
    by (simp add: s GetTransferParams_def ops [simplified] slice_u64_def slice_u32_def hash_wf_def)
qed

lemma token_params_parse:
  "list_all item_ok is \<Longrightarrow> parse (assemble is) = map item_element is"
  using parse_from_assemble [of "is" "[]"] by (simp add: parse_def)

lemma p2pkh_prefix:
  assumes "length h = Ripemd160Size"
  shows "take p2PKHScriptLen (PayToPubKeyHashScript h @ r) = PayToPubKeyHashScript h"
    "drop p2PKHScriptLen (PayToPubKeyHashScript h @ r) = r"
    "IsPayToPubKeyHash (PayToPubKeyHashScript h @ r) \<longleftrightarrow> r = []"
  using length_p2pkh [OF assms] assms IsPayToPubKeyHash_iff [of "PayToPubKeyHashScript h"]
  by (auto simp: IsPayToPubKeyHash_def)

lemma IsTokenIssue_script:
  assumes "length h = Ripemd160Size" and "length (Name p) \<le> 0xffff" and "length (Symbol p) \<le> 0xffff"
  shows "IsTokenIssue (IssueTokenScript h p)" "\<not> IsTokenTransfer (IssueTokenScript h p)"
  using assms length_p2pkh [OF assms(1)] p2pkh_prefix [OF assms(1)] p2pkh_prefix(3) [OF assms(1), of "[]"]
  by (simp_all add: IsTokenIssue_def IsTokenTransfer_def issue_script_items
      token_params_parse [OF issue_items_ok] Let_def)
    (simp_all add: issue_items_def toOperand_def)

lemma IsTokenTransfer_script:
  assumes "length h = Ripemd160Size" and "hash_wf (Hash (TokenID p))"
  shows "IsTokenTransfer (TransferTokenScript h p)"
  using assms length_p2pkh [OF assms(1)] p2pkh_prefix [OF assms(1)] p2pkh_prefix(3) [OF assms(1), of "[]"]
  by (simp add: IsTokenTransfer_def transfer_script_items
      token_params_parse [OF transfer_items_ok] Let_def)
    (simp add: transfer_items_def toOperand_def)

subsection \<open>Split addresses\<close>

definition split_head :: "bytes \<Rightarrow> item list" where
  "split_head hash = [Op OPRETURN, Push [], Push hash]"

lemma OP0_item: "item_bytes (Op OP0) = item_bytes (Push [])"
  by (simp add: OP0_def AddOperand_def OPPUSHDATA1_def)

lemma split_script_items:
  assumes "addrs \<noteq> []" and "length addrs = length weights" and "length addrs \<le> MaxSplitAddrs"
  shows "SplitAddrScript c addrs weights =
    Some (assemble (split_head (Hash160 c (assemble (pair_items (zip addrs weights))))
      @ pair_items (zip addrs weights)))"
  using assms
  by (auto simp add: SplitAddrScript_def Let_def split_pairs_append OP0_item split_head_def
      AddOperand_item AddOpCode_item AddScript_def simp del: item_bytes.simps)

lemma length_pair_items: "length (pair_items ps) = 2 * length ps"
  by (induction ps) (auto simp: pair_items_def)

lemma pair_items_ok:
  "\<forall>a\<in>set (map fst ps). length a = Ripemd160Size \<Longrightarrow> list_all item_ok (pair_items ps)"
  by (induction ps) (auto simp: pair_items_def Ripemd160Size_def)

lemma pair_items_nth:
  "m < length ps \<Longrightarrow> pair_items ps ! (2 * m) = Push (fst (ps ! m))"
  "m < length ps \<Longrightarrow> pair_items ps ! Suc (2 * m) = Push (le_put 4 (snd (ps ! m)))"
proof (induction ps arbitrary: m)
  case (Cons p ps)
  {
    case 1
    with Cons.IH(1) [of "m - 1"] show ?case
      by (cases m; cases p) (auto simp: pair_items_def)
  next
    case 2
    with Cons.IH(2) [of "m - 1"] show ?case
      by (cases m; cases p) (auto simp: pair_items_def)
  }
qed simp_all

lemma split_loop_pairs:
  fixes hd ps
  defines "js \<equiv> hd @ pair_items ps"
  assumes hd: "length hd = 3" "list_all item_ok hd"
    and addrs: "\<forall>a\<in>set (map fst ps). length a = Ripemd160Size"
  shows "m \<le> length ps \<Longrightarrow>
    split_loop (assemble js) (item_pc js 3) (2 * m) as ws =
      Inr (as @ map fst (drop m ps), ws @ map snd (drop m ps))"
proof (induction "length ps - m" arbitrary: m as ws)
  case 0
  have ok: "list_all item_ok js" using hd pair_items_ok [OF addrs] by (simp add: js_def)
  from 0 have "length js \<le> 3 + 2 * m" "3 \<le> length js" by (simp_all add: js_def hd length_pair_items)
  with 0 getNthOp_items_end [OF ok this(2,1)] show ?case
    by (simp add: split_loop.simps)
next
  case (Suc x)
  have ok: "list_all item_ok js" using hd pair_items_ok [OF addrs] by (simp add: js_def)
  from Suc have m: "m < length ps" by simp
  have nth: "js ! (3 + 2 * m) = Push (fst (ps ! m))" "js ! (3 + Suc (2 * m)) = Push (le_put 4 (snd (ps ! m)))"
    using pair_items_nth [OF m] hd by (simp_all add: js_def nth_append)
  have len: "3 + Suc (2 * m) < length js" using m by (simp add: js_def hd length_pair_items)
  have a: "length (fst (ps ! m)) = Ripemd160Size" using addrs m by (simp add: nth_mem)
  have "getNthOp (assemble js) (item_pc js 3) (2 * m) =
      (item_code (Push (fst (ps ! m))), Some (fst (ps ! m)), item_pc js (Suc (3 + 2 * m)), None)"
    using getNthOp_items [OF ok, of 3 "2 * m"] len nth by simp
  moreover have "getNthOp (assemble js) (item_pc js 3) (Suc (2 * m)) =
      (item_code (Push (le_put 4 (snd (ps ! m)))), Some (le_put 4 (snd (ps ! m))),
       item_pc js (Suc (3 + Suc (2 * m))), None)"
    using getNthOp_items [OF ok, of 3 "Suc (2 * m)"] len nth by simp
  moreover have "split_loop (assemble js) (item_pc js 3) (Suc (Suc (2 * m)))
      (as @ [fst (ps ! m)]) (ws @ [snd (ps ! m)]) =
      Inr (as @ map fst (drop m ps), ws @ map snd (drop m ps))"
    using Suc.hyps(1) [of "Suc m" "as @ [fst (ps ! m)]" "ws @ [snd (ps ! m)]"] Suc.hyps(2) m
    by (simp add: Cons_nth_drop_Suc [symmetric, of m ps])
  ultimately show ?case
    by (subst split_loop.simps, simp add: NewAddressPubKeyHash_def a copy_at_addr)
      (subst split_loop.simps, simp)
qed

lemma split_script_parse:
  assumes "addrs \<noteq> []" and len: "length addrs = length weights" and "length addrs \<le> MaxSplitAddrs"
    and addrs: "\<forall>a\<in>set addrs. length a = Ripemd160Size"
    and ripemd: "\<forall>b. length (ripemd160 c b) = Ripemd160Size"
  shows "\<exists>s. SplitAddrScript c addrs weights = Some s \<and> ParseSplitAddrScript c s = Inr (addrs, weights)"
proof -
  let ?ps = "zip addrs weights"
  let ?h = "Hash160 c (assemble (pair_items ?ps))"
  define js where "js = split_head ?h @ pair_items ?ps"
  have h: "length ?h = Ripemd160Size" by (simp add: Hash160_def ripemd)
  have hd: "length (split_head ?h) = 3" "list_all item_ok (split_head ?h)"
    using h by (simp_all add: split_head_def Ripemd160Size_def)
  have fst_ps: "map fst ?ps = addrs" "map snd ?ps = weights" using len by simp_all
  have ok: "list_all item_ok js"
    using hd(2) pair_items_ok [of ?ps] addrs fst_ps by (simp add: js_def)
  have nth: "js ! 0 = Op OPRETURN" "js ! 1 = Push []" "js ! 2 = Push ?h"
    by (simp_all add: js_def split_head_def)
  have ops:
    "getNthOp (assemble js) (item_pc js 0) 0 =
       (item_code (Op OPRETURN), item_operand (Op OPRETURN), item_pc js 1, None)"
    "getNthOp (assemble js) (item_pc js 1) 0 =
       (item_code (Push []), item_operand (Push []), item_pc js 2, None)"
    "getNthOp (assemble js) (item_pc js 2) 0 =
       (item_code (Push ?h), item_operand (Push ?h), item_pc js 3, None)"
    by - ((rule getNthOp_reads [OF ok nth(1)] getNthOp_reads [OF ok nth(2)]
        getNthOp_reads [OF ok nth(3)]; simp add: js_def split_head_def)+)
  have "item_code (Push []) = OP0"
    by (simp add: item_code_def AddOperand_def OP0_def OPPUSHDATA1_def)
  moreover have "split_loop (assemble js) (item_pc js 3) 0 [] [] = Inr (addrs, weights)"
    using split_loop_pairs [OF hd, of ?ps 0 "[]" "[]"] addrs fst_ps by (simp add: js_def)
  ultimately have "ParseSplitAddrScript c (assemble js) = Inr (addrs, weights)"
    using assms(3) len h
    by (simp add: ParseSplitAddrScript_def ops [simplified] split_pairs_append)
  with split_script_items [OF assms(1-3), of c] show ?thesis by (simp add: js_def)
qed

lemma pair_items_Cons_bytes:
  "length a = Ripemd160Size \<Longrightarrow>
     assemble (pair_items ((a, w) # ps)) = 20 # a @ 4 # le_put 4 w @ assemble (pair_items ps)"
  by (simp add: pair_items_def item_bytes_small Ripemd160Size_def del: item_bytes.simps(1))

lemma length_assemble_pairs:
  "\<forall>a\<in>set (map fst ps). length a = Ripemd160Size \<Longrightarrow> length (assemble (pair_items ps)) = 26 * length ps"
proof (induction ps)
  case Nil
  then show ?case by (simp add: pair_items_def)
next
  case (Cons p ps)
  then show ?case
    by (cases p) (simp add: pair_items_Cons_bytes, simp add: Ripemd160Size_def)
qed

lemma split_chunks_ok_pairs:
  assumes "\<forall>a\<in>set (map fst ps). length a = Ripemd160Size" and "length pre = 23 + 26 * k"
  shows "split_chunks_ok (pre @ assemble (pair_items ps)) (length pre) \<longleftrightarrow>
    ps = [] \<or> k + length ps < MaxSplitAddrs \<or> MaxSplitAddrs \<le> k"
  using assms
proof (induction ps arbitrary: pre k)
  case Nil
  then show ?case by (simp add: pair_items_def split_chunks_ok.simps)
next
  case (Cons p ps)
  obtain a w where p: "p = (a, w)" by (cases p)
  with Cons.prems have a: "length a = Ripemd160Size" by simp
  let ?pre = "pre @ 20 # a @ 4 # le_put 4 w"
  have len: "length ?pre = 23 + 26 * Suc k"
    using Cons.prems a by (simp add: Ripemd160Size_def)
  have s: "pre @ assemble (pair_items (p # ps)) = ?pre @ assemble (pair_items ps)"
    by (simp add: p pair_items_Cons_bytes [OF a])
  let ?ss = "?pre @ assemble (pair_items ps)"
  have "(length pre + 26) div 26 = Suc k" using Cons.prems(2) by simp
  moreover have "length pre + 26 = length ?pre" using a by (simp add: Ripemd160Size_def)
  moreover have "?ss ! length pre = of_nat Ripemd160Size" "?ss ! (length pre + 21) = 4"
    using a by (simp_all add: nth_append Ripemd160Size_def)
  moreover have "length pre < length ?ss" by simp
  ultimately have "split_chunks_ok ?ss (length pre) \<longleftrightarrow>
      Suc k \<noteq> MaxSplitAddrs \<and> split_chunks_ok ?ss (length ?pre)"
    by (subst split_chunks_ok.simps) (simp only: if_True simp_thms not_True_eq_False if_False split: if_split, blast)
  moreover have "\<forall>a\<in>set (map fst ps). length a = Ripemd160Size" using Cons.prems(1) by simp
  note Cons.IH [OF this len]
  ultimately show ?case
    unfolding s by (cases ps) (auto simp: MaxSplitAddrs_def)
qed

lemma split_script_bytes:
  assumes "length hash = Ripemd160Size"
  shows "assemble (split_head hash @ is) = (OPRETURN # OP0 # 20 # hash) @ assemble is"
  using assms
  by (simp add: split_head_def item_bytes_small Ripemd160Size_def OP0_def del: item_bytes.simps(1))

lemma IsSplitAddrScript_pairs:
  assumes "length hash = Ripemd160Size" and "\<forall>a\<in>set (map fst ps). length a = Ripemd160Size"
  shows "IsSplitAddrScript (assemble (split_head hash @ pair_items ps)) \<longleftrightarrow>
    0 < length ps \<and> length ps < MaxSplitAddrs"
proof -
  let ?pre = "OPRETURN # OP0 # 20 # hash"
  have "length ?pre = 23 + 26 * 0" using assms(1) by (simp add: Ripemd160Size_def)
  from split_chunks_ok_pairs [OF assms(2) this] length_assemble_pairs [OF assms(2)] this assms(1)
  show ?thesis
    unfolding split_script_bytes [OF assms(1)] IsSplitAddrScript_def
    by (auto simp: Ripemd160Size_def MaxSplitAddrs_def)
qed

text \<open>Conversely, a recognised script whose hash push is direct has the builder's shape.\<close>

lemma split_chunks_shape:
  assumes "split_chunks_ok ss i" and "length ss - i = 26 * n" and "i \<le> length ss"
  shows "\<exists>ps. length ps = n \<and> (\<forall>a\<in>set (map fst ps). length a = Ripemd160Size) \<and>
    drop i ss = assemble (pair_items ps)"
  using assms
proof (induction n arbitrary: i)
  case 0
  then show ?case by (intro exI [of _ "[]"]) (simp add: pair_items_def)
next
  case (Suc n)
  then have i: "i < length ss" "i + 26 \<le> length ss" by simp_all
  from Suc.prems(1) i have c: "ss ! i = 20" "ss ! (i + 21) = 4" "split_chunks_ok ss (i + 26)"
    by (simp_all add: split_chunks_ok.simps [of ss i] Ripemd160Size_def split: if_splits)
  have n: "length ss - (i + 26) = 26 * n" using Suc.prems(2) by simp
  from Suc.IH [OF c(3) n i(2)] obtain ps where ps: "length ps = n"
    "\<forall>a\<in>set (map fst ps). length a = Ripemd160Size" "drop (i + 26) ss = assemble (pair_items ps)"
    by blast
  let ?a = "take 20 (drop (i + 1) ss)" and ?w = "take 4 (drop (i + 22) ss)"
  have a: "length ?a = Ripemd160Size" using i by (simp add: Ripemd160Size_def)
  have w: "le_put 4 (le_get ?w :: u32) = ?w"
    using le_put_le_get [of ?w, where 'a = 32] i by simp
  have "drop i ss = 20 # drop (i + 1) ss" using drop_nth [OF i(1)] c by simp
  also have "drop (i + 1) ss = ?a @ drop (i + 21) ss" using drop_cut [of "i + 1" ss 20] by (simp add: add.commute)
  also have "drop (i + 21) ss = 4 # drop (i + 22) ss" using drop_nth [of "i + 21" ss] c i by (simp add: add.commute)
  also have "drop (i + 22) ss = ?w @ drop (i + 26) ss" using drop_cut [of "i + 22" ss 4] by (simp add: add.commute)
  finally have "drop i ss = assemble (pair_items ((?a, le_get ?w) # ps))"
    unfolding pair_items_Cons_bytes [OF a] ps(3) [symmetric] w .
  with ps a show ?case
    by (intro exI [of _ "(?a, le_get ?w) # ps"]) simp
qed

lemma IsSplitAddrScript_shape:
  assumes "IsSplitAddrScript ss" and "ss ! 2 = 20"
  shows "\<exists>hash ps. length hash = Ripemd160Size \<and> 
    (\<forall>a\<in>set (map fst ps). length a = Ripemd160Size) \<and>
    ss = assemble (split_head hash @ pair_items ps)"
proof -
  from assms(1) have len: "49 \<le> length ss" and md: "(length ss - 23) mod 26 = 0"
    and b: "ss ! 0 = OPRETURN" "ss ! 1 = OP0" and ok: "split_chunks_ok ss 23"
    by (auto simp: IsSplitAddrScript_def split: if_splits)
  from md obtain n where "length ss - 23 = 26 * n" by blast
  from split_chunks_shape [OF ok this] len obtain ps where ps:
    "\<forall>a\<in>set (map fst ps). length a = Ripemd160Size" "drop 23 ss = assemble (pair_items ps)"
    by auto
  let ?h = "take 20 (drop 3 ss)"
  have h: "length ?h = Ripemd160Size" using len by (simp add: Ripemd160Size_def)
  have l3: "0 < length ss" "1 < length ss" "2 < length ss" using len by linarith+
  have "ss = ss ! 0 # ss ! 1 # ss ! 2 # drop 3 ss"
    using drop_nth [of 0 ss] drop_nth [of 1 ss] drop_nth [of 2 ss] l3
    by (simp add: numeral_3_eq_3 numeral_2_eq_2)
  also have "drop 3 ss = ?h @ drop 23 ss" using drop_cut [of 3 ss 20] by simp
  finally have "ss = assemble (split_head ?h @ pair_items ps)"
    unfolding split_script_bytes [OF h] ps(2) [symmetric] using b assms(2) by simp
  with h ps show ?thesis by blast
qed

lemma split_parse_no_panic:
  assumes "IsSplitAddrScript ss" and "ss ! 2 = 20"
  shows "ParseSplitAddrScript c ss \<noteq> Inl Panic"
proof -
  from IsSplitAddrScript_shape [OF assms] obtain hash ps where h: "length hash = Ripemd160Size"
    and ps: "\<forall>a\<in>set (map fst ps). length a = Ripemd160Size"
    and ss: "ss = assemble (split_head hash @ pair_items ps)" by blast
  define js where "js = split_head hash @ pair_items ps"
  have hd: "length (split_head hash) = 3" "list_all item_ok (split_head hash)"
    using h by (simp_all add: split_head_def Ripemd160Size_def)
  have ok: "list_all item_ok js" using hd(2) pair_items_ok [OF ps] by (simp add: js_def)
  have nth: "js ! 0 = Op OPRETURN" "js ! 1 = Push []" "js ! 2 = Push hash"
    by (simp_all add: js_def split_head_def)
  have ops:
    "getNthOp (assemble js) (item_pc js 0) 0 =
       (item_code (Op OPRETURN), item_operand (Op OPRETURN), item_pc js 1, None)"
    "getNthOp (assemble js) (item_pc js 1) 0 =
       (item_code (Push []), item_operand (Push []), item_pc js 2, None)"
    "getNthOp (assemble js) (item_pc js 2) 0 =
       (item_code (Push hash), item_operand (Push hash), item_pc js 3, None)"
    by - ((rule getNthOp_reads [OF ok nth(1)] getNthOp_reads [OF ok nth(2)]
        getNthOp_reads [OF ok nth(3)]; simp add: js_def split_head_def)+)
  have "split_loop (assemble js) (item_pc js 3) 0 [] [] = Inr (map fst ps, map snd ps)"
    using split_loop_pairs [OF hd ps, of 0 "[]" "[]"] by (simp add: js_def)
  then show ?thesis
    unfolding ss js_def [symmetric]
    by (simp add: ParseSplitAddrScript_def ops [simplified])
qed

subsection \<open>Classification\<close>

lemma not_p2pkh_first:
  "s ! 0 \<noteq> OPDUP \<Longrightarrow> \<not> IsPayToPubKeyHash s \<and> \<not> IsTokenTransfer s \<and> \<not> IsTokenIssue s"
  by (auto simp: IsPayToPubKeyHash_def IsTokenTransfer_def IsTokenIssue_def p2PKHScriptLen_def)

lemma extract_p2pkh_prefix:
  assumes "length h = Ripemd160Size"
  shows "getNthOp (PayToPubKeyHashScript h @ r) 2 0 = (20, Some h, 23, None)"
  using getNthOp_assemble [of "[Push h]" 0 "[OPDUP, OPHASH160]" "OPEQUALVERIFY # OPCHECKSIG # r"] assms
  by (simp add: p2pkh_items item_code_def item_bytes_small Ripemd160Size_def numeral_2_eq_2
      del: item_bytes.simps(1))

lemma new_address_ok:
  "length h = Ripemd160Size \<Longrightarrow> NewAddressPubKeyHash h = Inr (AddressPubKeyHash h)"
  "length h = Ripemd160Size \<Longrightarrow> NewSplitAddressFromHash h = Inr (AddressTypeSplit h)"
  "length h = Ripemd160Size \<Longrightarrow> NewContractAddressFromHash h = Inr (AddressContract h)"
  by (simp_all add: NewAddressPubKeyHash_def NewSplitAddressFromHash_def NewContractAddressFromHash_def
      copy_at_addr)

lemma p2pkh_class:
  assumes "length h = Ripemd160Size"
  shows "pubkType (PayToPubKeyHashScript h) = PayToPubk"
    "ExtractAddress (PayToPubKeyHashScript h) = Inr (Some (AddressPubKeyHash h))"
  using assms extract_p2pkh_prefix [of h "[]"] p2pkh_prefix(3) [of h "[]"]
  by (simp_all add: pubkType_def ExtractAddress_def new_address_ok)

lemma issue_class:
  assumes "length h = Ripemd160Size" and "length (Name p) \<le> 0xffff" and "length (Symbol p) \<le> 0xffff"
  shows "pubkType (IssueTokenScript h p) = TokenIssuePubk"
    "ExtractAddress (IssueTokenScript h p) = Inr (Some (AddressPubKeyHash h))"
proof -
  have "\<not> IsPayToPubKeyHash (IssueTokenScript h p)"
    using p2pkh_prefix(3) [OF assms(1)] by (simp add: issue_script_items) (simp add: issue_items_def)
  with IsTokenIssue_script [OF assms] show "pubkType (IssueTokenScript h p) = TokenIssuePubk"
    by (simp add: pubkType_def)
  then show "ExtractAddress (IssueTokenScript h p) = Inr (Some (AddressPubKeyHash h))"
    using extract_p2pkh_prefix [OF assms(1)]
    by (simp add: ExtractAddress_def issue_script_items new_address_ok assms(1))
qed

lemma transfer_class:
  assumes "length h = Ripemd160Size" and "hash_wf (Hash (TokenID p))"
  shows "pubkType (TransferTokenScript h p) = TokenTransferPubk"
    "ExtractAddress (TransferTokenScript h p) = Inr (Some (AddressPubKeyHash h))"
proof -
  have "\<not> IsPayToPubKeyHash (TransferTokenScript h p)"
    using p2pkh_prefix(3) [OF assms(1)] by (simp add: transfer_script_items) (simp add: transfer_items_def)
  with IsTokenTransfer_script [OF assms] show "pubkType (TransferTokenScript h p) = TokenTransferPubk"
    by (simp add: pubkType_def)
  then show "ExtractAddress (TransferTokenScript h p) = Inr (Some (AddressPubKeyHash h))"
    using extract_p2pkh_prefix [OF assms(1)]
    by (simp add: ExtractAddress_def transfer_script_items new_address_ok assms(1))
qed

lemma contract_class:
  assumes "length frm = Ripemd160Size" and "length to = Ripemd160Size"
  shows "pubkType (assemble (contract_items frm to nonce gas ver)) = ContractPubk"
    "ExtractAddress (assemble (contract_items frm to nonce gas ver)) =
      Inr (if to = ZeroAddressHash then None else Some (AddressContract to))"
proof -
  define js where "js = contract_items frm to nonce gas ver"
  have "assemble js ! 0 = OPCONTRACT" by (simp add: js_def contract_items_def)
  then have "\<not> IsPayToPubKeyHash (assemble js) \<and> \<not> IsTokenTransfer (assemble js) \<and> \<not> IsTokenIssue (assemble js)"
    by (intro not_p2pkh_first) (simp add: opcode_defs)
  moreover have "IsContractPubkey (assemble js)"
    using assms unfolding IsContractPubkey_iff js_def by blast
  ultimately show c: "pubkType (assemble (contract_items frm to nonce gas ver)) = ContractPubk"
    by (simp add: pubkType_def js_def)
  have pc: "item_pc js 2 = 22"
    using assms by (simp add: js_def contract_items_def item_pc_def numeral_2_eq_2 item_bytes_small
        Ripemd160Size_def del: item_bytes.simps(1))
  have "getNthOp (assemble js) (item_pc js 2) 0 =
      (item_code (Push to), item_operand (Push to), item_pc js 3, None)"
    by (rule getNthOp_reads [OF contract_items_ok [OF assms, of nonce gas ver, folded js_def], of 2])
      (simp_all add: js_def contract_items_def)
  then have "getNthOp (assemble js) 22 0 = (item_code (Push to), item_operand (Push to), item_pc js 3, None)"
    by (simp only: pc)
  with c show "ExtractAddress (assemble (contract_items frm to nonce gas ver)) =
      Inr (if to = ZeroAddressHash then None else Some (AddressContract to))"
    using assms by (simp add: ExtractAddress_def ParseContractAddr_def new_address_ok flip: js_def)
qed

lemma split_class:
  assumes "length hash = Ripemd160Size" and "\<forall>a\<in>set (map fst ps). length a = Ripemd160Size"
    and "0 < length ps" and "length ps < MaxSplitAddrs"
  shows "pubkType (assemble (split_head hash @ pair_items ps)) = SplitAddrPubk"
    "ExtractAddress (assemble (split_head hash @ pair_items ps)) = Inr (Some (AddressTypeSplit hash))"
proof -
  define s where "s = assemble (split_head hash @ pair_items ps)"
  have s: "s = [OPRETURN, OP0] @ assemble [Push hash] @ assemble (pair_items ps)"
    unfolding s_def split_script_bytes [OF assms(1)] using assms(1)
    by (simp add: item_bytes_small Ripemd160Size_def del: item_bytes.simps(1))
  then have "s ! 0 = OPRETURN" by simp
  moreover from this have "\<not> IsPayToPubKeyHash s \<and> \<not> IsTokenTransfer s \<and> \<not> IsTokenIssue s"
    by (intro not_p2pkh_first) (simp add: opcode_defs)
  moreover have "\<not> IsContractPubkey s"
    using \<open>s ! 0 = OPRETURN\<close> by (simp add: IsContractPubkey_def opcode_defs)
  moreover have "IsSplitAddrScript s"
    using IsSplitAddrScript_pairs [OF assms(1,2)] assms(3,4) by (simp add: s_def)
  ultimately show c: "pubkType (assemble (split_head hash @ pair_items ps)) = SplitAddrPubk"
    unfolding s_def [symmetric] by (simp add: pubkType_def)
  have "getNthOp s 2 0 = (item_code (Push hash), Some hash, 2 + length (item_bytes (Push hash)), None)"
    using getNthOp_assemble [of "[Push hash]" 0 "[OPRETURN, OP0]" "assemble (pair_items ps)"] assms(1) s
    by (simp add: Ripemd160Size_def numeral_2_eq_2 del: item_bytes.simps(1))
  with c show "ExtractAddress (assemble (split_head hash @ pair_items ps)) = Inr (Some (AddressTypeSplit hash))"
    unfolding s_def [symmetric] by (simp add: ExtractAddress_def new_address_ok assms(1))
qed

section \<open>Properties\<close>

text \<open>C12: The recognisers are exact. A script is classified as pay-to-pubkey-hash, as
  pay-to-script-hash or as a contract output precisely when it is the byte string of that
  template for some 20 byte hash(es) and, for contracts, some nonce, gas limit and version.\<close>

theorem recognisers_exact:
  "(IsPayToPubKeyHash s \<longleftrightarrow> (\<exists>h. length h = Ripemd160Size \<and> s = PayToPubKeyHashScript h)) \<and>
   (IsPayToScriptHash s \<longleftrightarrow>
      (\<exists>h. length h = Ripemd160Size \<and> s = assemble [Op OPHASH160, Push h, Op OPEQUAL])) \<and>
   (IsContractPubkey s \<longleftrightarrow>
      (\<exists>frm to nonce gas ver. length frm = Ripemd160Size \<and> length to = Ripemd160Size \<and>
         s = assemble (contract_items frm to nonce gas ver)))"
  using IsPayToPubKeyHash_iff IsPayToScriptHash_iff IsContractPubkey_iff by blast

text \<open>C30: A contract output built from valid parameters is classified as a contract output,
  yields the contract address, and parses back to exactly the sender, target, gas limit, nonce and
  version it was built from; the contract type tells creation (no target) from a call.\<close>

theorem contract_script_roundtrip:
  assumes "length frm = Ripemd160Size" and "\<forall>t\<in>set_option to. length t = Ripemd160Size"
    and "gas \<noteq> 0" and "gas < MaxInt64 div FixedGasPrice"
  shows "\<exists>s. MakeContractScriptPubkey (Some frm) to gas nonce ver = Inr s \<and>
    pubkType s = ContractPubk \<and>
    ExtractAddress s =
      Inr (case to of None \<Rightarrow> None | Some t \<Rightarrow> if t = ZeroAddressHash then None else Some (AddressContract t)) \<and>
    ParseContractParams s =
      Inr (\<lparr>GasLimit = gas, Nonce = nonce, VmVersion = ver, From = frm,
            To = (case to of None \<Rightarrow> ZeroAddressHash | Some t \<Rightarrow> t)\<rparr>,
           if to = None \<or> to = Some ZeroAddressHash then ContractCreationType else ContractCallType)"
proof -
  let ?t = "case to of None \<Rightarrow> ZeroAddressHash | Some t \<Rightarrow> t"
  have t: "length ?t = Ripemd160Size"
    using assms(2) by (auto simp: ZeroAddressHash_def split: option.split)
  have "ZeroContractAddress = ZeroAddressHash" by (simp add: ZeroContractAddress_def)
  with contract_script_items [OF assms(3,4), of frm to nonce ver]
    contract_items_parse [OF assms(1) t, of nonce gas ver] contract_class [OF assms(1) t, of nonce gas ver]
  show ?thesis by (auto split: option.splits)
qed

theorem contract_script_roundtrip_witness:
  "\<exists>s. MakeContractScriptPubkey (Some (replicate 20 1)) (Some (replicate 20 2)) 5 9 1 = Inr s \<and>
     ParseContractParams s =
       Inr (\<lparr>GasLimit = 5, Nonce = 9, VmVersion = 1, From = replicate 20 1, To = replicate 20 2\<rparr>,
            ContractCallType)"
  using contract_script_roundtrip [of "replicate 20 1" "Some (replicate 20 2)" 5 9 1]
  by (auto simp: Ripemd160Size_def MaxInt64_def FixedGasPrice_def ZeroAddressHash_def)

text \<open>A token issue output is classified as such, pays the given address, and its parameters
  read back unchanged, for names and symbols of at most 65535 bytes.\<close>

theorem issue_token_roundtrip:
  assumes "length h = Ripemd160Size" and "length (Name p) \<le> 65535" and "length (Symbol p) \<le> 65535"
  shows "pubkType (IssueTokenScript h p) = TokenIssuePubk \<and>
    ExtractAddress (IssueTokenScript h p) = Inr (Some (AddressPubKeyHash h)) \<and>
    GetIssueParams (IssueTokenScript h p) = Inr p"
  using issue_class [of h p] issue_script_parse [of h p] assms by simp

theorem issue_token_roundtrip_witness:
  "GetIssueParams (IssueTokenScript (replicate 20 3)
      \<lparr>Name = [66, 79, 88], Symbol = [66], TotalSupply = 1000, Decimals = 8\<rparr>) =
    Inr \<lparr>Name = [66, 79, 88], Symbol = [66], TotalSupply = 1000, Decimals = 8\<rparr>"
  using issue_token_roundtrip
    [of "replicate 20 3" "\<lparr>Name = [66, 79, 88], Symbol = [66], TotalSupply = 1000, Decimals = 8\<rparr>"]
  by (simp add: Ripemd160Size_def)

text \<open>A token transfer output is classified as such, pays the given address, and its token id
  and amount read back unchanged.\<close>

theorem transfer_token_roundtrip:
  assumes "length h = Ripemd160Size" and "hash_wf (Hash (TokenID p))"
  shows "pubkType (TransferTokenScript h p) = TokenTransferPubk \<and>
    ExtractAddress (TransferTokenScript h p) = Inr (Some (AddressPubKeyHash h)) \<and>
    GetTransferParams (TransferTokenScript h p) = Inr p"
  using transfer_class [of h p] transfer_script_parse [of h p] assms by simp

theorem transfer_token_roundtrip_witness:
  "GetTransferParams (TransferTokenScript (replicate 20 3)
      \<lparr>TokenID = \<lparr>Hash = replicate 32 7, Index = 1\<rparr>, Amount = 25\<rparr>) =
    Inr \<lparr>TokenID = \<lparr>Hash = replicate 32 7, Index = 1\<rparr>, Amount = 25\<rparr>"
  using transfer_token_roundtrip
    [of "replicate 20 3" "\<lparr>TokenID = \<lparr>Hash = replicate 32 7, Index = 1\<rparr>, Amount = 25\<rparr>"]
  by (simp add: Ripemd160Size_def hash_wf_def HashSize_def)

text \<open>The token parameter readers crash on scripts their recogniser accepts: there is
  an output classified as a token transfer whose amount operand is too short, and
  reading its parameters panics.\<close>

theorem token_params_panic:
  "\<exists>s. IsTokenTransfer s \<and> GetTransferParams s = Inl Panic"
proof -
  let ?h = "replicate 20 0 :: bytes"
  define ps where "ps = [Push TokenTxHashKey, Op OPDROP, Push (replicate 32 0), Op OPDROP,
      Push TokenTxOutIdxKey, Op OPDROP, Push (replicate 4 0), Op OPDROP,
      Push TokenAmountKey, Op OPDROP, Push [1], Op OPDROP]"
  define js where "js = p2pkh_item_list ?h @ ps"
  have h: "length ?h = Ripemd160Size" by (simp add: Ripemd160Size_def)
  have ok: "list_all item_ok ps" by (simp add: ps_def)
  then have okj: "list_all item_ok js" by (simp add: js_def p2pkh_item_list_def)
  have s: "assemble js = PayToPubKeyHashScript ?h @ assemble ps"
    by (simp add: js_def p2pkh_item_list_def p2pkh_items)
  have "IsTokenTransfer (assemble js)"
    unfolding s using length_p2pkh [OF h] p2pkh_prefix [OF h] p2pkh_prefix(3) [OF h, of "[]"]
    by (simp add: IsTokenTransfer_def token_params_parse [OF ok] Let_def)
      (simp add: ps_def toOperand_def)
  moreover
  have nth: "js ! 7 = Push (replicate 32 0)" "js ! 11 = Push (replicate 4 0)" "js ! 15 = Push [1]"
    by (simp_all add: js_def p2pkh_item_list_def ps_def)
  have len: "length js = 17" by (simp add: js_def p2pkh_item_list_def ps_def)
  have ops:
    "getNthOp (assemble js) (item_pc js 0) 7 =
      (item_code (Push (replicate 32 0)), item_operand (Push (replicate 32 0)), item_pc js 8, None)"
    "getNthOp (assemble js) (item_pc js 8) 3 =
      (item_code (Push (replicate 4 0)), item_operand (Push (replicate 4 0)), item_pc js 12, None)"
    "getNthOp (assemble js) (item_pc js 12) 3 =
      (item_code (Push [1]), item_operand (Push [1]), item_pc js 16, None)"
    by - ((rule getNthOp_reads [OF okj nth(1)] getNthOp_reads [OF okj nth(2)]
        getNthOp_reads [OF okj nth(3)]; simp add: len)+)
  have "GetTransferParams (assemble js) = Inl Panic"
    by (simp add: GetTransferParams_def ops [simplified] slice_u64_def slice_u32_def HashSize_def)
  ultimately show ?thesis by blast
qed

text \<open>A split address output built for at most 32 addresses of 20 bytes and as many weights
  parses back to exactly these addresses and weights, provided the RIPEMD-160 digest has 20 bytes;
  with at most 31 addresses it is also classified as a split output and its address is the hash of
  the list.\<close>

theorem split_address_roundtrip:
  assumes "addrs \<noteq> []" and "length addrs = length weights" and "length addrs \<le> MaxSplitAddrs"
    and "\<forall>a\<in>set addrs. length a = Ripemd160Size" and "\<forall>b. length (ripemd160 c b) = Ripemd160Size"
  shows "\<exists>s. SplitAddrScript c addrs weights = Some s \<and>
    ParseSplitAddrScript c s = Inr (addrs, weights) \<and>
    (length addrs < MaxSplitAddrs \<longrightarrow> pubkType s = SplitAddrPubk \<and>
       ExtractAddress s =
         Inr (Some (AddressTypeSplit (Hash160 c (split_pairs [] (zip addrs weights))))))"
proof -
  have "length (Hash160 c b) = Ripemd160Size" for b by (simp add: Hash160_def assms(5))
  moreover have "\<forall>a\<in>set (map fst (zip addrs weights)). length a = Ripemd160Size"
    using assms(2,4) by simp
  moreover have "0 < length (zip addrs weights)" using assms(1,2) by (cases addrs; cases weights) auto
  ultimately show ?thesis
    using split_script_items [OF assms(1-3), of c] split_script_parse [OF assms]
      split_class [of "Hash160 c (assemble (pair_items (zip addrs weights)))" "zip addrs weights"] assms(2)
    by (auto simp: split_pairs_append)
qed

definition zero_crypto :: "(unit, unit) crypto_ops" where
  "zero_crypto = \<lparr>sha256 = (\<lambda>b. replicate 32 0), ripemd160 = (\<lambda>b. replicate 20 0),
     parse_sig = (\<lambda>b. Some ()), parse_pubkey = (\<lambda>b. Some ()), sig_verify = (\<lambda>s h k. h = replicate 32 0),
     marshal_tx = (\<lambda>tx. Some [])\<rparr>"

theorem split_address_roundtrip_witness:
  "\<exists>s. SplitAddrScript zero_crypto [replicate 20 1, replicate 20 2] [3, 4] = Some s \<and>
    ParseSplitAddrScript zero_crypto s = Inr ([replicate 20 1, replicate 20 2], [3, 4]) \<and>
    pubkType s = SplitAddrPubk"
  using split_address_roundtrip [of "[replicate 20 1, replicate 20 2]" "[3, 4]" zero_crypto]
  by (auto simp: Ripemd160Size_def MaxSplitAddrs_def zero_crypto_def)

text \<open>The recogniser of split outputs rejects the longest list the builder accepts: the
  script for 32 addresses is not recognised, every shorter one is.\<close>

theorem split_recogniser_limit:
  assumes "\<forall>a\<in>set addrs. length a = Ripemd160Size" and "\<forall>b. length (ripemd160 c b) = Ripemd160Size"
    and "SplitAddrScript c addrs weights = Some s"
  shows "IsSplitAddrScript s \<longleftrightarrow> length addrs \<noteq> MaxSplitAddrs"
proof -
  from assms(3) have a: "addrs \<noteq> []" "length addrs = length weights" "length addrs \<le> MaxSplitAddrs"
    by (auto simp: SplitAddrScript_def split: if_splits)
  have "length (Hash160 c b) = Ripemd160Size" for b by (simp add: Hash160_def assms(2))
  moreover have "\<forall>a\<in>set (map fst (zip addrs weights)). length a = Ripemd160Size"
    using assms(1) a(2) by simp
  ultimately show ?thesis
    using split_script_items [OF a, of c] assms(3) a
      IsSplitAddrScript_pairs [of "Hash160 c (assemble (pair_items (zip addrs weights)))" "zip addrs weights"]
    by auto
qed

theorem split_recogniser_limit_witness:
  "\<exists>s. SplitAddrScript zero_crypto (replicate 32 (replicate 20 1)) (replicate 32 5) = Some s \<and>
    \<not> IsSplitAddrScript s"
  using split_recogniser_limit [of "replicate 32 (replicate 20 1)" zero_crypto "replicate 32 5"]
  by (simp add: Ripemd160Size_def MaxSplitAddrs_def zero_crypto_def SplitAddrScript_def Let_def)

text \<open>The parser of split outputs crashes on a script that the recogniser accepts: the
  recogniser does not look at the push of the list's hash, and with another push opcode there the
  parser reads an address without a weight and indexes past the end of the weights. (With the
  direct push of 20 bytes it never does, \<open>split_parse_no_panic\<close>.)\<close>

theorem split_parse_panics:
  "\<exists>ss. IsSplitAddrScript ss \<and> ParseSplitAddrScript c ss = Inl Panic"
proof -
  define ss :: bytes where "ss = [OPRETURN, OP0, OPPUSHDATA1, 20] @ replicate 19 0 @ [20, 20] @
      replicate 19 0 @ [4, 20, 0, 0, 0]"
  have "IsSplitAddrScript ss" unfolding ss_def by code_simp
  moreover
  have ops: "getNthOp ss 0 0 = (OPRETURN, None, 1, None)" "getNthOp ss 1 0 = (OP0, Some [], 2, None)"
    "getNthOp ss 2 0 = (OPPUSHDATA1, Some (replicate 19 0 @ [20]), 24, None)"
    "getNthOp ss 24 0 = (20, Some (replicate 19 0 @ [4]), 45, None)"
    "getNthOp ss 24 1 = (0, None, 0, Some ErrScriptBound)"
    unfolding ss_def by code_simp+
  have "split_loop ss 24 1 as ws = Inr (as, ws)" for as ws
    by (subst split_loop.simps) (simp add: ops [simplified])
  then have "split_loop ss 24 0 [] [] = Inr ([replicate 19 0 @ [4]], [])"
    by (subst split_loop.simps)
      (simp add: ops [simplified] NewAddressPubKeyHash_def copy_at_def Ripemd160Size_def ZeroAddressHash_def)
  then have "ParseSplitAddrScript c ss = Inl Panic"
    by (simp add: ParseSplitAddrScript_def ops [simplified] Ripemd160Size_def MaxSplitAddrs_def)
  ultimately show ?thesis by blast
qed

text \<open>The contract parser does not check the version field: when the last operand does not
  have four bytes the output is accepted with version 0.\<close>

theorem contract_version_unchecked:
  assumes "length frm = Ripemd160Size" and "length to = Ripemd160Size"
    and "length v \<noteq> 4" and "length v \<le> 65535"
  shows "\<exists>typ. ParseContractParams
      (assemble [Op OPCONTRACT, Push frm, Push to, Push (le_put 8 nonce), Push (le_put 8 gas), Push v]) =
    Inr (\<lparr>GasLimit = gas, Nonce = nonce, VmVersion = 0, From = frm, To = to\<rparr>, typ)"
proof -
  define js where "js = [Op OPCONTRACT, Push frm, Push to, Push (le_put 8 nonce), Push (le_put 8 gas), Push v]"
  have ok: "list_all item_ok js" using assms by (simp add: js_def Ripemd160Size_def)
  have nth: "length js = 6" "js ! 0 = Op OPCONTRACT" "js ! Suc 0 = Push frm" "js ! 2 = Push to"
    "js ! 3 = Push (le_put 8 nonce)" "js ! 4 = Push (le_put 8 gas)" "js ! 5 = Push v"
    by (simp_all add: js_def)
  have ops:
    "getNthOp (assemble js) (item_pc js 0) 0 = (item_code (Op OPCONTRACT), item_operand (Op OPCONTRACT), item_pc js 1, None)"
    "getNthOp (assemble js) (item_pc js 1) 0 = (item_code (Push frm), item_operand (Push frm), item_pc js 2, None)"
    "getNthOp (assemble js) (item_pc js 2) 0 = (item_code (Push to), item_operand (Push to), item_pc js 3, None)"
    "getNthOp (assemble js) (item_pc js 3) 0 =
       (item_code (Push (le_put 8 nonce)), item_operand (Push (le_put 8 nonce)), item_pc js 4, None)"
    "getNthOp (assemble js) (item_pc js 4) 0 =
       (item_code (Push (le_put 8 gas)), item_operand (Push (le_put 8 gas)), item_pc js 5, None)"
    "getNthOp (assemble js) (item_pc js 5) 0 = (item_code (Push v), item_operand (Push v), item_pc js 6, None)"
    "getNthOp (assemble js) (item_pc js 6) 0 = (0, None, 0, Some ErrScriptBound)"
    by - ((rule getNthOp_reads [OF ok nth(2)] getNthOp_reads [OF ok nth(3)]
          getNthOp_reads [OF ok nth(4)] getNthOp_reads [OF ok nth(5)] getNthOp_reads [OF ok nth(6)]
          getNthOp_reads [OF ok nth(7)] getNthOp_items_end [OF ok]; simp add: nth)+)
  show ?thesis
    unfolding js_def [symmetric]
    by (simp add: ParseContractParams_def readUint64_def readUint32_def ops [simplified] assms(1-3) copy_at_addr)
qed

theorem contract_version_unchecked_witness:
  "\<exists>typ. ParseContractParams
      (assemble [Op OPCONTRACT, Push (replicate 20 1), Push (replicate 20 2), Push (le_put 8 (7 :: u64)),
         Push (le_put 8 (9 :: u64)), Push [1, 2]]) =
    Inr (\<lparr>GasLimit = 9, Nonce = 7, VmVersion = 0, From = replicate 20 1, To = replicate 20 2\<rparr>, typ)"
  using contract_version_unchecked [of "replicate 20 1" "replicate 20 2" "[1, 2]" 7 9]
  by (simp add: Ripemd160Size_def)

end
