(* ===== verification/Script_Exec.thy ===== *)
theory Script_Exec
  imports Script_Class "HOL-Library.Sublist"
begin

text \<open>
  The script interpreter: \<^verbatim>\<open>src/script/stack.go\<close> and the evaluation part of
  \<^verbatim>\<open>src/script/script.go\<close> (\<^verbatim>\<open>execOp\<close>, \<^verbatim>\<open>evaluate\<close>, \<^verbatim>\<open>Validate\<close>, \<^verbatim>\<open>verifySig\<close>,
  \<^verbatim>\<open>CalcTxHashForSig\<close>, \<^verbatim>\<open>checkLockTime\<close>). The stack is the Go slice, its top at the end of
  the list; nil operands are empty. Go's \<^verbatim>\<open>int\<close> arithmetic on operand counts is written
  with 64 bit wrap-around. \<^verbatim>\<open>verifySig\<close> also caches the transaction's hash in the
  transaction, only to print it; the interpreter reads nothing from that cache.
\<close>

section \<open>Stack\<close>

type_synonym Stack = "bytes list"

definition operandFalse :: bytes where "operandFalse = [0]"
definition operandTrue :: bytes where "operandTrue = [1]"

definition operand_int :: "bytes \<Rightarrow> script_error + int" where
  "operand_int o' =
     (let bigInt = big_set_bytes o' in
      if \<not> big_is_int64 bigInt then Inl (ErrOther ''Cannot be converted to int 64'')
      else Inr (big_int64 bigInt))"

definition stack_size :: "Stack \<Rightarrow> int" where
  "stack_size stk = int (length stk)"

definition stack_empty :: "Stack \<Rightarrow> bool" where
  "stack_empty stk \<longleftrightarrow> length stk = 0"

definition stack_push :: "Stack \<Rightarrow> bytes \<Rightarrow> Stack" where
  "stack_push stk o' = stk @ [o']"

text \<open>No caller uses the value \<^verbatim>\<open>pop\<close> returns.\<close>

definition stack_pop :: "Stack \<Rightarrow> Stack" where
  "stack_pop stk = (if length stk = 0 then stk else take (length stk - 1) stk)"

definition topN :: "Stack \<Rightarrow> int \<Rightarrow> bytes" where
  "topN stk n = (if n \<le> 0 \<or> int (length stk) < n then [] else stk ! (length stk - nat n))"

definition validateTop :: "Stack \<Rightarrow> script_error option" where
  "validateTop stk =
     (if stack_empty stk then Some ErrFinalStackEmpty
      else if big_set_bytes (topN stk 1) = 0 then Some ErrFinalTopStackEleFalse
      else None)"

section \<open>Signatures and lock times\<close>

definition LockTimeThreshold :: int where "LockTimeThreshold = 500000000"

definition checkLockTime :: "int \<Rightarrow> int \<Rightarrow> bool" where
  "checkLockTime lockTime txLockTime =
     (if \<not> (lockTime < LockTimeThreshold \<and> txLockTime < LockTimeThreshold \<or>
            lockTime \<ge> LockTimeThreshold \<and> txLockTime \<ge> LockTimeThreshold)
      then False else lockTime \<le> txLockTime)"

definition CalcTxHashForSig ::
  "('sig, 'pk) crypto_ops \<Rightarrow> bytes \<Rightarrow> Transaction \<Rightarrow> nat \<Rightarrow> script_error + bytes" where
  "CalcTxHashForSig c scriptPubKey originalTx txInIdx =
     (if length (Vin originalTx) \<le> txInIdx then Inl ErrInputIndexOutOfBound
      else
        (let tx = AppendVout (NewTx (Version originalTx) (Magic originalTx) (LockTime originalTx))
               (Vout originalTx);
             tx = tx\<lparr>Data := Data originalTx\<rparr>;
             tx = foldl (\<lambda>tx (i, txIn).
                 if i \<noteq> txInIdx
                 then AppendVin tx [NewTxIn (PrevOutPoint txIn) [] (Sequence txIn)]
                 else AppendVin tx [NewTxIn (PrevOutPoint txIn) scriptPubKey (Sequence txIn)])
               tx (enumerate 0 (Vin originalTx))
         in case CalcTxHash c tx of
              None \<Rightarrow> Inl (ErrOther ''marshal'')
            | Some h \<Rightarrow> Inr h))"

definition verifySig ::
  "('sig, 'pk) crypto_ops \<Rightarrow> bytes \<Rightarrow> bytes \<Rightarrow> bytes \<Rightarrow> Transaction \<Rightarrow> nat \<Rightarrow> bool" where
  "verifySig c sigStr publicKeyStr scriptPubKey tx txInIdx =
     (case parse_sig c sigStr of None \<Rightarrow> False | Some sig \<Rightarrow>
     (case parse_pubkey c publicKeyStr of None \<Rightarrow> False | Some publicKey \<Rightarrow>
     (case CalcTxHashForSig c scriptPubKey tx txInIdx of Inl _ \<Rightarrow> False | Inr sigHash \<Rightarrow>
        sig_verify c sig sigHash publicKey)))"

section \<open>Operations\<close>

text \<open>
  The matching loop of \<^verbatim>\<open>OP_CHECKMULTISIG\<close>. The indices stay below the stack size when the
  loop body runs, so they do not wrap.
\<close>

function multisig_loop ::
  "(bytes \<Rightarrow> bytes \<Rightarrow> bool) \<Rightarrow> Stack \<Rightarrow> int \<Rightarrow> int \<Rightarrow> int \<Rightarrow> int \<Rightarrow> bool" where
  "multisig_loop verify stk sigIdx pubKeyIdx sigCount pubKeyCount =
     (if 0 < sigCount then
        (let signature = topN stk sigIdx;
             pubKey = topN stk pubKeyIdx;
             ok = verify signature pubKey;
             sigIdx' = (if ok then sigIdx + 1 else sigIdx);
             sigCount' = (if ok then sigCount - 1 else sigCount)
         in if pubKeyCount - 1 < sigCount' then False
            else multisig_loop verify stk sigIdx' (pubKeyIdx + 1) sigCount' (pubKeyCount - 1))
      else True)"
  by pat_completeness auto

termination multisig_loop
  by (relation "measure (\<lambda>(_, _, _, _, _, pubKeyCount). nat pubKeyCount)") (auto split: if_splits)

declare multisig_loop.simps [simp del]

definition push_bool :: "Stack \<Rightarrow> bool \<Rightarrow> Stack" where
  "push_bool stk b = stack_push stk (if b then operandTrue else operandFalse)"

text \<open>
  \<^verbatim>\<open>OPCHECKMULTISIG\<close> and \<^verbatim>\<open>OPCHECKMULTISIGVERIFY\<close>; \<open>verify\<close> is \<^verbatim>\<open>verifySig\<close> on the locking
  script. The final test of the source compares the opcode with \<^verbatim>\<open>OPCHECKSIGVERIFY\<close>.
\<close>

definition exec_multisig ::
  "(bytes \<Rightarrow> bytes \<Rightarrow> bool) \<Rightarrow> OpCode \<Rightarrow> Stack \<Rightarrow> script_error + Stack" where
  "exec_multisig verify opCode stk =
     (if stack_size stk < 1 then Inl ErrInvalidStackOperation
      else case operand_int (topN stk 1) of Inl e \<Rightarrow> Inl e | Inr pubKeyCount \<Rightarrow>
      if pubKeyCount < 0 then Inl ErrCountNegative
      else
        (let pubKeyIdx = 2; i = add_int 2 pubKeyCount in
         if stack_size stk < i then Inl ErrInvalidStackOperation
         else case operand_int (topN stk i) of Inl e \<Rightarrow> Inl e | Inr sigCount \<Rightarrow>
         if sigCount < 0 then Inl ErrCountNegative
         else if pubKeyCount < sigCount then Inl ErrScriptSignatureVerifyFail
         else
           (let i = add_int i 1; sigIdx = i; i = add_int i sigCount in
            if stack_size stk < add_int i (-1) then Inl ErrInvalidStackOperation
            else
              (let isVerified = multisig_loop verify stk sigIdx pubKeyIdx sigCount pubKeyCount;
                   stk = (stack_pop ^^ nat (i - 1)) stk;
                   stk = push_bool stk isVerified
               in if opCode = OPCHECKSIGVERIFY then
                    if isVerified then Inr (stack_pop stk) else Inl ErrScriptSignatureVerifyFail
                  else Inr stk))))"

text \<open>\<^verbatim>\<open>execOp\<close>: the new start of the locking script and the new stack, or an error.\<close>

definition execOp ::
  "('sig, 'pk) crypto_ops \<Rightarrow> bytes \<Rightarrow> OpCode \<Rightarrow> Operand \<Rightarrow> Transaction \<Rightarrow> nat \<Rightarrow> nat \<Rightarrow> nat \<Rightarrow> Stack \<Rightarrow>
     script_error + (nat \<times> Stack)" where
  "execOp c s opCode pushData tx txInIdx pc scriptPubKeyStart stk =
     (if opCode \<le> OPPUSHDATA4 then
        Inr (scriptPubKeyStart, stack_push stk (operand_bytes pushData))
      else if opCode \<le> OP16 \<and> opCode \<noteq> OPRESERVED then
        Inr (scriptPubKeyStart,
             stack_push stk (big_bytes (nat \<bar>int (unat opCode) - int (unat OP1) + 1\<bar>)))
      else if opCode = OPRETURN then Inl ErrOpReturn
      else if opCode = OPDROP then
        if stack_size stk < 1 then Inl ErrInvalidStackOperation
        else Inr (scriptPubKeyStart, stack_pop stk)
      else if opCode = OPDUP then
        if stack_size stk < 1 then Inl ErrInvalidStackOperation
        else Inr (scriptPubKeyStart, stack_push stk (topN stk 1))
      else if opCode = OPADD \<or> opCode = OPSUB then
        if stack_size stk < 2 then Inl ErrInvalidStackOperation
        else
          (let op1 = int (big_set_bytes (topN stk 2)); op2 = int (big_set_bytes (topN stk 1));
               op1 = (if opCode = OPADD then op1 + op2 else op1 - op2)
           in Inr (scriptPubKeyStart,
                   stack_push (stack_pop (stack_pop stk)) (big_bytes (nat \<bar>op1\<bar>))))
      else if opCode = OPEQUAL \<or> opCode = OPEQUALVERIFY then
        if stack_size stk < 2 then Inl ErrInvalidStackOperation
        else
          (let isEqual = (topN stk 2 = topN stk 1);
               stk = push_bool (stack_pop (stack_pop stk)) isEqual
           in if opCode = OPEQUALVERIFY then
                if isEqual then Inr (scriptPubKeyStart, stack_pop stk) else Inl ErrScriptEqualVerify
              else Inr (scriptPubKeyStart, stk))
      else if opCode = OPHASH160 then
        if stack_size stk < 1 then Inl ErrInvalidStackOperation
        else
          (let hash160 = Hash160 c (topN stk 1)
           in Inr (scriptPubKeyStart, stack_push (stack_pop stk) hash160))
      else if opCode = OPCODESEPARATOR then Inr (pc, stk)
      else if opCode = OPCHECKSIG \<or> opCode = OPCHECKSIGVERIFY then
        if stack_size stk < 2 then Inl ErrInvalidStackOperation
        else
          (let isVerified = verifySig c (topN stk 2) (topN stk 1) (drop scriptPubKeyStart s) tx txInIdx;
               stk = push_bool (stack_pop (stack_pop stk)) isVerified
           in if opCode = OPCHECKSIGVERIFY then
                if isVerified then Inr (scriptPubKeyStart, stack_pop stk)
                else Inl ErrScriptSignatureVerifyFail
              else Inr (scriptPubKeyStart, stk))
      else if opCode = OPCHECKMULTISIG \<or> opCode = OPCHECKMULTISIGVERIFY then
        map_sum id (Pair scriptPubKeyStart)
          (exec_multisig (\<lambda>sig pk. verifySig c sig pk (drop scriptPubKeyStart s) tx txInIdx) opCode stk)
      else if opCode = OPCHECKLOCKTIMEVERIFY then
        if stack_size stk < 1 then Inl ErrInvalidStackOperation
        else if checkLockTime (big_int64 (big_set_bytes (topN stk 1))) (LockTime tx)
        then Inr (scriptPubKeyStart, stack_pop stk)
        else Inl ErrScriptLockTimeVerifyFail
      else Inl ErrBadOpcode)"

section \<open>Evaluation\<close>

text \<open>The loop of \<^verbatim>\<open>evaluate\<close>; the result is the returned error, \<^term>\<open>None\<close> for nil.\<close>

function evaluate_from ::
  "('sig, 'pk) crypto_ops \<Rightarrow> bytes \<Rightarrow> Transaction \<Rightarrow> nat \<Rightarrow> nat \<Rightarrow> nat \<Rightarrow> Stack \<Rightarrow> script_error option"
where
  "evaluate_from c s tx txInIdx pc scriptPubKeyStart stk =
     (if pc < length s then
        (case parseNextOp s pc of
           (opCode, operand, newPc, Some err) \<Rightarrow> Some err
         | (opCode, operand, newPc, None) \<Rightarrow>
             (case execOp c s opCode operand tx txInIdx newPc scriptPubKeyStart stk of
                Inl err \<Rightarrow> Some err
              | Inr (start, stk') \<Rightarrow> evaluate_from c s tx txInIdx newPc start stk'))
      else validateTop stk)"
  by pat_completeness auto

termination evaluate_from
  by (relation "measure (\<lambda>(c, s, tx, txInIdx, pc, _). length s - pc)")
    (auto dest!: sym [of _ "parseNextOp _ _"] dest: parseNextOp_progress)

declare evaluate_from.simps [simp del]

definition evaluate :: "('sig, 'pk) crypto_ops \<Rightarrow> bytes \<Rightarrow> Transaction \<Rightarrow> nat \<Rightarrow> script_error option" where
  "evaluate c s tx txInIdx = evaluate_from c s tx txInIdx 0 0 []"

definition Validate ::
  "('sig, 'pk) crypto_ops \<Rightarrow> bytes \<Rightarrow> bytes \<Rightarrow> Transaction \<Rightarrow> nat \<Rightarrow> script_error option" where
  "Validate c scriptSig scriptPubKey tx txInIdx =
     (let catScript = AddScript (AddOpCode (AddScript [] scriptSig) OPCODESEPARATOR) scriptPubKey in
      case evaluate c catScript tx txInIdx of
        Some err \<Rightarrow> Some err
      | None \<Rightarrow>
          if \<not> IsPayToScriptHash scriptPubKey then None
          else
            (case parseNextOp scriptSig 0 of (_, sig, newPc, _) \<Rightarrow>
             let newScriptSig = AddOperand [] (operand_bytes sig) in
             case parseNextOp scriptSig newPc of (_, redeemScriptBytes, _, _) \<Rightarrow>
             let redeemScript = operand_bytes redeemScriptBytes;
                 catScript =
                   AddScript (AddOpCode (AddScript [] newScriptSig) OPCODESEPARATOR) redeemScript
             in evaluate c catScript tx txInIdx))"

section \<open>Stack laws\<close>

lemma stack_pop_snoc [simp]: "stack_pop (stk @ [a]) = stk"
  by (simp add: stack_pop_def)

lemma stack_push_eq [simp]: "stack_push stk a = stk @ [a]"
  by (simp add: stack_push_def)

lemma topN_snoc [simp]:
  "topN (stk @ [a]) 1 = a" "topN (stk @ [a, b]) 1 = b" "topN (stk @ [a, b]) 2 = a"
  by (simp_all add: topN_def nth_append)

lemma stack_pop_snoc2 [simp]: "stack_pop (stk @ [a, b]) = stk @ [a]"
  using stack_pop_snoc [of "stk @ [a]" b] by (simp del: stack_pop_snoc)

lemma stack_size_snoc [simp]: "stack_size (stk @ as) = stack_size stk + int (length as)"
  by (simp add: stack_size_def)

lemma stack_size_nonneg [simp]: "0 \<le> stack_size stk"
  by (simp add: stack_size_def)

lemma stack_pop_take: "stack_pop stk = take (length stk - 1) stk"
  by (auto simp: stack_pop_def)

lemma stack_pop_pow: "(stack_pop ^^ n) stk = take (length stk - n) stk"
proof (induction n)
  case (Suc n)
  have "(stack_pop ^^ Suc n) stk = stack_pop (take (length stk - n) stk)" by (simp add: Suc)
  also have "\<dots> = take (length stk - Suc n) stk" by (simp add: stack_pop_take min_absorb2 min_absorb1)
  finally show ?case .
qed simp

lemma topN_rev: "0 < n \<Longrightarrow> n \<le> length stk \<Longrightarrow> topN stk (int n) = rev stk ! (n - 1)"
  by (simp add: topN_def rev_nth)

lemma validateTop_bool [simp]:
  "validateTop (stk @ [if b then operandTrue else operandFalse]) =
     (if b then None else Some ErrFinalTopStackEleFalse)"
  by (simp add: validateTop_def stack_empty_def operandTrue_def operandFalse_def big_set_bytes_def)

section \<open>Stepping through items\<close>

lemma drop_item_pc: "k \<le> length is \<Longrightarrow> drop (item_pc is k) (assemble is) = assemble (drop k is)"
proof -
  have "assemble is = assemble (take k is) @ assemble (drop k is)"
    by (simp flip: assemble_append)
  then show ?thesis by (simp add: item_pc_def)
qed

lemma item_pc_less: "k < length is \<Longrightarrow> item_pc is k < length (assemble is)"
proof -
  assume "k < length is"
  then have "assemble is = assemble (take k is) @ item_bytes (is ! k) @ assemble (drop (Suc k) is)"
    by (simp flip: assemble_append assemble_Cons add: Cons_nth_drop_Suc)
  then have "length (assemble is) = item_pc is k + length (item_bytes (is ! k)) + length (assemble (drop (Suc k) is))"
    by (simp add: item_pc_def)
  then show ?thesis using item_bytes_not_Nil [of "is ! k"] by (cases "item_bytes (is ! k)") auto
qed

lemma parseNextOp_items:
  assumes "list_all item_ok is" and "k < length is"
  shows "parseNextOp (assemble is) (item_pc is k) =
    (item_code (is ! k), item_operand (is ! k), item_pc is (Suc k), None)"
proof -
  have "assemble is = assemble (take k is) @ item_bytes (is ! k) @ assemble (drop (Suc k) is)"
    using assms(2) by (simp flip: assemble_append assemble_Cons add: Cons_nth_drop_Suc)
  moreover have "item_ok (is ! k)" using assms by (simp add: list_all_length)
  moreover have "item_pc is (Suc k) = item_pc is k + length (item_bytes (is ! k))"
    using assms(2) by (simp add: item_pc_def take_Suc_conv_app_nth)
  ultimately show ?thesis
    using parseNextOp_item_at [of "is ! k" "assemble (take k is)" "assemble (drop (Suc k) is)"]
    by (simp add: item_pc_def)
qed

lemma evaluate_step:
  assumes "list_all item_ok is" and "k < length is"
  shows "evaluate_from c (assemble is) tx idx (item_pc is k) start stk =
    (case execOp c (assemble is) (item_code (is ! k)) (item_operand (is ! k)) tx idx
            (item_pc is (Suc k)) start stk of
       Inl err \<Rightarrow> Some err
     | Inr (start', stk') \<Rightarrow> evaluate_from c (assemble is) tx idx (item_pc is (Suc k)) start' stk')"
  using parseNextOp_items [OF assms] item_pc_less [OF assms(2)]
  by (subst evaluate_from.simps) simp

lemma evaluate_end:
  "evaluate_from c (assemble is) tx idx (item_pc is (length is)) start stk = validateTop stk"
  by (subst evaluate_from.simps) (simp add: item_pc_def)

section \<open>Operation laws\<close>

lemma item_code_push_le: "length d \<le> 0xffff \<Longrightarrow> item_code (Push d) \<le> OPPUSHDATA4"
proof -
  assume d: "length d \<le> 0xffff"
  have "(of_nat (length d) :: byte) \<le> 0x4e" if "length d < 76"
    using that by (simp add: word_le_nat_alt unat_of_nat_less)
  with d show ?thesis
    by (simp add: item_code_def AddOperand_def Let_def opcode_defs)
qed

lemma execOp_Push:
  "length d \<le> 0xffff \<Longrightarrow>
     execOp c s (item_code (Push d)) (Some d) tx idx pc start stk = Inr (start, stk @ [d])"
  by (simp add: execOp_def item_code_push_le)

lemma execOp_simps:
  "execOp c s OPCODESEPARATOR od tx idx pc start stk = Inr (pc, stk)"
  "execOp c s OPDUP od tx idx pc start (stk @ [a]) = Inr (start, stk @ [a, a])"
  "execOp c s OPHASH160 od tx idx pc start (stk @ [a]) = Inr (start, stk @ [Hash160 c a])"
  "execOp c s OPEQUALVERIFY od tx idx pc start (stk @ [a, b]) =
     (if a = b then Inr (start, stk) else Inl ErrScriptEqualVerify)"
  "execOp c s OPEQUAL od tx idx pc start (stk @ [a, b]) =
     Inr (start, stk @ [if a = b then operandTrue else operandFalse])"
  "execOp c s OPCHECKSIG od tx idx pc start (stk @ [a, b]) =
     Inr (start, stk @ [if verifySig c a b (drop start s) tx idx then operandTrue else operandFalse])"
  "execOp c s OPDROP od tx idx pc start (stk @ [a]) = Inr (start, stk)"
  "execOp c s OPRETURN od tx idx pc start stk = Inl ErrOpReturn"
  "execOp c s OPCHECKLOCKTIMEVERIFY od tx idx pc start (stk @ [a]) =
     (if checkLockTime (big_int64 (big_set_bytes a)) (LockTime tx) then Inr (start, stk)
      else Inl ErrScriptLockTimeVerifyFail)"
  by (simp_all add: execOp_def opcode_defs push_bool_def Let_def not_less)

section \<open>The interpreter on items\<close>

text \<open>
  \<open>run_lock\<close> is the abstract machine: it runs the items of a locking script \<open>L\<close> on a stack.
  The byte-level interpreter implements it after an unlocking script that only pushes data.
\<close>

fun run_lock ::
  "('sig, 'pk) crypto_ops \<Rightarrow> bytes \<Rightarrow> Transaction \<Rightarrow> nat \<Rightarrow> item list \<Rightarrow> Stack \<Rightarrow> script_error option" where
  "run_lock c L tx idx [] stk = validateTop stk"
| "run_lock c L tx idx (i # is) stk =
     (case execOp c L (item_code i) (item_operand i) tx idx 0 0 stk of
        Inl err \<Rightarrow> Some err
      | Inr (_, stk') \<Rightarrow> run_lock c L tx idx is stk')"

lemma execOp_start:
  assumes "opCode \<noteq> OPCODESEPARATOR"
  shows "execOp c s opCode od tx idx pc start stk =
    map_sum id (\<lambda>(_, stk). (start, stk)) (execOp c (drop start s) opCode od tx idx 0 0 stk)"
proof -
  have m: "map_sum id (Pair start) x =
      map_sum id (\<lambda>(_, stk). (start, stk)) (map_sum id (Pair 0) x)" for x :: "script_error + Stack"
    by (cases x) simp_all
  show ?thesis
    unfolding execOp_def Let_def if_distrib [where f = "map_sum id (\<lambda>(_, stk). (start, stk))"]
    by (simp only: assms if_False map_sum.simps id_apply prod.case drop_0 m [symmetric])
qed

lemma evaluate_lock:
  assumes "list_all item_ok is" and "Op OPCODESEPARATOR \<notin> set is" and "drop start (pre @ assemble is) = L"
  shows "evaluate_from c (pre @ assemble is) tx idx (length pre) start stk = run_lock c L tx idx is stk"
  using assms
proof (induction "is" arbitrary: pre stk)
  case Nil
  then show ?case by (subst evaluate_from.simps) simp
next
  case (Cons i "is")
  have "item_code i \<noteq> OPCODESEPARATOR"
  proof (cases i)
    case (Push d)
    with Cons.prems(1) item_code_push_le [of d] show ?thesis
      by (auto simp: opcode_defs)
  next
    case (Op b)
    with Cons.prems(2) show ?thesis by auto
  qed
  note x = execOp_start [OF this, of c "pre @ assemble (i # is)" "item_operand i" tx idx _ start stk, unfolded Cons.prems(3)]
  have "parseNextOp (pre @ assemble (i # is)) (length pre) =
      (item_code i, item_operand i, length (pre @ item_bytes i), None)"
    using parseNextOp_item_at [of i pre "assemble is"] Cons.prems(1) by simp
  moreover have "evaluate_from c (pre @ assemble (i # is)) tx idx (length (pre @ item_bytes i)) start stk' =
      run_lock c L tx idx is stk'" for stk'
    using Cons.IH [of "pre @ item_bytes i" stk'] Cons.prems by simp
  moreover have "length pre < length (pre @ assemble (i # is))" by simp
  ultimately show ?case
    by (subst evaluate_from.simps)
      (simp add: x split: sum.split prod.split del: append_assoc assemble_Cons length_append)
qed

lemma evaluate_pushes:
  assumes "\<forall>d\<in>set ds. length d \<le> 0xffff"
  shows "evaluate_from c (pre @ assemble (map Push ds) @ rest) tx idx (length pre) start stk =
    evaluate_from c (pre @ assemble (map Push ds) @ rest) tx idx
      (length pre + length (assemble (map Push ds))) start (stk @ ds)"
  using assms
proof (induction ds arbitrary: pre stk)
  case (Cons d ds)
  let ?s = "pre @ assemble (map Push (d # ds)) @ rest"
  have "parseNextOp ?s (length pre) =
      (item_code (Push d), Some d, length (pre @ item_bytes (Push d)), None)"
    using parseNextOp_item_at [of "Push d" pre "assemble (map Push ds) @ rest"] Cons.prems
    by (simp del: item_bytes.simps)
  moreover have "length pre < length ?s" by (simp del: item_bytes.simps)
  ultimately have "evaluate_from c ?s tx idx (length pre) start stk =
      evaluate_from c ?s tx idx (length (pre @ item_bytes (Push d))) start (stk @ [d])"
    using Cons.prems by (subst evaluate_from.simps) (simp add: execOp_Push)
  also have "\<dots> = evaluate_from c ?s tx idx (length pre + length (assemble (map Push (d # ds)))) start (stk @ d # ds)"
    using Cons.IH [of "pre @ item_bytes (Push d)" "stk @ [d]"] Cons.prems
    by (simp del: item_bytes.simps add: add.assoc)
  finally show ?case .
qed simp

lemma evaluate_unlock:
  assumes "\<forall>d\<in>set ds. length d \<le> 0xffff"
  defines "p \<equiv> Suc (length (assemble (map Push ds)))"
  shows "evaluate c (assemble (map Push ds) @ OPCODESEPARATOR # rest) tx idx =
    evaluate_from c (assemble (map Push ds) @ OPCODESEPARATOR # rest) tx idx p p ds"
proof -
  let ?a = "assemble (map Push ds)"
  have "parseNextOp (?a @ OPCODESEPARATOR # rest) (length ?a) = (OPCODESEPARATOR, None, p, None)"
    using parseNextOp_item_at [of "Op OPCODESEPARATOR" ?a rest] by (simp add: p_def)
  with evaluate_pushes [OF assms(1), of c "[]" "OPCODESEPARATOR # rest" tx idx 0 "[]"] show ?thesis
    by (simp add: evaluate_def) (subst evaluate_from.simps, simp add: execOp_simps)
qed

lemma evaluate_unlock_lock:
  assumes "\<forall>d\<in>set ds. length d \<le> 0xffff" and "list_all item_ok is" and "Op OPCODESEPARATOR \<notin> set is"
  shows "evaluate c (assemble (map Push ds) @ OPCODESEPARATOR # assemble is) tx idx =
    run_lock c (assemble is) tx idx is ds"
  using evaluate_unlock [OF assms(1), of c "assemble is" tx idx]
    evaluate_lock [OF assms(2,3), of "Suc (length (assemble (map Push ds)))"
      "assemble (map Push ds) @ [OPCODESEPARATOR]" "assemble is" c tx idx ds]
  by simp

section \<open>Multi-signature matching\<close>

text \<open>The loop on the stack is a greedy match of the signatures against the keys.\<close>

fun greedy_match :: "(bytes \<Rightarrow> bytes \<Rightarrow> bool) \<Rightarrow> bytes list \<Rightarrow> bytes list \<Rightarrow> bool" where
  "greedy_match v [] ks = True"
| "greedy_match v (s # ss) [] = False"
| "greedy_match v (s # ss) (k # ks) =
     (if v s k then greedy_match v ss ks else greedy_match v (s # ss) ks)"

lemma greedy_match_short: "length ks < length ss \<Longrightarrow> \<not> greedy_match v ss ks"
  by (induction v ss ks rule: greedy_match.induct) auto

lemma greedy_match_iff:
  "greedy_match v ss ks \<longleftrightarrow> (\<exists>ks'. subseq ks' ks \<and> list_all2 v ss ks')"
proof (induction v ss ks rule: greedy_match.induct)
  case (1 v ks)
  then show ?case by auto
next
  case (2 v s ss)
  then show ?case by (auto simp: list_all2_Cons1)
next
  case (3 v s ss k ks)
  show ?case
  proof (cases "v s k")
    case True
    have "(\<exists>ks'. subseq ks' (k # ks) \<and> list_all2 v (s # ss) ks') \<longleftrightarrow>
        (\<exists>ks'. subseq ks' ks \<and> list_all2 v ss ks')"
    proof
      assume "\<exists>ks'. subseq ks' (k # ks) \<and> list_all2 v (s # ss) ks'"
      then obtain k' ks' where "subseq (k' # ks') (k # ks)" "list_all2 v ss ks'"
        by (auto simp: list_all2_Cons1)
      then show "\<exists>ks'. subseq ks' ks \<and> list_all2 v ss ks'"
        by (auto split: if_splits dest: subseq_Cons')
    next
      assume "\<exists>ks'. subseq ks' ks \<and> list_all2 v ss ks'"
      with True show "\<exists>ks'. subseq ks' (k # ks) \<and> list_all2 v (s # ss) ks'"
        by (metis list.rel_intros(2) subseq_Cons2)
    qed
    with 3 True show ?thesis by simp
  next
    case False
    then have "(\<exists>ks'. subseq ks' (k # ks) \<and> list_all2 v (s # ss) ks') \<longleftrightarrow>
        (\<exists>ks'. subseq ks' ks \<and> list_all2 v (s # ss) ks')"
      by (auto simp: list_all2_Cons1 split: if_splits)
    with 3 False show ?thesis by simp
  qed
qed

lemma multisig_loop_greedy:
  assumes "0 < si" and "0 < ki" and "si - 1 + length ss \<le> length stk" and "ki - 1 + length ks \<le> length stk"
    and "take (length ss) (drop (si - 1) (rev stk)) = ss" and "take (length ks) (drop (ki - 1) (rev stk)) = ks"
    and "length ss \<le> length ks"
  shows "multisig_loop v stk (int si) (int ki) (int (length ss)) (int (length ks)) = greedy_match v ss ks"
  using assms
proof (induction v ss ks arbitrary: si ki rule: greedy_match.induct)
  case (1 v ks)
  then show ?case by (simp add: multisig_loop.simps)
next
  case (2 v s ss)
  then show ?case by simp
next
  case (3 v s ss k ks)
  have d: "drop (si - 1) (rev stk) = s # drop si (rev stk)" "drop (ki - 1) (rev stk) = k # drop ki (rev stk)"
  proof -
    have "si - 1 < length (rev stk)" "ki - 1 < length (rev stk)" using 3 by auto
    then have "drop (si - 1) (rev stk) = rev stk ! (si - 1) # drop si (rev stk)"
      "drop (ki - 1) (rev stk) = rev stk ! (ki - 1) # drop ki (rev stk)"
      using 3 Cons_nth_drop_Suc [of "si - 1" "rev stk"] Cons_nth_drop_Suc [of "ki - 1" "rev stk"] by simp_all
    with 3 show "drop (si - 1) (rev stk) = s # drop si (rev stk)" "drop (ki - 1) (rev stk) = k # drop ki (rev stk)"
      by auto
  qed
  have tops: "topN stk (int si) = s" "topN stk (int ki) = k"
    using 3 d by (simp_all add: topN_rev nth_via_drop)
  have rest: "take (length ss) (drop si (rev stk)) = ss" "take (length ks) (drop ki (rev stk)) = ks"
    using 3 d by simp_all
  show ?case
  proof (cases "v s k")
    case True
    with 3 rest have "multisig_loop v stk (int (Suc si)) (int (Suc ki)) (int (length ss)) (int (length ks)) =
        greedy_match v ss ks"
      by (intro 3(1)) auto
    with True 3 show ?thesis
      by (subst multisig_loop.simps) (simp add: tops Let_def add.commute)
  next
    case False
    show ?thesis
    proof (cases "length (s # ss) \<le> length ks")
      case True
      with False 3 rest d have "multisig_loop v stk (int si) (int (Suc ki)) (int (length (s # ss))) (int (length ks)) =
          greedy_match v (s # ss) ks"
        by (intro 3(2)) auto
      with True False 3 show ?thesis
        by (subst multisig_loop.simps) (simp add: tops Let_def add.commute)
    next
      case short: False
      with greedy_match_short [of ks "s # ss" v] False show ?thesis
        by (subst multisig_loop.simps) (simp add: tops Let_def)
    qed
  qed
qed

lemma operand_int_big_bytes:
  "n < 2 ^ 63 \<Longrightarrow> operand_int (big_bytes n) = Inr (int n)"
  by (simp add: operand_int_def big_set_bytes_big_bytes big_is_int64_def big_int64_def sint_of_nat_u64)

lemma exec_multisig_match:
  fixes rest sigs pks :: "bytes list"
  assumes "length sigs \<le> length pks" and "length rest + length sigs + length pks < 2 ^ 62"
  shows "exec_multisig v OPCHECKMULTISIG
      (rest @ sigs @ [big_bytes (length sigs)] @ pks @ [big_bytes (length pks)]) =
    Inr (rest @ [if greedy_match v (rev sigs) (rev pks) then operandTrue else operandFalse])"
proof -
  let ?m = "length sigs" and ?n = "length pks"
  define stk where "stk = rest @ sigs @ [big_bytes ?m] @ pks @ [big_bytes ?n]"
  have len: "length stk = length rest + ?m + ?n + 2" by (simp add: stk_def)
  have rev: "rev stk = big_bytes ?n # rev pks @ big_bytes ?m # rev sigs @ rev rest"
    by (simp add: stk_def)
  have t1: "topN stk 1 = big_bytes ?n"
    using topN_rev [of 1 stk] len rev by simp
  have t2: "topN stk (2 + int ?n) = big_bytes ?m"
    using topN_rev [of "2 + ?n" stk] len rev by (simp add: nth_append)
  have a: "add_int 2 (int ?n) = 2 + int ?n" "add_int (2 + int ?n) 1 = 3 + int ?n"
    "add_int (3 + int ?n) (int ?m) = 3 + int ?n + int ?m"
    "add_int (3 + int ?n + int ?m) (-1) = 2 + int ?n + int ?m"
    using assms(2) by (simp_all add: add_int_id)
  have loop: "multisig_loop v stk (3 + int ?n) 2 (int ?m) (int ?n) = greedy_match v (rev sigs) (rev pks)"
    using multisig_loop_greedy [of "3 + ?n" 2 "rev sigs" stk "rev pks" v] assms(1) len rev by simp
  have pops: "(stack_pop ^^ nat (2 + int ?n + int ?m)) stk = rest"
    unfolding stack_pop_pow by (simp add: len nat_add_distrib) (simp add: stk_def)
  show ?thesis
    unfolding stk_def [symmetric]
    using assms len
    by (simp add: exec_multisig_def t1 t2 operand_int_big_bytes stack_size_def a loop pops [unfolded add.assoc] push_bool_def
        opcode_defs Let_def)
qed

lemma run_lock_pushes:
  "\<forall>d\<in>set ds. length d \<le> 0xffff \<Longrightarrow>
     run_lock c L tx idx (map Push ds @ is) stk = run_lock c L tx idx is (stk @ ds)"
  by (induction ds arbitrary: stk) (simp_all add: execOp_Push)

lemma subseq_rev_mono: "subseq xs ys \<Longrightarrow> subseq (rev xs) (rev ys)"
proof (induction rule: list_emb.induct)
  case (list_emb_Cons xs ys y)
  from list_emb_append_mono [OF this(2) list_emb_Nil, of "[y]"] show ?case by simp
next
  case (list_emb_Cons2 x y xs ys)
  then show ?case by (simp add: list_emb_append_mono)
qed simp

lemma list_all2_rev_subseq:
  "(\<exists>ks'. subseq ks' (rev pks) \<and> list_all2 v (rev sigs) ks') \<longleftrightarrow>
     (\<exists>ks'. subseq ks' pks \<and> list_all2 v sigs ks')"
  by (metis list_all2_rev rev_rev_ident subseq_rev_mono)

lemma execOp_multisig:
  "execOp c s OPCHECKMULTISIG od tx idx pc start stk =
     map_sum id (Pair start)
       (exec_multisig (\<lambda>sig pk. verifySig c sig pk (drop start s) tx idx) OPCHECKMULTISIG stk)"
  "execOp c s OPCHECKMULTISIGVERIFY od tx idx pc start stk =
     map_sum id (Pair start)
       (exec_multisig (\<lambda>sig pk. verifySig c sig pk (drop start s) tx idx) OPCHECKMULTISIGVERIFY stk)"
  by (simp_all add: execOp_def opcode_defs)

text \<open>The two ways to write a count into a locking script: a push of its bytes, or the opcode of a
  small number.\<close>

definition count_item :: "nat \<Rightarrow> item \<Rightarrow> bool" where
  "count_item n i \<longleftrightarrow> i = Push (big_bytes n) \<or> 1 \<le> n \<and> n \<le> 16 \<and> i = Op (OP1 + of_nat (n - 1))"

definition multisig_items :: "item \<Rightarrow> bytes list \<Rightarrow> item \<Rightarrow> item list" where
  "multisig_items im pks ik = im # map Push pks @ [ik, Op OPCHECKMULTISIG]"

lemma small_num_op:
  assumes "1 \<le> n" and "n \<le> 16"
  defines "b \<equiv> OP1 + of_nat (n - 1)"
  shows "unat b = 80 + n" "execOp c s b od tx idx pc start stk = Inr (start, stk @ [big_bytes n])" "item_ok (Op b)"
    "b \<noteq> OPCODESEPARATOR" "b \<noteq> OPHASH160"
proof -
  have "b = of_nat (80 + n)" using assms(1) by (simp add: b_def opcode_defs of_nat_diff)
  then show u: "unat b = 80 + n" using assms(2) by (simp only:) (rule unat_of_nat_less, simp)
  have "\<not> b \<le> OPPUSHDATA4" "b \<le> OP16" "b \<noteq> OPRESERVED"
    using u assms(1,2) by (auto simp: word_le_nat_alt opcode_defs)
  moreover have "nat \<bar>int (unat b) - int (unat OP1) + 1\<bar> = n" using u assms(1) by (simp add: opcode_defs)
  ultimately show "execOp c s b od tx idx pc start stk = Inr (start, stk @ [big_bytes n])"
    by (simp add: execOp_def)
  show "item_ok (Op b)" "b \<noteq> OPCODESEPARATOR" "b \<noteq> OPHASH160"
    using u assms(1,2) by (auto simp: word_le_nat_alt opcode_defs word_less_nat_alt)
qed

lemma count_item_laws:
  assumes "count_item n i" and "n < 2 ^ 61"
  shows "item_ok i" "i \<noteq> Op OPCODESEPARATOR"
    "execOp c s (item_code i) (item_operand i) tx idx pc start stk = Inr (start, stk @ [big_bytes n])"
    "hd (item_bytes i) \<noteq> OPHASH160"
proof -
  have b: "length (big_bytes n) \<le> 8" using assms(2) by (intro length_big_bytes_le) simp
  have "(of_nat (length (big_bytes n)) :: byte) \<noteq> OPHASH160"
  proof
    assume "(of_nat (length (big_bytes n)) :: byte) = OPHASH160"
    then have "unat (of_nat (length (big_bytes n)) :: byte) = unat OPHASH160" by simp
    with b show False by (simp add: unat_of_nat_less opcode_defs)
  qed
  with b have "hd (item_bytes (Push (big_bytes n))) \<noteq> OPHASH160"
    by (simp add: item_bytes_small del: item_bytes.simps(1))
  then show "item_ok i" "i \<noteq> Op OPCODESEPARATOR"
    "execOp c s (item_code i) (item_operand i) tx idx pc start stk = Inr (start, stk @ [big_bytes n])"
    "hd (item_bytes i) \<noteq> OPHASH160"
    using assms(1) b small_num_op [of n] by (auto simp: count_item_def execOp_Push)
qed

text \<open>\<^verbatim>\<open>OP_CHECKMULTISIG\<close> on any stack below the counts and the keys.\<close>

lemma exec_multisig_any:
  fixes stk pks :: "bytes list"
  assumes "length stk + length pks < 2 ^ 61" and "m < 2 ^ 61"
  shows "exec_multisig v OPCHECKMULTISIG (stk @ [big_bytes m] @ pks @ [big_bytes (length pks)]) =
    (if length pks < m then Inl ErrScriptSignatureVerifyFail
     else if length stk < m then Inl ErrInvalidStackOperation
     else Inr (take (length stk - m) stk @
       [if greedy_match v (rev (drop (length stk - m) stk)) (rev pks) then operandTrue else operandFalse]))"
proof (cases "m \<le> length pks \<and> m \<le> length stk")
  case True
  then have "length (drop (length stk - m) stk) = m" by simp
  with True exec_multisig_match [of "drop (length stk - m) stk" pks "take (length stk - m) stk" v] assms(1)
  show ?thesis by (simp add: append_assoc [symmetric] del: append_assoc)
next
  case False
  let ?n = "length pks"
  define st where "st = stk @ [big_bytes m] @ pks @ [big_bytes ?n]"
  have len: "length st = length stk + ?n + 2" and rev: "rev st = big_bytes ?n # rev pks @ big_bytes m # rev stk"
    by (simp_all add: st_def)
  have t1: "topN st 1 = big_bytes ?n" using topN_rev [of 1 st] len rev by simp
  have t2: "topN st (2 + int ?n) = big_bytes m"
    using topN_rev [of "2 + ?n" st] len rev by (simp add: nth_append)
  have a: "add_int 2 (int ?n) = 2 + int ?n" "add_int (2 + int ?n) 1 = 3 + int ?n"
    "add_int (3 + int ?n) (int m) = 3 + int ?n + int m" "add_int (3 + int ?n + int m) (-1) = 2 + int ?n + int m"
    using assms by (simp_all add: add_int_id)
  from False show ?thesis
    unfolding st_def [symmetric] using assms len
    by (auto simp: exec_multisig_def t1 t2 operand_int_big_bytes stack_size_def a Let_def)
qed

lemma run_lock_p2pkh:
  assumes "length h = Ripemd160Size"
  shows "run_lock c L tx idx (p2pkh_item_list h) [sig, pk] =
    (if Hash160 c pk \<noteq> h then Some ErrScriptEqualVerify
     else if verifySig c sig pk L tx idx then None
     else Some ErrFinalTopStackEleFalse)"
  using assms execOp_Push [of h c] execOp_simps(2-4,6) [of c _ _ _ _ _ _ "[sig]"]
    execOp_simps(4) [of c _ _ _ _ _ _ "[sig, pk]"] execOp_simps(3) [of c _ _ _ _ _ _ "[sig, pk]"]
    execOp_simps(6) [of c _ _ _ _ _ _ "[]"] validateTop_bool [of "[]"]
  by (simp add: p2pkh_item_list_def Ripemd160Size_def)

lemma Validate_p2pkh_eq:
  assumes "length sig \<le> 65535" and "length pk \<le> 65535" and "length h = Ripemd160Size"
  shows "Validate c (SignatureScript sig pk) (PayToPubKeyHashScript h) tx idx =
    (if Hash160 c pk \<noteq> h then Some ErrScriptEqualVerify
     else if verifySig c sig pk (PayToPubKeyHashScript h) tx idx then None
     else Some ErrFinalTopStackEleFalse)"
proof -
  have "evaluate c (SignatureScript sig pk @ OPCODESEPARATOR # PayToPubKeyHashScript h) tx idx =
      run_lock c (PayToPubKeyHashScript h) tx idx (p2pkh_item_list h) [sig, pk]"
    using evaluate_unlock_lock [of "[sig, pk]" "p2pkh_item_list h" c tx idx] assms
    by (simp add: p2pkh_item_list_def p2pkh_items sig_items Ripemd160Size_def opcode_defs)
  moreover have "\<not> IsPayToScriptHash (PayToPubKeyHashScript h)"
    using length_p2pkh [OF assms(3)] by (simp add: IsPayToScriptHash_def p2PKHScriptLen_def p2SHScriptLen_def)
  ultimately show ?thesis
    by (simp add: Validate_def AddScript_def AddOpCode_def run_lock_p2pkh [OF assms(3)])
qed

section \<open>Properties\<close>

text \<open>C1: Spending a pay-to-pubkey-hash output with a signature and a public key succeeds exactly
  when the key hashes to the output's hash and the signature verifies over the output's script; a
  wrong key fails at the equality check and a wrong signature leaves false on the stack.\<close>

theorem validate_p2pkh:
  assumes "length sig \<le> 65535" and "length pk \<le> 65535" and "length h = Ripemd160Size"
  shows "Validate c (SignatureScript sig pk) (PayToPubKeyHashScript h) tx idx =
    (if Hash160 c pk \<noteq> h then Some ErrScriptEqualVerify
     else if verifySig c sig pk (PayToPubKeyHashScript h) tx idx then None
     else Some ErrFinalTopStackEleFalse)"
  using assms by (rule Validate_p2pkh_eq)

theorem validate_p2pkh_witness:
  "Validate zero_crypto (SignatureScript [1, 2] [3]) (PayToPubKeyHashScript (replicate 20 0))
     (NewTx 1 0 0\<lparr>Vin := [NewTxIn NewNullOutPoint [] 0]\<rparr>) 0 = None"
  using validate_p2pkh [of "[1, 2]" "[3]" "replicate 20 0" zero_crypto
      "NewTx 1 0 0\<lparr>Vin := [NewTxIn NewNullOutPoint [] 0]\<rparr>" 0]
  by (simp add: Ripemd160Size_def verifySig_def CalcTxHashForSig_def zero_crypto_def Hash160_def
      CalcTxHash_def DoubleHashH_def Let_def)

text \<open>C2: An unlocking script is not isolated from the locking script. For every locking script of
  at most 74 bytes that is not pay-to-script-hash, in particular every pay-to-pubkey-hash output, the
  one byte unlocking script that announces a push of the rest swallows separator and locking script as
  data, and validation succeeds for every transaction without any signature.\<close>

theorem validate_swallows_locking_script:
  assumes "length scriptPubKey < 75" and "\<not> IsPayToScriptHash scriptPubKey"
  shows "Validate c [of_nat (length scriptPubKey + 1)] scriptPubKey tx idx = None"
proof -
  let ?d = "OPCODESEPARATOR # scriptPubKey"
  have s: "[of_nat (length scriptPubKey + 1)] @ ?d = assemble [Push ?d]"
    using assms(1) by (simp add: item_bytes_small del: item_bytes.simps(1))
  have "evaluate c (assemble [Push ?d]) tx idx = validateTop [?d]"
    using evaluate_lock [of "[Push ?d]" 0 "[]" _ c tx idx "[]"] assms(1)
    by (simp add: evaluate_def execOp_Push opcode_defs)
  moreover have "big_set_bytes ?d \<noteq> 0"
    by (simp add: big_set_bytes_0_iff OPCODESEPARATOR_def)
  ultimately show ?thesis
    using assms(2) topN_snoc(1) [of "[]" ?d]
    by (simp add: Validate_def AddScript_def AddOpCode_def validateTop_def stack_empty_def s [simplified])
qed

theorem validate_swallows_witness:
  "Validate zero_crypto [26] (PayToPubKeyHashScript (replicate 20 7)) (NewTx 1 0 0) 0 = None"
  using validate_swallows_locking_script
    [of "PayToPubKeyHashScript (replicate 20 7)" zero_crypto "NewTx 1 0 0" 0]
    length_p2pkh [of "replicate 20 7"]
  by (simp add: Ripemd160Size_def p2PKHScriptLen_def IsPayToScriptHash_def p2SHScriptLen_def)

text \<open>C5: Spending an output that is locked until some height or time (a number that is not negative)
  needs the transaction's lock time to be of the same kind (height or time) and not earlier than the
  output's, and then the same key and signature checks as a plain output.\<close>

theorem validate_cltv:
  assumes "length sig \<le> 65535" and "length pk \<le> 65535" and "length h = Ripemd160Size"
    and "0 \<le> t" and "t < 2 ^ 63"
  shows "Validate c (SignatureScript sig pk) (PayToPubKeyHashCLTVScript h t) tx idx =
    (if \<not> checkLockTime t (LockTime tx) then Some ErrScriptLockTimeVerifyFail
     else if Hash160 c pk \<noteq> h then Some ErrScriptEqualVerify
     else if verifySig c sig pk (PayToPubKeyHashCLTVScript h t) tx idx then None
     else Some ErrFinalTopStackEleFalse)"
proof -
  define js where "js = [Push (big_bytes (nat t)), Op OPCHECKLOCKTIMEVERIFY] @ p2pkh_item_list h"
  have len: "length (big_bytes (nat t)) \<le> 8"
    using assms(4,5) by (intro length_big_bytes_le) simp
  have s: "PayToPubKeyHashCLTVScript h t = assemble js"
    using assms(4) by (simp add: js_def cltv_items p2pkh_item_list_def)
  have "evaluate c (SignatureScript sig pk @ OPCODESEPARATOR # PayToPubKeyHashCLTVScript h t) tx idx =
      run_lock c (assemble js) tx idx js [sig, pk]"
    using evaluate_unlock_lock [of "[sig, pk]" js c tx idx] assms len
    by (simp add: s js_def p2pkh_item_list_def sig_items Ripemd160Size_def opcode_defs)
  moreover have "\<not> IsPayToScriptHash (PayToPubKeyHashCLTVScript h t)"
    using assms(3) len
    by (auto simp: s js_def p2pkh_item_list_def item_bytes_small IsPayToScriptHash_def p2SHScriptLen_def Ripemd160Size_def
        simp del: item_bytes.simps(1))
  moreover have "big_int64 (nat t) = t"
    using assms(4,5) sint_of_nat_u64 [of "nat t"] unfolding big_int64_def by simp
  then have "run_lock c (assemble js) tx idx js [sig, pk] =
      (if checkLockTime t (LockTime tx) then run_lock c (assemble js) tx idx (p2pkh_item_list h) [sig, pk]
       else Some ErrScriptLockTimeVerifyFail)"
    using execOp_simps(9) [of c _ _ _ _ _ _ "[sig, pk]"] len
    by (simp add: js_def execOp_Push)
  ultimately show ?thesis
    by (simp only: Validate_def AddScript_def AddOpCode_def Let_def append_Nil append_assoc append_Cons
        run_lock_p2pkh [OF assms(3)] s) simp
qed

theorem validate_cltv_witness:
  "Validate zero_crypto (SignatureScript [1, 2] [3]) (PayToPubKeyHashCLTVScript (replicate 20 0) 100)
     (NewTx 1 0 99) 0 = Some ErrScriptLockTimeVerifyFail"
  using validate_cltv [of "[1, 2]" "[3]" "replicate 20 0" 100 zero_crypto "NewTx 1 0 99" 0]
  by (simp add: Ripemd160Size_def checkLockTime_def LockTimeThreshold_def NewTx_def)

text \<open>C3: Spending an m-of-n multi-signature output with an unlocking script that pushes any number of
  values. The locking script is \<open>m <key 1> .. <key n> n OP_CHECKMULTISIG\<close>, each count written as an
  opcode \<open>OP_1 .. OP_16\<close> or as data. If m exceeds n, or fewer than m values are pushed, validation fails
  with the error of that case. Otherwise only the last m pushed values count, and validation succeeds
  exactly when they verify, in order, against some of the n keys in order, each key used once; further
  values below them are ignored. The greedy loop of the interpreter misses no such match and accepts
  nothing else.\<close>

theorem validate_multisig:
  assumes "\<forall>d\<in>set ds \<union> set pks. length d \<le> 65535" and "length ds + length pks < 2 ^ 61" and "m < 2 ^ 61"
    and "count_item m im" and "count_item (length pks) ik"
  defines "lock \<equiv> assemble (multisig_items im pks ik)"
  shows "Validate c (assemble (map Push ds)) lock tx idx =
    (if length pks < m then Some ErrScriptSignatureVerifyFail
     else if length ds < m then Some ErrInvalidStackOperation
     else if \<exists>pks'. subseq pks' pks \<and> list_all2 (\<lambda>sig pk. verifySig c sig pk lock tx idx) (drop (length ds - m) ds) pks'
     then None else Some ErrFinalTopStackEleFalse)"
proof -
  let ?v = "\<lambda>sig pk. verifySig c sig pk lock tx idx"
  have n: "length pks < 2 ^ 61" using assms(2) by simp
  note im = count_item_laws [OF assms(4,3)] and ik = count_item_laws [OF assms(5) n]
  have pk: "\<forall>d\<in>set pks. length d \<le> 65535" using assms(1) by simp
  have "list_all item_ok (multisig_items im pks ik)" "Op OPCODESEPARATOR \<notin> set (multisig_items im pks ik)"
    using assms(1) im(1,2) ik(1,2) by (auto simp: multisig_items_def list_all_iff opcode_defs)
  with evaluate_unlock_lock [of ds "multisig_items im pks ik" c tx idx] assms(1)
  have "evaluate c (assemble (map Push ds) @ OPCODESEPARATOR # lock) tx idx = run_lock c lock tx idx (multisig_items im pks ik) ds"
    by (simp add: lock_def)
  also have "\<dots> = run_lock c lock tx idx [Op OPCHECKMULTISIG] (ds @ [big_bytes m] @ pks @ [big_bytes (length pks)])"
    by (simp add: multisig_items_def im(3) ik(3) run_lock_pushes [OF pk])
  also have "\<dots> = (if length pks < m then Some ErrScriptSignatureVerifyFail
     else if length ds < m then Some ErrInvalidStackOperation
     else if greedy_match ?v (rev (drop (length ds - m) ds)) (rev pks) then None else Some ErrFinalTopStackEleFalse)"
    using exec_multisig_any [OF assms(2,3), of ?v] validateTop_bool [of "take (length ds - m) ds"]
    by (auto simp: execOp_multisig)
  finally have ev: "evaluate c (assemble (map Push ds) @ OPCODESEPARATOR # lock) tx idx =
    (if length pks < m then Some ErrScriptSignatureVerifyFail
     else if length ds < m then Some ErrInvalidStackOperation
     else if \<exists>pks'. subseq pks' pks \<and> list_all2 ?v (drop (length ds - m) ds) pks'
     then None else Some ErrFinalTopStackEleFalse)"
    by (simp add: greedy_match_iff list_all2_rev_subseq)
  have "\<not> IsPayToScriptHash lock"
  proof
    assume "IsPayToScriptHash lock"
    then have "hd lock = OPHASH160" by (cases lock) (auto simp: IsPayToScriptHash_def p2SHScriptLen_def split: if_splits)
    moreover have "hd lock = hd (item_bytes im)"
      using item_bytes_not_Nil [of im] by (simp add: lock_def multisig_items_def)
    ultimately show False using im(4) by simp
  qed
  with ev show ?thesis by (simp add: Validate_def AddScript_def AddOpCode_def)
qed

text \<open>Two signatures on a 1-of-3 output.\<close>

theorem validate_multisig_witness:
  "Validate zero_crypto (assemble (map Push [[1], [2]]))
     (assemble (multisig_items (Op OP1) [[3], [4], [5]] (Op OP3)))
     (NewTx 1 0 0\<lparr>Vin := [NewTxIn NewNullOutPoint [] 0]\<rparr>) 0 = None"
proof -
  let ?tx = "NewTx 1 0 0\<lparr>Vin := [NewTxIn NewNullOutPoint [] 0]\<rparr>"
  let ?lock = "assemble (multisig_items (Op OP1) [[3], [4], [5]] (Op OP3))"
  have "verifySig zero_crypto sig pk ?lock ?tx 0" for sig pk
    by (simp add: verifySig_def CalcTxHashForSig_def zero_crypto_def CalcTxHash_def DoubleHashH_def Let_def)
  then have "\<exists>pks'. subseq pks' [[3], [4], [5 :: byte]] \<and>
      list_all2 (\<lambda>sig pk. verifySig zero_crypto sig pk ?lock ?tx 0) [[2 :: byte]] pks'"
    by (intro exI [of _ "[[3]]"]) simp
  moreover have "count_item 1 (Op OP1)" "count_item (length [[3], [4], [5 :: byte]]) (Op OP3)"
    by (simp_all add: count_item_def opcode_defs)
  ultimately show ?thesis
    using validate_multisig [of "[[1], [2]]" "[[3], [4], [5]]" 1 "Op OP1" "Op OP3" zero_crypto ?tx 0] by simp
qed

text \<open>\<^verbatim>\<open>OP_CHECKMULTISIGVERIFY\<close> never verifies: it behaves in every state exactly as
  \<^verbatim>\<open>OP_CHECKMULTISIG\<close>, leaving the result on the stack instead of failing on a bad signature.\<close>

theorem multisigverify_does_not_verify:
  "execOp c s OPCHECKMULTISIGVERIFY od tx idx pc start stk =
     execOp c s OPCHECKMULTISIG od tx idx pc start stk"
proof -
  have "(OPCHECKMULTISIGVERIFY = OPCHECKSIGVERIFY) = False" "(OPCHECKMULTISIG = OPCHECKSIGVERIFY) = False"
    by (simp_all add: opcode_defs)
  then show ?thesis
    unfolding execOp_multisig exec_multisig_def by (simp only: if_False)
qed

text \<open>A key count of \<open>2 ^ 63 - 1\<close> overflows the stack index: the bound check passes, no
  signature is read, and \<^verbatim>\<open>OP_CHECKMULTISIG\<close> pushes true on any stack below it.\<close>

theorem multisig_count_overflow:
  "execOp c s OPCHECKMULTISIG od tx idx pc start (stk @ [[0x7f, 0xff, 0xff, 0xff, 0xff, 0xff, 0xff, 0xff]]) =
     Inr (start, stk @ [[0x7f, 0xff, 0xff, 0xff, 0xff, 0xff, 0xff, 0xff], operandTrue])"
proof -
  let ?k = "[0x7f, 0xff, 0xff, 0xff, 0xff, 0xff, 0xff, 0xff] :: bytes"
  have k: "operand_int ?k = Inr (2 ^ 63 - 1)"
    by (simp add: operand_int_def big_set_bytes_def big_is_int64_def big_int64_def)
  have a: "add_int 2 (2 ^ 63 - 1) = - (2 ^ 63) + 1" "add_int (- (2 ^ 63) + 1) 1 = - (2 ^ 63) + 2"
    "add_int (- (2 ^ 63) + 2) 0 = - (2 ^ 63) + 2" "add_int (- (2 ^ 63) + 2) (-1) = - (2 ^ 63) + 1"
    by (simp_all add: add_int_def wrap_int_def)
  have t: "topN stk' (- (2 ^ 63) + 1) = []" for stk' by (simp add: topN_def)
  have z: "operand_int [] = Inr 0"
    by (simp add: operand_int_def big_is_int64_def big_int64_def)
  have sz: "\<not> stack_size stk' < - (2 ^ 63) + 1" for stk'
    using stack_size_nonneg [of stk'] by (simp del: stack_size_nonneg)
  have "exec_multisig v OPCHECKMULTISIG (stk @ [?k]) = Inr (stk @ [?k, operandTrue])" for v
    using stack_size_nonneg [of stk]
    by (simp add: exec_multisig_def k a [simplified] t [simplified] z sz [simplified] multisig_loop.simps push_bool_def opcode_defs Let_def not_less)
  then show ?thesis by (simp add: execOp_multisig)
qed

text \<open>C6: Spending a pay-to-script-hash output with a signature push and a redeem script push
  checks that the redeem script has the output's hash, and then succeeds exactly when the redeem script
  run on that one signature succeeds.\<close>

theorem validate_p2sh:
  assumes "length sig \<le> 65535" and "length redeem \<le> 65535" and "length h = Ripemd160Size"
  shows "Validate c (SignatureScript sig redeem) (assemble [Op OPHASH160, Push h, Op OPEQUAL]) tx idx =
    (if Hash160 c redeem \<noteq> h then Some ErrFinalTopStackEleFalse
     else evaluate c (AddOperand [] sig @ OPCODESEPARATOR # redeem) tx idx)"
proof -
  define js where "js = [Op OPHASH160, Push h, Op OPEQUAL]"
  define us where "us = [Push sig, Push redeem]"
  have "list_all item_ok js" "Op OPCODESEPARATOR \<notin> set js" 
    using assms by (simp_all add: js_def Ripemd160Size_def opcode_defs)
  from evaluate_unlock_lock [OF _ this, of "[sig, redeem]" c tx idx] assms
  have "evaluate c (SignatureScript sig redeem @ OPCODESEPARATOR # assemble js) tx idx =
      run_lock c (assemble js) tx idx js [sig, redeem]"
    by (simp add: sig_items)
  also have "\<dots> = (if Hash160 c redeem \<noteq> h then Some ErrFinalTopStackEleFalse else None)"
    using assms(3) execOp_simps(3,5) [of c _ _ _ _ _ _ "[sig]"] validateTop_bool [of "[sig]"]
    by (simp add: js_def execOp_Push Ripemd160Size_def)
  finally have ev: "evaluate c (SignatureScript sig redeem @ OPCODESEPARATOR # assemble js) tx idx =
      (if Hash160 c redeem \<noteq> h then Some ErrFinalTopStackEleFalse else None)" .
  have "IsPayToScriptHash (assemble js)"
    using assms(3) unfolding IsPayToScriptHash_iff js_def by blast
  moreover have ok: "list_all item_ok us" using assms by (simp add: us_def)
  then have "parseNextOp (SignatureScript sig redeem) 0 = (item_code (Push sig), Some sig, item_pc us 1, None)"
    "parseNextOp (SignatureScript sig redeem) (item_pc us 1) =
      (item_code (Push redeem), Some redeem, item_pc us 2, None)"
    using parseNextOp_items [OF ok, of 0] parseNextOp_items [OF ok, of 1]
    by (simp_all add: us_def sig_items numeral_2_eq_2)
  ultimately show ?thesis
    unfolding js_def [symmetric] Validate_def using ev
    by (simp add: AddScript_def AddOpCode_def Let_def)
qed

theorem validate_p2sh_witness:
  "Validate zero_crypto (SignatureScript [1] [OPDROP, 1, 1])
     (assemble [Op OPHASH160, Push (replicate 20 0), Op OPEQUAL]) (NewTx 1 0 0) 0 =
   evaluate zero_crypto (AddOperand [] [1] @ OPCODESEPARATOR # [OPDROP, 1, 1]) (NewTx 1 0 0) 0"
  using validate_p2sh [of "[1]" "[OPDROP, 1, 1]" "replicate 20 0" zero_crypto "NewTx 1 0 0" 0]
  by (simp add: Ripemd160Size_def Hash160_def zero_crypto_def)

lemma append_vin_fold:
  "foldl (\<lambda>tx (i, txIn). if i \<noteq> k then AppendVin tx [f txIn] else AppendVin tx [g txIn]) tx xs =
     tx\<lparr>Vin := Vin tx @ map (\<lambda>(i, txIn). if i \<noteq> k then f txIn else g txIn) xs\<rparr>"
  by (induction xs arbitrary: tx) (auto simp: AppendVin_def)

lemma CalcTxHashForSig_eq:
  "CalcTxHashForSig c spk tx k =
     (if length (Vin tx) \<le> k then Inl ErrInputIndexOutOfBound
      else case CalcTxHash c \<lparr>cached_hash = None, TxTyp = UnknownTx, Version = Version tx,
          Vin = map (\<lambda>(i, txIn). NewTxIn (PrevOutPoint txIn) (if i = k then spk else []) (Sequence txIn))
            (enumerate 0 (Vin tx)),
          Vout = Vout tx, Data = Data tx, Magic = Magic tx, LockTime = LockTime tx\<rparr> of
        None \<Rightarrow> Inl (ErrOther ''marshal'') | Some h \<Rightarrow> Inr h)"
proof -
  have "map (\<lambda>(i, txIn). if i \<noteq> k then NewTxIn (PrevOutPoint txIn) [] (Sequence txIn)
        else NewTxIn (PrevOutPoint txIn) spk (Sequence txIn)) xs =
      map (\<lambda>(i, txIn). NewTxIn (PrevOutPoint txIn) (if i = k then spk else []) (Sequence txIn)) xs" for xs
    by (induction xs) auto
  note m = this
  show ?thesis
    unfolding CalcTxHashForSig_def Let_def append_vin_fold m by (simp add: AppendVout_def NewTx_def)
qed

lemma CalcTxHashForSig_scripts:
  assumes "length sigs = length (Vin tx)"
  shows "CalcTxHashForSig c scriptPubKey
      (tx\<lparr>Vin := map (\<lambda>(i, sg). i\<lparr>ScriptSig := sg\<rparr>) (zip (Vin tx) sigs), cached_hash := h\<rparr>) idx =
    CalcTxHashForSig c scriptPubKey tx idx"
proof -
  let ?V = "map (\<lambda>(i, sg). i\<lparr>ScriptSig := sg\<rparr>) (zip (Vin tx) sigs)"
  let ?f = "\<lambda>(i, txIn). NewTxIn (PrevOutPoint txIn) (if i = idx then scriptPubKey else []) (Sequence txIn)"
  have "map ?f (enumerate 0 ?V) = map ?f (enumerate 0 (Vin tx))"
    using assms by (intro nth_equalityI) (simp_all add: nth_enumerate_eq)
  with assms show ?thesis unfolding CalcTxHashForSig_eq by simp
qed

text \<open>C33: What a signature signs does not depend on any unlocking script: replacing the scripts of
  all inputs (and the cached hash) leaves the signed digest of every input unchanged, so an input can be
  signed before or after the others.\<close>

theorem sighash_ignores_unlocking_scripts:
  assumes "length sigs = length (Vin tx)"
  shows "CalcTxHashForSig c scriptPubKey
      (tx\<lparr>Vin := map (\<lambda>(i, sg). i\<lparr>ScriptSig := sg\<rparr>) (zip (Vin tx) sigs), cached_hash := h\<rparr>) idx =
    CalcTxHashForSig c scriptPubKey tx idx"
  using assms by (rule CalcTxHashForSig_scripts)

theorem sighash_ignores_unlocking_scripts_witness:
  "CalcTxHashForSig zero_crypto [1] (NewTx 1 0 0\<lparr>Vin := [NewTxIn NewNullOutPoint [5] 0]\<rparr>) 0 =
   CalcTxHashForSig zero_crypto [1] (NewTx 1 0 0\<lparr>Vin := [NewTxIn NewNullOutPoint [] 0]\<rparr>) 0"
  using sighash_ignores_unlocking_scripts
    [of "[[5]]" "NewTx 1 0 0\<lparr>Vin := [NewTxIn NewNullOutPoint [] 0]\<rparr>" zero_crypto "[1]" None 0]
  by (simp add: NewTxIn_def NewTx_def)

end
