(* ===== verification/Tx_Compress.thy ===== *)
theory Tx_Compress
  imports Script_Class
begin

text \<open>
  The storage format of unspent outputs, \<^verbatim>\<open>src/core/chain/compress.go\<close> and the
  serialisation half of \<^verbatim>\<open>src/core/chain/utxoset.go\<close>: variable length quantities, script and
  amount compression, \<^verbatim>\<open>SerializeUtxoWrap\<close> and \<^verbatim>\<open>DeserializeUtxoWrap\<close>, and the database
  key of an outpoint. Functions that write into a target slice return the updated slice;
  \<^term>\<open>None\<close> and the error \<open>OutOfRange\<close> stand for an index out of range panic.
\<close>

section \<open>Variable length quantities\<close>

lemma vlq_drop_less: "0x7f < (n :: u64) \<Longrightarrow> unat (drop_bit 7 n - 1) < unat n"
proof -
  assume "0x7f < n"
  then have "128 \<le> unat n" by (simp add: word_less_nat_alt)
  moreover have "unat (drop_bit 7 n) = unat n div 128"
    by (simp add: drop_bit_eq_div unat_div)
  ultimately show ?thesis
    by (simp add: unat_sub word_le_nat_alt)
qed

function serializeSizeVLQ_loop :: "nat \<Rightarrow> u64 \<Rightarrow> nat" where
  "serializeSizeVLQ_loop sz n =
     (if n > 0x7f then serializeSizeVLQ_loop (sz + 1) (drop_bit 7 n - 1) else sz)"
  by pat_completeness auto

termination serializeSizeVLQ_loop
  by (relation "measure (\<lambda>(_, n). unat n)") (auto intro: vlq_drop_less)

definition serializeSizeVLQ :: "u64 \<Rightarrow> nat" where
  "serializeSizeVLQ n = serializeSizeVLQ_loop 1 n"

function putVLQ_loop :: "bytes \<Rightarrow> nat \<Rightarrow> u64 \<Rightarrow> (bytes \<times> nat) option" where
  "putVLQ_loop target offset n =
     (let highBitMask = (if offset = 0 then 0x00 else 0x80) in
      if length target \<le> offset then None
      else
        (let target = target[offset := ucast (n AND 0x7f) OR highBitMask] in
         if n \<le> 0x7f then Some (target, offset)
         else putVLQ_loop target (offset + 1) (drop_bit 7 n - 1)))"
  by pat_completeness auto

termination putVLQ_loop
  by (relation "measure (\<lambda>(_, _, n). unat n)") (auto intro: vlq_drop_less simp: not_le)

text \<open>The in-place reversal of \<^verbatim>\<open>target[0..offset]\<close>.\<close>

function swap_loop :: "bytes \<Rightarrow> nat \<Rightarrow> nat \<Rightarrow> bytes" where
  "swap_loop target i j =
     (if i < j then swap_loop (target[i := target ! j, j := target ! i]) (i + 1) (j - 1) else target)"
  by pat_completeness auto

termination swap_loop
  by (relation "measure (\<lambda>(_, i, j). j - i)") auto

declare serializeSizeVLQ_loop.simps [simp del] putVLQ_loop.simps [simp del] swap_loop.simps [simp del]

definition putVLQ :: "bytes \<Rightarrow> u64 \<Rightarrow> (bytes \<times> nat) option" where
  "putVLQ target n =
     (case putVLQ_loop target 0 n of
        None \<Rightarrow> None
      | Some (target, offset) \<Rightarrow> Some (swap_loop target 0 offset, offset + 1))"

fun deserializeVLQ_loop :: "u64 \<Rightarrow> nat \<Rightarrow> bytes \<Rightarrow> u64 \<times> nat" where
  "deserializeVLQ_loop n sz [] = (n, sz)"
| "deserializeVLQ_loop n sz (val # vals) =
     (let sz = sz + 1;
          n = push_bit 7 n OR ucast (val AND 0x7f)
      in if val AND 0x80 \<noteq> 0x80 then (n, sz) else deserializeVLQ_loop (n + 1) sz vals)"

definition deserializeVLQ :: "bytes \<Rightarrow> u64 \<times> nat" where
  "deserializeVLQ serialized = deserializeVLQ_loop 0 0 serialized"

section \<open>Scripts\<close>

definition p2pkh :: byte where "p2pkh = 0"
definition p2sh :: byte where "p2sh = 1"
definition specialScripts :: nat where "specialScripts = 6"

text \<open>The pair of a flag and a slice is an option.\<close>

definition isPubKeyHash :: "bytes \<Rightarrow> bytes option" where
  "isPubKeyHash pkscript =
     (if length pkscript = 25 \<and> pkscript ! 0 = OPDUP \<and> pkscript ! 1 = OPHASH160 \<and>
         pkscript ! 23 = OPEQUALVERIFY \<and> pkscript ! 24 = OPCHECKSIG
      then Some (take 20 (drop 3 pkscript)) else None)"

definition isScriptHash :: "bytes \<Rightarrow> bytes option" where
  "isScriptHash pkscript =
     (if length pkscript = 23 \<and> pkscript ! 0 = OPHASH160 \<and> pkscript ! 22 = OPEQUAL
      then Some (take 20 (drop 2 pkscript)) else None)"

definition compressedScriptSize :: "bytes \<Rightarrow> nat" where
  "compressedScriptSize pkScript =
     (if isPubKeyHash pkScript \<noteq> None then 21
      else if isScriptHash pkScript \<noteq> None then 21
      else serializeSizeVLQ (of_nat (length pkScript + specialScripts)) + length pkScript)"

text \<open>The size is a Go \<^verbatim>\<open>int\<close>: negative for the codes 2 to 5 and for very large ones.\<close>

definition decodeCompressedScriptSize :: "bytes \<Rightarrow> int" where
  "decodeCompressedScriptSize serialized =
     (case deserializeVLQ serialized of (scriptSize, bytesRead) \<Rightarrow>
      if bytesRead = 0 then 0
      else if scriptSize = ucast p2pkh then 21
      else if scriptSize = ucast p2sh then 21
      else sint (scriptSize - of_nat specialScripts + of_nat bytesRead))"

definition compressedScript :: "bytes \<Rightarrow> bytes \<Rightarrow> (bytes \<times> nat) option" where
  "compressedScript target pkScript =
     (case isPubKeyHash pkScript of
        Some hash \<Rightarrow>
          if length target < 21 then None
          else Some (copy_at (target[0 := p2pkh]) 1 hash, 21)
      | None \<Rightarrow>
     (case isScriptHash pkScript of
        Some hash \<Rightarrow>
          if length target < 21 then None
          else Some (copy_at (target[0 := p2sh]) 1 hash, 21)
      | None \<Rightarrow>
          (let encodedSize = of_nat (length pkScript + specialScripts) in
           case putVLQ target encodedSize of
             None \<Rightarrow> None
           | Some (target, vlqSizeLen) \<Rightarrow>
               Some (copy_at target vlqSizeLen pkScript, vlqSizeLen + length pkScript))))"

definition decompressScript :: "bytes \<Rightarrow> bytes option" where
  "decompressScript compressedPkScript =
     (if length compressedPkScript = 0 then Some []
      else case deserializeVLQ compressedPkScript of (encodedScriptSize, bytesRead) \<Rightarrow>
      if encodedScriptSize = ucast p2pkh then
        if length compressedPkScript < bytesRead + 20 then None
        else Some ([OPDUP, OPHASH160, OPDATA20] @ take 20 (drop bytesRead compressedPkScript)
                   @ [OPEQUALVERIFY, OPCHECKSIG])
      else if encodedScriptSize = ucast p2sh then
        if length compressedPkScript < bytesRead + 20 then None
        else Some ([OPHASH160, OPDATA20] @ take 20 (drop bytesRead compressedPkScript) @ [OPEQUAL])
      else
        (let scriptSize = sint (encodedScriptSize - of_nat specialScripts) in
         if scriptSize < 0 \<or> int (length compressedPkScript) < int bytesRead + scriptSize then None
         else Some (take (nat scriptSize) (drop bytesRead compressedPkScript))))"

section \<open>Amounts\<close>

function strip_zeros :: "u64 \<Rightarrow> nat \<Rightarrow> u64 \<times> nat" where
  "strip_zeros v exponent =
     (if v mod 10 = 0 \<and> exponent < 9 then strip_zeros (v div 10) (exponent + 1) else (v, exponent))"
  by pat_completeness auto

termination strip_zeros
  by (relation "measure (\<lambda>(_, e). 9 - e)") auto

declare strip_zeros.simps [simp del]

definition compressTxOutValue :: "u64 \<Rightarrow> u64" where
  "compressTxOutValue v =
     (if v = 0 then 0
      else case strip_zeros v 0 of (v, exponent) \<Rightarrow>
      if exponent < 9 then
        (let lastDigit = v mod 10; v = v div 10
         in 1 + 10 * (9 * v + lastDigit - 1) + of_nat exponent)
      else 10 + 10 * (v - 1))"

fun mul10 :: "u64 \<Rightarrow> nat \<Rightarrow> u64" where
  "mul10 n 0 = n"
| "mul10 n (Suc e) = mul10 (n * 10) e"

definition decompressTxOutValue :: "u64 \<Rightarrow> u64" where
  "decompressTxOutValue v =
     (if v = 0 then 0
      else
        (let v = v - 1; exponent = v mod 10; v = v div 10;
             n = (if exponent < 9 then (let lastDigit = v mod 9 + 1; v = v div 9 in v * 10 + lastDigit)
                  else v + 1)
         in mul10 n (unat exponent)))"

section \<open>Outputs\<close>

definition compressedTxOutSize :: "u64 \<Rightarrow> bytes \<Rightarrow> nat" where
  "compressedTxOutSize v pkScript =
     serializeSizeVLQ (compressTxOutValue v) + compressedScriptSize pkScript"

text \<open>The second part is written into the sub-slice \<^verbatim>\<open>target[offset:]\<close>.\<close>

definition compressedTxOut :: "bytes \<Rightarrow> u64 \<Rightarrow> bytes \<Rightarrow> (bytes \<times> nat) option" where
  "compressedTxOut target v pkScript =
     (case putVLQ target (compressTxOutValue v) of
        None \<Rightarrow> None
      | Some (target, offset) \<Rightarrow>
     (case compressedScript (drop offset target) pkScript of
        None \<Rightarrow> None
      | Some (rest, n) \<Rightarrow> Some (take offset target @ rest, offset + n)))"

datatype decode_error =
  EndAfterAmount | EndAfterScriptSize | EndAfterHeader | SpentHeader | UnableToDecode decode_error
| OutOfRange

definition decodeCompressedTxOut :: "bytes \<Rightarrow> decode_error + (u64 \<times> bytes \<times> nat)" where
  "decodeCompressedTxOut serialized =
     (case deserializeVLQ serialized of (compressedAmount, bytesRead) \<Rightarrow>
      if length serialized \<le> bytesRead then Inl EndAfterAmount
      else
        (let scriptSize = decodeCompressedScriptSize (drop bytesRead serialized) in
         if int (length (drop bytesRead serialized)) < scriptSize then Inl EndAfterScriptSize
         else if scriptSize < 0 then Inl OutOfRange
         else
           (let amount = decompressTxOutValue compressedAmount in
            case decompressScript (take (nat scriptSize) (drop bytesRead serialized)) of
              None \<Rightarrow> Inl OutOfRange
            | Some script \<Rightarrow> Inr (amount, script, bytesRead + nat scriptSize))))"

section \<open>Unspent outputs\<close>

definition utxoWrapHeaderCode :: "UtxoWrap \<Rightarrow> decode_error + u64" where
  "utxoWrapHeaderCode utxoWrap =
     (if IsSpent utxoWrap then Inl SpentHeader
      else Inr (push_bit 1 (ucast (utxo_height utxoWrap))))"

text \<open>A spent output has no serialisation: the result is nil without an error.\<close>

definition SerializeUtxoWrap :: "UtxoWrap \<Rightarrow> decode_error + bytes option" where
  "SerializeUtxoWrap utxoWrap =
     (if IsSpent utxoWrap then Inr None
      else case utxoWrapHeaderCode utxoWrap of Inl e \<Rightarrow> Inl e | Inr headerCode \<Rightarrow>
        (let sz = serializeSizeVLQ headerCode
               + compressedTxOutSize (utxo_value utxoWrap) (utxo_script utxoWrap);
             serialized = replicate sz 0
         in case putVLQ serialized headerCode of
              None \<Rightarrow> Inl OutOfRange
            | Some (serialized, offset) \<Rightarrow>
           (case compressedTxOut (drop offset serialized) (utxo_value utxoWrap)
                   (utxo_script utxoWrap) of
              None \<Rightarrow> Inl OutOfRange
            | Some (rest, n) \<Rightarrow> Inr (Some (take offset serialized @ rest)))))"

definition DeserializeUtxoWrap :: "bytes \<Rightarrow> decode_error + UtxoWrap" where
  "DeserializeUtxoWrap serialized =
     (case deserializeVLQ serialized of (code, offset) \<Rightarrow>
      if length serialized \<le> offset then Inl EndAfterHeader
      else
        (let blockHeight = ucast (drop_bit 1 code) in
         case decodeCompressedTxOut (drop offset serialized) of
           Inl e \<Rightarrow> Inl (if e = OutOfRange then OutOfRange else UnableToDecode e)
         | Inr (v, pkScript, _) \<Rightarrow> Inr (NewUtxoWrap v pkScript blockHeight)))"

text \<open>The pooled key buffer has room for the largest index.\<close>

definition utxoKey :: "OutPoint \<Rightarrow> bytes option" where
  "utxoKey outpoint =
     (let idx = ucast (Index outpoint);
          key = replicate (HashSize + serializeSizeVLQ idx) 0;
          key = copy_at key 0 (Hash outpoint)
      in case putVLQ (drop HashSize key) idx of
           None \<Rightarrow> None
         | Some (rest, _) \<Rightarrow> Some (take HashSize key @ rest))"

section \<open>Laws of variable length quantities\<close>

text \<open>The encoding as a value: the low seven bits last, continuation bytes before them.\<close>

function vlq_hi :: "u64 \<Rightarrow> bytes" where
  "vlq_hi n = (if n \<le> 0x7f then [] else vlq_hi (drop_bit 7 n - 1)) @ [ucast (n AND 0x7f) OR 0x80]"
  by pat_completeness auto

termination vlq_hi
  by (relation "measure unat") (auto intro: vlq_drop_less simp: not_le)

declare vlq_hi.simps [simp del]

definition vlq :: "u64 \<Rightarrow> bytes" where
  "vlq n = (if n \<le> 0x7f then [] else vlq_hi (drop_bit 7 n - 1)) @ [ucast (n AND 0x7f)]"

lemma length_vlq_hi: "serializeSizeVLQ_loop k n = k + length (vlq_hi n) - 1"
proof (induction k n rule: serializeSizeVLQ_loop.induct)
  case (1 k n)
  show ?case
  proof (cases "0x7f < n")
    case True
    then have "\<not> n \<le> 0x7f" by (simp only: not_le)
    then have "vlq_hi n = vlq_hi (drop_bit 7 n - 1) @ [ucast (n AND 0x7f) OR 0x80]"
      by (subst vlq_hi.simps) simp
    with 1 True show ?thesis by (subst serializeSizeVLQ_loop.simps) simp
  next
    case False
    then have "n \<le> 0x7f" by (simp only: not_less)
    with False show ?thesis by (subst serializeSizeVLQ_loop.simps, subst vlq_hi.simps) simp
  qed
qed

lemma length_vlq: "length (vlq n) = serializeSizeVLQ n"
proof -
  have "length (vlq n) = length (vlq_hi n)"
    by (subst vlq_hi.simps) (simp add: vlq_def)
  then show ?thesis using length_vlq_hi [of 1 n] by (simp add: serializeSizeVLQ_def)
qed

lemma vlq_not_Nil [simp]: "vlq n \<noteq> []"
  by (simp add: vlq_def)

text \<open>Writing.\<close>

lemma putVLQ_loop_hi:
  "0 < off \<Longrightarrow> off + length (vlq_hi n) \<le> length target \<Longrightarrow>
    putVLQ_loop target off n =
      Some (take off target @ rev (vlq_hi n) @ drop (off + length (vlq_hi n)) target,
            off + length (vlq_hi n) - 1)"
proof (induction target off n rule: putVLQ_loop.induct)
  case (1 target off n)
  let ?d = "ucast (n AND 0x7f) OR 0x80 :: byte"
  show ?case
  proof (cases "n \<le> 0x7f")
    case True
    then have v: "vlq_hi n = [?d]" by (subst vlq_hi.simps) simp
    with 1 True show ?thesis
      by (subst putVLQ_loop.simps) (simp add: upd_conv_take_nth_drop)
  next
    case False
    then have v: "vlq_hi n = vlq_hi (drop_bit 7 n - 1) @ [?d]" by (subst vlq_hi.simps) simp
    let ?t = "target[off := ?d]"
    have len: "off < length target" using 1(3) v by simp
    have IH: "putVLQ_loop ?t (off + 1) (drop_bit 7 n - 1) =
        Some (take (off + 1) ?t @ rev (vlq_hi (drop_bit 7 n - 1)) @ drop (off + 1 + length (vlq_hi (drop_bit 7 n - 1))) ?t,
            off + 1 + length (vlq_hi (drop_bit 7 n - 1)) - 1)"
      using 1 False len v by (intro 1(1)) auto
    have t: "take (off + 1) ?t = take off target @ [?d]"
      using len by (simp add: take_Suc_conv_app_nth)
    show ?thesis
      using IH len False 1(2)
      by (subst putVLQ_loop.simps) (simp add: v t [simplified])
  qed
qed

lemma length_swap_loop [simp]: "length (swap_loop t i j) = length t"
  by (induction t i j rule: swap_loop.induct) (subst swap_loop.simps, simp)

lemma swap_loop_nth:
  "j < length t \<Longrightarrow> k < length t \<Longrightarrow>
     swap_loop t i j ! k = (if i \<le> k \<and> k \<le> j then t ! (i + j - k) else t ! k)"
proof (induction t i j rule: swap_loop.induct)
  case (1 t i j)
  show ?case
  proof (cases "i < j")
    case True
    with 1 have "swap_loop t i j ! k = (if i + 1 \<le> k \<and> k \<le> j - 1
        then t[i := t ! j, j := t ! i] ! (i + 1 + (j - 1) - k) else t[i := t ! j, j := t ! i] ! k)"
      by (subst swap_loop.simps) simp
    with True 1(2,3) show ?thesis by (auto simp: nth_list_update)
  next
    case False
    have "t ! k = t ! (i + j - k)" if "i \<le> k" "k \<le> j"
      using False that by (metis add_diff_cancel_left' le_antisym not_le order.trans)
    with False show ?thesis by (subst swap_loop.simps) auto
  qed
qed

lemma swap_loop_rev: "swap_loop (xs @ ys) 0 (length xs - 1) = rev xs @ ys"
proof (cases "xs = []")
  case True
  then show ?thesis by (subst swap_loop.simps) simp
next
  case False
  then have "length xs - 1 < length (xs @ ys)" by (cases xs) auto
  with False show ?thesis
    by (intro nth_equalityI) (auto simp: swap_loop_nth nth_append rev_nth Suc_le_eq le_diff_conv2)
qed

lemma putVLQ_eq:
  assumes "length (vlq n) \<le> length target"
  shows "putVLQ target n = Some (vlq n @ drop (length (vlq n)) target, length (vlq n))"
proof -
  let ?d = "ucast (n AND 0x7f) :: byte"
  let ?h = "if n \<le> 0x7f then [] else vlq_hi (drop_bit 7 n - 1)"
  have v: "vlq n = ?h @ [?d]" by (simp add: vlq_def)
  have len: "0 < length target" using assms v by (cases target) auto
  have t: "take 1 (target[0 := ?d]) = [?d]" using len by (cases target) auto
  have "putVLQ_loop target 0 n = Some ([?d] @ rev ?h @ drop (length (vlq n)) target, length (vlq n) - 1)"
  proof (cases "n \<le> 0x7f")
    case True
    with len show ?thesis
      by (subst putVLQ_loop.simps) (simp add: v, cases target, auto)
  next
    case False
    have "putVLQ_loop (target[0 := ?d]) 1 (drop_bit 7 n - 1) =
        Some (take 1 (target[0 := ?d]) @ rev ?h @ drop (1 + length ?h) (target[0 := ?d]), 1 + length ?h - 1)"
      using putVLQ_loop_hi [of 1 "drop_bit 7 n - 1" "target[0 := ?d]"] False assms v by simp
    with False len t show ?thesis
      by (subst putVLQ_loop.simps) (simp add: v)
  qed
  then show ?thesis
    using swap_loop_rev [of "[?d] @ rev ?h" "drop (length (vlq n)) target"] by (simp add: putVLQ_def v)
qed

text \<open>Reading.\<close>

lemma vlq_byte_hi1: "(ucast ((n :: u64) AND 0x7f) OR 0x80 :: byte) AND 0x80 = 0x80"
  by (rule bit_word_eqI) (auto simp only: bit_and_iff bit_or_iff bit_0x7f bit_0x80 bit_ucast_iff)
lemma vlq_byte_hi2:  "(ucast ((ucast (n AND 0x7f) OR 0x80 :: byte) AND 0x7f) :: u64) = n AND 0x7f"
  by (rule bit_word_eqI) (auto simp only: bit_and_iff bit_or_iff bit_0x7f bit_0x80 bit_unsigned_iff possible_bit_word; simp)
lemma vlq_byte_lo1: "(ucast ((n :: u64) AND 0x7f) :: byte) AND 0x80 = 0"
  by (rule bit_word_eqI) (auto simp only: bit_and_iff bit_or_iff bit_0x7f bit_0x80 bit_unsigned_iff possible_bit_word bit_0_eq; simp)
lemma vlq_byte_lo2:  "(ucast ((ucast (n AND 0x7f) :: byte) AND 0x7f) :: u64) = n AND 0x7f"
  by (rule bit_word_eqI) (auto simp only: bit_and_iff bit_or_iff bit_0x7f bit_0x80 bit_unsigned_iff possible_bit_word; simp)
lemma vlq_join: "push_bit 7 (drop_bit 7 n) OR (n AND 0x7f) = (n :: u64)"
  by (rule bit_word_eqI) (auto simp only: bit_and_iff bit_or_iff bit_0x7f bit_push_bit_iff bit_drop_bit_eq possible_bit_word; simp)
lemma and_0x7f_id: "n \<le> 0x7f \<Longrightarrow> n AND 0x7f = (n :: u64)"
proof -
  assume "n \<le> 0x7f"
  then have "unat n < 2 ^ 7" by (simp add: word_le_nat_alt)
  then have "take_bit 7 n = n" by (simp add: word_unat_eq_iff unsigned_take_bit_eq take_bit_nat_eq_self)
  moreover have "(0x7f :: u64) = mask 7" by (simp add: mask_eq_exp_minus_1)
  ultimately show ?thesis by (simp only: take_bit_eq_mask)
qed

lemmas vlq_bits = vlq_byte_hi1 vlq_byte_hi2 vlq_byte_lo1 vlq_byte_lo2 vlq_join

lemma deserialize_vlq_hi:
  "deserializeVLQ_loop 0 k (vlq_hi n @ rest) = deserializeVLQ_loop (n + 1) (k + length (vlq_hi n)) rest"
proof (induction n arbitrary: rest rule: vlq_hi.induct)
  case (1 n)
  let ?d = "ucast (n AND 0x7f) OR 0x80 :: byte"
  show ?case
  proof (cases "n \<le> 0x7f")
    case True
    then have v: "vlq_hi n = [?d]" by (subst vlq_hi.simps) simp
    from vlq_byte_hi1 [of n] vlq_byte_hi2 [of n] and_0x7f_id [OF True] show ?thesis
      by (simp add: v Let_def)
  next
    case False
    then have v: "vlq_hi n = vlq_hi (drop_bit 7 n - 1) @ [?d]" by (subst vlq_hi.simps) simp
    show ?thesis
      using 1 [OF False, of "?d # rest"] by (simp add: v vlq_bits Let_def)
  qed
qed

lemma deserialize_vlq: "deserializeVLQ (vlq n @ rest) = (n, length (vlq n))"
proof (cases "n \<le> 0x7f")
  case True
  with vlq_byte_lo1 [of n] vlq_byte_lo2 [of n] and_0x7f_id [OF True] show ?thesis
    by (simp add: vlq_def deserializeVLQ_def Let_def)
next
  case False
  then show ?thesis
    using deserialize_vlq_hi [of 0 "drop_bit 7 n - 1" "ucast (n AND 0x7f) # rest"]
    by (simp add: vlq_def deserializeVLQ_def vlq_bits Let_def)
qed

section \<open>Laws of amounts\<close>

lemma of_nat_div_u64: "x < 2 ^ 64 \<Longrightarrow> y < 2 ^ 64 \<Longrightarrow> (of_nat x :: u64) div of_nat y = of_nat (x div y)"
proof -
  assume "x < 2 ^ 64" "y < 2 ^ 64"
  moreover from this have "x div y < 2 ^ 64" using div_le_dividend [of x y] by linarith
  ultimately show ?thesis by (simp add: word_unat_eq_iff unat_div unat_of_nat_less)
qed

lemma of_nat_mod_u64: "x < 2 ^ 64 \<Longrightarrow> y < 2 ^ 64 \<Longrightarrow> (of_nat x :: u64) mod of_nat y = of_nat (x mod y)"
proof -
  assume "x < 2 ^ 64" "y < 2 ^ 64"
  moreover from this have "x mod y < 2 ^ 64" using mod_less_eq_dividend [of x y] by linarith
  ultimately show ?thesis by (simp add: word_unat_eq_iff unat_mod unat_of_nat_less)
qed

lemma of_nat_sub_u64: "y \<le> x \<Longrightarrow> (of_nat x :: u64) - of_nat y = of_nat (x - y)"
  by (simp add: of_nat_diff)

lemma strip_zeros_spec:
  "strip_zeros (of_nat x) e0 = (v', e) \<Longrightarrow> x < 2 ^ 64 \<Longrightarrow> e0 \<le> 9 \<Longrightarrow> 0 < x \<Longrightarrow>
     \<exists>y. v' = of_nat y \<and> x = y * 10 ^ (e - e0) \<and> e0 \<le> e \<and> e \<le> 9 \<and> (e = 9 \<or> y mod 10 \<noteq> 0) \<and> 0 < y"
proof (induction "9 - e0" arbitrary: x e0)
  case 0
  then show ?case unfolding strip_zeros.simps [of "of_nat x" e0] by auto
next
  case (Suc k)
  have m: "(of_nat x :: u64) mod 10 = of_nat (x mod 10)" "(of_nat x :: u64) div 10 = of_nat (x div 10)"
    using of_nat_mod_u64 [of x 10] of_nat_div_u64 [of x 10] Suc.prems by simp_all
  have z: "(of_nat (x mod 10) :: u64) = 0 \<longleftrightarrow> x mod 10 = 0"
    using unat_of_nat_less [of "x mod 10", where 'a = 64] by (auto simp: unat_eq_0 [symmetric])
  have e0: "e0 < 9" and k: "k = 9 - Suc e0" using Suc.hyps(2) by simp_all
  show ?case
  proof (cases "x mod 10 = 0")
    case True
    have "strip_zeros (of_nat (x div 10)) (Suc e0) = (v', e)"
      using Suc.prems(1) e0 True unfolding strip_zeros.simps [of "of_nat x" e0] by (simp add: m z)
    moreover have "x div 10 < 2 ^ 64" "0 < x div 10" using Suc.prems True by auto
    ultimately obtain y where y: "v' = of_nat y" "x div 10 = y * 10 ^ (e - Suc e0)" "Suc e0 \<le> e" "e \<le> 9"
        "e = 9 \<or> y mod 10 \<noteq> 0" "0 < y"
      using Suc.hyps(1) [of "Suc e0" "x div 10"] k e0 by auto
    have "x = 10 * (x div 10)" using True by auto
    also have "\<dots> = y * 10 ^ (e - e0)"
      using y(2,3) by (simp add: Suc_diff_le [symmetric] flip: power_Suc)
    finally show ?thesis using y by auto
  next
    case False
    with Suc.prems show ?thesis
      unfolding strip_zeros.simps [of "of_nat x" e0] by (auto simp: m z)
  qed
qed

lemma mul10_eq: "mul10 n e = n * 10 ^ e"
  by (induction n e rule: mul10.induct) (simp_all add: ac_simps)

lemma amount_roundtrip_nat:
  assumes "0 < x" and "x \<le> 2 * 10 ^ 18"
  shows "decompressTxOutValue (compressTxOutValue (of_nat x)) = of_nat x"
proof -
  obtain v' e where st: "strip_zeros (of_nat x) 0 = (v', e)" by (cases "strip_zeros (of_nat x) 0")
  from strip_zeros_spec [OF st] assms obtain y where y: "v' = of_nat y" "x = y * 10 ^ e" "e \<le> 9"
      "e = 9 \<or> y mod 10 \<noteq> 0" "0 < y"
    by auto
  have "y * 1 \<le> y * 10 ^ e" by (intro mult_le_mono) auto
  then have "y \<le> y * 10 ^ e" by (simp only: mult_1_right)
  with y(2) assms(2) have yb: "y \<le> 2 * 10 ^ 18" by linarith
  have x0: "(of_nat x :: u64) \<noteq> 0"
    using assms unat_of_nat_less [of x, where 'a = 64] by (auto simp: unat_eq_0 [symmetric])
  define q d where "q = y div 10" and "d = y mod 10"
  have yqd: "y = 10 * q + d" and d9: "d \<le> 9" by (simp_all add: q_def d_def)
  show ?thesis
  proof (cases "e < 9")
    case True
    with y(4) have d1: "1 \<le> d" by (auto simp: d_def)
    define r where "r = 1 + 10 * (9 * q + (d - 1)) + e"
    have rb: "r < 2 ^ 64" using yb yqd d9 True by (simp add: r_def)
    have dq: "(of_nat y :: u64) mod 10 = of_nat d" "(of_nat y :: u64) div 10 = of_nat q"
      using of_nat_mod_u64 [of y 10] of_nat_div_u64 [of y 10] yb by (simp_all add: q_def d_def)
    have c: "compressTxOutValue (of_nat x) = of_nat r"
      using True d1 x0
      by (simp add: compressTxOutValue_def st y(1) dq Let_def r_def of_nat_diff algebra_simps)
    have r0: "(of_nat r :: u64) \<noteq> 0"
      using rb unat_of_nat_less [of r, where 'a = 64] by (auto simp: unat_eq_0 [symmetric] r_def)
    have "r - 1 = e + (9 * q + (d - 1)) * 10" by (simp add: r_def)
    then have "(r - 1) mod 10 = e" "(r - 1) div 10 = 9 * q + (d - 1)"
      using True by (simp_all only: mod_mult_self1 div_mult_self1) simp_all
    then have rm: "(of_nat r - 1 :: u64) mod 10 = of_nat e"
      "(of_nat r - 1 :: u64) div 10 = of_nat (9 * q + (d - 1))"
      using of_nat_mod_u64 [of "r - 1" 10] of_nat_div_u64 [of "r - 1" 10] of_nat_sub_u64 [of 1 r] rb
      by (simp_all only: of_nat_numeral of_nat_1) (simp_all add: r_def)
    have w: "9 * q + (d - 1) = (d - 1) + q * 9" by simp
    have "((d - 1) + q * 9) mod 9 = d - 1" "((d - 1) + q * 9) div 9 = q"
      using d9 d1 by (simp_all only: mod_mult_self1 div_mult_self1) simp_all
    then have vm: "(of_nat (9 * q + (d - 1)) :: u64) mod 9 = of_nat (d - 1)"
      "(of_nat (9 * q + (d - 1)) :: u64) div 9 = of_nat q"
      using of_nat_mod_u64 [of "(d - 1) + q * 9" 9] of_nat_div_u64 [of "(d - 1) + q * 9" 9] rb
      by (simp_all only: w of_nat_numeral) (simp_all add: r_def)
    have e9: "(of_nat e :: u64) < 9" "unat (of_nat e :: u64) = e"
      using True by (simp_all add: word_less_nat_alt unat_of_nat_less)
    have "decompressTxOutValue (of_nat r) = (of_nat q * 10 + (of_nat (d - 1) + 1)) * 10 ^ e"
      using r0 e9
      by (simp add: decompressTxOutValue_def rm vm [unfolded One_nat_def] Let_def mul10_eq del: of_nat_add of_nat_mult)
    also have "\<dots> = of_nat x"
      using d1 by (simp add: y(2) yqd of_nat_diff algebra_simps)
    finally show ?thesis by (simp add: c)
  next
    case False
    with y(3) have e: "e = 9" by simp
    define r where "r = 10 + 10 * (y - 1)"
    have rb: "r < 2 ^ 64" using assms(2) y(2) e by (simp add: r_def)
    have c: "compressTxOutValue (of_nat x) = of_nat r"
      using x0 y(5) by (simp add: compressTxOutValue_def st y(1) e r_def of_nat_diff)
    have r0: "(of_nat r :: u64) \<noteq> 0"
      using rb unat_of_nat_less [of r, where 'a = 64] by (auto simp: unat_eq_0 [symmetric] r_def)
    have rm: "(of_nat r - 1 :: u64) mod 10 = of_nat 9" "(of_nat r - 1 :: u64) div 10 = of_nat (y - 1)"
      using of_nat_mod_u64 [of "r - 1" 10] of_nat_div_u64 [of "r - 1" 10] rb of_nat_sub_u64 [of 1 r]
      by (simp_all add: r_def)
    have "decompressTxOutValue (of_nat r) = (of_nat (y - 1) + 1) * 10 ^ 9"
      using r0 by (simp add: decompressTxOutValue_def rm Let_def mul10_eq)
    also have "\<dots> = of_nat x"
      using y(5) by (simp add: y(2) e of_nat_diff)
    finally show ?thesis by (simp add: c)
  qed
qed

lemma amount_roundtrip:
  assumes "v \<le> 2 * 10 ^ 18"
  shows "decompressTxOutValue (compressTxOutValue v) = v"
proof (cases "v = 0")
  case True
  then show ?thesis by (simp add: compressTxOutValue_def decompressTxOutValue_def)
next
  case False
  then have "0 < unat v" by (simp add: unat_gt_0)
  moreover have "unat v \<le> 2 * 10 ^ 18" using assms by (simp add: word_le_nat_alt)
  ultimately show ?thesis using amount_roundtrip_nat [of "unat v"] by simp
qed

section \<open>Laws of scripts and outputs\<close>

text \<open>The compressed form as a value.\<close>

definition cscript :: "bytes \<Rightarrow> bytes" where
  "cscript pk =
     (case isPubKeyHash pk of Some h \<Rightarrow> p2pkh # h
      | None \<Rightarrow> (case isScriptHash pk of Some h \<Rightarrow> p2sh # h
      | None \<Rightarrow> vlq (of_nat (length pk + specialScripts)) @ pk))"

text \<open>A script that looks like a template but whose hash push is not the direct push of 20
  bytes is not stored faithfully.\<close>

definition lossy_script :: "bytes \<Rightarrow> bool" where
  "lossy_script pk \<longleftrightarrow> isPubKeyHash pk \<noteq> None \<and> pk ! 2 \<noteq> 20 \<or> isScriptHash pk \<noteq> None \<and> pk ! 1 \<noteq> 20"

lemma copy_at_exact:
  "off + length src \<le> length t \<Longrightarrow> copy_at t off src = take off t @ src @ drop (off + length src) t"
  by (simp add: copy_at_def min_def)

lemma isPubKeyHash_length: "isPubKeyHash pk = Some h \<Longrightarrow> length h = 20 \<and> length pk = 25"
  by (auto simp: isPubKeyHash_def split: if_splits)

lemma isScriptHash_length: "isScriptHash pk = Some h \<Longrightarrow> length h = 20 \<and> length pk = 23"
  by (auto simp: isScriptHash_def split: if_splits)

lemma length_cscript: "length (cscript pk) = compressedScriptSize pk"
  by (auto simp: cscript_def compressedScriptSize_def length_vlq isPubKeyHash_length isScriptHash_length
      split: option.split)

lemma compressedScript_eq:
  assumes "compressedScriptSize pk \<le> length target"
  shows "compressedScript target pk = Some (cscript pk @ drop (compressedScriptSize pk) target, compressedScriptSize pk)"
proof -
  have *: "copy_at (target[0 := x]) 1 h = x # h @ drop 21 target" if "length h = 20" "21 \<le> length target" for x h
    using that by (cases target) (auto simp: copy_at_exact)
  show ?thesis
  proof (cases "isPubKeyHash pk")
    case (Some h)
    with assms * [of h p2pkh] isPubKeyHash_length [OF Some] show ?thesis
      by (simp add: compressedScript_def cscript_def compressedScriptSize_def)
  next
    case none: None
    show ?thesis
    proof (cases "isScriptHash pk")
      case (Some h)
      with none assms * [of h p2sh] isScriptHash_length [OF Some] show ?thesis
        by (simp add: compressedScript_def cscript_def compressedScriptSize_def)
    next
      case None
      with none assms show ?thesis
        by (simp add: compressedScript_def cscript_def compressedScriptSize_def putVLQ_eq length_vlq
            copy_at_exact Let_def add.commute)
    qed
  qed
qed

lemma vlq_small: "n \<le> 0x7f \<Longrightarrow> vlq n = [ucast n]"
  using and_0x7f_id [of n] by (simp add: vlq_def)

lemma deserializeVLQ_special: "deserializeVLQ (0 # rest) = (0, 1)" "deserializeVLQ (1 # rest) = (1, 1)"
  using deserialize_vlq [of 0 rest] deserialize_vlq [of 1 rest] by (simp_all add: vlq_small)

lemma sint_script_size:
  assumes "length pk < 2 ^ 62" and "k < 2 ^ 62"
  shows "sint (of_nat (length pk + 6) - of_nat specialScripts + of_nat k :: u64) = int (length pk + k)"
proof -
  have "(of_nat (length pk + 6) - of_nat specialScripts + of_nat k :: u64) = of_nat (length pk + k)"
    by (simp add: specialScripts_def)
  with assms show ?thesis using sint_of_nat_u64 [of "length pk + k"] by simp
qed

lemma vlq_code_special:
  assumes "length pk < 2 ^ 62"
  shows "(of_nat (length pk + 6) :: u64) \<noteq> 0" "(of_nat (length pk + 6) :: u64) \<noteq> 1"
proof -
  have u: "unat (of_nat (length pk + 6) :: u64) = length pk + 6"
    using assms by (intro unat_of_nat_less) simp
  show "(of_nat (length pk + 6) :: u64) \<noteq> 0"
  proof
    assume "(of_nat (length pk + 6) :: u64) = 0"
    with u show False by (simp only: unsigned_0)
  qed
  show "(of_nat (length pk + 6) :: u64) \<noteq> 1"
  proof
    assume "(of_nat (length pk + 6) :: u64) = 1"
    with u show False by (simp only: unsigned_1)
  qed
qed

lemma length_vlq_hi_le: "unat n < 128 ^ k \<Longrightarrow> 0 < k \<Longrightarrow> length (vlq_hi n) \<le> k"
proof (induction k arbitrary: n)
  case (Suc k)
  show ?case
  proof (cases "n \<le> 0x7f")
    case True
    then show ?thesis by (subst vlq_hi.simps) simp
  next
    case False
    then have n: "128 \<le> unat n" by (simp add: word_le_nat_alt)
    have "unat (drop_bit 7 n) = unat n div 128" by (simp add: drop_bit_eq_div unat_div)
    moreover have "unat n div 128 < 128 ^ k"
      using Suc.prems by (simp add: less_mult_imp_div_less mult.commute)
    ultimately have "unat (drop_bit 7 n - 1) < 128 ^ k"
      using n by (simp add: unat_sub word_le_nat_alt)
    moreover have "0 < k" using n Suc.prems by (cases k) auto
    ultimately have "length (vlq_hi (drop_bit 7 n - 1)) \<le> k" by (rule Suc.IH)
    with False show ?thesis by (subst vlq_hi.simps) simp
  qed
qed simp

lemma length_vlq_le: "length (vlq n) \<le> 10"
proof -
  have "unat n < 128 ^ 10" using unsigned_less [of n, where ?'a = nat] by simp
  from length_vlq_hi_le [OF this] have "length (vlq_hi n) \<le> 10" by simp
  moreover have "length (vlq n) = length (vlq_hi n)"
    by (subst vlq_hi.simps) (simp add: vlq_def)
  ultimately show ?thesis by simp
qed

lemma decodeCompressedScriptSize_cscript:
  assumes "length pk < 2 ^ 62"
  shows "decodeCompressedScriptSize (cscript pk @ rest) = int (length (cscript pk))"
proof (cases "isPubKeyHash pk")
  case (Some h)
  with isPubKeyHash_length [OF Some] show ?thesis
    by (simp add: cscript_def decodeCompressedScriptSize_def deserializeVLQ_special p2pkh_def)
next
  case none: None
  show ?thesis
  proof (cases "isScriptHash pk")
    case (Some h)
    with none isScriptHash_length [OF Some] show ?thesis
      by (simp add: cscript_def decodeCompressedScriptSize_def deserializeVLQ_special p2sh_def p2pkh_def)
  next
    case None
    let ?n = "of_nat (length pk + 6) :: u64"
    have "cscript pk = vlq ?n @ pk" using none None by (simp add: cscript_def specialScripts_def)
    moreover have "deserializeVLQ (vlq ?n @ pk @ rest) = (?n, length (vlq ?n))" by (rule deserialize_vlq)
    ultimately show ?thesis
      using vlq_code_special [OF assms] sint_script_size [OF assms, of "length (vlq ?n)"] length_vlq_le [of ?n]
      by (simp add: decodeCompressedScriptSize_def p2pkh_def p2sh_def del: of_nat_add)
  qed
qed

lemma isPubKeyHash_script:
  assumes "isPubKeyHash pk = Some h" and "pk ! 2 = 20"
  shows "pk = [OPDUP, OPHASH160, OPDATA20] @ h @ [OPEQUALVERIFY, OPCHECKSIG]"
proof -
  have "IsPayToPubKeyHash pk"
    using assms by (auto simp: isPubKeyHash_def IsPayToPubKeyHash_def p2PKHScriptLen_def Ripemd160Size_def
        split: if_splits)
  then obtain h' where "length h' = Ripemd160Size" "pk = PayToPubKeyHashScript h'"
    by (auto simp: IsPayToPubKeyHash_iff)
  with assms(1) show ?thesis
    by (auto simp: p2pkh_bytes isPubKeyHash_def Ripemd160Size_def OPDATA20_def split: if_splits)
qed

lemma isScriptHash_script:
  assumes "isScriptHash pk = Some h" and "pk ! 1 = 20"
  shows "pk = [OPHASH160, OPDATA20] @ h @ [OPEQUAL]"
proof -
  have "IsPayToScriptHash pk"
    using assms by (auto simp: isScriptHash_def IsPayToScriptHash_def p2SHScriptLen_def Ripemd160Size_def
        split: if_splits)
  then obtain h' where h': "length h' = Ripemd160Size" "pk = assemble [Op OPHASH160, Push h', Op OPEQUAL]"
    by (auto simp: IsPayToScriptHash_iff)
  then have "pk = [OPHASH160, 20] @ h' @ [OPEQUAL]"
    by (simp add: item_bytes_small Ripemd160Size_def del: item_bytes.simps(1))
  with h'(1) assms(1) show ?thesis
    by (auto simp: isScriptHash_def Ripemd160Size_def OPDATA20_def split: if_splits)
qed

lemma decompressScript_special:
  assumes "length h = 20"
  shows "decompressScript (p2pkh # h) = Some ([OPDUP, OPHASH160, OPDATA20] @ h @ [OPEQUALVERIFY, OPCHECKSIG])"
    "decompressScript (p2sh # h) = Some ([OPHASH160, OPDATA20] @ h @ [OPEQUAL])"
  using assms by (simp_all add: decompressScript_def deserializeVLQ_special p2pkh_def p2sh_def)

lemma decompressScript_cscript:
  assumes "length pk < 2 ^ 62" and "\<not> lossy_script pk"
  shows "decompressScript (cscript pk) = Some pk"
proof (cases "isPubKeyHash pk")
  case (Some h)
  with assms(2) isPubKeyHash_script [OF Some] isPubKeyHash_length [OF Some] show ?thesis
    by (simp add: cscript_def decompressScript_special lossy_script_def)
next
  case none: None
  show ?thesis
  proof (cases "isScriptHash pk")
    case (Some h)
    with none assms(2) isScriptHash_script [OF Some] isScriptHash_length [OF Some] show ?thesis
      by (simp add: cscript_def decompressScript_special lossy_script_def)
  next
    case None
    let ?n = "of_nat (length pk + 6) :: u64"
    have "cscript pk = vlq ?n @ pk" using none None by (simp add: cscript_def specialScripts_def)
    moreover have "deserializeVLQ (vlq ?n @ pk) = (?n, length (vlq ?n))" by (rule deserialize_vlq)
    ultimately show ?thesis
      using vlq_code_special [OF assms(1)] sint_script_size [OF assms(1), of 0]
      by (simp add: decompressScript_def p2pkh_def p2sh_def Let_def del: of_nat_add)
  qed
qed

lemma decodeCompressedTxOut_eq:
  assumes "length pk < 2 ^ 62" and "\<not> lossy_script pk" and "v \<le> 2 * 10 ^ 18"
  shows "decodeCompressedTxOut (vlq (compressTxOutValue v) @ cscript pk @ rest) =
    Inr (v, pk, length (vlq (compressTxOutValue v)) + length (cscript pk))"
proof -
  have "cscript pk \<noteq> []" by (auto simp: cscript_def split: option.split)
  then show ?thesis
    using deserialize_vlq [of "compressTxOutValue v" "cscript pk @ rest"]
      decodeCompressedScriptSize_cscript [OF assms(1), of rest] decompressScript_cscript [OF assms(1,2)]
      amount_roundtrip [OF assms(3)]
    by (simp add: decodeCompressedTxOut_def)
qed

lemma compressedTxOut_eq:
  assumes "compressedTxOutSize v pk \<le> length target"
  shows "compressedTxOut target v pk =
    Some (vlq (compressTxOutValue v) @ cscript pk @ drop (compressedTxOutSize v pk) target,
          compressedTxOutSize v pk)"
  using assms
  by (simp add: compressedTxOut_def compressedTxOutSize_def putVLQ_eq length_vlq compressedScript_eq add.commute)

definition utxo_bytes :: "UtxoWrap \<Rightarrow> bytes" where
  "utxo_bytes u = vlq (push_bit 1 (ucast (utxo_height u))) @ vlq (compressTxOutValue (utxo_value u)) @ cscript (utxo_script u)"

lemma SerializeUtxoWrap_eq:
  assumes "\<not> IsSpent u"
  shows "SerializeUtxoWrap u = Inr (Some (utxo_bytes u))"
proof -
  let ?h = "push_bit 1 (ucast (utxo_height u)) :: u64"
  let ?n = "serializeSizeVLQ ?h + compressedTxOutSize (utxo_value u) (utxo_script u)"
  have "putVLQ (replicate ?n 0) ?h = Some (vlq ?h @ drop (length (vlq ?h)) (replicate ?n 0), length (vlq ?h))"
    by (rule putVLQ_eq) (simp add: length_vlq)
  then show ?thesis
    using assms
    by (simp add: SerializeUtxoWrap_def utxoWrapHeaderCode_def Let_def compressedTxOut_eq length_vlq utxo_bytes_def
        del: push_bit_of_1 push_bit_Suc)
qed

lemma height_code: "ucast (drop_bit 1 (push_bit 1 (ucast (h :: u32)) :: u64)) = h"
  by (rule bit_word_eqI)
    (simp only: bit_unsigned_iff bit_drop_bit_eq bit_push_bit_iff possible_bit_word comp_def, simp)

lemma DeserializeUtxoWrap_eq:
  assumes "length (utxo_script u) < 2 ^ 62" and "\<not> lossy_script (utxo_script u)" and "utxo_value u \<le> 2 * 10 ^ 18"
  shows "DeserializeUtxoWrap (utxo_bytes u) = Inr (NewUtxoWrap (utxo_value u) (utxo_script u) (utxo_height u))"
proof -
  let ?h = "push_bit 1 (ucast (utxo_height u)) :: u64"
  let ?r = "vlq (compressTxOutValue (utxo_value u)) @ cscript (utxo_script u)"
  have "deserializeVLQ (utxo_bytes u) = (?h, length (vlq ?h))"
    unfolding utxo_bytes_def by (rule deserialize_vlq)
  moreover have "drop (length (vlq ?h)) (utxo_bytes u) = ?r" by (simp add: utxo_bytes_def)
  moreover have "\<not> length (utxo_bytes u) \<le> length (vlq ?h)" by (simp add: utxo_bytes_def)
  ultimately show ?thesis
    using decodeCompressedTxOut_eq [OF assms, of "[]"] height_code [of "utxo_height u"]
    by (simp add: DeserializeUtxoWrap_def Let_def)
qed

section \<open>Outpoint keys\<close>

lemma utxoKey_eq:
  assumes "hash_wf (Hash op)"
  shows "utxoKey op = Some (Hash op @ vlq (ucast (Index op)))"
proof -
  let ?i = "ucast (Index op) :: u64"
  have "copy_at (replicate (HashSize + serializeSizeVLQ ?i) 0) 0 (Hash op) =
      Hash op @ replicate (serializeSizeVLQ ?i) 0"
    using assms by (simp add: copy_at_exact hash_wf_def)
  moreover have "putVLQ (replicate (serializeSizeVLQ ?i) 0) ?i = Some (vlq ?i, length (vlq ?i))"
    using putVLQ_eq [of ?i "replicate (serializeSizeVLQ ?i) 0"] by (simp add: length_vlq)
  ultimately show ?thesis
    using assms by (simp add: utxoKey_def Let_def hash_wf_def)
qed

lemma vlq_inj: "vlq a = vlq b \<Longrightarrow> a = b"
  using deserialize_vlq [of a "[]"] deserialize_vlq [of b "[]"] by simp

section \<open>Properties\<close>

text \<open>C15: The variable length quantity written for any 64 bit number fits exactly the announced
  number of bytes (at most ten), leaves the rest of the buffer alone, and reads back as that number with
  that many bytes consumed, whatever follows.\<close>

theorem vlq_roundtrip:
  assumes "serializeSizeVLQ n \<le> length target"
  shows "\<exists>bs. putVLQ target n = Some (bs @ drop (serializeSizeVLQ n) target, serializeSizeVLQ n) \<and>
    length bs = serializeSizeVLQ n \<and> serializeSizeVLQ n \<le> 10 \<and>
    deserializeVLQ (bs @ drop (serializeSizeVLQ n) target) = (n, serializeSizeVLQ n)"
  using putVLQ_eq [of n target] deserialize_vlq [of n "drop (serializeSizeVLQ n) target"]
    length_vlq_le [of n] assms
  by (intro exI [of _ "vlq n"]) (simp add: length_vlq)

theorem vlq_roundtrip_witness:
  "\<exists>bs. putVLQ [0, 0, 9] 300 = Some (bs @ [9], 2) \<and> deserializeVLQ (bs @ [9]) = (300, 2)"
  using vlq_roundtrip [of 300 "[0, 0, 9]"]
  by (simp add: serializeSizeVLQ_def serializeSizeVLQ_loop.simps) (metis numeral_2_eq_2)

text \<open>The compressed form of an amount is exact for every amount up to the total supply of
  three billion coins (\<open>3 * 10 ^ 17\<close> units), in fact up to \<open>2 * 10 ^ 18\<close>.\<close>

theorem amount_compression_exact:
  assumes "v \<le> 2 * 10 ^ 18"
  shows "decompressTxOutValue (compressTxOutValue v) = v"
  using assms by (rule amount_roundtrip)

theorem amount_compression_exact_witness:
  "decompressTxOutValue (compressTxOutValue 300000000000000000) = 300000000000000000"
  by (rule amount_compression_exact) simp

text \<open>C14: Storing an unspent output and loading it back gives the same value, script and
  height, marked as modified, provided the value is at most \<open>2 * 10 ^ 18\<close> and the script is not one
  of the template look-alikes of \<open>lossy_script\<close>; a spent output is stored as nothing.\<close>

theorem utxo_storage_roundtrip:
  assumes "length (utxo_script u) < 2 ^ 62" and "\<not> lossy_script (utxo_script u)"
    and "utxo_value u \<le> 2 * 10 ^ 18"
  shows "if IsSpent u then SerializeUtxoWrap u = Inr None
    else \<exists>bs. SerializeUtxoWrap u = Inr (Some bs) \<and>
      DeserializeUtxoWrap bs = Inr (NewUtxoWrap (utxo_value u) (utxo_script u) (utxo_height u))"
  using SerializeUtxoWrap_eq [of u] DeserializeUtxoWrap_eq [OF assms] by (simp add: SerializeUtxoWrap_def)

theorem utxo_storage_roundtrip_witness:
  "\<exists>bs. SerializeUtxoWrap (NewUtxoWrap 150000 [OPDUP] 77) = Inr (Some bs) \<and>
     DeserializeUtxoWrap bs = Inr (NewUtxoWrap 150000 [OPDUP] 77)"
  using utxo_storage_roundtrip [of "NewUtxoWrap 150000 [OPDUP] 77"]
  by (simp add: lossy_script_def isPubKeyHash_def isScriptHash_def NewUtxoWrap_def IsSpent_def spent_def modified_def)

text \<open>C16: Script compression is lossy for look-alikes: a script of the pay-to-pubkey-hash shape
  whose third byte is not the push of 20 bytes is stored and comes back as a different script.\<close>

theorem script_compression_lossy:
  assumes "isPubKeyHash pk \<noteq> None" and "pk ! 2 \<noteq> 20"
  shows "\<exists>target n pk'. compressedScript (replicate (compressedScriptSize pk) 0) pk = Some (target, n) \<and>
    decompressScript target = Some pk' \<and> pk' \<noteq> pk"
proof -
  from assms(1) obtain h where h: "isPubKeyHash pk = Some h" by auto
  then have c: "cscript pk = p2pkh # h" by (simp add: cscript_def)
  have "compressedScript (replicate (compressedScriptSize pk) 0) pk = Some (cscript pk, compressedScriptSize pk)"
    using compressedScript_eq [of pk "replicate (compressedScriptSize pk) 0"] by simp
  moreover have "decompressScript (cscript pk) = Some ([OPDUP, OPHASH160, OPDATA20] @ h @ [OPEQUALVERIFY, OPCHECKSIG])"
    unfolding c using isPubKeyHash_length [OF h] by (intro decompressScript_special) simp
  moreover have "([OPDUP, OPHASH160, OPDATA20] @ h @ [OPEQUALVERIFY, OPCHECKSIG]) ! 2 = 20"
    by (simp add: OPDATA20_def)
  ultimately show ?thesis using assms(2) by metis
qed

theorem script_compression_lossy_witness:
  "\<exists>target n pk'. compressedScript (replicate 21 0)
       ([OPDUP, OPHASH160, 19] @ replicate 20 1 @ [OPEQUALVERIFY, OPCHECKSIG]) = Some (target, n) \<and>
     decompressScript target = Some pk' \<and>
     pk' \<noteq> [OPDUP, OPHASH160, 19] @ replicate 20 1 @ [OPEQUALVERIFY, OPCHECKSIG]"
proof -
  let ?pk = "[OPDUP, OPHASH160, 19] @ replicate 20 1 @ [OPEQUALVERIFY, OPCHECKSIG] :: bytes"
  have "isPubKeyHash ?pk \<noteq> None" by (simp add: isPubKeyHash_def nth_append)
  moreover from this have "compressedScriptSize ?pk = 21" by (simp add: compressedScriptSize_def)
  moreover have "?pk ! 2 \<noteq> 20" by simp
  ultimately show ?thesis using script_compression_lossy [of ?pk] by metis
qed

text \<open>Different outpoints have different database keys.\<close>

lemma utxoKey_injective:
  assumes "hash_wf (Hash a)" and "hash_wf (Hash b)" and "utxoKey a = utxoKey b"
  shows "a = b"
proof -
  have "Hash a @ vlq (ucast (Index a)) = Hash b @ vlq (ucast (Index b))"
    using assms by (simp add: utxoKey_eq)
  then have "Hash a = Hash b" "vlq (ucast (Index a)) = vlq (ucast (Index b))"
    using assms(1,2) by (simp_all add: hash_wf_def)
  moreover have "ucast (ucast i :: u64) = i" for i :: u32
    by (rule bit_word_eqI) (simp add: bit_simps)
  ultimately have "Index a = Index b" using vlq_inj by metis
  with \<open>Hash a = Hash b\<close> show ?thesis by (cases a, cases b) simp
qed

end
