(* ===== verification/Tx_Logic.thy ===== *)
theory Tx_Logic
  imports Script_Exec
begin

text \<open>
  Transaction construction and classification, \<^verbatim>\<open>src/core/txlogic/tx_utils.go\<close> and
  \<^verbatim>\<open>src/core/txlogic/tx_generate.go\<close>. What the code reads of the world state is the
  record \<open>StateView\<close>. Signing is a function from a digest to a serialized signature.
  \<^verbatim>\<open>math.Pow10\<close> converted to \<^verbatim>\<open>uint64\<close> is a parameter \<open>pow10\<close>, since Go leaves the
  conversion of values beyond \<open>2 ^ 64\<close> to the implementation.
\<close>

section \<open>World state as seen by transactions\<close>

text \<open>Code, nonce and stored utxo bytes of an account; an error of \<^verbatim>\<open>GetUtxo\<close> is None.\<close>

record StateView =
  sv_code :: "bytes \<Rightarrow> bytes"
  sv_nonce :: "bytes \<Rightarrow> u64"
  sv_utxo :: "bytes \<Rightarrow> bytes option"

definition IsContractAddr :: "StateView \<Rightarrow> bytes \<Rightarrow> bool" where
  "IsContractAddr sv addr \<longleftrightarrow> length (sv_code sv addr) > 0"

section \<open>Transaction types\<close>

text \<open>
  \<^verbatim>\<open>ParseTxType\<close> looks at the outputs in order and stores what it finds in the transaction's
  type field, which the following iterations and later calls read. The result is the
  returned type, the index and the updated transaction.
\<close>

definition contract_payee :: "StateView option \<Rightarrow> bytes \<Rightarrow> script_error + bool" where
  "contract_payee statedb sc =
     (case ExtractAddress sc of
        Inl e \<Rightarrow> Inl e
      | Inr addr \<Rightarrow>
          Inr (case (statedb, addr) of
                 (Some sv, Some a) \<Rightarrow> IsContractAddr sv (address_hash a)
               | _ \<Rightarrow> False))"

fun ParseTxType_loop ::
  "StateView option \<Rightarrow> nat \<Rightarrow> nat \<Rightarrow> nat \<Rightarrow> int \<Rightarrow> TxOut list \<Rightarrow> int \<times> nat \<times> int" where
  "ParseTxType_loop statedb i idx opReturns typ [] =
     (if typ = UnknownTx then (PayToPubkTx, 0, PayToPubkTx) else (typ, idx, typ))"
| "ParseTxType_loop statedb i idx opReturns typ (txOut # outs) =
     (let sc = ScriptPubKey txOut in
      if typ \<noteq> UnknownTx then
        (case pubkType sc of
           TokenTransferPubk \<Rightarrow>
             if typ \<noteq> TokenTransferTx then (ErrorTx, 0, typ)
             else ParseTxType_loop statedb (i + 1) idx opReturns typ outs
         | PayToPubk \<Rightarrow>
             (case contract_payee statedb sc of
                Inl _ \<Rightarrow> (ErrorTx, 0, ErrorTx)
              | Inr b \<Rightarrow>
                  if b then (ErrorTx, 0, typ)
                  else ParseTxType_loop statedb (i + 1) idx opReturns typ outs)
         | PayToPubkCLTV \<Rightarrow> ParseTxType_loop statedb (i + 1) idx opReturns typ outs
         | PayToScriptPubk \<Rightarrow> ParseTxType_loop statedb (i + 1) idx opReturns typ outs
         | OpReturnPubk \<Rightarrow>
             if 1 < opReturns + 1 then (ErrorTx, 0, ErrorTx)
             else ParseTxType_loop statedb (i + 1) idx (opReturns + 1) typ outs
         | _ \<Rightarrow> (ErrorTx, 0, ErrorTx))
      else
        (case pubkType sc of
           PayToPubkCLTV \<Rightarrow> ParseTxType_loop statedb (i + 1) idx opReturns typ outs
         | PayToScriptPubk \<Rightarrow> ParseTxType_loop statedb (i + 1) idx opReturns typ outs
         | PayToPubk \<Rightarrow>
             (case contract_payee statedb sc of
                Inl _ \<Rightarrow> (ErrorTx, 0, ErrorTx)
              | Inr b \<Rightarrow>
                  if b then ParseTxType_loop statedb (i + 1) i opReturns ContractTx outs
                  else ParseTxType_loop statedb (i + 1) idx opReturns typ outs)
         | UnknownPubk \<Rightarrow> (ErrorTx, 0, ErrorTx)
         | TokenTransferPubk \<Rightarrow> ParseTxType_loop statedb (i + 1) i opReturns TokenTransferTx outs
         | TokenIssuePubk \<Rightarrow> ParseTxType_loop statedb (i + 1) i opReturns TokenIssueTx outs
         | ContractPubk \<Rightarrow> ParseTxType_loop statedb (i + 1) i opReturns ContractTx outs
         | SplitAddrPubk \<Rightarrow> ParseTxType_loop statedb (i + 1) i opReturns SplitTx outs
         | OpReturnPubk \<Rightarrow>
             if 1 < opReturns + 1 then (ErrorTx, 0, ErrorTx)
             else ParseTxType_loop statedb (i + 1) idx (opReturns + 1) typ outs))"

definition ParseTxType :: "Transaction \<Rightarrow> StateView option \<Rightarrow> int \<times> nat \<times> Transaction" where
  "ParseTxType tx statedb =
     (case ParseTxType_loop statedb 0 0 0 (TxTyp tx) (Vout tx) of
        (typ, idx, field) \<Rightarrow> (typ, idx, tx\<lparr>TxTyp := field\<rparr>))"

definition IsStandardTx :: "Transaction \<Rightarrow> StateView option \<Rightarrow> bool \<times> Transaction" where
  "IsStandardTx tx statedb =
     (if TxTyp tx \<noteq> UnknownTx then (TxTyp tx \<noteq> ErrorTx, tx)
      else case ParseTxType tx statedb of (txType, _, tx') \<Rightarrow> (txType \<noteq> ErrorTx, tx'))"

definition GetTxType :: "Transaction \<Rightarrow> StateView option \<Rightarrow> int \<times> Transaction" where
  "GetTxType tx statedb =
     (if TxTyp tx \<noteq> UnknownTx then (TxTyp tx, tx)
      else case ParseTxType tx statedb of (txType, _, tx') \<Rightarrow> (txType, tx'))"

section \<open>Outputs and inputs\<close>

datatype tx_error =
  ErrInsufficientInput | ErrInsufficientTokenInput | ErrInvalidArguments
| ErrUtxoNotRecognized | ErrNotTokenScript | ErrNeedContractAddress
| TxScriptError script_error | ErrSign | TxPanic

definition VMVersion :: "32 word" where "VMVersion = 0"

definition MakeVout :: "bytes \<Rightarrow> u64 \<Rightarrow> TxOut" where
  "MakeVout addrHash amount = \<lparr>Value = amount, ScriptPubKey = PayToPubKeyHashScript addrHash\<rparr>"

definition MakeContractCreationVout :: "bytes option \<Rightarrow> u64 \<Rightarrow> u64 \<Rightarrow> u64 \<Rightarrow> tx_error + TxOut" where
  "MakeContractCreationVout from amount gas nonce =
     (case MakeContractScriptPubkey from None gas nonce VMVersion of
        Inl e \<Rightarrow> Inl (TxScriptError e)
      | Inr vs \<Rightarrow> Inr \<lparr>Value = amount, ScriptPubKey = vs\<rparr>)"

definition MakeContractCallVout ::
  "bytes option \<Rightarrow> bytes option \<Rightarrow> u64 \<Rightarrow> u64 \<Rightarrow> u64 \<Rightarrow> tx_error + TxOut" where
  "MakeContractCallVout from to amount gas nonce =
     (if to = None then Inl ErrNeedContractAddress
      else case MakeContractScriptPubkey from to gas nonce VMVersion of
        Inl e \<Rightarrow> Inl (TxScriptError e)
      | Inr vs \<Rightarrow> Inr \<lparr>Value = amount, ScriptPubKey = vs\<rparr>)"

definition MakeVin :: "OutPoint \<Rightarrow> u32 \<Rightarrow> TxIn" where
  "MakeVin op seq = \<lparr>PrevOutPoint = op, ScriptSig = [], Sequence = seq\<rparr>"

definition MakeContractVin :: "OutPoint \<Rightarrow> u64 \<Rightarrow> u32 \<Rightarrow> TxIn" where
  "MakeContractVin op nonce seq =
     \<lparr>PrevOutPoint = op, ScriptSig = MakeContractScriptSig nonce, Sequence = seq\<rparr>"

record TokenTag =
  tag_Name :: bytes
  tag_Symbol :: bytes
  tag_Decimal :: u32
  tag_Supply :: u64

definition MakeIssueTokenScript :: "bytes \<Rightarrow> TokenTag \<Rightarrow> bytes" where
  "MakeIssueTokenScript addrHash tag =
     IssueTokenScript addrHash
       \<lparr>Name = tag_Name tag, Symbol = tag_Symbol tag, TotalSupply = tag_Supply tag,
        Decimals = ucast (tag_Decimal tag)\<rparr>"

definition MakeIssueTokenVout :: "bytes \<Rightarrow> TokenTag \<Rightarrow> TxOut" where
  "MakeIssueTokenVout addrHash tag =
     \<lparr>Value = 0, ScriptPubKey = MakeIssueTokenScript addrHash tag\<rparr>"

definition MakeTokenVout :: "bytes \<Rightarrow> OutPoint \<Rightarrow> u64 \<Rightarrow> TxOut" where
  "MakeTokenVout addrHash tokenID amount =
     \<lparr>Value = 0, ScriptPubKey = TransferTokenScript addrHash \<lparr>TokenID = tokenID, Amount = amount\<rparr>\<rparr>"

text \<open>A nil split script is dereferenced.\<close>

definition MakeSplitAddrVout ::
  "('sig, 'pk) crypto_ops \<Rightarrow> bytes list \<Rightarrow> u32 list \<Rightarrow> tx_error + TxOut" where
  "MakeSplitAddrVout c addrs weights =
     (case SplitAddrScript c addrs weights of
        None \<Rightarrow> Inl TxPanic
      | Some s \<Rightarrow> Inr \<lparr>Value = 0, ScriptPubKey = s\<rparr>)"

definition MakeSplitAddress ::
  "('sig, 'pk) crypto_ops \<Rightarrow> bytes \<Rightarrow> u32 \<Rightarrow> bytes list \<Rightarrow> u32 list \<Rightarrow> script_error + Address" where
  "MakeSplitAddress c txHash idx addrs weights =
     (let s = split_pairs [] (zip addrs weights);
          splitHash = Hash160 c s;
          raw = txHash @ le_put 4 idx @ splitHash
      in NewSplitAddressFromHash (Hash160 c raw))"

section \<open>Wallet utxos\<close>

text \<open>\<^verbatim>\<open>rpcpb.Utxo\<close>; the generated getters return zero values on nil.\<close>

record PbUtxo =
  pu_BlockHeight :: u32
  pu_IsSpent :: bool
  pu_OutPoint :: PbOutPoint
  pu_TxOut :: "TxOut option"

definition pu_value :: "PbUtxo \<Rightarrow> u64" where
  "pu_value u = (case pu_TxOut u of None \<Rightarrow> 0 | Some out \<Rightarrow> Value out)"

definition pu_script :: "PbUtxo \<Rightarrow> bytes" where
  "pu_script u = (case pu_TxOut u of None \<Rightarrow> [] | Some out \<Rightarrow> ScriptPubKey out)"

definition ConvPbOutPoint :: "PbOutPoint \<Rightarrow> OutPoint" where
  "ConvPbOutPoint op = \<lparr>Hash = copy_at ZeroHash 0 (pb_Hash op), Index = pb_Index op\<rparr>"

definition ConvOutPoint :: "OutPoint \<Rightarrow> PbOutPoint" where
  "ConvOutPoint op = \<lparr>pb_Hash = Hash op, pb_Index = Index op\<rparr>"

definition MakePbUtxo :: "OutPoint \<Rightarrow> UtxoWrap \<Rightarrow> PbUtxo" where
  "MakePbUtxo op uw =
     (let s = utxo_script uw;
          v = (if IsTokenIssue s \<or> IsTokenTransfer s then 0 else utxo_value uw)
      in \<lparr>pu_BlockHeight = utxo_height uw, pu_IsSpent = IsSpent uw, pu_OutPoint = ConvOutPoint op,
          pu_TxOut = Some \<lparr>Value = v, ScriptPubKey = utxo_script uw\<rparr>\<rparr>)"

definition ParseTokenAmount :: "(byte \<Rightarrow> u64) \<Rightarrow> bytes \<Rightarrow> tx_error + u64" where
  "ParseTokenAmount pow10 spk =
     (if IsTokenIssue spk then
        (case GetIssueParams spk of
           Inl e \<Rightarrow> Inl (TxScriptError e)
         | Inr param \<Rightarrow> Inr (TotalSupply param * pow10 (Decimals param)))
      else if IsTokenTransfer spk then
        (case GetTransferParams spk of
           Inl e \<Rightarrow> Inl (TxScriptError e)
         | Inr param \<Rightarrow> Inr (Amount param))
      else Inl ErrNotTokenScript)"

definition ParseUtxoAmount ::
  "(byte \<Rightarrow> u64) \<Rightarrow> PbUtxo \<Rightarrow> tx_error + (u64 \<times> OutPoint option)" where
  "ParseUtxoAmount pow10 utxo =
     (let s = pu_script utxo in
      if IsPayToPubKeyHash s \<or> IsPayToPubKeyHashCLTVScript s \<or> IsContractPubkey s \<or>
         IsPayToScriptHash s \<or> IsOpReturnScript s
      then Inr (pu_value utxo, None)
      else if IsTokenIssue s then
        (case ParseTokenAmount pow10 s of
           Inl e \<Rightarrow> Inl e
         | Inr amount \<Rightarrow> Inr (amount, Some (ConvPbOutPoint (pu_OutPoint utxo))))
      else if IsTokenTransfer s then
        (case GetTransferParams s of
           Inl e \<Rightarrow> Inl (TxScriptError e)
         | Inr param \<Rightarrow> Inr (Amount param, Some (TokenID param)))
      else if IsSplitAddrScript s then Inr (0, None)
      else Inl ErrUtxoNotRecognized)"

section \<open>Change\<close>

definition sum_u64 :: "u64 list \<Rightarrow> u64" where
  "sum_u64 vs = foldl (+) 0 vs"

definition calcChangeAmount :: "u64 list \<Rightarrow> PbUtxo list \<Rightarrow> tx_error + u64" where
  "calcChangeAmount toAmounts utxos =
     (let inputAmt = sum_u64 (map pu_value utxos);
          toAmount = sum_u64 toAmounts;
          fee = of_nat ((length utxos + length toAmounts + 1) div InOutNumPerExtraFee + 1) * TransferFee;
          changeAmt = inputAmt - toAmount - fee
      in if changeAmt > inputAmt then Inl ErrInsufficientInput else Inr changeAmt)"

definition calcContractChangeAmount :: "u64 \<Rightarrow> u64 \<Rightarrow> PbUtxo list \<Rightarrow> tx_error + u64" where
  "calcContractChangeAmount gasLimit amount utxos =
     (let inputAmt = sum_u64 (map pu_value utxos);
          extraFee = of_nat ((length utxos + 2) div InOutNumPerExtraFee) * TransferFee;
          changeAmt = inputAmt - gasLimit * FixedGasPrice - amount - extraFee
      in if changeAmt > inputAmt then Inl ErrInsufficientInput else Inr changeAmt)"

fun token_input :: "(byte \<Rightarrow> u64) \<Rightarrow> OutPoint \<Rightarrow> u64 \<Rightarrow> PbUtxo list \<Rightarrow> tx_error + u64" where
  "token_input pow10 tid inputAmt [] = Inr inputAmt"
| "token_input pow10 tid inputAmt (u # us) =
     (case ParseUtxoAmount pow10 u of
        Inl e \<Rightarrow> Inl e
      | Inr (v, uid) \<Rightarrow>
          if uid = None \<or> uid \<noteq> Some tid then token_input pow10 tid inputAmt us
          else token_input pow10 tid (inputAmt + v) us)"

definition calcTokenChangeAmount ::
  "(byte \<Rightarrow> u64) \<Rightarrow> OutPoint \<Rightarrow> u64 list \<Rightarrow> PbUtxo list \<Rightarrow> tx_error + u64" where
  "calcTokenChangeAmount pow10 tid toAmounts utxos =
     (case token_input pow10 tid 0 utxos of
        Inl e \<Rightarrow> Inl e
      | Inr inputAmt \<Rightarrow>
          (let toAmount = sum_u64 toAmounts; changeAmt = inputAmt - toAmount
           in if changeAmt > inputAmt then Inl ErrInsufficientTokenInput else Inr changeAmt))"

section \<open>Unsigned transactions\<close>

definition new_transaction :: Transaction where
  "new_transaction = \<lparr>cached_hash = None, TxTyp = UnknownTx, Version = 0, Vin = [], Vout = [],
     Data = None, Magic = 0, LockTime = 0\<rparr>"

definition utxo_vins :: "PbUtxo list \<Rightarrow> TxIn list" where
  "utxo_vins utxos = map (\<lambda>utxo. MakeVin (ConvPbOutPoint (pu_OutPoint utxo)) 0) utxos"

definition change_vout :: "bytes \<Rightarrow> u64 \<Rightarrow> TxOut list" where
  "change_vout from changeAmt = (if changeAmt > 0 then [MakeVout from changeAmt] else [])"

definition MakeUnsignedTx ::
  "bytes \<Rightarrow> bytes list \<Rightarrow> u64 list \<Rightarrow> PbUtxo list \<Rightarrow> tx_error + Transaction" where
  "MakeUnsignedTx from to amounts utxos =
     (if length to \<noteq> length amounts then Inl ErrInvalidArguments
      else case calcChangeAmount amounts utxos of Inl e \<Rightarrow> Inl e | Inr changeAmt \<Rightarrow>
        Inr (new_transaction\<lparr>Vin := utxo_vins utxos,
               Vout := map2 MakeVout to amounts @ change_vout from changeAmt\<rparr>))"

definition ContractDataType :: int where "ContractDataType = 1"

definition makeUnsignedContractTx ::
  "bytes \<Rightarrow> u64 \<Rightarrow> u64 \<Rightarrow> TxOut \<Rightarrow> bytes \<Rightarrow> PbUtxo list \<Rightarrow> tx_error + Transaction" where
  "makeUnsignedContractTx addr amount gasLimit contractVout byteCode utxos =
     (case calcContractChangeAmount gasLimit amount utxos of Inl e \<Rightarrow> Inl e | Inr changeAmt \<Rightarrow>
        (let tx = WithData (AppendVout (AppendVin new_transaction (utxo_vins utxos)) [contractVout])
                    ContractDataType byteCode
         in Inr (tx\<lparr>Vout := Vout tx @ change_vout addr changeAmt\<rparr>)))"

definition MakeUnsignedContractDeployTx ::
  "bytes option \<Rightarrow> u64 \<Rightarrow> u64 \<Rightarrow> u64 \<Rightarrow> bytes \<Rightarrow> PbUtxo list \<Rightarrow> tx_error + Transaction" where
  "MakeUnsignedContractDeployTx from amount gasLimit nonce byteCode utxos =
     (case MakeContractCreationVout from amount gasLimit nonce of Inl e \<Rightarrow> Inl e | Inr contractVout \<Rightarrow>
        makeUnsignedContractTx (the from) amount gasLimit contractVout byteCode utxos)"

definition MakeUnsignedContractCallTx ::
  "bytes option \<Rightarrow> bytes option \<Rightarrow> u64 \<Rightarrow> u64 \<Rightarrow> u64 \<Rightarrow> bytes \<Rightarrow> PbUtxo list \<Rightarrow> tx_error + Transaction" where
  "MakeUnsignedContractCallTx from to amount gasLimit nonce byteCode utxos =
     (case MakeContractCallVout from to amount gasLimit nonce of Inl e \<Rightarrow> Inl e | Inr contractVout \<Rightarrow>
        makeUnsignedContractTx (the from) amount gasLimit contractVout byteCode utxos)"

definition MakeUnsignedSplitAddrTx ::
  "('sig, 'pk) crypto_ops \<Rightarrow> bytes \<Rightarrow> bytes list \<Rightarrow> u32 list \<Rightarrow> PbUtxo list \<Rightarrow> tx_error + Transaction" where
  "MakeUnsignedSplitAddrTx c from addrs weights utxos =
     (if length addrs \<noteq> length weights then Inl ErrInvalidArguments
      else case calcChangeAmount [] utxos of Inl e \<Rightarrow> Inl e | Inr changeAmt \<Rightarrow>
      (case MakeSplitAddrVout c addrs weights of Inl e \<Rightarrow> Inl e | Inr splitAddrOut \<Rightarrow>
        Inr (new_transaction\<lparr>Vin := utxo_vins utxos,
               Vout := [splitAddrOut] @ change_vout from changeAmt\<rparr>)))"

definition MakeUnsignedTokenIssueTx ::
  "bytes \<Rightarrow> bytes \<Rightarrow> TokenTag \<Rightarrow> PbUtxo list \<Rightarrow> tx_error + (Transaction \<times> u32)" where
  "MakeUnsignedTokenIssueTx issuer owner tag utxos =
     (case calcChangeAmount [] utxos of Inl e \<Rightarrow> Inl e | Inr changeAmt \<Rightarrow>
        Inr (new_transaction\<lparr>Vin := utxo_vins utxos,
               Vout := [MakeIssueTokenVout owner tag] @ change_vout issuer changeAmt\<rparr>, 0))"

definition MakeUnsignedTokenTransferTx ::
  "(byte \<Rightarrow> u64) \<Rightarrow> bytes \<Rightarrow> bytes list \<Rightarrow> u64 list \<Rightarrow> OutPoint \<Rightarrow> PbUtxo list \<Rightarrow> tx_error + Transaction" where
  "MakeUnsignedTokenTransferTx pow10 from to amounts tid utxos =
     (if length to \<noteq> length amounts then Inl ErrInvalidArguments
      else case calcChangeAmount [] utxos of Inl e \<Rightarrow> Inl e | Inr changeAmt \<Rightarrow>
      (case calcTokenChangeAmount pow10 tid amounts utxos of Inl e \<Rightarrow> Inl e | Inr tokenRemain \<Rightarrow>
        Inr (new_transaction\<lparr>Vin := utxo_vins utxos,
               Vout := map2 (\<lambda>addr amt. MakeTokenVout addr tid amt) to amounts
                 @ (if tokenRemain > 0 then [MakeTokenVout from tid tokenRemain] else [])
                 @ change_vout from changeAmt\<rparr>)))"

section \<open>Signing\<close>

text \<open>An account: signing a digest, and the public key.\<close>

record Account =
  acc_sign :: "bytes \<Rightarrow> bytes option"
  acc_pubkey :: bytes

fun sign_loop ::
  "('sig, 'pk) crypto_ops \<Rightarrow> Account \<Rightarrow> nat \<Rightarrow> PbUtxo list \<Rightarrow> Transaction \<Rightarrow> tx_error + Transaction" where
  "sign_loop c acc i [] tx = Inr tx"
| "sign_loop c acc i (utxo # utxos) tx =
     (case CalcTxHashForSig c (pu_script utxo) tx i of Inl e \<Rightarrow> Inl (TxScriptError e) | Inr sigHash \<Rightarrow>
     (case acc_sign acc sigHash of None \<Rightarrow> Inl ErrSign | Some sig \<Rightarrow>
        (let scriptSig = SignatureScript sig (acc_pubkey acc)
         in sign_loop c acc (i + 1) utxos
              (tx\<lparr>Vin := (Vin tx)[i := (Vin tx ! i)\<lparr>ScriptSig := scriptSig\<rparr>]\<rparr>))))"

definition SignTxWithUtxos ::
  "('sig, 'pk) crypto_ops \<Rightarrow> Transaction \<Rightarrow> PbUtxo list \<Rightarrow> Account \<Rightarrow> tx_error + Transaction" where
  "SignTxWithUtxos c tx utxos acc = sign_loop c acc 0 utxos tx"

section \<open>Sums\<close>

lemma sum_u64_sum_list: "sum_u64 vs = sum_list vs"
proof -
  have "foldl (+) a vs = a + sum_list vs" for a :: u64
    by (induction vs arbitrary: a) (simp_all add: add.assoc)
  then show ?thesis by (simp add: sum_u64_def)
qed

lemma unat_sum_u64:
  "sum_list (map unat vs) < 2 ^ 64 \<Longrightarrow> unat (sum_u64 vs) = sum_list (map unat vs)"
proof (unfold sum_u64_sum_list, induction vs)
  case (Cons v vs)
  then have "unat (sum_list vs) = sum_list (map unat vs)" by simp
  with Cons.prems show ?case by (simp add: unat_add_lem [THEN iffD1])
qed simp

lemma OutputAmount_sum: "OutputAmount tx = sum_u64 (map Value (Vout tx))"
proof -
  have "foldl (\<lambda>total out. total + Value out) a outs = a + sum_list (map Value outs)" for a and outs :: "TxOut list"
    by (induction outs arbitrary: a) (simp_all add: add.assoc)
  then show ?thesis by (simp add: OutputAmount_def sum_u64_sum_list)
qed

lemma map2_MakeVout_values: "length to = length amounts \<Longrightarrow> map Value (map2 MakeVout to amounts) = amounts"
  by (induction to amounts rule: list_induct2) (simp_all add: MakeVout_def)

lemma TransferFee_unat: "unat TransferFee = 1050000" "TransferFee = 1050000"
  by (simp_all add: TransferFee_def FixedGasPrice_def TransferGasLimit_def)

lemma unat_fee: "n < 2 ^ 32 \<Longrightarrow> unat (of_nat n * TransferFee) = n * 1050000"
  by (simp add: TransferFee_unat(2) unat_mult_lem [THEN iffD1] unat_of_nat_less)

lemma calcChangeAmount_exact:
  assumes "calcChangeAmount amounts utxos = Inr change"
    and "sum_list (map (\<lambda>u. unat (pu_value u)) utxos) < 2 ^ 64"
    and "sum_list (map unat amounts) < 2 ^ 63" and "length utxos + length amounts < 2 ^ 32"
  shows "sum_list (map (\<lambda>u. unat (pu_value u)) utxos) = sum_list (map unat amounts) + unat change +
    ((length utxos + length amounts + 1) div 16 + 1) * 1050000"
proof -
  let ?k = "(length utxos + length amounts + 1) div 16 + 1"
  let ?fee = "of_nat ?k * TransferFee :: u64"
  have k: "?k < 2 ^ 32" using assms(4) by simp
  have i: "unat (sum_u64 (map pu_value utxos)) = sum_list (map (\<lambda>u. unat (pu_value u)) utxos)"
    using unat_sum_u64 [of "map pu_value utxos"] assms(2) by (simp add: comp_def)
  have a: "unat (sum_u64 amounts) = sum_list (map unat amounts)"
    using assms(3) by (intro unat_sum_u64) simp
  have af: "unat (sum_u64 amounts + ?fee) = sum_list (map unat amounts) + ?k * 1050000"
    using unat_fee [OF k] assms(3,4) k a by (subst unat_add_lem [THEN iffD1]) auto
  have c: "change = sum_u64 (map pu_value utxos) - (sum_u64 amounts + ?fee)"
    and le: "change \<le> sum_u64 (map pu_value utxos)"
    using assms(1)
    by (auto simp: calcChangeAmount_def Let_def InOutNumPerExtraFee_def not_less diff_diff_eq split: if_splits)
  have "change + (sum_u64 amounts + ?fee) = sum_u64 (map pu_value utxos)" by (simp add: c)
  moreover have "unat change + unat (sum_u64 amounts + ?fee) < 2 ^ 64"
  proof (rule ccontr)
    assume n: "\<not> ?thesis"
    have "sum_u64 amounts + ?fee = sum_u64 (map pu_value utxos) - change" by (simp add: c)
    then have "unat (sum_u64 amounts + ?fee) = unat (sum_u64 (map pu_value utxos)) - unat change"
      using le by (simp add: unat_sub)
    then have "unat change + unat (sum_u64 amounts + ?fee) \<le> unat (sum_u64 (map pu_value utxos))"
      using le by (simp add: word_le_nat_alt)
    with n show False using i assms(2) by simp
  qed
  ultimately have "unat (sum_u64 (map pu_value utxos)) = unat change + unat (sum_u64 amounts + ?fee)"
    using unat_add_lem [of change "sum_u64 amounts + ?fee"] by simp
  then show ?thesis using i af by simp
qed

section \<open>Signing\<close>

text \<open>Two transactions that sign alike: they differ at most in type tag, cached hash and
  unlocking scripts.\<close>

definition same_unsigned :: "Transaction \<Rightarrow> Transaction \<Rightarrow> bool" where
  "same_unsigned tx tx' \<longleftrightarrow>
     Version tx = Version tx' \<and> Magic tx = Magic tx' \<and> LockTime tx = LockTime tx' \<and>
     Vout tx = Vout tx' \<and> Data tx = Data tx' \<and>
     map PrevOutPoint (Vin tx) = map PrevOutPoint (Vin tx') \<and>
     map Sequence (Vin tx) = map Sequence (Vin tx')"

lemma same_unsigned_refl [simp]: "same_unsigned tx tx"
  by (simp add: same_unsigned_def)

lemma same_unsigned_trans: "same_unsigned a b \<Longrightarrow> same_unsigned b d \<Longrightarrow> same_unsigned a d"
  by (simp add: same_unsigned_def)

lemma same_unsigned_length: "same_unsigned a b \<Longrightarrow> length (Vin a) = length (Vin b)"
  by (auto simp: same_unsigned_def dest: map_eq_imp_length_eq)

lemma CalcTxHashForSig_cong:
  assumes "same_unsigned tx tx'"
  shows "CalcTxHashForSig c spk tx k = CalcTxHashForSig c spk tx' k"
proof -
  let ?f = "\<lambda>(i, txIn). NewTxIn (PrevOutPoint txIn) (if i = k then spk else []) (Sequence txIn)"
  have len: "length (Vin tx) = length (Vin tx')" using assms by (rule same_unsigned_length)
  have "PrevOutPoint (Vin tx ! i) = PrevOutPoint (Vin tx' ! i)" "Sequence (Vin tx ! i) = Sequence (Vin tx' ! i)"
    if "i < length (Vin tx)" for i
    using assms that len unfolding same_unsigned_def by (metis nth_map)+
  then have "map ?f (enumerate 0 (Vin tx)) = map ?f (enumerate 0 (Vin tx'))"
    using len by (intro nth_equalityI) (simp_all add: nth_enumerate_eq)
  with assms len show ?thesis unfolding CalcTxHashForSig_eq by (simp add: same_unsigned_def)
qed

lemma same_unsigned_update:
  "i < length (Vin tx) \<Longrightarrow>
     same_unsigned tx (tx\<lparr>Vin := (Vin tx)[i := (Vin tx ! i)\<lparr>ScriptSig := sg\<rparr>]\<rparr>)"
  by (simp add: same_unsigned_def map_update) (metis list_update_id nth_map)

lemma sign_loop_spec:
  assumes "sign_loop c acc i utxos tx = Inr tx'"
  shows "same_unsigned tx tx' \<and> (\<forall>j < i. Vin tx' ! j = Vin tx ! j) \<and>
    (\<forall>j < length utxos. \<exists>h sig. CalcTxHashForSig c (pu_script (utxos ! j)) tx (i + j) = Inr h \<and>
       acc_sign acc h = Some sig \<and> ScriptSig (Vin tx' ! (i + j)) = SignatureScript sig (acc_pubkey acc))"
  using assms
proof (induction utxos arbitrary: i tx)
  case Nil
  then show ?case by simp
next
  case (Cons u us)
  from Cons.prems obtain h sig where h: "CalcTxHashForSig c (pu_script u) tx i = Inr h"
    and sig: "acc_sign acc h = Some sig"
    and rest: "sign_loop c acc (i + 1) us
        (tx\<lparr>Vin := (Vin tx)[i := (Vin tx ! i)\<lparr>ScriptSig := SignatureScript sig (acc_pubkey acc)\<rparr>]\<rparr>) = Inr tx'"
    (is "sign_loop c acc (i + 1) us ?tx = _")
    by (auto simp: Let_def split: sum.splits option.splits)
  have i: "i < length (Vin tx)"
    using h by (auto simp: CalcTxHashForSig_eq split: if_splits)
  note su = same_unsigned_update [OF i, of "SignatureScript sig (acc_pubkey acc)"]
  note IH = Cons.IH [OF rest]
  have "same_unsigned tx tx'" using su IH same_unsigned_trans by blast
  moreover have "\<forall>j < i. Vin tx' ! j = Vin tx ! j" using IH by simp
  moreover have "Vin tx' ! i = Vin ?tx ! i" using IH by simp
  then have head: "ScriptSig (Vin tx' ! i) = SignatureScript sig (acc_pubkey acc)" using i by simp
  moreover have "\<exists>h sig. CalcTxHashForSig c (pu_script ((u # us) ! j)) tx (i + j) = Inr h \<and>
       acc_sign acc h = Some sig \<and> ScriptSig (Vin tx' ! (i + j)) = SignatureScript sig (acc_pubkey acc)"
    if "j < length (u # us)" for j
  proof (cases j)
    case 0
    then show ?thesis using h sig head by auto
  next
    case (Suc k)
    with that IH show ?thesis
      unfolding CalcTxHashForSig_cong [OF su] by auto
  qed
  ultimately show ?case by blast
qed

lemmas tx_types = UnknownTx_def PayToPubkTx_def ContractTx_def TokenIssueTx_def TokenTransferTx_def
  SplitTx_def ErrorTx_def

section \<open>Properties\<close>

text \<open>C4: Signing a transaction makes every input spendable: if an account's key hashes to the
  address all the given outputs pay to, and its signatures verify under its key (the documented
  contract of the signature scheme), then after \<^verbatim>\<open>SignTxWithUtxos\<close> the script of every signed input
  validates against the output it spends, in the finished transaction.\<close>

theorem signed_inputs_validate:
  assumes "SignTxWithUtxos c tx utxos acc = Inr tx'"
    and "\<forall>u\<in>set utxos. pu_script u = PayToPubKeyHashScript (Hash160 c (acc_pubkey acc))"
    and "\<forall>h sig. acc_sign acc h = Some sig \<longrightarrow> length sig \<le> 65535 \<and>
      (\<exists>s k. parse_sig c sig = Some s \<and> parse_pubkey c (acc_pubkey acc) = Some k \<and> sig_verify c s h k)"
    and "length (acc_pubkey acc) \<le> 65535" and "\<forall>b. length (ripemd160 c b) = Ripemd160Size"
    and "i < length utxos"
  shows "Validate c (ScriptSig (Vin tx' ! i)) (pu_script (utxos ! i)) tx' i = None"
proof -
  let ?pk = "acc_pubkey acc"
  let ?lock = "PayToPubKeyHashScript (Hash160 c ?pk)"
  from sign_loop_spec [OF assms(1) [unfolded SignTxWithUtxos_def]] assms(6)
  obtain h sig where same: "same_unsigned tx tx'"
    and h: "CalcTxHashForSig c (pu_script (utxos ! i)) tx i = Inr h"
    and sig: "acc_sign acc h = Some sig" and sc: "ScriptSig (Vin tx' ! i) = SignatureScript sig ?pk"
    by auto
  have u: "pu_script (utxos ! i) = ?lock" using assms(2,6) by simp
  have "CalcTxHashForSig c ?lock tx' i = Inr h" using h unfolding u CalcTxHashForSig_cong [OF same] .
  moreover obtain s k where "parse_sig c sig = Some s" "parse_pubkey c ?pk = Some k" "sig_verify c s h k"
    using assms(3) sig by blast
  ultimately have "verifySig c sig ?pk ?lock tx' i" by (simp add: verifySig_def)
  moreover have "length (Hash160 c ?pk) = Ripemd160Size" by (simp add: Hash160_def assms(5))
  ultimately show ?thesis
    using Validate_p2pkh_eq [of sig ?pk "Hash160 c ?pk" c tx' i] assms(3,4) sig by (auto simp: sc u)
qed

theorem signed_inputs_validate_witness:
  "\<exists>tx'. SignTxWithUtxos zero_crypto (NewTx 1 0 0\<lparr>Vin := [NewTxIn NewNullOutPoint [] 0]\<rparr>)
       [\<lparr>pu_BlockHeight = 0, pu_IsSpent = False, pu_OutPoint = \<lparr>pb_Hash = [], pb_Index = 0\<rparr>,
         pu_TxOut = Some \<lparr>Value = 5, ScriptPubKey = PayToPubKeyHashScript (replicate 20 0)\<rparr>\<rparr>]
       \<lparr>acc_sign = (\<lambda>h. if h = replicate 32 0 then Some [1] else None), acc_pubkey = [2]\<rparr> = Inr tx' \<and>
     Validate zero_crypto (ScriptSig (Vin tx' ! 0)) (PayToPubKeyHashScript (replicate 20 0)) tx' 0 = None"
proof -
  let ?tx = "NewTx 1 0 0\<lparr>Vin := [NewTxIn NewNullOutPoint [] 0]\<rparr>"
  let ?u = "\<lparr>pu_BlockHeight = 0, pu_IsSpent = False, pu_OutPoint = \<lparr>pb_Hash = [], pb_Index = 0\<rparr>,
         pu_TxOut = Some \<lparr>Value = 5, ScriptPubKey = PayToPubKeyHashScript (replicate 20 0)\<rparr>\<rparr>"
  let ?acc = "\<lparr>acc_sign = (\<lambda>h. if h = replicate 32 0 then Some [1] else None), acc_pubkey = [2]\<rparr> :: Account"
  have "CalcTxHashForSig zero_crypto spk ?tx 0 = Inr (replicate 32 0)" for spk
    by (simp add: CalcTxHashForSig_eq CalcTxHash_def zero_crypto_def DoubleHashH_def)
  then have "\<exists>tx'. SignTxWithUtxos zero_crypto ?tx [?u] ?acc = Inr tx'"
    by (simp add: SignTxWithUtxos_def)
  then obtain tx' where tx': "SignTxWithUtxos zero_crypto ?tx [?u] ?acc = Inr tx'" ..
  have z: "Hash160 zero_crypto b = replicate 20 0" "parse_sig zero_crypto b = Some ()"
      "parse_pubkey zero_crypto b = Some ()" "sig_verify zero_crypto () h () \<longleftrightarrow> h = replicate 32 0"
      "ripemd160 zero_crypto b = replicate 20 0" for b h
    by (simp_all add: zero_crypto_def Hash160_def)
  have "Validate zero_crypto (ScriptSig (Vin tx' ! 0)) (pu_script ([?u] ! 0)) tx' 0 = None"
    by (rule signed_inputs_validate [OF tx']) (simp_all add: z pu_script_def Ripemd160Size_def split: if_splits)
  with tx' show ?thesis by (auto simp: pu_script_def)
qed

text \<open>C31: A payment built with a change output pays exactly the fee the network demands: the
  inputs exceed the outputs by the transfer fee plus the extra fee computed from the finished
  transaction, with no wrap-around, for inputs and amounts in range.\<close>

theorem unsigned_tx_fee_exact:
  assumes "MakeUnsignedTx frm to amounts utxos = Inr tx" and "length (Vout tx) = length to + 1"
    and "sum_list (map (\<lambda>u. unat (pu_value u)) utxos) < 2 ^ 64"
    and "sum_list (map unat amounts) < 2 ^ 63" and "length utxos + length amounts < 2 ^ 31"
  shows "sum_list (map (\<lambda>u. unat (pu_value u)) utxos) =
    sum_list (map (\<lambda>out. unat (Value out)) (Vout tx)) + unat (TransferFee + ExtraFee tx)"
proof -
  from assms(1) obtain change where len: "length to = length amounts"
    and ch: "calcChangeAmount amounts utxos = Inr change"
    and tx: "tx = new_transaction\<lparr>Vin := utxo_vins utxos, Vout := map2 MakeVout to amounts @ change_vout frm change\<rparr>"
    by (auto simp: MakeUnsignedTx_def split: if_splits sum.splits)
  have cv: "change_vout frm change = [MakeVout frm change]"
    using assms(2) len by (auto simp: tx change_vout_def split: if_splits)
  have "map (\<lambda>out. unat (Value out)) (map2 MakeVout to amounts) = map unat amounts"
    using arg_cong [OF map2_MakeVout_values [OF len], of "map unat"] by (simp add: comp_def)
  then have outs: "sum_list (map (\<lambda>out. unat (Value out)) (Vout tx)) = sum_list (map unat amounts) + unat change"
    by (simp add: tx cv MakeVout_def)
  let ?k = "(length utxos + length amounts + 1) div 16"
  have "ExtraFee tx = of_nat ?k * TransferFee"
    by (simp add: ExtraFee_def tx cv InOutNumPerExtraFee_def utxo_vins_def len)
  then have "TransferFee + ExtraFee tx = of_nat (?k + 1) * TransferFee" by (simp add: algebra_simps)
  then have fee: "unat (TransferFee + ExtraFee tx) = (?k + 1) * 1050000"
    using unat_fee [of "?k + 1"] assms(5) by simp
  show ?thesis
    using calcChangeAmount_exact [OF ch assms(3,4)] assms(5) outs fee by simp
qed

theorem unsigned_tx_fee_exact_witness:
  "\<exists>tx. MakeUnsignedTx (replicate 20 1) [replicate 20 2] [5]
      [\<lparr>pu_BlockHeight = 0, pu_IsSpent = False, pu_OutPoint = \<lparr>pb_Hash = [], pb_Index = 0\<rparr>,
        pu_TxOut = Some \<lparr>Value = 2000000, ScriptPubKey = []\<rparr>\<rparr>] = Inr tx \<and>
     2000000 = sum_list (map (\<lambda>out. unat (Value out)) (Vout tx)) + unat (TransferFee + ExtraFee tx)"
proof -
  let ?u = "\<lparr>pu_BlockHeight = 0, pu_IsSpent = False, pu_OutPoint = \<lparr>pb_Hash = [], pb_Index = 0\<rparr>,
        pu_TxOut = Some \<lparr>Value = 2000000, ScriptPubKey = []\<rparr>\<rparr>"
  let ?r = "MakeUnsignedTx (replicate 20 1) [replicate 20 2] [5] [?u]"
  have "calcChangeAmount [5] [?u] = Inr 949995"
    by (simp add: calcChangeAmount_def sum_u64_def pu_value_def TransferFee_unat(2) InOutNumPerExtraFee_def Let_def)
  then have "\<exists>tx. ?r = Inr tx \<and> length (Vout tx) = length [replicate 20 2 :: bytes] + 1"
    by (simp add: MakeUnsignedTx_def change_vout_def)
  then obtain tx where tx: "?r = Inr tx" "length (Vout tx) = length [replicate 20 2 :: bytes] + 1" by blast
  have "sum_list (map (\<lambda>u. unat (pu_value u)) [?u]) =
      sum_list (map (\<lambda>out. unat (Value out)) (Vout tx)) + unat (TransferFee + ExtraFee tx)"
    by (rule unsigned_tx_fee_exact [OF tx]) (simp_all add: pu_value_def)
  with tx show ?thesis by (auto simp: pu_value_def)
qed

text \<open>A token issue with change pays the demanded fee only when the number of inputs plus one
  and plus two lie in the same block of sixteen: the change computation counts one output, the finished
  transaction has two. With fourteen inputs, for instance, it does not pay the fee demanded of it.\<close>

theorem token_issue_fee:
  assumes "MakeUnsignedTokenIssueTx issuer owner tag utxos = Inr (tx, k)" and "length (Vout tx) = 2"
    and "length utxos < 2 ^ 31"
  shows "sum_u64 (map pu_value utxos) = OutputAmount tx + TransferFee + ExtraFee tx \<longleftrightarrow>
    (length utxos + 1) div 16 = (length utxos + 2) div 16"
proof -
  let ?a = "(length utxos + 1) div 16" and ?b = "(length utxos + 2) div 16"
  let ?in = "sum_u64 (map pu_value utxos)"
  from assms(1) obtain change where ch: "calcChangeAmount [] utxos = Inr change"
    and tx: "tx = new_transaction\<lparr>Vin := utxo_vins utxos,
      Vout := [MakeIssueTokenVout owner tag] @ change_vout issuer change\<rparr>"
    by (auto simp: MakeUnsignedTokenIssueTx_def split: sum.splits)
  have cv: "change_vout issuer change = [MakeVout issuer change]"
    using assms(2) by (auto simp: tx change_vout_def split: if_splits)
  have out: "OutputAmount tx = change"
    by (simp add: OutputAmount_def tx cv MakeVout_def MakeIssueTokenVout_def)
  have extra: "ExtraFee tx = of_nat ?b * TransferFee"
    by (simp add: ExtraFee_def tx cv InOutNumPerExtraFee_def utxo_vins_def)
  have "change = ?in - of_nat (?a + 1) * TransferFee"
    using ch by (auto simp: calcChangeAmount_def Let_def InOutNumPerExtraFee_def sum_u64_def split: if_splits)
  then have "?in = OutputAmount tx + TransferFee + ExtraFee tx \<longleftrightarrow>
      of_nat ?a * TransferFee = (of_nat ?b * TransferFee :: u64)"
    by (auto simp: out extra algebra_simps)
  also have "\<dots> \<longleftrightarrow> ?a = ?b"
  proof
    assume "of_nat ?a * TransferFee = (of_nat ?b * TransferFee :: u64)"
    then have "?a * 1050000 = ?b * 1050000"
      using unat_fee [of ?a] unat_fee [of ?b] assms(3) by simp
    then show "?a = ?b" by simp
  qed simp
  finally show ?thesis .
qed

theorem token_issue_fee_witness:
  "\<exists>tx. MakeUnsignedTokenIssueTx (replicate 20 1) (replicate 20 2)
        \<lparr>tag_Name = [66], tag_Symbol = [66], tag_Decimal = 0, tag_Supply = 10\<rparr>
        (replicate 14 \<lparr>pu_BlockHeight = 0, pu_IsSpent = False, pu_OutPoint = \<lparr>pb_Hash = [], pb_Index = 0\<rparr>,
          pu_TxOut = Some \<lparr>Value = 1000000, ScriptPubKey = []\<rparr>\<rparr>) = Inr (tx, 0) \<and>
     14000000 \<noteq> OutputAmount tx + TransferFee + ExtraFee tx"
proof -
  define u where "u = \<lparr>pu_BlockHeight = 0, pu_IsSpent = False, pu_OutPoint = \<lparr>pb_Hash = [], pb_Index = 0\<rparr>,
          pu_TxOut = Some \<lparr>Value = 1000000, ScriptPubKey = []\<rparr>\<rparr>"
  let ?r = "MakeUnsignedTokenIssueTx (replicate 20 1) (replicate 20 2)
        \<lparr>tag_Name = [66], tag_Symbol = [66], tag_Decimal = 0, tag_Supply = 10\<rparr> (replicate 14 u)"
  have sum: "sum_u64 (map pu_value (replicate 14 u)) = 14000000"
    by (simp add: sum_u64_sum_list sum_list_replicate pu_value_def u_def)
  then have "calcChangeAmount [] (replicate 14 u) = Inr 12950000"
    unfolding calcChangeAmount_def sum
    by (simp add: TransferFee_unat(2) InOutNumPerExtraFee_def Let_def sum_u64_def)
  then have "\<exists>tx. ?r = Inr (tx, 0) \<and> length (Vout tx) = 2"
    by (simp add: MakeUnsignedTokenIssueTx_def change_vout_def)
  then obtain tx where tx: "?r = Inr (tx, 0)" "length (Vout tx) = 2" by blast
  have "sum_u64 (map pu_value (replicate 14 u)) = OutputAmount tx + TransferFee + ExtraFee tx \<longleftrightarrow>
      (length (replicate 14 u) + 1) div 16 = (length (replicate 14 u) + 2) div 16"
    by (rule token_issue_fee [OF tx]) simp
  then have "14000000 \<noteq> OutputAmount tx + TransferFee + ExtraFee tx" unfolding sum by simp
  with tx(1) show ?thesis unfolding u_def by (intro exI conjI)
qed

text \<open>C32: Checking a transaction twice can give two answers: the type is cached before the
  outputs have all been looked at, so a transaction that issues a token and then transfers one is rejected
  by the first \<^verbatim>\<open>IsStandardTx\<close> and accepted by the second.\<close>

theorem isStandardTx_second_call:
  assumes "TxTyp tx = UnknownTx" and "Vout tx = [o1, o2]"
    and "pubkType (ScriptPubKey o1) \<in> {TokenIssuePubk, SplitAddrPubk, ContractPubk}"
    and "pubkType (ScriptPubKey o2) = TokenTransferPubk"
  shows "\<exists>tx'. IsStandardTx tx sv = (False, tx') \<and> IsStandardTx tx' sv = (True, tx')"
proof -
  obtain t where "t \<noteq> UnknownTx" "t \<noteq> ErrorTx" and
    "ParseTxType_loop sv 0 0 0 UnknownTx [o1, o2] = (ErrorTx, 0, t)"
  proof (cases "pubkType (ScriptPubKey o1)")
    case TokenIssuePubk
    with assms(4) that [of TokenIssueTx] show ?thesis by (simp add: tx_types)
  next
    case SplitAddrPubk
    with assms(4) that [of SplitTx] show ?thesis by (simp add: tx_types)
  next
    case ContractPubk
    with assms(4) that [of ContractTx] show ?thesis by (simp add: tx_types)
  qed (use assms(3) in simp_all)
  then show ?thesis by (simp add: IsStandardTx_def ParseTxType_def assms(1,2))
qed

theorem isStandardTx_second_call_witness:
  "\<exists>tx'. IsStandardTx (new_transaction\<lparr>Vout :=
       [MakeIssueTokenVout (replicate 20 3) \<lparr>tag_Name = [66], tag_Symbol = [66], tag_Decimal = 0, tag_Supply = 10\<rparr>,
        MakeTokenVout (replicate 20 3) \<lparr>Hash = replicate 32 7, Index = 1\<rparr> 25]\<rparr>) None = (False, tx') \<and>
     IsStandardTx tx' None = (True, tx')"
proof -
  let ?o1 = "MakeIssueTokenVout (replicate 20 3) \<lparr>tag_Name = [66], tag_Symbol = [66], tag_Decimal = 0, tag_Supply = 10\<rparr>"
  let ?o2 = "MakeTokenVout (replicate 20 3) \<lparr>Hash = replicate 32 7, Index = 1\<rparr> 25"
  have "pubkType (ScriptPubKey ?o1) = TokenIssuePubk"
    by (simp add: MakeIssueTokenVout_def MakeIssueTokenScript_def issue_class Ripemd160Size_def)
  moreover have "pubkType (ScriptPubKey ?o2) = TokenTransferPubk"
    by (simp add: MakeTokenVout_def transfer_class Ripemd160Size_def hash_wf_def HashSize_def)
  ultimately show ?thesis
    by (intro isStandardTx_second_call [of _ ?o1 ?o2]) (simp_all add: new_transaction_def)
qed

end
