(* ===== verification/Kv_Store.thy ===== *)
theory Kv_Store
  imports Boxd_Prelude "HOL-Library.AList" "HOL-Library.Sublist"
begin

text \<open>
  The key/value storage interface (\<^verbatim>\<open>src/storage/operations.go\<close>) and its in-memory
  implementation (\<^verbatim>\<open>src/storage/memdb\<close>): the database, tables (views of the database under a
  key prefix), write batches and transactions. The Go map is an association list with distinct
  keys. The channel \<^verbatim>\<open>writeLock\<close> of capacity one is a flag; an operation that would block on it
  has the value \<^term>\<open>None\<close>. The read/write mutexes only make the operations atomic and have no
  state of their own here.
\<close>

section \<open>The database\<close>

datatype storage_error =
  ErrKeyNotExists | ErrKeyNotFound | ErrTransactionExists | ErrTransactionClosed
| ErrDatabasePanic | ErrOnlySupportBatchOpt

datatype bop = OpPut bytes bytes | OpDel bytes

record memorydb =
  writeLock :: bool
  mdb :: "(bytes \<times> bytes) list"
  enableBatch :: bool
  db_batch :: "bop list"

definition NewMemoryDB :: memorydb where
  "NewMemoryDB = \<lparr>writeLock = False, mdb = [], enableBatch = False, db_batch = []\<rparr>"

definition HasPrefix :: "bytes \<Rightarrow> bytes \<Rightarrow> bool" where
  "HasPrefix k p \<longleftrightarrow> take (length p) k = p"

definition EnableBatch :: "memorydb \<Rightarrow> memorydb" where
  "EnableBatch db = db\<lparr>enableBatch := True, db_batch := []\<rparr>"

definition DisableBatch :: "memorydb \<Rightarrow> memorydb" where
  "DisableBatch db = db\<lparr>enableBatch := False, db_batch := []\<rparr>"

definition IsInBatch :: "memorydb \<Rightarrow> bool" where
  "IsInBatch db = enableBatch db"

definition db_Close :: "memorydb \<Rightarrow> memorydb option" where
  "db_Close db = (if writeLock db then None else Some (db\<lparr>mdb := []\<rparr>))"

definition db_Put :: "bytes \<Rightarrow> bytes \<Rightarrow> memorydb \<Rightarrow> memorydb option" where
  "db_Put key val db =
     (if enableBatch db then Some (db\<lparr>db_batch := db_batch db @ [OpPut key val]\<rparr>)
      else if writeLock db then None
      else Some (db\<lparr>mdb := AList.update key val (mdb db)\<rparr>))"

definition db_Del :: "bytes \<Rightarrow> memorydb \<Rightarrow> memorydb option" where
  "db_Del key db =
     (if enableBatch db then Some (db\<lparr>db_batch := db_batch db @ [OpDel key]\<rparr>)
      else if writeLock db then None
      else Some (db\<lparr>mdb := AList.delete key (mdb db)\<rparr>))"

definition db_Get :: "bytes \<Rightarrow> memorydb \<Rightarrow> bytes option" where
  "db_Get key db = map_of (mdb db) key"

definition db_Has :: "bytes \<Rightarrow> memorydb \<Rightarrow> bool" where
  "db_Has key db \<longleftrightarrow> map_of (mdb db) key \<noteq> None"

fun collect :: "('k \<Rightarrow> 'v option) \<Rightarrow> 'k list \<Rightarrow> 'v list \<Rightarrow> 'v list option" where
  "collect f [] vs = Some vs"
| "collect f (k # ks) vs = (case f k of Some v \<Rightarrow> collect f ks (vs @ [v]) | None \<Rightarrow> None)"

definition db_MultiGet :: "bytes list \<Rightarrow> memorydb \<Rightarrow> bytes list option" where
  "db_MultiGet keys db = collect (\<lambda>k. db_Get k db) keys []"

definition db_Keys :: "memorydb \<Rightarrow> bytes list" where
  "db_Keys db = map fst (mdb db)"

definition db_KeysWithPrefix :: "bytes \<Rightarrow> memorydb \<Rightarrow> bytes list" where
  "db_KeysWithPrefix p db = filter (\<lambda>k. HasPrefix k p) (map fst (mdb db))"

section \<open>Write batches\<close>

record mbatch =
  b_prefix :: bytes
  b_ops :: "bop list"

definition batch_Put :: "bytes \<Rightarrow> bytes \<Rightarrow> mbatch \<Rightarrow> mbatch" where
  "batch_Put key val b = b\<lparr>b_ops := b_ops b @ [OpPut key val]\<rparr>"

definition batch_Del :: "bytes \<Rightarrow> mbatch \<Rightarrow> mbatch" where
  "batch_Del key b = b\<lparr>b_ops := b_ops b @ [OpDel key]\<rparr>"

definition batch_Clear :: "mbatch \<Rightarrow> mbatch" where
  "batch_Clear b = b\<lparr>b_ops := []\<rparr>"

definition batch_Count :: "mbatch \<Rightarrow> nat" where
  "batch_Count b = length (b_ops b)"

fun apply_bop :: "bytes \<Rightarrow> bop \<Rightarrow> (bytes \<times> bytes) list \<Rightarrow> (bytes \<times> bytes) list" where
  "apply_bop p (OpPut k v) m = AList.update (p @ k) v m"
| "apply_bop p (OpDel k) m = AList.delete (p @ k) m"

definition batch_write :: "bool \<Rightarrow> mbatch \<Rightarrow> memorydb \<Rightarrow> memorydb option" where
  "batch_write wlock b db =
     (if wlock \<and> writeLock db then None
      else Some (db\<lparr>mdb := fold (apply_bop (b_prefix b)) (b_ops b) (mdb db)\<rparr>))"

definition batch_Write :: "mbatch \<Rightarrow> memorydb \<Rightarrow> memorydb option" where
  "batch_Write b db = batch_write True b db"

text \<open>\<^verbatim>\<open>Flush\<close> writes the attached batch and leaves it in place.\<close>

definition Flush :: "memorydb \<Rightarrow> (storage_error + memorydb) option" where
  "Flush db =
     (if enableBatch db then map_option Inr (batch_Write \<lparr>b_prefix = [], b_ops = db_batch db\<rparr> db)
      else Some (Inl ErrOnlySupportBatchOpt))"

section \<open>Tables\<close>

definition table_prefix :: "bytes \<Rightarrow> bytes" where
  "table_prefix name = name @ [0x2e]"

definition realkey :: "bytes \<Rightarrow> bytes \<Rightarrow> bytes" where
  "realkey p key = p @ key"

definition DropTable :: "bytes \<Rightarrow> memorydb \<Rightarrow> memorydb option" where
  "DropTable name db =
     (if writeLock db then None
      else Some (db\<lparr>mdb := fold (\<lambda>key m. if HasPrefix key (table_prefix name) then AList.delete key m else m)
                          (map fst (mdb db)) (mdb db)\<rparr>))"

definition table_Put :: "bytes \<Rightarrow> bytes \<Rightarrow> bytes \<Rightarrow> memorydb \<Rightarrow> memorydb option" where
  "table_Put p key val db =
     (if writeLock db then None else Some (db\<lparr>mdb := AList.update (realkey p key) val (mdb db)\<rparr>))"

definition table_Del :: "bytes \<Rightarrow> bytes \<Rightarrow> memorydb \<Rightarrow> memorydb option" where
  "table_Del p key db =
     (if writeLock db then None else Some (db\<lparr>mdb := AList.delete (realkey p key) (mdb db)\<rparr>))"

definition table_Get :: "bytes \<Rightarrow> bytes \<Rightarrow> memorydb \<Rightarrow> bytes option" where
  "table_Get p key db = map_of (mdb db) (realkey p key)"

definition table_Has :: "bytes \<Rightarrow> bytes \<Rightarrow> memorydb \<Rightarrow> bool" where
  "table_Has p key db \<longleftrightarrow> map_of (mdb db) (realkey p key) \<noteq> None"

definition table_MultiGet :: "bytes \<Rightarrow> bytes list \<Rightarrow> memorydb \<Rightarrow> bytes list option" where
  "table_MultiGet p keys db = collect (\<lambda>k. table_Get p k db) keys []"

definition table_KeysWithPrefix :: "bytes \<Rightarrow> bytes \<Rightarrow> memorydb \<Rightarrow> bytes list" where
  "table_KeysWithPrefix p pre db =
     map (drop (length p)) (filter (\<lambda>k. HasPrefix k (p @ pre)) (map fst (mdb db)))"

definition table_Keys :: "bytes \<Rightarrow> memorydb \<Rightarrow> bytes list" where
  "table_Keys p db = table_KeysWithPrefix p [] db"

section \<open>Transactions\<close>

text \<open>A transaction of the database (prefix []) or of a table. Writes go to its batch, reads to the data.\<close>

record mtx =
  tx_batch :: mbatch
  tx_closed :: bool

definition NewTransaction :: "bytes \<Rightarrow> memorydb \<Rightarrow> storage_error + (mtx \<times> memorydb)" where
  "NewTransaction p db =
     (if writeLock db then Inl ErrTransactionExists
      else Inr (\<lparr>tx_batch = \<lparr>b_prefix = p, b_ops = []\<rparr>, tx_closed = False\<rparr>, db\<lparr>writeLock := True\<rparr>))"

definition mtx_Put :: "bytes \<Rightarrow> bytes \<Rightarrow> mtx \<Rightarrow> storage_error + mtx" where
  "mtx_Put key val tx =
     (if tx_closed tx then Inl ErrTransactionClosed
      else Inr (tx\<lparr>tx_batch := batch_Put key val (tx_batch tx)\<rparr>))"

definition mtx_Del :: "bytes \<Rightarrow> mtx \<Rightarrow> storage_error + mtx" where
  "mtx_Del key tx =
     (if tx_closed tx then Inl ErrTransactionClosed
      else Inr (tx\<lparr>tx_batch := batch_Del key (tx_batch tx)\<rparr>))"

definition mtx_Get :: "bytes \<Rightarrow> mtx \<Rightarrow> memorydb \<Rightarrow> storage_error + bytes option" where
  "mtx_Get key tx db =
     (if tx_closed tx then Inl ErrTransactionClosed else Inr (table_Get (b_prefix (tx_batch tx)) key db))"

definition mtx_MultiGet :: "bytes list \<Rightarrow> mtx \<Rightarrow> memorydb \<Rightarrow> storage_error + bytes list option" where
  "mtx_MultiGet keys tx db =
     (if tx_closed tx then Inl ErrTransactionClosed
      else Inr (table_MultiGet (b_prefix (tx_batch tx)) keys db))"

definition mtx_Has :: "bytes \<Rightarrow> mtx \<Rightarrow> memorydb \<Rightarrow> storage_error + bool" where
  "mtx_Has key tx db =
     (if tx_closed tx then Inl ErrTransactionClosed else Inr (table_Has (b_prefix (tx_batch tx)) key db))"

definition mtx_KeysWithPrefix :: "bytes \<Rightarrow> mtx \<Rightarrow> memorydb \<Rightarrow> bytes list" where
  "mtx_KeysWithPrefix pre tx db =
     (if tx_closed tx then [] else table_KeysWithPrefix (b_prefix (tx_batch tx)) pre db)"

definition Commit :: "mtx \<Rightarrow> memorydb \<Rightarrow> storage_error + (mtx \<times> memorydb)" where
  "Commit tx db =
     (if tx_closed tx then Inl ErrTransactionClosed
      else case batch_write False (tx_batch tx) db of
        Some db' \<Rightarrow> Inr (tx\<lparr>tx_closed := True\<rparr>, db'\<lparr>writeLock := False\<rparr>)
      | None \<Rightarrow> Inl ErrDatabasePanic)"

definition Discard :: "mtx \<Rightarrow> memorydb \<Rightarrow> mtx \<times> memorydb" where
  "Discard tx db =
     (let tx = tx\<lparr>tx_batch := batch_Clear (tx_batch tx)\<rparr> in
      if tx_closed tx then (tx, db) else (tx\<lparr>tx_closed := True\<rparr>, db\<lparr>writeLock := False\<rparr>))"

section \<open>The storage interface\<close>

text \<open>
  What the clients of \<^verbatim>\<open>storage.Table\<close> use: writes and reads by key. The laws are those of a
  finite map; \<open>inv\<close> is the well-formedness of the provider's state.
\<close>

record 's Operations =
  op_Put :: "bytes \<Rightarrow> bytes \<Rightarrow> 's \<Rightarrow> 's"
  op_Del :: "bytes \<Rightarrow> 's \<Rightarrow> 's"
  op_Get :: "bytes \<Rightarrow> 's \<Rightarrow> storage_error + bytes option"

locale kv_store =
  fixes ops :: "'s Operations" and inv :: "'s \<Rightarrow> bool" and abs :: "'s \<Rightarrow> bytes \<Rightarrow> bytes option"
  assumes get_abs: "inv s \<Longrightarrow> op_Get ops k s = Inr (abs s k)"
    and put_abs: "inv s \<Longrightarrow> abs (op_Put ops k v s) = (abs s)(k \<mapsto> v)"
    and del_abs: "inv s \<Longrightarrow> abs (op_Del ops k s) = (abs s)(k := None)"
    and put_inv: "inv s \<Longrightarrow> inv (op_Put ops k v s)"
    and del_inv: "inv s \<Longrightarrow> inv (op_Del ops k s)"
begin

fun run_ops :: "bop list \<Rightarrow> 's \<Rightarrow> 's" where
  "run_ops [] s = s"
| "run_ops (OpPut k v # os) s = run_ops os (op_Put ops k v s)"
| "run_ops (OpDel k # os) s = run_ops os (op_Del ops k s)"

lemma run_ops_inv: "inv s \<Longrightarrow> inv (run_ops os s)"
  by (induction os s rule: run_ops.induct) (auto intro: put_inv del_inv)

lemma run_ops_append: "run_ops (xs @ ys) s = run_ops ys (run_ops xs s)"
  by (induction xs s rule: run_ops.induct) auto

text \<open>A key no operation touches keeps its value.\<close>

lemma run_ops_frame:
  assumes "inv s" and "\<forall>x\<in>set os. (case x of OpPut k _ \<Rightarrow> k | OpDel k \<Rightarrow> k) \<noteq> key"
  shows "abs (run_ops os s) key = abs s key"
  using assms by (induction os s rule: run_ops.induct) (auto simp: put_abs del_abs put_inv del_inv)

end

text \<open>Tables of the in-memory database provide the interface when no transaction holds the lock.\<close>

definition table_ops :: "bytes \<Rightarrow> memorydb Operations" where
  "table_ops p = \<lparr>op_Put = (\<lambda>k v db. the (table_Put p k v db)), op_Del = (\<lambda>k db. the (table_Del p k db)),
     op_Get = (\<lambda>k db. Inr (table_Get p k db))\<rparr>"

definition unlocked :: "memorydb \<Rightarrow> bool" where
  "unlocked db \<longleftrightarrow> \<not> writeLock db"

interpretation mem: kv_store "table_ops p" unlocked "\<lambda>db k. table_Get p k db" for p
  by unfold_locales
    (auto simp: table_ops_def table_Put_def table_Del_def table_Get_def realkey_def unlocked_def fun_eq_iff
      update_conv' delete_conv')

section \<open>Laws of the in-memory database\<close>

lemma HasPrefix_iff: "HasPrefix k p \<longleftrightarrow> (\<exists>r. k = p @ r)"
  by (auto simp: HasPrefix_def) (metis append_take_drop_id)

lemma HasPrefix_append [simp]: "HasPrefix (p @ k) (p @ q) \<longleftrightarrow> HasPrefix k q"
  by (simp add: HasPrefix_def)

text \<open>The keys of the Go map are distinct.\<close>

definition db_wf :: "memorydb \<Rightarrow> bool" where
  "db_wf db \<longleftrightarrow> distinct (map fst (mdb db))"

lemma apply_bop_wf: "distinct (map fst m) \<Longrightarrow> distinct (map fst (apply_bop p b m))"
  by (cases b) (auto simp: distinct_update distinct_delete)

lemma fold_apply_bop_wf: "distinct (map fst m) \<Longrightarrow> distinct (map fst (fold (apply_bop p) bs m))"
  by (induction bs arbitrary: m) (auto simp: apply_bop_wf)

lemma table_ops_unlocked:
  "\<not> writeLock db \<Longrightarrow> op_Put (table_ops p) k v db = db\<lparr>mdb := AList.update (p @ k) v (mdb db)\<rparr>"
  "\<not> writeLock db \<Longrightarrow> op_Del (table_ops p) k db = db\<lparr>mdb := AList.delete (p @ k) (mdb db)\<rparr>"
  by (simp_all add: table_ops_def table_Put_def table_Del_def realkey_def)

lemma fold_apply_bop_run_ops:
  "\<not> writeLock db \<Longrightarrow> db\<lparr>mdb := fold (apply_bop p) bs (mdb db)\<rparr> = mem.run_ops p bs db"
proof (induction bs arbitrary: db)
  case Nil
  then show ?case by simp
next
  case (Cons b bs)
  let ?db = "db\<lparr>mdb := apply_bop p b (mdb db)\<rparr>"
  have "mem.run_ops p (b # bs) db = mem.run_ops p bs ?db"
    using Cons.prems by (cases b) (simp_all add: table_ops_unlocked)
  with Cons.IH [of ?db] Cons.prems show ?case by simp
qed

text \<open>Replaying a batch changes nothing: a second \<^verbatim>\<open>Flush\<close> of the same batch is harmless.\<close>

fun last_op :: "bop list \<Rightarrow> bytes \<Rightarrow> bytes option option" where
  "last_op [] k = None"
| "last_op (b # bs) k =
     (case last_op bs k of
        Some r \<Rightarrow> Some r
      | None \<Rightarrow> (case b of OpPut k' v \<Rightarrow> if k' = k then Some (Some v) else None
                        | OpDel k' \<Rightarrow> if k' = k then Some None else None))"

lemma map_of_fold_apply_bop:
  "map_of (fold (apply_bop p) bs m) (p @ k) =
     (case last_op bs k of Some r \<Rightarrow> r | None \<Rightarrow> map_of m (p @ k))"
proof (induction bs arbitrary: m)
  case Nil
  then show ?case by simp
next
  case (Cons b bs)
  then show ?case
    by (cases b) (auto simp: update_conv' delete_conv' split: option.splits)
qed

lemma map_of_fold_apply_bop_other:
  "\<not> HasPrefix key p \<Longrightarrow> map_of (fold (apply_bop p) bs m) key = map_of m key"
proof (induction bs arbitrary: m)
  case Nil
  then show ?case by simp
next
  case (Cons b bs)
  then have "key \<noteq> p @ k" for k by (auto simp: HasPrefix_iff)
  with Cons show ?case by (cases b) (auto simp: update_conv' delete_conv')
qed

lemma batch_write_twice:
  assumes "batch_write l b db = Some db1" and "batch_write l b db1 = Some db2"
  shows "map_of (mdb db2) = map_of (mdb db1)"
proof
  fix key
  show "map_of (mdb db2) key = map_of (mdb db1) key"
  proof (cases "HasPrefix key (b_prefix b)")
    case True
    then obtain k where "key = b_prefix b @ k" by (auto simp: HasPrefix_iff)
    with assms show ?thesis
      by (auto simp: batch_write_def map_of_fold_apply_bop split: if_splits option.splits)
  next
    case False
    with assms show ?thesis
      by (auto simp: batch_write_def map_of_fold_apply_bop_other split: if_splits)
  qed
qed

lemma table_Get_DropTable:
  assumes "DropTable name db = Some db'"
  shows "map_of (mdb db') key = (if HasPrefix key (table_prefix name) then None else map_of (mdb db) key)"
proof -
  let ?f = "\<lambda>key m. if HasPrefix key (table_prefix name) then AList.delete key m else m"
  have *: "map_of (fold ?f ks m) key =
      (if key \<in> set ks \<and> HasPrefix key (table_prefix name) then None else map_of m key)"
    for ks and m :: "(bytes \<times> bytes) list"
    by (induction ks arbitrary: m) (auto simp: delete_conv')
  have "map_of (mdb db) key = None" if "key \<notin> fst ` set (mdb db)"
    using that by (simp add: map_of_eq_None_iff)
  with assms * show ?thesis by (auto simp: DropTable_def split: if_splits)
qed

lemma KeysWithPrefix_iff:
  "k \<in> set (table_KeysWithPrefix p pre db) \<longleftrightarrow> HasPrefix k pre \<and> table_Has p k db"
proof -
  have "table_Has p k db \<longleftrightarrow> p @ k \<in> fst ` set (mdb db)"
    by (simp add: table_Has_def realkey_def map_of_eq_None_iff)
  then show ?thesis
    by (auto simp: table_KeysWithPrefix_def HasPrefix_iff image_iff) force+
qed

section \<open>Interleaved use\<close>

text \<open>
  Any number of clients share one database: they open transactions, write to them, commit or
  discard them, and write to tables, to batches and to the database itself. A step is one call that returns.
\<close>

record mworld =
  w_db :: memorydb
  w_txs :: "mtx list"

inductive mstep :: "mworld \<Rightarrow> mworld \<Rightarrow> bool" where
  tx_new: "NewTransaction p (w_db w) = Inr (tx, db) \<Longrightarrow> mstep w \<lparr>w_db = db, w_txs = w_txs w @ [tx]\<rparr>"
| tx_put: "i < length (w_txs w) \<Longrightarrow> mtx_Put k v (w_txs w ! i) = Inr tx \<Longrightarrow>
    mstep w (w\<lparr>w_txs := (w_txs w)[i := tx]\<rparr>)"
| tx_del: "i < length (w_txs w) \<Longrightarrow> mtx_Del k (w_txs w ! i) = Inr tx \<Longrightarrow>
    mstep w (w\<lparr>w_txs := (w_txs w)[i := tx]\<rparr>)"
| tx_commit: "i < length (w_txs w) \<Longrightarrow> Commit (w_txs w ! i) (w_db w) = Inr (tx, db) \<Longrightarrow>
    mstep w \<lparr>w_db = db, w_txs = (w_txs w)[i := tx]\<rparr>"
| tx_discard: "i < length (w_txs w) \<Longrightarrow> Discard (w_txs w ! i) (w_db w) = (tx, db) \<Longrightarrow>
    mstep w \<lparr>w_db = db, w_txs = (w_txs w)[i := tx]\<rparr>"
| t_put: "table_Put p k v (w_db w) = Some db \<Longrightarrow> mstep w (w\<lparr>w_db := db\<rparr>)"
| t_del: "table_Del p k (w_db w) = Some db \<Longrightarrow> mstep w (w\<lparr>w_db := db\<rparr>)"
| b_write: "batch_Write b (w_db w) = Some db \<Longrightarrow> mstep w (w\<lparr>w_db := db\<rparr>)"
| t_drop: "DropTable name (w_db w) = Some db \<Longrightarrow> mstep w (w\<lparr>w_db := db\<rparr>)"
| d_put: "db_Put k v (w_db w) = Some db \<Longrightarrow> mstep w (w\<lparr>w_db := db\<rparr>)"
| d_del: "db_Del k (w_db w) = Some db \<Longrightarrow> mstep w (w\<lparr>w_db := db\<rparr>)"
| d_flush: "Flush (w_db w) = Some (Inr db) \<Longrightarrow> mstep w (w\<lparr>w_db := db\<rparr>)"
| d_batch: "mstep w (w\<lparr>w_db := EnableBatch (w_db w)\<rparr>)"
| d_nobatch: "mstep w (w\<lparr>w_db := DisableBatch (w_db w)\<rparr>)"
| d_close: "db_Close (w_db w) = Some db \<Longrightarrow> mstep w (w\<lparr>w_db := db\<rparr>)"

inductive mreach :: "mworld \<Rightarrow> bool" where
  mreach_init: "mreach \<lparr>w_db = NewMemoryDB, w_txs = []\<rparr>"
| mreach_step: "mreach w \<Longrightarrow> mstep w w' \<Longrightarrow> mreach w'"

definition open_txs :: "mtx list \<Rightarrow> nat" where
  "open_txs txs = length (filter (\<lambda>tx. \<not> tx_closed tx) txs)"

definition minv :: "mworld \<Rightarrow> bool" where
  "minv w \<longleftrightarrow> open_txs (w_txs w) = (if writeLock (w_db w) then 1 else 0) \<and> db_wf (w_db w)"

lemma open_txs_append [simp]: "open_txs (xs @ ys) = open_txs xs + open_txs ys"
  by (simp add: open_txs_def)

lemma open_txs_Cons [simp]: "open_txs (x # xs) = (if tx_closed x then 0 else 1) + open_txs xs"
  by (simp add: open_txs_def)

lemma open_txs_Nil [simp]: "open_txs [] = 0"
  by (simp add: open_txs_def)

lemma open_txs_update:
  assumes "i < length txs"
  shows "open_txs (txs[i := tx]) + (if tx_closed (txs ! i) then 0 else 1) =
    open_txs txs + (if tx_closed tx then 0 else 1)"
proof -
  have "open_txs txs = open_txs (take i txs @ txs ! i # drop (Suc i) txs)"
    using id_take_nth_drop [OF assms] by simp
  then show ?thesis by (simp add: upd_conv_take_nth_drop [OF assms])
qed

lemma DropTable_wf: "DropTable name db = Some db' \<Longrightarrow> db_wf db \<Longrightarrow> db_wf db'"
proof -
  let ?f = "\<lambda>key m. if HasPrefix key (table_prefix name) then AList.delete key m else m"
  have "distinct (map fst m) \<Longrightarrow> distinct (map fst (fold ?f ks m))" for ks and m :: "(bytes \<times> bytes) list"
    by (induction ks arbitrary: m) (auto simp: distinct_delete)
  then show "DropTable name db = Some db' \<Longrightarrow> db_wf db \<Longrightarrow> db_wf db'"
    by (auto simp: DropTable_def db_wf_def split: if_splits)
qed

lemmas mem_defs = NewTransaction_def mtx_Put_def mtx_Del_def Commit_def Discard_def table_Put_def
  table_Del_def batch_Write_def batch_write_def batch_Put_def batch_Del_def batch_Clear_def
  db_Put_def db_Del_def Flush_def EnableBatch_def DisableBatch_def db_Close_def

lemma mstep_inv: "mstep w w' \<Longrightarrow> minv w \<Longrightarrow> minv w'"
proof (induction rule: mstep.induct)
  case (tx_put i w k v tx)
  then show ?case using open_txs_update [of i "w_txs w" tx] by (auto simp: mem_defs minv_def split: if_splits)
next
  case (tx_del i w k tx)
  then show ?case using open_txs_update [of i "w_txs w" tx] by (auto simp: mem_defs minv_def split: if_splits)
next
  case (tx_commit i w tx db)
  then show ?case using open_txs_update [of i "w_txs w" tx]
    by (auto simp: mem_defs minv_def db_wf_def fold_apply_bop_wf split: if_splits)
next
  case (tx_discard i w tx db)
  then show ?case using open_txs_update [of i "w_txs w" tx]
    by (auto simp: mem_defs minv_def db_wf_def Let_def split: if_splits)
next
  case (t_drop name w db)
  then have "writeLock db = writeLock (w_db w)" by (auto simp: DropTable_def split: if_splits)
  with t_drop show ?case by (simp add: minv_def DropTable_wf)
qed (auto simp: mem_defs minv_def db_wf_def distinct_update distinct_delete fold_apply_bop_wf split: if_splits)

lemma mreach_inv: "mreach w \<Longrightarrow> minv w"
  by (induction rule: mreach.induct)
    (auto simp: minv_def NewMemoryDB_def db_wf_def dest: mstep_inv)

text \<open>While a transaction is open nobody but it changes the data, and only by committing.\<close>

lemma mstep_isolation:
  assumes "mstep w w'" and "writeLock (w_db w)" and "mdb (w_db w') \<noteq> mdb (w_db w)"
  shows "\<exists>i tx. i < length (w_txs w) \<and> \<not> tx_closed (w_txs w ! i) \<and>
    Commit (w_txs w ! i) (w_db w) = Inr (tx, w_db w')"
  using assms
proof (induction rule: mstep.induct)
  case (tx_commit i w tx db)
  then show ?case by (auto simp: Commit_def split: if_splits)
qed (auto simp: mem_defs DropTable_def Let_def split: if_splits)

text \<open>Committing has the effect of the enqueued operations made one by one on the table.\<close>

lemma Commit_run_ops:
  assumes "\<not> tx_closed tx"
  shows "Commit tx db = Inr (tx\<lparr>tx_closed := True\<rparr>,
    mem.run_ops (b_prefix (tx_batch tx)) (b_ops (tx_batch tx)) (db\<lparr>writeLock := False\<rparr>))"
  using assms
  by (simp add: Commit_def batch_write_def flip: fold_apply_bop_run_ops)

lemma Discard_data: "mdb (snd (Discard tx db)) = mdb db"
  by (simp add: Discard_def Let_def)

section \<open>Properties\<close>

text \<open>C36: In every reachable state of a database shared by any number of clients, who use it directly
  (also in batch mode), through tables, batches and transactions, at most one
  transaction is open, the write lock is held exactly while one is, and while it is held the only
  step that changes the data is the commit of that transaction; the keys stay distinct.\<close>

theorem transactions_exclusive:
  assumes "mreach w"
  shows "open_txs (w_txs w) = (if writeLock (w_db w) then 1 else 0) \<and> db_wf (w_db w) \<and>
    (\<forall>w'. mstep w w' \<and> writeLock (w_db w) \<and> mdb (w_db w') \<noteq> mdb (w_db w) \<longrightarrow>
      (\<exists>i tx. i < length (w_txs w) \<and> \<not> tx_closed (w_txs w ! i) \<and>
        Commit (w_txs w ! i) (w_db w) = Inr (tx, w_db w')))"
  using mreach_inv [OF assms] mstep_isolation [of w] by (auto simp: minv_def)

theorem transactions_exclusive_witness:
  "\<exists>w. mreach w \<and> writeLock (w_db w) \<and> open_txs (w_txs w) = 1"
proof -
  let ?w = "\<lparr>w_db = NewMemoryDB\<lparr>writeLock := True\<rparr>,
    w_txs = [] @ [\<lparr>tx_batch = \<lparr>b_prefix = [], b_ops = []\<rparr>, tx_closed = False\<rparr>]\<rparr>"
  have "mstep \<lparr>w_db = NewMemoryDB, w_txs = []\<rparr> ?w"
    using tx_new [of "[]" "\<lparr>w_db = NewMemoryDB, w_txs = []\<rparr>"]
    by (simp add: NewTransaction_def NewMemoryDB_def)
  then have "mreach ?w" by (rule mreach_step [OF mreach_init])
  with transactions_exclusive [OF this] show ?thesis by (intro exI [of _ ?w]) simp
qed

end
