(* ===== verification/Db_Keys.thy ===== *)
theory Db_Keys
  imports Kv_Store Script_Class "HOL-Library.List_Lexorder" "HOL-Library.Char_ord"
begin

text \<open>
  Path-like database keys (\<^verbatim>\<open>src/storage/key/key.go\<close>) and the keys of the chain's tables
  (\<^verbatim>\<open>src/core/chain/dbkey.go\<close>). A key is the string of \<^verbatim>\<open>Key\<close>; \<^verbatim>\<open>path.Clean\<close> of the Go standard
  library is only called on rooted paths.
\<close>

section \<open>Go string functions\<close>

text \<open>\<^verbatim>\<open>strings.Split(s, "/")\<close>, which returns at least one part, and \<^verbatim>\<open>strings.Join(l, "/")\<close>.\<close>

fun split_slash :: "string \<Rightarrow> string list" where
  "split_slash [] = [[]]"
| "split_slash (c # cs) =
     (if c = CHR ''/'' then [] # split_slash cs
      else case split_slash cs of [] \<Rightarrow> [[c]] | p # ps \<Rightarrow> (c # p) # ps)"

fun join_slash :: "string list \<Rightarrow> string" where
  "join_slash [] = []"
| "join_slash [p] = p"
| "join_slash (p # ps) = p @ CHR ''/'' # join_slash ps"

text \<open>
  \<^verbatim>\<open>path.Clean\<close> on a rooted path: empty and \<^verbatim>\<open>.\<close> elements disappear, \<^verbatim>\<open>..\<close> removes the element
  before it (or itself at the root), and the result is \<^verbatim>\<open>/\<close> and the remaining elements.
\<close>

fun clean_parts :: "string list \<Rightarrow> string list \<Rightarrow> string list" where
  "clean_parts acc [] = rev acc"
| "clean_parts acc (p # ps) =
     (if p = [] \<or> p = ''.'' then clean_parts acc ps
      else if p = ''..'' then clean_parts (tl acc) ps
      else clean_parts (p # acc) ps)"

definition path_Clean :: "string \<Rightarrow> string" where
  "path_Clean s = CHR ''/'' # join_slash (clean_parts [] (split_slash s))"

text \<open>\<^verbatim>\<open>fmt.Sprintf("%x", n)\<close> of an unsigned number.\<close>

fun hex_nat :: "nat \<Rightarrow> string" where
  "hex_nat n = (if n < 16 then [hex_digit n] else hex_nat (n div 16) @ [hex_digit (n mod 16)])"

declare hex_nat.simps [simp del]

section \<open>Keys\<close>

definition key_Clean :: "string \<Rightarrow> string" where
  "key_Clean k =
     (if length k = 0 then ''/''
      else if hd k = CHR ''/'' then path_Clean k
      else path_Clean (CHR ''/'' # k))"

definition NewKey :: "string \<Rightarrow> string" where
  "NewKey s = key_Clean s"

text \<open>\<^verbatim>\<open>RawKey\<close> panics (\<^term>\<open>None\<close>) on a malformed key.\<close>

definition RawKey :: "string \<Rightarrow> string option" where
  "RawKey s =
     (if length s = 0 then Some ''/''
      else if hd s \<noteq> CHR ''/'' \<or> (1 < length s \<and> last s = CHR ''/'') then None
      else Some s)"

definition NewKeyWithPaths :: "string list \<Rightarrow> string" where
  "NewKeyWithPaths ps = NewKey (join_slash ps)"

definition key_Bytes :: "string \<Rightarrow> bytes" where
  "key_Bytes k = ascii k"

definition key_List :: "string \<Rightarrow> string list" where
  "key_List k = tl (split_slash k)"

fun less_lists :: "string list \<Rightarrow> string list \<Rightarrow> nat \<Rightarrow> nat \<Rightarrow> bool" where
  "less_lists [] l2 n1 n2 = (n1 < n2)"
| "less_lists (c1 # l1) [] n1 n2 = False"
| "less_lists (c1 # l1) (c2 # l2) n1 n2 =
     (if c1 < c2 then True else if c1 > c2 then False else less_lists l1 l2 n1 n2)"

definition key_Less :: "string \<Rightarrow> string \<Rightarrow> bool" where
  "key_Less k k2 =
     (let list1 = key_List k; list2 = key_List k2
      in less_lists list1 list2 (length list1) (length list2))"

definition BaseName :: "string \<Rightarrow> string" where
  "BaseName k = last (key_List k)"

definition key_Base :: "string \<Rightarrow> string" where
  "key_Base k = NewKey (BaseName k)"

definition Parent :: "string \<Rightarrow> string option" where
  "Parent k =
     (let n = key_List k in
      if length n = 1 then RawKey ''/'' else Some (NewKey (join_slash (butlast n))))"

definition Child :: "string \<Rightarrow> string \<Rightarrow> string option" where
  "Child k k2 = (if k = ''/'' then Some k2 else if k2 = ''/'' then Some k else RawKey (k @ k2))"

definition ChildString :: "string \<Rightarrow> string \<Rightarrow> string" where
  "ChildString k s =
     (if length s = 0 then k
      else let s = (if hd s \<noteq> CHR ''/'' then CHR ''/'' # s else s) in NewKey (k @ s))"

definition IsAncestorOf :: "string \<Rightarrow> string \<Rightarrow> bool" where
  "IsAncestorOf k other = (if other = k then False else prefix k other)"

definition IsDescendantOf :: "string \<Rightarrow> string \<Rightarrow> bool" where
  "IsDescendantOf k other = (if other = k then False else prefix other k)"

definition IsTopLevel :: "string \<Rightarrow> bool" where
  "IsTopLevel k \<longleftrightarrow> length (key_List k) = 1"

section \<open>Keys of the chain\<close>

definition blkBase :: string where "blkBase = NewKey ''/bk''"
definition txBase :: string where "txBase = NewKey ''/tx''"
definition splitTxHashBase :: string where "splitTxHashBase = NewKey ''/split''"
definition blkHashBase :: string where "blkHashBase = NewKey ''/bh''"
definition txixBase :: string where "txixBase = NewKey ''/ti''"
definition receiptBase :: string where "receiptBase = NewKey ''/rc''"
definition candidatesBase :: string where "candidatesBase = NewKey ''/candidates''"
definition splitAddrBase :: string where "splitAddrBase = NewKey ''/sap''"
definition addrUtxoBase :: string where "addrUtxoBase = NewKey ''/aut''"
definition addrTokenUtxoBase :: string where "addrTokenUtxoBase = NewKey ''/atut''"
definition secBloomBitSetBase :: string where "secBloomBitSetBase = NewKey ''/sec/bf''"

definition TailKey :: bytes where "TailKey = ascii ''/tail''"
definition GenesisKey :: bytes where "GenesisKey = ascii ''/genesis''"
definition EternalKey :: bytes where "EternalKey = ascii ''/eternal''"
definition PeriodKey :: bytes where "PeriodKey = ascii ''/period/current''"
definition MissrateKey :: bytes where "MissrateKey = ascii ''/missrate''"
definition SectionKey :: bytes where "SectionKey = ascii ''/sec''"

definition BlockKey :: "bytes \<Rightarrow> bytes" where
  "BlockKey h = key_Bytes (ChildString blkBase (hash_String h))"

definition ReceiptKey :: "bytes \<Rightarrow> bytes" where
  "ReceiptKey h = key_Bytes (ChildString receiptBase (hash_String h))"

definition TxKey :: "bytes \<Rightarrow> bytes" where
  "TxKey h = key_Bytes (ChildString txBase (hash_String h))"

definition SplitTxHashKey :: "bytes \<Rightarrow> bytes" where
  "SplitTxHashKey h = key_Bytes (ChildString splitTxHashBase (hash_String h))"

definition BlockHashKey :: "u32 \<Rightarrow> bytes" where
  "BlockHashKey height = key_Bytes (ChildString blkHashBase (hex_nat (unat height)))"

definition TxIndexKey :: "bytes \<Rightarrow> bytes" where
  "TxIndexKey h = key_Bytes (ChildString txixBase (hash_String h))"

definition CandidatesKey :: "bytes \<Rightarrow> bytes" where
  "CandidatesKey h = key_Bytes (ChildString candidatesBase (hash_String h))"

definition SplitAddrKey :: "bytes \<Rightarrow> bytes" where
  "SplitAddrKey h = key_Bytes (ChildString splitAddrBase (Hex h))"

definition AddrUtxoKey :: "bytes \<Rightarrow> OutPoint \<Rightarrow> bytes" where
  "AddrUtxoKey addrHash op =
     key_Bytes (ChildString (ChildString (ChildString addrUtxoBase (Hex addrHash))
       (hash_String (Hash op))) (hex_nat (unat (Index op))))"

definition AddrAllUtxoKey :: "bytes \<Rightarrow> bytes" where
  "AddrAllUtxoKey addrHash = key_Bytes (ChildString addrUtxoBase (Hex addrHash))"

definition AddrTokenUtxoKey :: "bytes \<Rightarrow> OutPoint \<Rightarrow> OutPoint \<Rightarrow> bytes" where
  "AddrTokenUtxoKey addrHash tid op =
     key_Bytes (ChildString (ChildString (ChildString (ChildString (ChildString addrTokenUtxoBase (Hex addrHash))
       (hash_String (Hash tid))) (hex_nat (unat (Index tid))))
       (hash_String (Hash op))) (hex_nat (unat (Index op))))"

definition AddrAllTokenUtxoKey :: "bytes \<Rightarrow> OutPoint \<Rightarrow> bytes" where
  "AddrAllTokenUtxoKey addrHash tid =
     key_Bytes (ChildString (ChildString (ChildString addrTokenUtxoBase (Hex addrHash))
       (hash_String (Hash tid))) (hex_nat (unat (Index tid))))"

definition SecBloomBitSetKey :: "u32 \<Rightarrow> nat \<Rightarrow> bytes" where
  "SecBloomBitSetKey sec b =
     key_Bytes (ChildString (ChildString secBloomBitSetBase (hex_nat (unat sec))) (hex_nat b))"

section \<open>Laws of keys\<close>

text \<open>An element of a clean path, and the path of a list of elements.\<close>

definition elem_ok :: "string \<Rightarrow> bool" where
  "elem_ok p \<longleftrightarrow> p \<noteq> [] \<and> p \<noteq> ''.'' \<and> p \<noteq> ''..'' \<and> CHR ''/'' \<notin> set p"

definition key_of :: "string list \<Rightarrow> string" where
  "key_of ps = concat (map (\<lambda>p. CHR ''/'' # p) ps)"

lemma key_of_simps [simp]:
  "key_of [] = []" "key_of (p # ps) = CHR ''/'' # p @ key_of ps" "key_of (ps @ qs) = key_of ps @ key_of qs"
  by (simp_all add: key_of_def)

lemma split_slash_not_Nil [simp]: "split_slash s \<noteq> []"
  by (induction s) (auto split: list.splits)

lemma split_slash_elem:
  "CHR ''/'' \<notin> set p \<Longrightarrow> split_slash (p @ s) = (p @ hd (split_slash s)) # tl (split_slash s)"
  by (induction p) (auto split: list.splits)

lemma split_slash_key_of:
  "list_all elem_ok ps \<Longrightarrow> split_slash (key_of ps) = [] # ps"
proof (induction ps)
  case (Cons p ps)
  then show ?case by (simp add: split_slash_elem elem_ok_def)
qed simp

lemma clean_parts_ok: "list_all elem_ok ps \<Longrightarrow> clean_parts acc ps = rev acc @ ps"
  by (induction ps arbitrary: acc) (auto simp: elem_ok_def)

lemma join_slash_key_of: "ps \<noteq> [] \<Longrightarrow> CHR ''/'' # join_slash ps = key_of ps"
  by (induction ps rule: join_slash.induct) auto

lemma NewKey_key_of:
  assumes "list_all elem_ok ps" and "ps \<noteq> []"
  shows "NewKey (key_of ps) = key_of ps"
proof -
  from assms(2) obtain p qs where ps: "ps = p # qs" by (cases ps) auto
  then have "NewKey (key_of ps) = CHR ''/'' # join_slash (clean_parts [] ([] # ps))"
    using assms(1) by (simp add: NewKey_def key_Clean_def path_Clean_def flip: split_slash_key_of)
  with assms show ?thesis by (simp add: clean_parts_ok join_slash_key_of)
qed

lemma ChildString_key_of:
  assumes "list_all elem_ok ps" and "elem_ok s"
  shows "ChildString (key_of ps) s = key_of (ps @ [s])"
proof -
  have "s \<noteq> []" "hd s \<noteq> CHR ''/''" using assms(2) by (cases s; auto simp: elem_ok_def)+
  then have "ChildString (key_of ps) s = NewKey (key_of (ps @ [s]))" by (simp add: ChildString_def)
  with assms show ?thesis by (simp del: key_of_simps add: NewKey_key_of)
qed

lemma key_List_key_of: "list_all elem_ok ps \<Longrightarrow> key_List (key_of ps) = ps"
  by (simp add: key_List_def split_slash_key_of)

lemma key_of_inj: "list_all elem_ok ps \<Longrightarrow> list_all elem_ok qs \<Longrightarrow> key_of ps = key_of qs \<longleftrightarrow> ps = qs"
  using key_List_key_of by metis

lemma hex_digit_char: "n < 16 \<Longrightarrow> hex_digit n \<noteq> CHR ''/'' \<and> hex_digit n \<noteq> CHR ''.''"
  by (drule less_16_cases) (auto simp: hex_digit_def)

lemma hex_digit_inj: "m < 16 \<Longrightarrow> n < 16 \<Longrightarrow> hex_digit m = hex_digit n \<longleftrightarrow> m = n"
  using from_hex_digit_hex_digit by (metis option.inject)

lemma Hex_chars: "c \<in> set (Hex data) \<Longrightarrow> c \<noteq> CHR ''/'' \<and> c \<noteq> CHR ''.''"
proof -
  have "unat b div 16 < 16" for b :: byte
    using unat_byte_less [of b] by (simp add: less_mult_imp_div_less)
  then show "c \<in> set (Hex data) \<Longrightarrow> c \<noteq> CHR ''/'' \<and> c \<noteq> CHR ''.''"
    using hex_digit_char by (auto simp: Hex_def)
qed

lemma elem_ok_chars: "p \<noteq> [] \<Longrightarrow> (\<And>c. c \<in> set p \<Longrightarrow> c \<noteq> CHR ''/'' \<and> c \<noteq> CHR ''.'') \<Longrightarrow> elem_ok p"
  by (cases p) (auto simp: elem_ok_def)

lemma elem_ok_Hex [simp]: "elem_ok (Hex data) \<longleftrightarrow> data \<noteq> []"
proof
  show "elem_ok (Hex data) \<Longrightarrow> data \<noteq> []" by (auto simp: elem_ok_def Hex_def)
  assume "data \<noteq> []"
  then have "Hex data \<noteq> []" using length_Hex [of data] by auto
  then show "elem_ok (Hex data)" using Hex_chars elem_ok_chars by blast
qed

lemma elem_ok_hash_String [simp]: "elem_ok (hash_String h) \<longleftrightarrow> h \<noteq> []"
  by (simp add: hash_String_def)

lemma hex_nat_chars: "c \<in> set (hex_nat n) \<Longrightarrow> c \<noteq> CHR ''/'' \<and> c \<noteq> CHR ''.''"
proof (induction n rule: hex_nat.induct)
  case (1 n)
  then show ?case
    by (subst (asm) (2) hex_nat.simps) (auto simp: hex_digit_char split: if_splits)
qed

lemma hex_nat_not_Nil [simp]: "hex_nat n \<noteq> []"
  by (subst hex_nat.simps) simp

lemma elem_ok_hex_nat [simp]: "elem_ok (hex_nat n)"
  using hex_nat_chars by (rule elem_ok_chars [OF hex_nat_not_Nil])

lemma hex_nat_inj: "hex_nat m = hex_nat n \<longleftrightarrow> m = n"
proof
  show "hex_nat m = hex_nat n \<Longrightarrow> m = n"
  proof (induction m arbitrary: n rule: hex_nat.induct)
    case (1 m)
    from "1.prems" have eq: "(if m < 16 then [hex_digit m] else hex_nat (m div 16) @ [hex_digit (m mod 16)]) =
        (if n < 16 then [hex_digit n] else hex_nat (n div 16) @ [hex_digit (n mod 16)])"
      by (simp add: hex_nat.simps [of m] hex_nat.simps [of n])
    show ?case
    proof (cases "m < 16 \<or> n < 16")
      case True
      with eq show ?thesis by (auto simp: hex_digit_inj dest: sym [of "[]"] split: if_splits)
    next
      case False
      with eq have "m div 16 = n div 16" "m mod 16 = n mod 16" by (auto simp: hex_digit_inj dest: "1.IH")
      then show ?thesis by (metis div_mult_mod_eq)
    qed
  qed
qed simp

lemma Hex_inj [simp]: "Hex a = Hex b \<longleftrightarrow> a = b"
  using FromHex_Hex by (metis option.inject)

lemma hash_String_inj [simp]: "hash_String a = hash_String b \<longleftrightarrow> a = b"
  by (simp add: hash_String_def)

lemma inj_of_char_byte: "inj (of_char :: char \<Rightarrow> byte)"
proof
  fix a b :: char
  assume "(of_char a :: byte) = of_char b"
  then have "unat (of_nat (of_char a) :: byte) = unat (of_nat (of_char b) :: byte)"
    by (simp add: of_nat_of_char)
  then have "(of_char a :: nat) = of_char b" by (simp add: unat_of_nat_less)
  then show "a = b" by simp
qed

lemma ascii_inj [simp]: "ascii a = ascii b \<longleftrightarrow> a = b"
  by (simp add: ascii_def inj_map_eq_map inj_of_char_byte)

lemma length_ascii [simp]: "length (ascii s) = length s"
  by (simp add: ascii_def)

lemma ascii_append [simp]: "ascii (a @ b) = ascii a @ ascii b"
  by (simp add: ascii_def)

lemma HasPrefix_ascii [simp]: "HasPrefix (ascii a) (ascii b) \<longleftrightarrow> prefix b a"
  by (auto simp: HasPrefix_def prefix_def take_map ascii_def inj_map_eq_map inj_of_char_byte)
    (metis append_take_drop_id inj_map_eq_map inj_of_char_byte length_map take_map)+

lemma key_bases:
  "blkBase = key_of [''bk'']" "txBase = key_of [''tx'']" "splitTxHashBase = key_of [''split'']"
  "blkHashBase = key_of [''bh'']" "txixBase = key_of [''ti'']" "receiptBase = key_of [''rc'']"
  "candidatesBase = key_of [''candidates'']" "splitAddrBase = key_of [''sap'']"
  "addrUtxoBase = key_of [''aut'']" "addrTokenUtxoBase = key_of [''atut'']"
  "secBloomBitSetBase = key_of [''sec'', ''bf'']"
  by (simp_all add: blkBase_def txBase_def splitTxHashBase_def blkHashBase_def txixBase_def receiptBase_def
      candidatesBase_def splitAddrBase_def addrUtxoBase_def addrTokenUtxoBase_def secBloomBitSetBase_def
      NewKey_def key_Clean_def path_Clean_def)

lemmas chain_key_defs = BlockKey_def ReceiptKey_def TxKey_def SplitTxHashKey_def BlockHashKey_def TxIndexKey_def
  CandidatesKey_def SplitAddrKey_def AddrUtxoKey_def AddrAllUtxoKey_def AddrTokenUtxoKey_def
  AddrAllTokenUtxoKey_def SecBloomBitSetKey_def key_Bytes_def

lemma ChildString_path:
  "list_all elem_ok ps \<Longrightarrow> elem_ok s \<Longrightarrow> ChildString (key_of ps) s = key_of (ps @ [s])"
  by (rule ChildString_key_of)

lemma elem_ok_bases [simp]:
  "elem_ok ''bk''" "elem_ok ''tx''" "elem_ok ''split''" "elem_ok ''bh''" "elem_ok ''ti''" "elem_ok ''rc''"
  "elem_ok ''candidates''" "elem_ok ''sap''" "elem_ok ''aut''" "elem_ok ''atut''" "elem_ok ''sec''" "elem_ok ''bf''"
  by (simp_all add: elem_ok_def)

lemma chain_keys:
  "h \<noteq> [] \<Longrightarrow> BlockKey h = ascii (key_of [''bk'', hash_String h])"
  "h \<noteq> [] \<Longrightarrow> ReceiptKey h = ascii (key_of [''rc'', hash_String h])"
  "h \<noteq> [] \<Longrightarrow> TxKey h = ascii (key_of [''tx'', hash_String h])"
  "h \<noteq> [] \<Longrightarrow> SplitTxHashKey h = ascii (key_of [''split'', hash_String h])"
  "BlockHashKey n = ascii (key_of [''bh'', hex_nat (unat n)])"
  "h \<noteq> [] \<Longrightarrow> TxIndexKey h = ascii (key_of [''ti'', hash_String h])"
  "h \<noteq> [] \<Longrightarrow> CandidatesKey h = ascii (key_of [''candidates'', hash_String h])"
  "h \<noteq> [] \<Longrightarrow> SplitAddrKey h = ascii (key_of [''sap'', Hex h])"
  "SecBloomBitSetKey sec b = ascii (key_of [''sec'', ''bf'', hex_nat (unat sec), hex_nat b])"
  by (simp_all add: chain_key_defs key_bases ChildString_path del: key_of_simps)

lemma addr_keys:
  assumes "a \<noteq> []"
  shows "AddrAllUtxoKey a = ascii (key_of [''aut'', Hex a])"
    and "Hash op \<noteq> [] \<Longrightarrow>
      AddrUtxoKey a op = ascii (key_of [''aut'', Hex a, hash_String (Hash op), hex_nat (unat (Index op))])"
    and "Hash tid \<noteq> [] \<Longrightarrow>
      AddrAllTokenUtxoKey a tid = ascii (key_of [''atut'', Hex a, hash_String (Hash tid), hex_nat (unat (Index tid))])"
    and "Hash op \<noteq> [] \<Longrightarrow> Hash tid \<noteq> [] \<Longrightarrow>
      AddrTokenUtxoKey a tid op = ascii (key_of [''atut'', Hex a, hash_String (Hash tid), hex_nat (unat (Index tid)),
        hash_String (Hash op), hex_nat (unat (Index op))])"
  using assms by (simp_all add: chain_key_defs key_bases ChildString_path del: key_of_simps)

lemma prefix_app_same_length:
  "length p = length q \<Longrightarrow> prefix (p @ xs) (q @ ys) \<longleftrightarrow> p = q \<and> prefix xs ys"
  by (auto simp: prefix_def)

lemma prefix_until_slash:
  assumes "CHR ''/'' \<notin> set p"
  shows "prefix p (q @ CHR ''/'' # r) \<longleftrightarrow> prefix p q"
  using assms by (auto simp: prefix_def append_eq_append_conv2 Cons_eq_append_conv)

lemma length_hash_String [simp]: "length (hash_String h) = 2 * length h"
  by (simp add: hash_String_def length_Hex)

lemma slash_hex_nat: "CHR ''/'' \<notin> set (hex_nat n)"
  using hex_nat_chars by blast

lemma OutPoint_eq_iff: "(op :: OutPoint) = op' \<longleftrightarrow> Hash op = Hash op' \<and> unat (Index op) = unat (Index op')"
  by (cases op; cases op') (auto intro: unsigned_word_eqI)

lemmas key_sizes = hash_wf_def HashSize_def addr_wf_def Ripemd160Size_def

section \<open>Properties\<close>

text \<open>C37: The address index has one key per address and output: two entries share a key only when
  address, token and outpoint agree, the plain and the token index never share a key, and the prefix
  scan for an address returns the entries of that address and no other.\<close>

theorem address_index_exact:
  assumes "addr_wf a" "addr_wf a'" "hash_wf (Hash op)" "hash_wf (Hash op')" "hash_wf (Hash tid)" "hash_wf (Hash tid')"
  shows "(AddrUtxoKey a op = AddrUtxoKey a' op' \<longleftrightarrow> a = a' \<and> op = op') \<and>
    (AddrTokenUtxoKey a tid op = AddrTokenUtxoKey a' tid' op' \<longleftrightarrow> a = a' \<and> tid = tid' \<and> op = op') \<and>
    AddrUtxoKey a op \<noteq> AddrTokenUtxoKey a' tid' op' \<and>
    (HasPrefix (AddrUtxoKey a' op') (AddrAllUtxoKey a) \<longleftrightarrow> a' = a)"
proof -
  have ne: "a \<noteq> []" "a' \<noteq> []" "Hash op \<noteq> []" "Hash op' \<noteq> []" "Hash tid \<noteq> []" "Hash tid' \<noteq> []"
    using assms by (auto simp: key_sizes)
  note keys = addr_keys [OF ne(1)] addr_keys [OF ne(2)]
  have len: "length (Hex a) = length (Hex a')" using assms by (simp add: length_Hex key_sizes)
  have "HasPrefix (AddrUtxoKey a' op') (AddrAllUtxoKey a) \<longleftrightarrow> Hex a' = Hex a"
    using len ne by (auto simp: keys prefix_app_same_length [of _ _ "[]", simplified])
  moreover have "AddrUtxoKey a op = AddrUtxoKey a' op' \<longleftrightarrow> a = a' \<and> op = op'"
    using ne by (simp add: keys key_of_inj hex_nat_inj OutPoint_eq_iff conj_ac del: key_of_simps)
  moreover have "AddrTokenUtxoKey a tid op = AddrTokenUtxoKey a' tid' op' \<longleftrightarrow> a = a' \<and> tid = tid' \<and> op = op'"
    using ne by (simp add: keys key_of_inj hex_nat_inj OutPoint_eq_iff conj_ac del: key_of_simps)
  moreover have "AddrUtxoKey a op \<noteq> AddrTokenUtxoKey a' tid' op'"
    using ne by (simp add: keys)
  ultimately show ?thesis by simp
qed

theorem address_index_exact_witness:
  "HasPrefix (AddrUtxoKey (replicate 20 1) \<lparr>Hash = replicate 32 2, Index = 3\<rparr>) (AddrAllUtxoKey (replicate 20 1))"
  using address_index_exact
    [of "replicate 20 1" "replicate 20 1" "\<lparr>Hash = replicate 32 2, Index = 3\<rparr>" "\<lparr>Hash = replicate 32 2, Index = 3\<rparr>"
      "\<lparr>Hash = replicate 32 2, Index = 3\<rparr>" "\<lparr>Hash = replicate 32 2, Index = 3\<rparr>"]
  by (simp add: key_sizes)

text \<open>The prefix scan for a token returns too much: its prefix ends in the output index in
  hexadecimal without a separator, so the entries of every token of the same transaction whose index
  begins with these digits are returned as well.\<close>

theorem token_scan_prefix:
  assumes "addr_wf a" "addr_wf a'" "hash_wf (Hash op)" "hash_wf (Hash tid)" "hash_wf (Hash tid')"
  shows "HasPrefix (AddrTokenUtxoKey a' tid' op) (AddrAllTokenUtxoKey a tid) \<longleftrightarrow>
    a' = a \<and> Hash tid' = Hash tid \<and> prefix (hex_nat (unat (Index tid))) (hex_nat (unat (Index tid')))"
proof -
  have ne: "a \<noteq> []" "a' \<noteq> []" "Hash op \<noteq> []" "Hash tid \<noteq> []" "Hash tid' \<noteq> []"
    using assms by (auto simp: key_sizes)
  have len: "length (Hex a) = length (Hex a')" "length (hash_String (Hash tid)) = length (hash_String (Hash tid'))"
    using assms by (simp_all add: length_Hex key_sizes)
  show ?thesis
    using ne len
    by (auto simp: addr_keys [OF ne(1)] addr_keys [OF ne(2)] prefix_app_same_length prefix_until_slash
        slash_hex_nat)
qed

theorem token_scan_prefix_witness:
  "HasPrefix (AddrTokenUtxoKey (replicate 20 1) \<lparr>Hash = replicate 32 2, Index = 31\<rparr> \<lparr>Hash = replicate 32 2, Index = 3\<rparr>)
     (AddrAllTokenUtxoKey (replicate 20 1) \<lparr>Hash = replicate 32 2, Index = 1\<rparr>)"
proof -
  have "prefix (hex_nat 1) (hex_nat 31)" by (simp add: hex_nat.simps hex_digit_def)
  then show ?thesis
    using token_scan_prefix [of "replicate 20 1" "replicate 20 1" "\<lparr>Hash = replicate 32 2, Index = 3\<rparr>"
        "\<lparr>Hash = replicate 32 2, Index = 1\<rparr>" "\<lparr>Hash = replicate 32 2, Index = 31\<rparr>"]
    by (simp add: key_sizes)
qed

end
