(* ===== verification/Bloom.thy ===== *)
theory Bloom
  imports Byte_Codec
begin

text \<open>
  The 32-bit Murmur hash (\<^verbatim>\<open>src/util/murmur3/murmur3.go\<close>) and the Bloom filter of block
  headers and receipts (\<^verbatim>\<open>src/util/bloom/filter.go\<close>). The constructors that size a filter with
  floating point arithmetic, and the estimated false positive rate, are left out.
\<close>

section \<open>Murmur hash\<close>

definition mm_c1 :: u32 where "mm_c1 = 0xcc9e2d51"
definition mm_c2 :: u32 where "mm_c2 = 0x1b873593"

definition mm_scramble :: "u32 \<Rightarrow> u32" where
  "mm_scramble k = (let k = k * mm_c1; k = push_bit 15 k OR drop_bit 17 k in k * mm_c2)"

fun mm_blocks :: "u32 \<Rightarrow> bytes \<Rightarrow> u32 \<times> bytes" where
  "mm_blocks h (a # b # c # d # rest) =
     (let k = mm_scramble (le_get [a, b, c, d]);
          h = h XOR k;
          h = push_bit 13 h OR drop_bit 19 h;
          h = push_bit 2 h + h + 0xe6546b64
      in mm_blocks h rest)"
| "mm_blocks h tail = (h, tail)"

definition mm_tail :: "u32 \<Rightarrow> bytes \<Rightarrow> u32" where
  "mm_tail h tail =
     (case tail of
        [a, b, c] \<Rightarrow> h XOR mm_scramble (push_bit 16 (ucast c) XOR push_bit 8 (ucast b) XOR ucast a)
      | [a, b] \<Rightarrow> h XOR mm_scramble (push_bit 8 (ucast b) XOR ucast a)
      | [a] \<Rightarrow> h XOR mm_scramble (ucast a)
      | _ \<Rightarrow> h)"

text \<open>The length is taken to 32 bits before the blocks are counted; what is left over is the tail.\<close>

definition MurmurHash3WithSeed :: "bytes \<Rightarrow> u32 \<Rightarrow> u32" where
  "MurmurHash3WithSeed data seed =
     (let nlen = of_nat (length data) :: u32;
          nblocks = unat nlen div 4;
          h = fst (mm_blocks seed (take (4 * nblocks) data));
          tail = drop (4 * nblocks) data;
          h = mm_tail h (take (length tail mod 4) tail);
          h = h XOR nlen;
          h = h XOR drop_bit 16 h;
          h = h * 0x85ebca6b;
          h = h XOR drop_bit 13 h;
          h = h * 0xc2b2ae35
      in h XOR drop_bit 16 h)"

definition MurmurHash3 :: "bytes \<Rightarrow> u32" where
  "MurmurHash3 data = MurmurHash3WithSeed data 0"

section \<open>The filter\<close>

definition MaxFilterHashFuncs :: nat where "MaxFilterHashFuncs = 256"
definition MaxFilterSize :: nat where "MaxFilterSize = 32 * 1024 * 1024"

record filter_t =
  f_filter :: bytes
  f_hashFuncs :: u32
  f_tweak :: u32

definition newFilter :: "u32 \<Rightarrow> u32 \<Rightarrow> u32 \<Rightarrow> filter_t" where
  "newFilter m k tweak =
     (let m = (if m \<le> 0 then 1 else m);
          k = (if k \<le> 0 then 1 else k);
          dataLen = min MaxFilterSize ((unat m + 7) div 8);
          hashFuncs = min (of_nat MaxFilterHashFuncs) k
      in \<lparr>f_filter = replicate dataLen 0, f_hashFuncs = hashFuncs, f_tweak = tweak\<rparr>)"

definition NewFilterWithMK :: "u32 \<Rightarrow> u32 \<Rightarrow> filter_t" where
  "NewFilterWithMK m k = newFilter m k 0"

definition NewFilterWithMKAndTweak :: "u32 \<Rightarrow> u32 \<Rightarrow> u32 \<Rightarrow> filter_t" where
  "NewFilterWithMKAndTweak m k tweak = newFilter m k tweak"

text \<open>The remainder by zero of an empty filter is a panic, \<^term>\<open>None\<close>.\<close>

definition f_hash :: "filter_t \<Rightarrow> u32 \<Rightarrow> bytes \<Rightarrow> u32 option" where
  "f_hash bf hashFuncNum data =
     (let h32 = MurmurHash3WithSeed data (hashFuncNum * 0xfba4c795 + f_tweak bf);
          n = push_bit 3 (of_nat (length (f_filter bf))) :: u32
      in if n = 0 then None else Some (h32 mod n))"

definition test_bit8 :: "bytes \<Rightarrow> u32 \<Rightarrow> bool" where
  "test_bit8 f idx \<longleftrightarrow> f ! unat (drop_bit 3 idx) AND push_bit (unat (idx AND 7)) 1 \<noteq> 0"

definition set_bit8 :: "bytes \<Rightarrow> u32 \<Rightarrow> bytes" where
  "set_bit8 f idx = f[unat (drop_bit 3 idx) := f ! unat (drop_bit 3 idx) OR push_bit (unat (7 AND idx)) 1]"

fun matches_from :: "filter_t \<Rightarrow> u32 list \<Rightarrow> bytes \<Rightarrow> bool option" where
  "matches_from bf [] data = Some True"
| "matches_from bf (i # fs) data =
     (case f_hash bf i data of None \<Rightarrow> None | Some idx \<Rightarrow>
        if \<not> test_bit8 (f_filter bf) idx then Some False else matches_from bf fs data)"

definition hash_nums :: "filter_t \<Rightarrow> u32 list" where
  "hash_nums bf = map of_nat [0 ..< unat (f_hashFuncs bf)]"

definition Matches :: "filter_t \<Rightarrow> bytes \<Rightarrow> bool option" where
  "Matches bf data = matches_from bf (hash_nums bf) data"

fun add_from :: "filter_t \<Rightarrow> u32 list \<Rightarrow> bytes \<Rightarrow> filter_t option" where
  "add_from bf [] data = Some bf"
| "add_from bf (i # fs) data =
     (case f_hash bf i data of None \<Rightarrow> None | Some idx \<Rightarrow>
        add_from (bf\<lparr>f_filter := set_bit8 (f_filter bf) idx\<rparr>) fs data)"

definition f_Add :: "filter_t \<Rightarrow> bytes \<Rightarrow> filter_t option" where
  "f_Add bf data = add_from bf (hash_nums bf) data"

fun matchesAndAdd_from :: "filter_t \<Rightarrow> bool \<Rightarrow> u32 list \<Rightarrow> bytes \<Rightarrow> (bool \<times> filter_t) option" where
  "matchesAndAdd_from bf r [] data = Some (r, bf)"
| "matchesAndAdd_from bf r (i # fs) data =
     (case f_hash bf i data of None \<Rightarrow> None | Some idx \<Rightarrow>
        if \<not> test_bit8 (f_filter bf) idx
        then matchesAndAdd_from (bf\<lparr>f_filter := set_bit8 (f_filter bf) idx\<rparr>) False fs data
        else matchesAndAdd_from bf r fs data)"

definition MatchesAndAdd :: "filter_t \<Rightarrow> bytes \<Rightarrow> (bool \<times> filter_t) option" where
  "MatchesAndAdd bf data = matchesAndAdd_from bf True (hash_nums bf) data"

text \<open>
  Merging two filters, which are different objects: a filter merged with itself would lock its mutex
  twice and wait forever. The third error of the code, a filter of another implementation, cannot occur
  with the one implementation there is.
\<close>

datatype filter_error = HashFuncsMismatch | SizeMismatch | SeedMismatch

definition f_Merge :: "filter_t \<Rightarrow> filter_t \<Rightarrow> filter_error + filter_t" where
  "f_Merge bf rf =
     (if f_hashFuncs bf \<noteq> f_hashFuncs rf then Inl HashFuncsMismatch
      else if length (f_filter bf) \<noteq> length (f_filter rf) then Inl SizeMismatch
      else if f_tweak bf \<noteq> f_tweak rf then Inl SeedMismatch
      else Inr (bf\<lparr>f_filter := map2 (OR) (f_filter bf) (f_filter rf)\<rparr>))"

definition f_Reset :: "filter_t \<Rightarrow> filter_t" where
  "f_Reset bf = bf\<lparr>f_filter := replicate (length (f_filter bf)) 0\<rparr>"

definition f_GetByte :: "filter_t \<Rightarrow> u32 \<Rightarrow> byte option" where
  "f_GetByte bf i = (if unat i < length (f_filter bf) then Some (f_filter bf ! unat i) else None)"

definition f_Size :: "filter_t \<Rightarrow> u32" where
  "f_Size bf = push_bit 3 (of_nat (length (f_filter bf)))"

definition f_K :: "filter_t \<Rightarrow> u32" where "f_K bf = f_hashFuncs bf"
definition f_Tweak :: "filter_t \<Rightarrow> u32" where "f_Tweak bf = f_tweak bf"

text \<open>
  \<^verbatim>\<open>Copy\<close> assigns a new filter to the receiver variable and merges into that; the receiver's filter,
  the second component, is unchanged.
\<close>

definition f_Copy :: "filter_t \<Rightarrow> filter_t \<Rightarrow> filter_error option \<times> filter_t" where
  "f_Copy bf f =
     (case f_Merge (NewFilterWithMK (f_Size f) (f_K f)) f of Inl e \<Rightarrow> (Some e, bf) | Inr _ \<Rightarrow> (None, bf))"

definition bitsFilled :: "filter_t \<Rightarrow> nat" where
  "bitsFilled bf =
     sum_list (map (\<lambda>b. length (filter (\<lambda>idx. b AND push_bit idx 1 \<noteq> 0) [0 ..< 8])) (f_filter bf))"

definition f_Marshal :: "filter_t \<Rightarrow> bytes" where
  "f_Marshal bf = WriteVarBytes (WriteUint32 (WriteUint32 [] (f_hashFuncs bf)) (f_tweak bf)) (f_filter bf)"

definition f_Unmarshal :: "bytes \<Rightarrow> read_error + filter_t" where
  "f_Unmarshal data =
     (case ReadUint32 data of Inl e \<Rightarrow> Inl e | Inr (hf, r) \<Rightarrow>
     (case ReadUint32 r of Inl e \<Rightarrow> Inl e | Inr (tw, r) \<Rightarrow>
     (case ReadVarBytes r of Inl e \<Rightarrow> Inl e | Inr (f, r) \<Rightarrow>
        Inr \<lparr>f_filter = f, f_hashFuncs = hf, f_tweak = tw\<rparr>)))"

definition LoadFilter :: "bytes \<Rightarrow> read_error + filter_t" where
  "LoadFilter data = f_Unmarshal data"

definition f_Indexes :: "filter_t \<Rightarrow> u32 list" where
  "f_Indexes bf = BitIndexes (f_filter bf)"

definition f_IsEmpty :: "filter_t \<Rightarrow> bool" where
  "f_IsEmpty bf \<longleftrightarrow> list_all (\<lambda>b. b = 0) (f_filter bf)"

section \<open>Laws\<close>

text \<open>Published test vectors of the hash.\<close>

lemma murmur_vectors:
  "MurmurHash3WithSeed [] 0 = 0"
  "MurmurHash3WithSeed [0x68, 0x65, 0x6c, 0x6c, 0x6f] 0 = 0x248bfa47"
  "MurmurHash3WithSeed [0x00, 0x11, 0x22] 0 = 0x8eb51c3d"
  by code_simp+

text \<open>A filter whose bit count fits 32 bits and is not zero.\<close>

definition filter_ok :: "filter_t \<Rightarrow> bool" where
  "filter_ok bf \<longleftrightarrow> f_filter bf \<noteq> [] \<and> 8 * length (f_filter bf) < 2 ^ 32"

lemma newFilter_ok: "filter_ok (newFilter m k t)"
  by (auto simp: filter_ok_def newFilter_def Let_def MaxFilterSize_def min_def word_le_nat_alt)

lemma f_hash_Some:
  assumes "filter_ok bf"
  obtains idx where "f_hash bf i data = Some idx" and "unat (drop_bit 3 idx) < length (f_filter bf)"
    and "\<And>bf'. f_tweak bf' = f_tweak bf \<Longrightarrow> length (f_filter bf') = length (f_filter bf) \<Longrightarrow>
      f_hash bf' i data = Some idx"
proof -
  let ?n = "push_bit 3 (of_nat (length (f_filter bf))) :: u32"
  let ?h = "MurmurHash3WithSeed data (i * 0xfba4c795 + f_tweak bf)"
  have n: "unat ?n = 8 * length (f_filter bf)"
    using assms by (simp add: filter_ok_def push_bit_eq_mult unat_mult_lem [THEN iffD1] unat_of_nat_less mult.commute)
  then have nz: "?n \<noteq> 0" using assms by (auto simp: filter_ok_def unat_eq_zero)
  have "unat (drop_bit 3 (?h mod ?n)) = unat (?h mod ?n) div 8" by (simp add: drop_bit_eq_div unat_div)
  also have "\<dots> < length (f_filter bf)"
    using assms by (simp add: unat_mod n filter_ok_def less_mult_imp_div_less mult.commute)
  finally have lt: "unat (drop_bit 3 (?h mod ?n)) < length (f_filter bf)" .
  show ?thesis by (rule that [of "?h mod ?n"]) (use nz lt in \<open>simp_all add: f_hash_def Let_def\<close>)
qed

lemma length_set_bit8 [simp]: "length (set_bit8 f i) = length f"
  by (simp add: set_bit8_def)

lemma test_set_bit8:
  assumes "unat (drop_bit 3 i) < length f"
  shows "test_bit8 (set_bit8 f i) i" and "test_bit8 f j \<Longrightarrow> test_bit8 (set_bit8 f i) j"
proof -
  have "k AND 7 = take_bit 3 k" for k :: u32 by (simp add: take_bit_eq_mask mask_eq_exp_minus_1)
  then have lt: "unat (k AND 7) < 8" for k :: u32
    using take_bit_nat_less_exp [of 3 "unat k"] by (simp add: unsigned_take_bit_eq)
  have nz: "x AND push_bit k 1 \<noteq> 0 \<longleftrightarrow> bit x k" for x :: byte and k
    by (simp add: and_single_bit)
  show "test_bit8 (set_bit8 f i) i"
    using assms lt [of i]
    by (simp add: test_bit8_def set_bit8_def nz bit_or_iff bit_push_bit_iff and.commute)
  show "test_bit8 (set_bit8 f i) j" if "test_bit8 f j"
    using assms that lt [of j]
    by (auto simp: test_bit8_def set_bit8_def and_single_bit bit_or_iff nth_list_update)
qed

text \<open>What a filter knows: the bits it has set. Every operation but \<^verbatim>\<open>Reset\<close> only adds bits.\<close>

definition same_shape :: "filter_t \<Rightarrow> filter_t \<Rightarrow> bool" where
  "same_shape bf bf' \<longleftrightarrow> f_tweak bf' = f_tweak bf \<and> f_hashFuncs bf' = f_hashFuncs bf \<and>
     length (f_filter bf') = length (f_filter bf)"

definition bits_le :: "filter_t \<Rightarrow> filter_t \<Rightarrow> bool" where
  "bits_le bf bf' \<longleftrightarrow> same_shape bf bf' \<and> (\<forall>i. unat (drop_bit 3 i) < length (f_filter bf) \<longrightarrow>
     test_bit8 (f_filter bf) i \<longrightarrow> test_bit8 (f_filter bf') i)"

lemma bits_le_refl [simp]: "bits_le bf bf"
  by (simp add: bits_le_def same_shape_def)

lemma bits_le_trans: "bits_le a b \<Longrightarrow> bits_le b c \<Longrightarrow> bits_le a c"
  by (simp add: bits_le_def same_shape_def)

lemma bits_le_ok: "bits_le a b \<Longrightarrow> filter_ok a \<Longrightarrow> filter_ok b"
  by (auto simp: bits_le_def same_shape_def filter_ok_def)

lemma bits_le_set_bit8:
  "unat (drop_bit 3 i) < length (f_filter bf) \<Longrightarrow> bits_le bf (bf\<lparr>f_filter := set_bit8 (f_filter bf) i\<rparr>)"
  by (simp add: bits_le_def same_shape_def test_set_bit8(2))

lemma add_from_spec:
  assumes "filter_ok bf"
  shows "\<exists>bf'. add_from bf fs data = Some bf' \<and> bits_le bf bf' \<and> matches_from bf' fs data = Some True"
  using assms
proof (induction fs arbitrary: bf)
  case Nil
  then show ?case by simp
next
  case (Cons i fs)
  obtain idx where idx: "f_hash bf i data = Some idx" "unat (drop_bit 3 idx) < length (f_filter bf)"
    and stable: "\<And>bf'. f_tweak bf' = f_tweak bf \<Longrightarrow> length (f_filter bf') = length (f_filter bf) \<Longrightarrow>
      f_hash bf' i data = Some idx"
    using f_hash_Some [OF Cons.prems] by metis
  let ?bf = "bf\<lparr>f_filter := set_bit8 (f_filter bf) idx\<rparr>"
  have le: "bits_le bf ?bf" using idx(2) by (rule bits_le_set_bit8)
  obtain bf' where bf': "add_from ?bf fs data = Some bf'" "bits_le ?bf bf'" "matches_from bf' fs data = Some True"
    using Cons.IH [OF bits_le_ok [OF le Cons.prems]] by blast
  have "f_hash bf' i data = Some idx"
    using bf'(2) by (intro stable) (simp_all add: bits_le_def same_shape_def)
  moreover have "test_bit8 (f_filter bf') idx"
    using bf'(2) idx(2) test_set_bit8(1) [OF idx(2)] by (simp add: bits_le_def)
  ultimately show ?case using bf' idx bits_le_trans [OF le bf'(2)] by simp
qed

lemma matches_from_mono:
  assumes "filter_ok bf" "bits_le bf bf'" "matches_from bf fs data = Some True"
  shows "matches_from bf' fs data = Some True"
  using assms(3)
proof (induction fs)
  case (Cons i fs)
  obtain idx where idx: "f_hash bf i data = Some idx" "unat (drop_bit 3 idx) < length (f_filter bf)"
    and "f_hash bf' i data = Some idx"
    using f_hash_Some [OF assms(1), of i data] assms(2) by (metis bits_le_def same_shape_def)
  with Cons assms(2) show ?case by (simp add: bits_le_def split: if_splits)
qed simp

lemma or_bit_same: "bit (x :: byte) k \<Longrightarrow> x OR 2 ^ k = x"
  by (rule bit_word_eqI) (auto simp: bit_or_iff bit_exp_iff)

lemma matchesAndAdd_from_spec:
  assumes "filter_ok bf"
  shows "\<exists>bf' m. add_from bf fs data = Some bf' \<and> matches_from bf fs data = Some m \<and>
    (matchesAndAdd_from bf r fs data = Some (r \<and> m, bf'))"
  using assms
proof (induction fs arbitrary: bf r)
  case Nil
  then show ?case by auto
next
  case (Cons i fs)
  obtain idx where idx: "f_hash bf i data = Some idx" "unat (drop_bit 3 idx) < length (f_filter bf)"
    using f_hash_Some [OF Cons.prems] by metis
  let ?bf = "bf\<lparr>f_filter := set_bit8 (f_filter bf) idx\<rparr>"
  have ok: "filter_ok ?bf" using bits_le_ok [OF bits_le_set_bit8 [OF idx(2)] Cons.prems] .
  show ?case
  proof (cases "test_bit8 (f_filter bf) idx")
    case True
    then have "set_bit8 (f_filter bf) idx = f_filter bf"
      by (simp add: test_bit8_def set_bit8_def and_single_bit and.commute [of 7] or_bit_same)
    with True idx Cons.IH [OF Cons.prems, of r] show ?thesis by auto
  next
    case False
    with idx Cons.IH [OF ok, of False] show ?thesis by auto
  qed
qed

lemma f_Merge_bits_le:
  assumes "f_Merge bf rf = Inr bf'"
  shows "bits_le bf bf'" and "bits_le rf bf'"
  using assms by (auto simp: f_Merge_def bits_le_def same_shape_def test_bit8_def and_single_bit bit_or_iff
      split: if_splits)


lemma Matches_mono: "filter_ok bf \<Longrightarrow> bits_le bf bf' \<Longrightarrow> Matches bf d = Some True \<Longrightarrow> Matches bf' d = Some True"
  by (auto simp: Matches_def hash_nums_def bits_le_def same_shape_def intro: matches_from_mono)

lemma f_Add_spec:
  assumes "filter_ok bf"
  obtains bf' where "f_Add bf d = Some bf'" "bits_le bf bf'" "Matches bf' d = Some True"
proof -
  obtain bf' where "add_from bf (hash_nums bf) d = Some bf'" "bits_le bf bf'"
      "matches_from bf' (hash_nums bf) d = Some True"
    using add_from_spec [OF assms] by blast
  moreover from this have "hash_nums bf' = hash_nums bf" by (simp add: hash_nums_def bits_le_def same_shape_def)
  ultimately show ?thesis using that by (simp add: f_Add_def Matches_def)
qed

text \<open>Later states of a filter, and of filters it is merged into.\<close>

inductive grows :: "filter_t \<Rightarrow> filter_t \<Rightarrow> bool" for bf where
  grows_refl: "grows bf bf"
| grows_add: "grows bf bf' \<Longrightarrow> f_Add bf' d = Some bf'' \<Longrightarrow> grows bf bf''"
| grows_merge: "grows bf bf' \<Longrightarrow> f_Merge bf' rf = Inr bf'' \<Longrightarrow> grows bf bf''"
| grows_merge_into: "grows bf bf' \<Longrightarrow> f_Merge rf bf' = Inr bf'' \<Longrightarrow> grows bf bf''"

lemma grows_bits_le: "grows bf bf' \<Longrightarrow> filter_ok bf \<Longrightarrow> bits_le bf bf'"
proof (induction rule: grows.induct)
  case (grows_add bf' d bf'')
  then have "bits_le bf' bf''" by (metis bits_le_ok f_Add_spec option.inject)
  with grows_add show ?case by (blast intro: bits_le_trans)
qed (auto intro: bits_le_trans dest: f_Merge_bits_le)

lemma MatchesAndAdd_eq:
  assumes "filter_ok bf"
  shows "\<exists>m bf'. Matches bf d = Some m \<and> f_Add bf d = Some bf' \<and> MatchesAndAdd bf d = Some (m, bf')"
  using matchesAndAdd_from_spec [OF assms, of "hash_nums bf" d True]
  by (auto simp: Matches_def f_Add_def MatchesAndAdd_def)

lemma f_Unmarshal_Marshal:
  assumes "length (f_filter bf) \<le> maxAlloc"
  shows "f_Unmarshal (f_Marshal bf) = Inr bf"
proof -
  have "f_Marshal bf = WriteUint32 [] (f_hashFuncs bf) @ WriteUint32 [] (f_tweak bf) @ WriteVarBytes [] (f_filter bf)"
    by (simp add: f_Marshal_def write_uint_defs WriteVarBytes_def WriteUvarint_def WriteBytes_def)
  then show ?thesis
    using assms by (simp add: f_Unmarshal_def u32.dec_enc var_bytes.dec_enc_Nil)
qed

lemma f_Copy_no_effect: "snd (f_Copy bf f) = bf"
  by (simp add: f_Copy_def split: sum.splits)

section \<open>Properties\<close>

text \<open>C38: A Bloom filter has no false negatives. For a filter of at least one byte and fewer than
  \<open>2 ^ 32\<close> bits, which every constructor gives, adding an element never fails, and from then on the
  element matches, whatever is added later and whatever filters are merged with it.\<close>

theorem bloom_no_false_negatives:
  assumes "filter_ok bf"
  shows "\<exists>bf'. f_Add bf d = Some bf' \<and> (\<forall>bf''. grows bf' bf'' \<longrightarrow> Matches bf'' d = Some True)"
  using f_Add_spec [OF assms, of d] grows_bits_le Matches_mono bits_le_ok assms by metis

theorem bloom_no_false_negatives_witness:
  "\<exists>bf'. f_Add (NewFilterWithMK 2048 3) [1, 2] = Some bf' \<and>
     (\<forall>bf''. grows bf' bf'' \<longrightarrow> Matches bf'' [1, 2] = Some True)"
  by (rule bloom_no_false_negatives) (simp add: NewFilterWithMK_def newFilter_ok)

end
