(* ===== verification/Block_Types.thy ===== *)
theory Block_Types
  imports Chain_Types Bloom
begin

text \<open>
  Blocks, receipts and contract logs: \<^verbatim>\<open>src/core/types/block.go\<close>, \<^verbatim>\<open>transaction_vm.go\<close> and
  \<^verbatim>\<open>log.go\<close>. \<^verbatim>\<open>proto.Marshal\<close> of the generated message types is a parameter of the definitions
  that hash a message.
\<close>

section \<open>Block header\<close>

record BlockHeader =
  bh_Version :: int
  PrevBlockHash :: bytes
  TxsRoot :: bytes
  InternalTxsRoot :: bytes
  UtxoRoot :: bytes
  ReceiptHash :: bytes
  TimeStamp :: int
  bh_Magic :: u32
  RootHash :: bytes
  DynastyHash :: bytes
  Height :: u32
  GasUsed :: u64
  BookKeeper :: bytes
  bh_Bloom :: "filter_t option"

record PbBlockHeader =
  pbh_Version :: int
  pbh_PrevBlockHash :: bytes
  pbh_TxsRoot :: bytes
  pbh_InternalTxsRoot :: bytes
  pbh_UtxoRoot :: bytes
  pbh_ReceiptHash :: bytes
  pbh_TimeStamp :: int
  pbh_Magic :: u32
  pbh_RootHash :: bytes
  pbh_DynastyHash :: bytes
  pbh_Height :: u32
  pbh_GasUsed :: u64
  pbh_BookKeeper :: bytes
  pbh_Bloom :: bytes

record IrreversibleInfo =
  ii_Hash :: bytes
  Signatures :: "bytes list"

record Block =
  blk_Hash :: "bytes option"
  Header :: BlockHeader
  Txs :: "Transaction list"
  InternalTxs :: "Transaction list"
  Signature :: bytes
  blk_Irreversible :: "IrreversibleInfo option"

record PbBlock =
  pbb_Header :: "PbBlockHeader option"
  pbb_Txs :: "PbTransaction option list"
  pbb_InternalTxs :: "PbTransaction option list"
  pbb_Signature :: bytes
  pbb_Irreversible :: "IrreversibleInfo option"

definition BloomBitLength :: u32 where "BloomBitLength = 8 * 256"
definition BloomHashNum :: u32 where "BloomHashNum = 3"

definition empty_bloom :: filter_t where
  "empty_bloom = NewFilterWithMK BloomBitLength BloomHashNum"

text \<open>\<^verbatim>\<open>new(BlockHeader)\<close>\<close>

definition zero_header :: BlockHeader where
  "zero_header = \<lparr>bh_Version = 0, PrevBlockHash = ZeroHash, TxsRoot = ZeroHash, InternalTxsRoot = ZeroHash,
     UtxoRoot = ZeroHash, ReceiptHash = ZeroHash, TimeStamp = 0, bh_Magic = 0, RootHash = ZeroHash,
     DynastyHash = ZeroHash, Height = 0, GasUsed = 0, BookKeeper = ZeroAddressHash, bh_Bloom = None\<rparr>"

text \<open>A nil filter is replaced by an empty one, in the header as well.\<close>

definition Header_ToProtoMessage :: "BlockHeader \<Rightarrow> PbBlockHeader \<times> BlockHeader" where
  "Header_ToProtoMessage header =
     (let b = (case bh_Bloom header of None \<Rightarrow> empty_bloom | Some b \<Rightarrow> b);
          header = header\<lparr>bh_Bloom := Some b\<rparr>
      in (\<lparr>pbh_Version = bh_Version header, pbh_PrevBlockHash = PrevBlockHash header,
            pbh_TxsRoot = TxsRoot header, pbh_InternalTxsRoot = InternalTxsRoot header,
            pbh_UtxoRoot = UtxoRoot header, pbh_ReceiptHash = ReceiptHash header,
            pbh_TimeStamp = TimeStamp header, pbh_Magic = bh_Magic header, pbh_RootHash = RootHash header,
            pbh_DynastyHash = DynastyHash header, pbh_Height = Height header, pbh_GasUsed = GasUsed header,
            pbh_BookKeeper = BookKeeper header, pbh_Bloom = f_Marshal b\<rparr>, header))"

datatype block_error =
  ErrEmptyMsg | ErrInvalidMsg | ErrBloom read_error | ErrTxMsg conv_error

definition Header_FromProtoMessage :: "BlockHeader \<Rightarrow> PbBlockHeader option \<Rightarrow> block_error + BlockHeader" where
  "Header_FromProtoMessage header message =
     (case message of None \<Rightarrow> Inl ErrEmptyMsg | Some m \<Rightarrow>
     (case f_Unmarshal (pbh_Bloom m) of Inl e \<Rightarrow> Inl (ErrBloom e) | Inr b \<Rightarrow>
        Inr (header\<lparr>bh_Bloom := Some b, bh_Version := pbh_Version m,
          PrevBlockHash := copy_at (PrevBlockHash header) 0 (pbh_PrevBlockHash m),
          TxsRoot := copy_at (TxsRoot header) 0 (pbh_TxsRoot m),
          InternalTxsRoot := copy_at (InternalTxsRoot header) 0 (pbh_InternalTxsRoot m),
          UtxoRoot := copy_at (UtxoRoot header) 0 (pbh_UtxoRoot m),
          ReceiptHash := copy_at (ReceiptHash header) 0 (pbh_ReceiptHash m),
          TimeStamp := pbh_TimeStamp m, bh_Magic := pbh_Magic m,
          DynastyHash := copy_at (DynastyHash header) 0 (pbh_DynastyHash m),
          RootHash := copy_at (RootHash header) 0 (pbh_RootHash m),
          Height := pbh_Height m, GasUsed := pbh_GasUsed m,
          BookKeeper := copy_at (BookKeeper header) 0 (pbh_BookKeeper m)\<rparr>)))"

definition II_FromProtoMessage :: "IrreversibleInfo option \<Rightarrow> block_error + IrreversibleInfo" where
  "II_FromProtoMessage message =
     (case message of None \<Rightarrow> Inl ErrEmptyMsg | Some m \<Rightarrow>
        Inr \<lparr>ii_Hash = copy_at ZeroHash 0 (ii_Hash m), Signatures = Signatures m\<rparr>)"

section \<open>Blocks\<close>

definition calcBlockHash ::
  "('sig, 'pk) crypto_ops \<Rightarrow> (PbBlockHeader \<Rightarrow> bytes option) \<Rightarrow> BlockHeader \<Rightarrow> bytes option" where
  "calcBlockHash c marshal_header header =
     map_option (DoubleHashH c) (marshal_header (fst (Header_ToProtoMessage header)))"

definition BlockHash ::
  "('sig, 'pk) crypto_ops \<Rightarrow> (PbBlockHeader \<Rightarrow> bytes option) \<Rightarrow> Block \<Rightarrow> bytes option \<times> Block" where
  "BlockHash c marshal_header block =
     (case blk_Hash block of
        Some h \<Rightarrow> (Some h, block)
      | None \<Rightarrow>
          (let block = block\<lparr>Header := snd (Header_ToProtoMessage (Header block))\<rparr> in
           case calcBlockHash c marshal_header (Header block) of
             None \<Rightarrow> (None, block)
           | Some h \<Rightarrow> (Some h, block\<lparr>blk_Hash := Some h\<rparr>)))"

text \<open>A nil parent hash is dereferenced.\<close>

definition NewBlock ::
  "('sig, 'pk) crypto_ops \<Rightarrow> (PbBlockHeader \<Rightarrow> bytes option) \<Rightarrow> Block \<Rightarrow> Block option" where
  "NewBlock c marshal_header parent =
     (case fst (BlockHash c marshal_header parent) of None \<Rightarrow> None | Some h \<Rightarrow>
        Some \<lparr>blk_Hash = None,
          Header = zero_header\<lparr>bh_Magic := bh_Magic (Header parent), PrevBlockHash := h,
            Height := Height (Header parent) + 1\<rparr>,
          Txs = [], InternalTxs = [], Signature = [], blk_Irreversible = None\<rparr>)"

definition AppendTx :: "Block \<Rightarrow> Transaction list \<Rightarrow> Block" where
  "AppendTx block txs = block\<lparr>Txs := Txs block @ txs\<rparr>"

fun txs_to_proto :: "Transaction list \<Rightarrow> conv_error + PbTransaction option list" where
  "txs_to_proto [] = Inr []"
| "txs_to_proto (v # vs) =
     (case Tx_ToProtoMessage v of Inl e \<Rightarrow> Inl e | Inr m \<Rightarrow>
     (case txs_to_proto vs of Inl e \<Rightarrow> Inl e | Inr ms \<Rightarrow>
        (case m of MsgTransaction p \<Rightarrow> Inr (p # ms) | _ \<Rightarrow> Inr ms)))"

fun txs_from_proto ::
  "(PbTransaction \<Rightarrow> bytes option) \<Rightarrow> PbTransaction option list \<Rightarrow> conv_error + Transaction list" where
  "txs_from_proto msg_hash [] = Inr []"
| "txs_from_proto msg_hash (m # ms) =
     (case Tx_FromProtoMessage msg_hash (NewTx 0 0 0) (MsgTransaction m) of Inl e \<Rightarrow> Inl e | Inr v \<Rightarrow>
     (case txs_from_proto msg_hash ms of Inl e \<Rightarrow> Inl e | Inr vs \<Rightarrow> Inr (v # vs)))"

definition Block_ToProtoMessage :: "Block \<Rightarrow> conv_error + PbBlock" where
  "Block_ToProtoMessage block =
     (case txs_to_proto (Txs block) of Inl e \<Rightarrow> Inl e | Inr txs \<Rightarrow>
     (case txs_to_proto (InternalTxs block) of Inl e \<Rightarrow> Inl e | Inr internalTxs \<Rightarrow>
        Inr \<lparr>pbb_Header = Some (fst (Header_ToProtoMessage (Header block))), pbb_Txs = txs,
          pbb_InternalTxs = internalTxs, pbb_Signature = Signature block,
          pbb_Irreversible = blk_Irreversible block\<rparr>))"

text \<open>
  Reading into a block whose cached hash is \<open>cached\<close>: a hash that is set stays, otherwise it is that of
  the header read.
\<close>

definition Block_FromProtoMessage ::
  "('sig, 'pk) crypto_ops \<Rightarrow> (PbBlockHeader \<Rightarrow> bytes option) \<Rightarrow> (PbTransaction \<Rightarrow> bytes option) \<Rightarrow>
     bytes option \<Rightarrow> PbBlock option \<Rightarrow> block_error + Block" where
  "Block_FromProtoMessage c marshal_header msg_hash cached message =
     (case message of None \<Rightarrow> Inl ErrEmptyMsg | Some m \<Rightarrow>
     (case Header_FromProtoMessage zero_header (pbb_Header m) of Inl e \<Rightarrow> Inl e | Inr header \<Rightarrow>
     (case (case pbb_Irreversible m of None \<Rightarrow> Inr None
            | Some i \<Rightarrow> map_sum id Some (II_FromProtoMessage (Some i))) of
        Inl e \<Rightarrow> Inl e | Inr ii \<Rightarrow>
     (case txs_from_proto msg_hash (pbb_Txs m) of Inl e \<Rightarrow> Inl (ErrTxMsg e) | Inr txs \<Rightarrow>
     (case txs_from_proto msg_hash (pbb_InternalTxs m) of Inl e \<Rightarrow> Inl (ErrTxMsg e) | Inr internalTxs \<Rightarrow>
        Inr \<lparr>blk_Hash = (case cached of Some h \<Rightarrow> Some h | None \<Rightarrow> calcBlockHash c marshal_header header),
          Header = header, Txs = txs,
          InternalTxs = internalTxs, Signature = pbb_Signature m, blk_Irreversible = ii\<rparr>)))))"

definition Block_Copy :: "Block \<Rightarrow> Block" where
  "Block_Copy block = \<lparr>blk_Hash = None, Header = Header block, Txs = map tx_Copy (Txs block),
     InternalTxs = map tx_Copy (InternalTxs block), Signature = Signature block,
     blk_Irreversible = blk_Irreversible block\<rparr>"

fun GetTx_from :: "('sig, 'pk) crypto_ops \<Rightarrow> bytes \<Rightarrow> nat \<Rightarrow> Transaction list \<Rightarrow> (Transaction option \<times> nat) option" where
  "GetTx_from c hash i [] = Some (None, 0)"
| "GetTx_from c hash i (tx # txs) =
     (case fst (TxHash c tx) of
        None \<Rightarrow> None
      | Some h \<Rightarrow> if h = hash then Some (Some tx, i) else GetTx_from c hash (i + 1) txs)"

definition GetTx :: "('sig, 'pk) crypto_ops \<Rightarrow> Block \<Rightarrow> bytes \<Rightarrow> (Transaction option \<times> nat) option" where
  "GetTx c block hash = GetTx_from c hash 0 (Txs block)"

section \<open>Logs\<close>

record Log =
  log_Address :: bytes
  Topics :: "bytes list"
  log_Data :: bytes
  BlockNumber :: u64
  log_TxHash :: bytes
  log_TxIndex :: u32
  log_BlockHash :: bytes
  log_Index :: u32
  Removed :: bool

record PbLog =
  pbl_Address :: bytes
  pbl_Topics :: "bytes list"
  pbl_Data :: bytes
  pbl_BlockNumber :: u64
  pbl_TxHash :: bytes
  pbl_TxIndex :: u32
  pbl_Index :: u32
  pbl_Removed :: bool

record hashLog =
  hl_Address :: bytes
  hl_Topics :: "bytes list"
  hl_Data :: bytes

text \<open>
  \<^verbatim>\<open>toHashLog\<close> copies the data into the nil slice of the new log, which copies nothing.
\<close>

definition toHashLog :: "Log \<Rightarrow> hashLog" where
  "toHashLog log =
     \<lparr>hl_Address = copy_at ZeroAddressHash 0 (log_Address log),
      hl_Topics = map (\<lambda>topic. copy_at ZeroHash 0 topic) (Topics log),
      hl_Data = copy_at [] 0 (log_Data log)\<rparr>"

definition Log_ToProtoMessage :: "Log \<Rightarrow> PbLog" where
  "Log_ToProtoMessage log =
     \<lparr>pbl_Address = log_Address log, pbl_Topics = Topics log, pbl_Data = log_Data log,
      pbl_BlockNumber = BlockNumber log, pbl_TxHash = log_TxHash log, pbl_TxIndex = log_TxIndex log,
      pbl_Index = log_Index log, pbl_Removed = Removed log\<rparr>"

text \<open>\<^verbatim>\<open>new(Log)\<close> filled from a message; the block hash is not part of the message.\<close>

definition Log_FromProtoMessage :: "PbLog \<Rightarrow> Log" where
  "Log_FromProtoMessage m =
     \<lparr>log_Address = copy_at ZeroAddressHash 0 (pbl_Address m),
      Topics = map (\<lambda>topic. copy_at ZeroHash 0 topic) (pbl_Topics m),
      log_Data = pbl_Data m, BlockNumber = pbl_BlockNumber m,
      log_TxHash = copy_at ZeroHash 0 (pbl_TxHash m), log_TxIndex = pbl_TxIndex m,
      log_BlockHash = ZeroHash, log_Index = pbl_Index m, Removed = pbl_Removed m\<rparr>"

section \<open>Receipts\<close>

record Receipt =
  rc_TxHash :: bytes
  rc_TxIndex :: u32
  ContractAddress :: bytes
  Deployed :: bool
  Failed :: bool
  rc_GasUsed :: u64
  rc_BlockHash :: bytes
  rc_BlockHeight :: u32
  rc_InternalTxs :: "bytes list"
  ErrMsg :: string
  Logs :: "Log list"
  rc_Bloom :: "filter_t option"

record PbReceipt =
  pbr_TxHash :: bytes
  pbr_TxIndex :: u32
  pbr_Deployed :: bool
  pbr_Failed :: bool
  pbr_GasUsed :: u64
  pbr_InternalTxs :: "bytes list"
  pbr_ErrMsg :: string
  pbr_Logs :: "PbLog list"
  pbr_Bloom :: bytes

record PbHashReceipt =
  phr_TxHash :: bytes
  phr_TxIndex :: u32
  phr_Deployed :: bool
  phr_Failed :: bool
  phr_GasUsed :: u64
  phr_InternalTxs :: "bytes list"
  phr_ErrMsg :: string
  phr_Logs :: "hashLog list"
  phr_Bloom :: bytes

text \<open>Adding to a filter built by the constructor cannot panic; a failed merge is ignored.\<close>

definition add_total :: "filter_t \<Rightarrow> bytes \<Rightarrow> filter_t" where
  "add_total bf d = (case f_Add bf d of Some bf' \<Rightarrow> bf' | None \<Rightarrow> bf)"

definition createLogBloom :: "Log list \<Rightarrow> filter_t" where
  "createLogBloom logs =
     foldl (\<lambda>b log. foldl add_total (add_total b (log_Address log)) (Topics log)) empty_bloom logs"

definition CreateReceiptsBloom :: "Receipt list \<Rightarrow> filter_t" where
  "CreateReceiptsBloom rcs =
     foldl (\<lambda>b rc. case f_Merge b (createLogBloom (Logs rc)) of Inr b' \<Rightarrow> b' | Inl _ \<Rightarrow> b) empty_bloom rcs"

definition NewReceipt ::
  "bytes option \<Rightarrow> bytes option \<Rightarrow> bool \<Rightarrow> bool \<Rightarrow> u64 \<Rightarrow> string \<Rightarrow> Log list \<Rightarrow> Receipt" where
  "NewReceipt txHash contractAddr deployed failed gasUsed errMsg logs =
     \<lparr>rc_TxHash = (case txHash of None \<Rightarrow> ZeroHash | Some h \<Rightarrow> h), rc_TxIndex = 0,
      ContractAddress = (case contractAddr of None \<Rightarrow> ZeroAddressHash | Some a \<Rightarrow> a), Deployed = deployed,
      Failed = failed, rc_GasUsed = gasUsed, rc_BlockHash = ZeroHash, rc_BlockHeight = 0, rc_InternalTxs = [],
      ErrMsg = errMsg, Logs = logs, rc_Bloom = Some (createLogBloom logs)\<rparr>"

definition bloom_or_empty :: "filter_t option \<Rightarrow> filter_t" where
  "bloom_or_empty b = (case b of None \<Rightarrow> empty_bloom | Some b \<Rightarrow> b)"

definition Receipt_ToProtoMessage :: "Receipt \<Rightarrow> PbReceipt" where
  "Receipt_ToProtoMessage rc =
     \<lparr>pbr_TxHash = rc_TxHash rc, pbr_TxIndex = rc_TxIndex rc, pbr_Deployed = Deployed rc,
      pbr_Failed = Failed rc, pbr_GasUsed = rc_GasUsed rc, pbr_InternalTxs = rc_InternalTxs rc,
      pbr_ErrMsg = ErrMsg rc, pbr_Logs = map Log_ToProtoMessage (Logs rc),
      pbr_Bloom = f_Marshal (bloom_or_empty (rc_Bloom rc))\<rparr>"

definition Receipt_FromProtoMessage :: "PbReceipt \<Rightarrow> block_error + Receipt" where
  "Receipt_FromProtoMessage m =
     (case f_Unmarshal (pbr_Bloom m) of Inl e \<Rightarrow> Inl (ErrBloom e) | Inr b \<Rightarrow>
        Inr \<lparr>rc_TxHash = BytesToHash (pbr_TxHash m), rc_TxIndex = pbr_TxIndex m, ContractAddress = ZeroAddressHash,
          Deployed = pbr_Deployed m, Failed = pbr_Failed m, rc_GasUsed = pbr_GasUsed m,
          rc_BlockHash = ZeroHash, rc_BlockHeight = 0, rc_InternalTxs = map BytesToHash (pbr_InternalTxs m),
          ErrMsg = pbr_ErrMsg m, Logs = map Log_FromProtoMessage (pbr_Logs m), rc_Bloom = Some b\<rparr>)"

definition Receipts_Append :: "Receipt list \<Rightarrow> Receipt option list \<Rightarrow> Receipt list" where
  "Receipts_Append rcs rs = rcs @ List.map_filter id rs"

fun GetTxReceipt :: "Receipt list \<Rightarrow> bytes \<Rightarrow> Receipt option" where
  "GetTxReceipt [] hash = None"
| "GetTxReceipt (r # rs) hash = (if rc_TxHash r = hash then Some r else GetTxReceipt rs hash)"

text \<open>
  The receipts that are hashed (\<^verbatim>\<open>toHashReceipts\<close> followed by the conversion to a message): the
  filter is never set, so an empty one is written; address, block hash and height are not written.
\<close>

definition toHashReceipt :: "Receipt \<Rightarrow> PbHashReceipt" where
  "toHashReceipt rc =
     \<lparr>phr_TxHash = rc_TxHash rc, phr_TxIndex = rc_TxIndex rc, phr_Deployed = Deployed rc, phr_Failed = Failed rc,
      phr_GasUsed = rc_GasUsed rc, phr_InternalTxs = rc_InternalTxs rc, phr_ErrMsg = ErrMsg rc,
      phr_Logs = map toHashLog (Logs rc), phr_Bloom = f_Marshal empty_bloom\<rparr>"

text \<open>\<^verbatim>\<open>Bloom.Copy\<close> of the receipt's own filter can fail; then the hash is nil.\<close>

definition Receipts_Hash ::
  "('sig, 'pk) crypto_ops \<Rightarrow> (PbHashReceipt list \<Rightarrow> bytes option) \<Rightarrow> Receipt list \<Rightarrow> bytes option" where
  "Receipts_Hash c marshal_receipts rcs =
     (if list_all (\<lambda>rc. fst (f_Copy (bloom_or_empty (rc_Bloom rc)) (bloom_or_empty (rc_Bloom rc))) = None) rcs
      then map_option (DoubleHashH c) (marshal_receipts (map toHashReceipt rcs))
      else None)"

section \<open>Laws\<close>

definition header_wf :: "BlockHeader \<Rightarrow> bool" where
  "header_wf h \<longleftrightarrow> hash_wf (PrevBlockHash h) \<and> hash_wf (TxsRoot h) \<and> hash_wf (InternalTxsRoot h) \<and>
     hash_wf (UtxoRoot h) \<and> hash_wf (ReceiptHash h) \<and> hash_wf (RootHash h) \<and> hash_wf (DynastyHash h) \<and>
     addr_wf (BookKeeper h) \<and> (case bh_Bloom h of None \<Rightarrow> True | Some b \<Rightarrow> length (f_filter b) \<le> maxAlloc)"

lemma bloom_small: "length (f_filter empty_bloom) \<le> maxAlloc"
  by (simp add: maxAlloc_def empty_bloom_def NewFilterWithMK_def newFilter_def Let_def BloomBitLength_def MaxFilterSize_def)

lemma header_proto_roundtrip:
  assumes "header_wf h"
  shows "Header_FromProtoMessage zero_header (Some (fst (Header_ToProtoMessage h))) =
    Inr (snd (Header_ToProtoMessage h))"
proof -
  have "length (f_filter (case bh_Bloom h of None \<Rightarrow> empty_bloom | Some b \<Rightarrow> b)) \<le> maxAlloc"
    using assms bloom_small by (auto simp: header_wf_def split: option.splits)
  then show ?thesis
    using assms
    by (simp add: Header_ToProtoMessage_def Header_FromProtoMessage_def Let_def zero_header_def header_wf_def
        f_Unmarshal_Marshal hash_wf_def addr_wf_def ZeroHash_def ZeroAddressHash_def)
qed

text \<open>A transaction without its caches: what a message carries of it.\<close>

definition strip_tx :: "Transaction \<Rightarrow> Transaction" where
  "strip_tx tx = tx\<lparr>cached_hash := None, TxTyp := UnknownTx\<rparr>"

lemma txs_proto_roundtrip:
  assumes "\<forall>tx\<in>set txs. tx_wf tx"
  shows "\<exists>ms txs'. txs_to_proto txs = Inr ms \<and> txs_from_proto msg_hash ms = Inr txs' \<and>
    map strip_tx txs' = map strip_tx txs"
  using assms
proof (induction txs)
  case Nil
  then show ?case by simp
next
  case (Cons tx txs)
  then obtain ms txs' where IH: "txs_to_proto txs = Inr ms" "txs_from_proto msg_hash ms = Inr txs'"
      "map strip_tx txs' = map strip_tx txs" by auto
  obtain m where "Tx_ToProtoMessage tx = Inr (MsgTransaction (Some m))"
      "Tx_FromProtoMessage msg_hash (NewTx 0 0 0) (MsgTransaction (Some m)) =
        Inr (tx\<lparr>cached_hash := msg_hash m, TxTyp := UnknownTx\<rparr>)"
    using Cons.prems tx_proto_roundtrip [of tx msg_hash 0 0 0] by auto
  moreover have "strip_tx (tx\<lparr>cached_hash := msg_hash m, TxTyp := UnknownTx\<rparr>) = strip_tx tx"
    by (simp add: strip_tx_def)
  ultimately show ?case using IH by (simp del: Tx_FromProtoMessage.simps)
qed

definition block_wf :: "Block \<Rightarrow> bool" where
  "block_wf b \<longleftrightarrow> header_wf (Header b) \<and> (\<forall>tx\<in>set (Txs b @ InternalTxs b). tx_wf tx) \<and>
     (case blk_Irreversible b of None \<Rightarrow> True | Some ii \<Rightarrow> hash_wf (ii_Hash ii))"

lemma f_Copy_same:
  assumes "f_tweak b = 0" and "f_filter b \<noteq> []" "length (f_filter b) \<le> MaxFilterSize"
    and "0 < f_hashFuncs b" "f_hashFuncs b \<le> of_nat MaxFilterHashFuncs"
  shows "f_Copy b b = (None, b)"
proof -
  have n: "8 * length (f_filter b) < 2 ^ 32" using assms(3) by (simp add: MaxFilterSize_def)
  then have "unat (f_Size b) = 8 * length (f_filter b)"
    by (simp add: f_Size_def push_bit_eq_mult unat_mult_lem [THEN iffD1] unat_of_nat_less mult.commute)
  moreover from this have "f_Size b \<noteq> 0" using assms(2) by (auto simp: unat_eq_zero intro: unsigned_word_eqI)
  ultimately show ?thesis
    using assms by (simp add: f_Copy_def f_Merge_def NewFilterWithMK_def newFilter_def Let_def f_K_def
        min_def word_le_nat_alt word_less_nat_alt) (auto simp: unat_eq_zero intro: unsigned_word_eqI)
qed

section \<open>Properties\<close>

text \<open>C39: A block written to a message and read back is the same block: header, transactions and
  internal transactions (all fields that are part of the message), signature and irreversibility
  information, for Bloom filters of a size Go can allocate. Its cached hash is the hash of its own header
  when it is read into a new block; a hash the receiving block already had stays.\<close>

theorem block_proto_roundtrip:
  assumes "block_wf b"
  shows "\<exists>m b'. Block_ToProtoMessage b = Inr m \<and> Block_FromProtoMessage c mh msg_hash cached (Some m) = Inr b' \<and>
    Header b' = snd (Header_ToProtoMessage (Header b)) \<and> map strip_tx (Txs b') = map strip_tx (Txs b) \<and>
    map strip_tx (InternalTxs b') = map strip_tx (InternalTxs b) \<and> Signature b' = Signature b \<and>
    blk_Irreversible b' = blk_Irreversible b \<and>
    blk_Hash b' = (case cached of Some h \<Rightarrow> Some h | None \<Rightarrow> calcBlockHash c mh (Header b'))"
proof -
  obtain ms txs where t: "txs_to_proto (Txs b) = Inr ms" "txs_from_proto msg_hash ms = Inr txs"
      "map strip_tx txs = map strip_tx (Txs b)"
    using txs_proto_roundtrip [of "Txs b" msg_hash] assms by (auto simp: block_wf_def)
  obtain ms' txs' where i: "txs_to_proto (InternalTxs b) = Inr ms'" "txs_from_proto msg_hash ms' = Inr txs'"
      "map strip_tx txs' = map strip_tx (InternalTxs b)"
    using txs_proto_roundtrip [of "InternalTxs b" msg_hash] assms by (auto simp: block_wf_def)
  have h: "Header_FromProtoMessage zero_header (Some (fst (Header_ToProtoMessage (Header b)))) =
      Inr (snd (Header_ToProtoMessage (Header b)))"
    using assms by (simp add: block_wf_def header_proto_roundtrip)
  have "(case blk_Irreversible b of None \<Rightarrow> Inr None | Some i \<Rightarrow> map_sum id Some (II_FromProtoMessage (Some i))) =
      (Inr (blk_Irreversible b) :: block_error + _)"
    using assms by (auto simp: block_wf_def II_FromProtoMessage_def hash_wf_def ZeroHash_def split: option.splits)
  with t i h show ?thesis
    by (cases cached) (simp_all add: Block_ToProtoMessage_def Block_FromProtoMessage_def)
qed

theorem block_proto_roundtrip_witness:
  "\<exists>m b'. Block_ToProtoMessage \<lparr>blk_Hash = None, Header = zero_header, Txs = [NewTx 1 0 0], InternalTxs = [],
       Signature = [7], blk_Irreversible = None\<rparr> = Inr m \<and>
     Block_FromProtoMessage \<lparr>sha256 = id, ripemd160 = id, parse_sig = (\<lambda>_. Some ()), parse_pubkey = (\<lambda>_. Some ()),
       sig_verify = (\<lambda>_ _ _. True), marshal_tx = (\<lambda>_. None)\<rparr> (\<lambda>_. Some []) (\<lambda>_. None) None (Some m) = Inr b' \<and>
     Signature b' = [7]"
  using block_proto_roundtrip
    [of "\<lparr>blk_Hash = None, Header = zero_header, Txs = [NewTx 1 0 0], InternalTxs = [],
       Signature = [7], blk_Irreversible = None\<rparr>"
      "\<lparr>sha256 = id, ripemd160 = id, parse_sig = (\<lambda>_. Some ()), parse_pubkey = (\<lambda>_. Some ()),
       sig_verify = (\<lambda>_ _ _. True), marshal_tx = (\<lambda>_. None)\<rparr>" "\<lambda>_. Some []" "\<lambda>_. None" None]
  by (auto simp: block_wf_def header_wf_def zero_header_def hash_wf_def addr_wf_def ZeroHash_def ZeroAddressHash_def
      tx_wf_def NewTx_def)

text \<open>C40: The receipt hash of a block does not commit to what contracts logged: receipts that
  differ only in the data of their logs, their contract address, their Bloom filter, and block hash and
  height have the same hash, provided copying the Bloom filters gives no error, as for every filter the
  code constructs.\<close>

theorem receipt_hash_ignores_log_data:
  assumes "\<forall>rc\<in>set rcs. \<exists>b. rc_Bloom rc = Some b \<and> fst (f_Copy b b) = None"
    and "\<forall>rc\<in>set rcs. fst (f_Copy (f rc) (f rc)) = None"
  shows "Receipts_Hash c m (map (\<lambda>rc. rc\<lparr>Logs := map (\<lambda>l. l\<lparr>log_Data := d rc l\<rparr>) (Logs rc),
      ContractAddress := a rc, rc_Bloom := Some (f rc), rc_BlockHeight := n rc, rc_BlockHash := h rc\<rparr>) rcs) =
    Receipts_Hash c m rcs"
proof -
  have 1: "toHashLog (l\<lparr>log_Data := x\<rparr>) = toHashLog l" for l x by (simp add: toHashLog_def copy_at_def)
  have "toHashReceipt (rc\<lparr>Logs := map (\<lambda>l. l\<lparr>log_Data := d rc l\<rparr>) (Logs rc), ContractAddress := a rc,
      rc_Bloom := Some (f rc), rc_BlockHeight := n rc, rc_BlockHash := h rc\<rparr>) = toHashReceipt rc" for rc
    by (simp add: toHashReceipt_def comp_def 1)
  with assms show ?thesis by (auto simp: Receipts_Hash_def comp_def list_all_iff bloom_or_empty_def)
qed

theorem receipt_hash_ignores_log_data_witness:
  "Receipts_Hash \<lparr>sha256 = id, ripemd160 = id, parse_sig = (\<lambda>_. Some ()), parse_pubkey = (\<lambda>_. Some ()),
       sig_verify = (\<lambda>_ _ _. True), marshal_tx = (\<lambda>_. None)\<rparr> (\<lambda>rs. Some (concat (map phr_TxHash rs)))
     [\<lparr>rc_TxHash = [], rc_TxIndex = 0, ContractAddress = [], Deployed = True, Failed = False, rc_GasUsed = 0,
       rc_BlockHash = [], rc_BlockHeight = 0, rc_InternalTxs = [], ErrMsg = [],
       Logs = [\<lparr>log_Address = [], Topics = [], log_Data = [1], BlockNumber = 0, log_TxHash = [], log_TxIndex = 0,
         log_BlockHash = [], log_Index = 0, Removed = False\<rparr>], rc_Bloom = Some empty_bloom\<rparr>] =
   Receipts_Hash \<lparr>sha256 = id, ripemd160 = id, parse_sig = (\<lambda>_. Some ()), parse_pubkey = (\<lambda>_. Some ()),
       sig_verify = (\<lambda>_ _ _. True), marshal_tx = (\<lambda>_. None)\<rparr> (\<lambda>rs. Some (concat (map phr_TxHash rs)))
     [\<lparr>rc_TxHash = [], rc_TxIndex = 0, ContractAddress = [], Deployed = True, Failed = False, rc_GasUsed = 0,
       rc_BlockHash = [], rc_BlockHeight = 0, rc_InternalTxs = [], ErrMsg = [],
       Logs = [\<lparr>log_Address = [], Topics = [], log_Data = [2], BlockNumber = 0, log_TxHash = [], log_TxIndex = 0,
         log_BlockHash = [], log_Index = 0, Removed = False\<rparr>], rc_Bloom = Some empty_bloom\<rparr>]"
proof -
  have c: "fst (f_Copy empty_bloom empty_bloom) = None"
    by (subst f_Copy_same) (simp_all add: empty_bloom_def NewFilterWithMK_def newFilter_def Let_def
        BloomBitLength_def BloomHashNum_def MaxFilterSize_def MaxFilterHashFuncs_def)
  show ?thesis
    using receipt_hash_ignores_log_data
      [where rcs = "[\<lparr>rc_TxHash = [], rc_TxIndex = 0, ContractAddress = [], Deployed = True, Failed = False, rc_GasUsed = 0,
       rc_BlockHash = [], rc_BlockHeight = 0, rc_InternalTxs = [], ErrMsg = [],
       Logs = [\<lparr>log_Address = [], Topics = [], log_Data = [2], BlockNumber = 0, log_TxHash = [], log_TxIndex = 0,
         log_BlockHash = [], log_Index = 0, Removed = False\<rparr>], rc_Bloom = Some empty_bloom\<rparr>]"
        and f = "\<lambda>_. empty_bloom" and d = "\<lambda>_ _. [1]" and a = "\<lambda>_. []" and n = "\<lambda>_. 0" and h = "\<lambda>_. []"] c
    by simp
qed

end
