(* ===== verification/Merkle.thy ===== *)
theory Merkle
  imports Chain_Types
begin

text \<open>
  The Merkle tree of a block's transactions, \<^verbatim>\<open>src/util/merkle.go\<close>: an array with the leaves first
  and the root last. A nil pointer is \<^term>\<open>None\<close>. \<^verbatim>\<open>uint(math.Log2(float64(n)))\<close> is the integer
  part of the logarithm, by repeated halving.
\<close>

definition combineHash :: "('sig, 'pk) crypto_ops \<Rightarrow> bytes \<Rightarrow> bytes \<Rightarrow> bytes" where
  "combineHash c left right =
     DoubleHashH c (copy_at (copy_at (replicate (2 * HashSize) 0) 0 (take HashSize left)) HashSize right)"

fun log2_floor :: "nat \<Rightarrow> nat" where
  "log2_floor n = (if n < 2 then 0 else Suc (log2_floor (n div 2)))"

declare log2_floor.simps [simp del]

definition is_pow2 :: "nat \<Rightarrow> bool" where
  "is_pow2 n \<longleftrightarrow> n = 0 \<or> and n (n - 1) = 0"

text \<open>
  The logarithm is \<^verbatim>\<open>math.Log2\<close> on a floating point number, taken to an integer. It is modelled as exact,
  which it is for every number of leaves below \<open>2 ^ 47\<close>, far more than a block can hold.
\<close>

definition calcLowestHierarchyCount :: "nat \<Rightarrow> nat" where
  "calcLowestHierarchyCount n = (if is_pow2 n then n else 2 ^ (log2_floor n + 1))"

text \<open>One step of the loop at index \<open>i\<close>, and the loop.\<close>

definition merkle_node :: "('sig, 'pk) crypto_ops \<Rightarrow> bytes option \<Rightarrow> bytes option \<Rightarrow> bytes option" where
  "merkle_node c l r =
     (case l of
        None \<Rightarrow> None
      | Some a \<Rightarrow> (case r of None \<Rightarrow> Some (combineHash c a a) | Some b \<Rightarrow> Some (combineHash c a b)))"

function merkle_loop ::
  "('sig, 'pk) crypto_ops \<Rightarrow> nat \<Rightarrow> nat \<Rightarrow> bytes option list \<Rightarrow> bytes option list" where
  "merkle_loop c i offset merkles =
     (if i < length merkles - 1
      then merkle_loop c (i + 2) (offset + 1) (merkles[offset := merkle_node c (merkles ! i) (merkles ! (i + 1))])
      else merkles)"
  by pat_completeness auto

termination merkle_loop
  by (relation "measure (\<lambda>(c, i, offset, merkles). length merkles - i)") auto

declare merkle_loop.simps [simp del]

text \<open>No hashes at all give an array of negative size, a panic.\<close>

definition BuildMerkleRoot :: "('sig, 'pk) crypto_ops \<Rightarrow> bytes option list \<Rightarrow> bytes option list option" where
  "BuildMerkleRoot c hashs =
     (let leafSize = calcLowestHierarchyCount (length hashs) in
      if leafSize = 0 then None
      else
        (let arraySize = leafSize * 2 - 1;
             merkles = hashs @ replicate (arraySize - length hashs) None
         in Some (merkle_loop c 0 leafSize merkles)))"

section \<open>The tree\<close>

text \<open>The reference: one level above a level of hashes, an odd last hash paired with itself.\<close>

fun next_level :: "('sig, 'pk) crypto_ops \<Rightarrow> bytes list \<Rightarrow> bytes list" where
  "next_level c (a # b # hs) = combineHash c a b # next_level c hs"
| "next_level c [a] = [combineHash c a a]"
| "next_level c [] = []"

lemma length_next_level: "length (next_level c hs) = (length hs + 1) div 2"
  by (induction c hs rule: next_level.induct) auto

function merkle_root :: "('sig, 'pk) crypto_ops \<Rightarrow> bytes list \<Rightarrow> bytes option" where
  "merkle_root c hs =
     (case hs of [] \<Rightarrow> None | [h] \<Rightarrow> Some h | _ \<Rightarrow> merkle_root c (next_level c hs))"
  by pat_completeness auto

termination merkle_root
  by (relation "measure (\<lambda>(c, hs). length hs)") (auto simp: length_next_level)

declare merkle_root.simps [simp del]

section \<open>The array algorithm computes the tree\<close>

text \<open>The same on levels padded with nil.\<close>

definition next_padded :: "('sig, 'pk) crypto_ops \<Rightarrow> bytes option list \<Rightarrow> bytes option list" where
  "next_padded c xs = map (\<lambda>j. merkle_node c (xs ! (2 * j)) (xs ! (2 * j + 1))) [0 ..< length xs div 2]"

lemma length_next_padded [simp]: "length (next_padded c xs) = length xs div 2"
  by (simp add: next_padded_def)

text \<open>The array is filled from the front: the entry for each pair is written before it is read.\<close>

definition loop_inv :: "('sig, 'pk) crypto_ops \<Rightarrow> nat \<Rightarrow> bytes option list \<Rightarrow> nat \<Rightarrow> bytes option list \<Rightarrow> bool" where
  "loop_inv c leaf init j m \<longleftrightarrow> length m = 2 * leaf - 1 \<and> take leaf m = take leaf init \<and>
     (\<forall>k < j. m ! (leaf + k) = merkle_node c (m ! (2 * k)) (m ! (2 * k + 1)))"

lemma loop_inv_step:
  assumes "loop_inv c leaf init j m" and "2 * j < 2 * leaf - 2"
  shows "loop_inv c leaf init (Suc j) (m[leaf + j := merkle_node c (m ! (2 * j)) (m ! (2 * j + 1))])"
proof -
  let ?v = "merkle_node c (m ! (2 * j)) (m ! (2 * j + 1))"
  let ?m = "m[leaf + j := ?v]"
  have len: "leaf + j < length m" using assms by (simp add: loop_inv_def)
  have low: "?m ! (2 * k) = m ! (2 * k)" "?m ! (2 * k + 1) = m ! (2 * k + 1)" if "k \<le> j" for k
    using that assms(2) by simp_all
  have "?m ! (leaf + k) = merkle_node c (?m ! (2 * k)) (?m ! (2 * k + 1))" if "k < Suc j" for k
  proof (cases "k = j")
    case True
    with len low [of j] show ?thesis by simp
  next
    case False
    with that have "k < j" by simp
    then have "?m ! (leaf + k) = m ! (leaf + k)" by simp
    also have "\<dots> = merkle_node c (m ! (2 * k)) (m ! (2 * k + 1))"
      using assms(1) \<open>k < j\<close> by (simp add: loop_inv_def)
    finally show ?thesis using low [of k] \<open>k < j\<close> by simp
  qed
  moreover have "take leaf ?m = take leaf init" using assms(1) by (simp add: loop_inv_def)
  ultimately show ?thesis using assms(1) by (simp add: loop_inv_def)
qed

lemma merkle_loop_inv:
  assumes "loop_inv c leaf init j m" and "j \<le> leaf - 1"
  shows "loop_inv c leaf init (leaf - 1) (merkle_loop c (2 * j) (leaf + j) m)"
  using assms
proof (induction "leaf - 1 - j" arbitrary: j m)
  case 0
  then have "j = leaf - 1" by simp
  moreover from this 0 have "\<not> 2 * j < length m - 1" by (auto simp: loop_inv_def)
  ultimately show ?case using 0 by (subst merkle_loop.simps) simp
next
  case (Suc d)
  then have "2 * j < length m - 1" "2 * j < 2 * leaf - 2" by (auto simp: loop_inv_def)
  moreover from this Suc have
    "loop_inv c leaf init (leaf - 1) (merkle_loop c (2 * Suc j) (leaf + Suc j)
       (m[leaf + j := merkle_node c (m ! (2 * j)) (m ! (2 * j + 1))]))"
    by (intro Suc.hyps(1) loop_inv_step) auto
  ultimately show ?case by (simp add: merkle_loop.simps [of c "2 * j"])
qed

text \<open>Level \<open>t\<close> of the array starts at \<open>2 * leaf - 2 * size\<close> where \<open>size\<close> is its size.\<close>

lemma levels:
  assumes inv: "loop_inv c (2 ^ n) init (2 ^ n - 1) m" and "t \<le> n"
  shows "(next_padded c ^^ t) (take (2 ^ n) init) = take (2 ^ (n - t)) (drop (2 ^ Suc n - 2 * 2 ^ (n - t)) m)"
  using assms(2)
proof (induction t)
  case 0
  then show ?case using inv by (simp add: loop_inv_def)
next
  case (Suc t)
  define sz where "sz = (2 :: nat) ^ (n - Suc t)"
  have sz2: "2 ^ (n - t) = 2 * sz" using Suc.prems by (simp add: sz_def Suc_diff_Suc flip: power_Suc)
  have szn: "2 * sz \<le> 2 ^ n" unfolding sz2 [symmetric] by (simp add: power_increasing)
  have len: "length m = 2 ^ Suc n - 1" using inv by (simp add: loop_inv_def)
  define h where "h = 2 ^ n - 2 * sz"
  define off where "off = 2 * h"
  have h: "2 ^ n = h + 2 * sz" using szn by (simp add: h_def)
  have off2: "2 ^ Suc n - 2 * sz = off + 2 * sz" "off + 4 * sz = 2 ^ Suc n" "2 ^ Suc n - 2 * (2 * sz) = off"
    by (simp_all add: off_def h)
  have half: "2 ^ n + (h + j) = off + 2 * sz + j" for j by (simp add: off_def h)
  have "(next_padded c ^^ Suc t) (take (2 ^ n) init) = next_padded c (take (2 * sz) (drop off m))"
    using Suc off2(3) by (simp add: sz2)
  also have "\<dots> = take sz (drop (off + 2 * sz) m)"
  proof (rule nth_equalityI)
    have pos: "0 < sz" by (simp add: sz_def)
    show eq: "length (next_padded c (take (2 * sz) (drop off m))) = length (take sz (drop (off + 2 * sz) m))"
      using len off2 pos by simp
    fix j
    assume "j < length (next_padded c (take (2 * sz) (drop off m)))"
    then have j: "j < sz" using len off2 pos by simp
    have "h + j < 2 ^ n - 1" using j h by linarith
    then have "m ! (2 ^ n + (h + j)) = merkle_node c (m ! (2 * (h + j))) (m ! (2 * (h + j) + 1))"
      using inv by (simp add: loop_inv_def)
    moreover have "2 * (h + j) = off + 2 * j" by (simp add: off_def)
    ultimately show "next_padded c (take (2 * sz) (drop off m)) ! j = take sz (drop (off + 2 * sz) m) ! j"
      using j half [of j] len off2 by (simp add: next_padded_def)
  qed
  finally show ?case using off2 by (simp add: sz_def)
qed

definition pad :: "nat \<Rightarrow> bytes list \<Rightarrow> bytes option list" where
  "pad k hs = map Some hs @ replicate (k - length hs) None"

lemma length_pad [simp]: "length hs \<le> k \<Longrightarrow> length (pad k hs) = k"
  by (simp add: pad_def)

lemma nth_pad: "i < k \<Longrightarrow> pad k hs ! i = (if i < length hs then Some (hs ! i) else None)"
  by (simp add: pad_def nth_append)

lemma nth_next_level:
  "j < (length hs + 1) div 2 \<Longrightarrow>
     next_level c hs ! j = combineHash c (hs ! (2 * j)) (if 2 * j + 1 < length hs then hs ! (2 * j + 1) else hs ! (2 * j))"
proof (induction c hs arbitrary: j rule: next_level.induct)
  case (1 c a b hs)
  then show ?case by (cases j) auto
qed auto

lemma next_padded_pad:
  assumes "length hs \<le> 2 * k"
  shows "next_padded c (pad (2 * k) hs) = pad k (next_level c hs)"
proof (rule nth_equalityI)
  show "length (next_padded c (pad (2 * k) hs)) = length (pad k (next_level c hs))"
    using assms by (simp add: length_next_level)
  fix j
  assume "j < length (next_padded c (pad (2 * k) hs))"
  then have j: "j < k" using assms by simp
  then have "next_padded c (pad (2 * k) hs) ! j = merkle_node c (pad (2 * k) hs ! (2 * j)) (pad (2 * k) hs ! (2 * j + 1))"
    using assms by (simp add: next_padded_def)
  also have "\<dots> = (if j < (length hs + 1) div 2 then Some (next_level c hs ! j) else None)"
    using j by (auto simp: nth_pad merkle_node_def nth_next_level)
  also have "\<dots> = pad k (next_level c hs) ! j" using j by (simp add: nth_pad length_next_level)
  finally show "next_padded c (pad (2 * k) hs) ! j = pad k (next_level c hs) ! j" .
qed

lemma next_padded_iterate:
  "length hs \<le> 2 ^ n \<Longrightarrow> (next_padded c ^^ n) (pad (2 ^ n) hs) = pad 1 ((next_level c ^^ n) hs)"
proof (induction n arbitrary: hs)
  case (Suc n)
  have "length (next_level c hs) \<le> 2 ^ n" using Suc.prems by (simp add: length_next_level)
  with Suc.IH [of "next_level c hs"] next_padded_pad [of hs "2 ^ n" c] Suc.prems show ?case
    by (simp add: funpow_swap1)
qed simp

lemma merkle_root_iterate:
  "length hs \<le> 2 ^ n \<Longrightarrow> 2 ^ n < 2 * length hs \<Longrightarrow> \<exists>h. (next_level c ^^ n) hs = [h] \<and> merkle_root c hs = Some h"
proof (induction n arbitrary: hs)
  case 0
  then obtain h where "hs = [h]" by (cases hs) auto
  then show ?case by (subst merkle_root.simps) simp
next
  case (Suc n)
  then have "length (next_level c hs) \<le> 2 ^ n" "2 ^ n < 2 * length (next_level c hs)"
    by (auto simp: length_next_level)
  from Suc.IH [OF this] obtain h where
    "(next_level c ^^ n) (next_level c hs) = [h]" "merkle_root c (next_level c hs) = Some h" by blast
  moreover have "merkle_root c hs = merkle_root c (next_level c hs)"
  proof -
    have "(1 :: nat) \<le> 2 ^ n" by simp
    moreover have "2 ^ n < length hs" using Suc.prems(2) by simp
    ultimately have "2 \<le> length hs" by linarith
    then obtain a b xs where "hs = a # b # xs" by (cases hs; cases "tl hs") auto
    then show ?thesis by (subst merkle_root.simps) simp
  qed
  ultimately show ?case by (simp add: funpow_swap1)
qed

lemma log2_floor_bounds: "0 < n \<Longrightarrow> 2 ^ log2_floor n \<le> n \<and> n < 2 * 2 ^ log2_floor n"
proof (induction n rule: log2_floor.induct)
  case (1 n)
  show ?case
  proof (cases "n < 2")
    case True
    with 1 show ?thesis by (simp add: log2_floor.simps [of n])
  next
    case False
    with 1 have "2 ^ log2_floor (n div 2) \<le> n div 2" "n div 2 < 2 * 2 ^ log2_floor (n div 2)" by auto
    with False show ?thesis by (simp add: log2_floor.simps [of n]) linarith
  qed
qed

lemma is_pow2_iff:
  assumes "0 < n"
  shows "is_pow2 n \<longleftrightarrow> n = 2 ^ log2_floor n"
proof
  let ?k = "log2_floor n"
  show "n = 2 ^ ?k" if "is_pow2 n"
  proof (rule ccontr)
    assume "n \<noteq> 2 ^ ?k"
    with log2_floor_bounds [OF assms] have "n div 2 ^ ?k = 1" "(n - 1) div 2 ^ ?k = 1"
      by (auto intro!: div_nat_eqI)
    then have "bit n ?k" "bit (n - 1) ?k" by (simp_all add: bit_iff_odd)
    then have "bit (and n (n - 1)) ?k" by (simp only: bit_and_iff)
    with that assms show False by (simp add: is_pow2_def)
  qed
  have "and (2 ^ k) (mask k) = (0 :: nat)" for k
    by (rule bit_eqI) (auto simp: bit_simps)
  then have "is_pow2 (2 ^ k)" for k by (simp add: is_pow2_def mask_eq_exp_minus_1)
  then show "is_pow2 n" if "n = 2 ^ ?k" by (subst that)
qed

lemma leaf_count:
  assumes "0 < n"
  obtains k where "calcLowestHierarchyCount n = 2 ^ k" "n \<le> 2 ^ k" "2 ^ k < 2 * n"
proof (cases "is_pow2 n")
  case True
  then have "n = 2 ^ log2_floor n" using is_pow2_iff assms by blast
  with True that [of "log2_floor n"] assms show ?thesis by (simp add: calcLowestHierarchyCount_def)
next
  case False
  then have "n \<noteq> 2 ^ log2_floor n" using is_pow2_iff assms by blast
  with log2_floor_bounds [OF assms] False that [of "log2_floor n + 1"] show ?thesis
    by (simp add: calcLowestHierarchyCount_def)
qed

lemma BuildMerkleRoot_eq:
  assumes "hs \<noteq> []"
  obtains m h where "BuildMerkleRoot c (map Some hs) = Some m" "last m = Some h" "merkle_root c hs = Some h"
proof -
  obtain k where k: "calcLowestHierarchyCount (length hs) = 2 ^ k" "length hs \<le> 2 ^ k" "2 ^ k < 2 * length hs"
    using leaf_count [of "length hs"] assms by auto
  define init where "init = map Some hs @ replicate (2 ^ k * 2 - 1 - length hs) None"
  define m where "m = merkle_loop c 0 (2 ^ k) init"
  have "loop_inv c (2 ^ k) init 0 init" using k(2) by (simp add: loop_inv_def init_def)
  from merkle_loop_inv [OF this] have inv: "loop_inv c (2 ^ k) init (2 ^ k - 1) m" by (simp add: m_def)
  have "take (2 ^ k) init = pad (2 ^ k) hs" using k(2) by (simp add: init_def pad_def)
  then have "(next_padded c ^^ k) (pad (2 ^ k) hs) = take 1 (drop (2 ^ Suc k - 2) m)"
    using levels [OF inv order_refl] by simp
  moreover obtain h where h: "(next_level c ^^ k) hs = [h]" "merkle_root c hs = Some h"
    using merkle_root_iterate [OF k(2,3)] by blast
  ultimately have "take 1 (drop (2 ^ Suc k - 2) m) = [Some h]"
    using next_padded_iterate [OF k(2), of c] by (simp add: pad_def)
  moreover have len: "length m = 2 ^ Suc k - 1" using inv by (simp add: loop_inv_def)
  moreover have lt: "2 ^ Suc k - 2 < length m" unfolding len by (simp add: less_diff_conv2)
  ultimately have "m ! (2 ^ Suc k - 2) = Some h" using Cons_nth_drop_Suc [OF lt, symmetric] by simp
  moreover have "length m - 1 = 2 ^ Suc k - 2" using len by simp
  moreover have "m \<noteq> []" using lt by auto
  ultimately have "last m = Some h" using last_conv_nth [of m] by simp
  then show ?thesis using that [of m h] h(2) k(1) by (simp add: BuildMerkleRoot_def Let_def m_def init_def)
qed

lemma next_level_dup: "odd (length hs) \<Longrightarrow> next_level c (hs @ [last hs]) = next_level c hs"
proof (induction c hs rule: next_level.induct)
  case (1 c a b hs)
  then have "hs \<noteq> []" by auto
  with 1 show ?case by simp
qed auto

lemma merkle_root_dup:
  assumes "odd (length hs)" and "length hs \<noteq> 1"
  shows "merkle_root c (hs @ [last hs]) = merkle_root c hs"
proof -
  from assms obtain a b d xs where hs: "hs = a # b # d # xs"
    by (cases hs; cases "tl hs"; cases "tl (tl hs)") auto
  have "merkle_root c (hs @ [last hs]) = merkle_root c (next_level c (hs @ [last hs]))"
    by (subst merkle_root.simps) (simp add: hs)
  also have "\<dots> = merkle_root c (next_level c hs)" by (simp only: next_level_dup [OF assms(1)])
  also have "\<dots> = merkle_root c hs" by (subst (2) merkle_root.simps) (simp add: hs)
  finally show ?thesis .
qed

section \<open>Properties\<close>

text \<open>C34: The array algorithm computes the Merkle tree: for any number of hashes but zero it
  returns an array whose last entry is the root of the recursively defined tree, in which an odd last
  node is paired with itself.\<close>

theorem merkle_array_is_tree:
  assumes "hs \<noteq> []"
  shows "\<exists>m. BuildMerkleRoot c (map Some hs) = Some m \<and> last m = merkle_root c hs \<and> last m \<noteq> None"
  using BuildMerkleRoot_eq [OF assms, of c] by (metis option.discI)

theorem merkle_array_is_tree_witness:
  "\<exists>m. BuildMerkleRoot \<lparr>sha256 = id, ripemd160 = id, parse_sig = (\<lambda>_. Some ()), parse_pubkey = (\<lambda>_. Some ()),
       sig_verify = (\<lambda>_ _ _. True), marshal_tx = (\<lambda>_. None)\<rparr> (map Some [[1], [2], [3]]) = Some m \<and> last m \<noteq> None"
  using merkle_array_is_tree [of "[[1], [2], [3]]"
      "\<lparr>sha256 = id, ripemd160 = id, parse_sig = (\<lambda>_. Some ()), parse_pubkey = (\<lambda>_. Some ()),
       sig_verify = (\<lambda>_ _ _. True), marshal_tx = (\<lambda>_. None)\<rparr>"]
  by auto

text \<open>C35: The Merkle root does not determine the transactions: repeating the last of an odd number
  (at least three) of hashes gives the same root.\<close>

theorem merkle_root_collision:
  assumes "odd (length hs)" and "length hs \<noteq> 1"
  shows "\<exists>m m'. BuildMerkleRoot c (map Some hs) = Some m \<and> BuildMerkleRoot c (map Some (hs @ [last hs])) = Some m' \<and>
    last m = last m'"
proof -
  from assms(1) have "hs \<noteq> []" by auto
  then show ?thesis
    using BuildMerkleRoot_eq [of hs c] BuildMerkleRoot_eq [of "hs @ [last hs]" c] merkle_root_dup [OF assms, of c]
    by (metis append_is_Nil_conv)
qed

theorem merkle_root_collision_witness:
  "\<exists>m m'. BuildMerkleRoot \<lparr>sha256 = id, ripemd160 = id, parse_sig = (\<lambda>_. Some ()), parse_pubkey = (\<lambda>_. Some ()),
       sig_verify = (\<lambda>_ _ _. True), marshal_tx = (\<lambda>_. None)\<rparr> (map Some [[1], [2], [3]]) = Some m \<and>
     BuildMerkleRoot \<lparr>sha256 = id, ripemd160 = id, parse_sig = (\<lambda>_. Some ()), parse_pubkey = (\<lambda>_. Some ()),
       sig_verify = (\<lambda>_ _ _. True), marshal_tx = (\<lambda>_. None)\<rparr> (map Some [[1], [2], [3], [3]]) = Some m' \<and> last m = last m'"
  using merkle_root_collision [of "[[1], [2], [3]]"
      "\<lparr>sha256 = id, ripemd160 = id, parse_sig = (\<lambda>_. Some ()), parse_pubkey = (\<lambda>_. Some ()),
       sig_verify = (\<lambda>_ _ _. True), marshal_tx = (\<lambda>_. None)\<rparr>"]
  by simp

end
