(* ===== verification/Chain_Common.thy ===== *)
theory Chain_Common
  imports Block_Types Merkle Script_Class
begin

text \<open>
  Helpers of the chain package, \<^verbatim>\<open>src/core/chain/common.go\<close>: coinbase and internal contract
  transactions, block subsidies, the transaction root, and the records of the transaction index.
\<close>

definition DuPerBox :: u64 where "DuPerBox = 100000000"
definition TotalSupply :: u64 where "TotalSupply = 3000000000 * DuPerBox"
definition BaseSubsidy :: u64 where "BaseSubsidy = 317000000"
definition SubsidyReductionInterval :: u32 where "SubsidyReductionInterval = 180 * 24 * 3600"

definition isNullOutPoint :: "OutPoint \<Rightarrow> bool" where
  "isNullOutPoint op \<longleftrightarrow> Index op = MaxUint32 \<and> Hash op = ZeroHash"

definition IsInternalContract :: "Transaction \<Rightarrow> bool" where
  "IsInternalContract tx =
     (if length (Vin tx) \<noteq> 1 then False
      else let op = PrevOutPoint (Vin tx ! 0) in Index op = MaxUint32 - 1 \<and> Hash op = ZeroHash)"

definition IsCoinBase :: "Transaction \<Rightarrow> bool" where
  "IsCoinBase tx =
     (if length (Vin tx) \<noteq> 1 then False
      else let op = PrevOutPoint (Vin tx ! 0) in Index op = MaxUint32 \<and> Hash op = ZeroHash)"

definition CalcTxsHash :: "('sig, 'pk) crypto_ops \<Rightarrow> Transaction list \<Rightarrow> bytes option" where
  "CalcTxsHash c txs =
     (case BuildMerkleRoot c (map (\<lambda>tx. fst (TxHash c tx)) txs) of None \<Rightarrow> None | Some m \<Rightarrow> last m)"

definition CalcBlockSubsidy :: "u32 \<Rightarrow> u64" where
  "CalcBlockSubsidy height = drop_bit (unat (height div SubsidyReductionInterval)) BaseSubsidy"

definition CreateCoinbaseTx :: "bytes \<Rightarrow> u32 \<Rightarrow> Transaction" where
  "CreateCoinbaseTx addr blockHeight =
     \<lparr>cached_hash = None, TxTyp = UnknownTx, Version = 1,
      Vin = [\<lparr>PrevOutPoint = NewNullOutPoint, ScriptSig = StandardCoinbaseSignatureScript blockHeight,
              Sequence = MaxUint32\<rparr>],
      Vout = [\<lparr>Value = CalcBlockSubsidy blockHeight, ScriptPubKey = PayToPubKeyHashScript addr\<rparr>],
      Data = None, Magic = 0, LockTime = 0\<rparr>"

definition MarshalTxIndex :: "u32 \<Rightarrow> u32 \<Rightarrow> bytes" where
  "MarshalTxIndex height index = WriteUint32 (WriteUint32 [] height) index"

definition UnmarshalTxIndex :: "bytes \<Rightarrow> read_error + (u32 \<times> u32)" where
  "UnmarshalTxIndex data =
     (case ReadUint32 data of Inl e \<Rightarrow> Inl e | Inr (height, r) \<Rightarrow>
     (case ReadUint32 r of Inl e \<Rightarrow> Inl e | Inr (index, r) \<Rightarrow> Inr (height, index)))"

definition MarshalMissData :: "u32 \<Rightarrow> u32 \<Rightarrow> int \<Rightarrow> bytes" where
  "MarshalMissData height miss ts = WriteInt64 (WriteUint32 (WriteUint32 [] height) miss) ts"

definition UnmarshalMissData :: "bytes \<Rightarrow> read_error + (u32 \<times> u32 \<times> int)" where
  "UnmarshalMissData data =
     (case ReadUint32 data of Inl e \<Rightarrow> Inl e | Inr (height, r) \<Rightarrow>
     (case ReadUint32 r of Inl e \<Rightarrow> Inl e | Inr (miss, r) \<Rightarrow>
     (case ReadInt64 r of Inl e \<Rightarrow> Inl e | Inr (ts, r) \<Rightarrow> Inr (height, miss, ts))))"

section \<open>Laws\<close>

lemma TotalSupply_unat: "unat TotalSupply = 300000000000000000" "TotalSupply = 300000000000000000"
  by (simp_all add: TotalSupply_def DuPerBox_def)

lemma coinbase_not_internal: "IsCoinBase tx \<Longrightarrow> \<not> IsInternalContract tx"
  by (auto simp: IsCoinBase_def IsInternalContract_def Let_def MaxUint32_def split: if_splits)

lemma IsCoinBase_CreateCoinbaseTx [simp]: "IsCoinBase (CreateCoinbaseTx addr h)"
  by (simp add: IsCoinBase_def CreateCoinbaseTx_def NewNullOutPoint_def)

lemma IsCoinBase_iff: "IsCoinBase tx \<longleftrightarrow> (\<exists>i. Vin tx = [i] \<and> isNullOutPoint (PrevOutPoint i))"
  by (cases "Vin tx") (auto simp: IsCoinBase_def isNullOutPoint_def Let_def)

lemma TxIndex_roundtrip: "UnmarshalTxIndex (MarshalTxIndex h i) = Inr (h, i)"
proof -
  have "MarshalTxIndex h i = WriteUint32 [] h @ WriteUint32 [] i"
    by (simp add: MarshalTxIndex_def write_uint_defs)
  then show ?thesis by (simp add: UnmarshalTxIndex_def u32.dec_enc u32.dec_enc_Nil)
qed

lemma MissData_roundtrip:
  assumes "int_range 64 ts"
  shows "UnmarshalMissData (MarshalMissData h m ts) = Inr (h, m, ts)"
proof -
  have "MarshalMissData h m ts = WriteUint32 [] h @ WriteUint32 [] m @ WriteInt64 [] ts"
    by (simp add: MarshalMissData_def write_uint_defs)
  then show ?thesis using assms by (simp add: UnmarshalMissData_def u32.dec_enc i64.dec_enc_Nil)
qed

text \<open>Subsidies never grow with the height.\<close>

lemma CalcBlockSubsidy_le: "unat (CalcBlockSubsidy h) \<le> unat BaseSubsidy"
  by (simp add: CalcBlockSubsidy_def drop_bit_eq_div unat_div div_le_dividend)

lemma CalcBlockSubsidy_mono:
  assumes "h \<le> h'"
  shows "CalcBlockSubsidy h' \<le> CalcBlockSubsidy h"
proof -
  let ?k = "unat (h div SubsidyReductionInterval)" and ?k' = "unat (h' div SubsidyReductionInterval)"
  have "?k \<le> ?k'" using assms by (simp add: unat_div div_le_mono word_le_nat_alt)
  then have "unat BaseSubsidy div 2 ^ ?k' \<le> unat BaseSubsidy div 2 ^ ?k" by (intro div_le_mono2) simp_all
  then show ?thesis
    unfolding CalcBlockSubsidy_def word_le_nat_alt unsigned_drop_bit_eq
    by (simp add: drop_bit_eq_div BaseSubsidy_def)
qed

end
