(* ===== verification/Utxo_Set.thy ===== *)
theory Utxo_Set
  imports Chain_Common Tx_Logic Tx_Compress Db_Keys
begin

text \<open>
  The set of unspent outputs a node works on while it connects or disconnects blocks,
  \<^verbatim>\<open>src/core/chain/utxoset.go\<close>. The Go map of outpoints is an association list with distinct keys;
  a range over the map goes through the list. The state database is read through \<open>StateView\<close>,
  the address of a new contract (\<^verbatim>\<open>CreateAddress\<close>, RLP and Keccak) is a parameter, and the key/value
  store is any provider of \<open>Operations\<close>. When an operation returns an error its callers drop the
  set, so the error carries no set.
\<close>

type_synonym UtxoMap = "(OutPoint \<times> UtxoWrap) list"

record UtxoSet =
  utxoMap :: UtxoMap
  normalTxUtxoSet :: "OutPoint set"
  contractUtxos :: "OutPoint set"

datatype utxo_error =
  ErrTxOutIndexOob | ErrOpReturnVout | ErrContractVout | ErrAddExistingUtxo | ErrExtract script_error
| ErrUtxoNotFound | ErrContractUtxoMissing | ErrUtxoPanic | ErrStorage storage_error | ErrDecode decode_error
| ErrSerialize | ErrLoadBlock | ErrRollbackBalance

definition NewUtxoSet :: UtxoSet where
  "NewUtxoSet = \<lparr>utxoMap = [], normalTxUtxoSet = {}, contractUtxos = {}\<rparr>"

definition NewUtxoSetFromMap :: "UtxoMap \<Rightarrow> UtxoSet" where
  "NewUtxoSetFromMap m = \<lparr>utxoMap = m, normalTxUtxoSet = {}, contractUtxos = {}\<rparr>"

definition GetUtxos :: "UtxoSet \<Rightarrow> UtxoMap" where
  "GetUtxos u = filter (\<lambda>(op, w). \<not> IsSpent w) (utxoMap u)"

definition FindUtxo :: "UtxoSet \<Rightarrow> OutPoint \<Rightarrow> UtxoWrap option" where
  "FindUtxo u op = map_of (utxoMap u) op"

definition GetUtxo :: "UtxoSet \<Rightarrow> OutPoint \<Rightarrow> UtxoWrap option" where
  "GetUtxo u op = map_of (utxoMap u) op"

definition ContractUtxos :: "UtxoSet \<Rightarrow> OutPoint \<Rightarrow> UtxoWrap option" where
  "ContractUtxos u = map_of (utxoMap u) |` contractUtxos u"

definition put_utxo :: "OutPoint \<Rightarrow> UtxoWrap \<Rightarrow> UtxoSet \<Rightarrow> UtxoSet" where
  "put_utxo op w u = u\<lparr>utxoMap := AList.update op w (utxoMap u)\<rparr>"

definition ImportUtxoMap :: "UtxoMap \<Rightarrow> UtxoSet \<Rightarrow> UtxoSet" where
  "ImportUtxoMap m u = fold (\<lambda>(op, w). put_utxo op w) m u"

definition AddUtxo ::
  "('sig, 'pk) crypto_ops \<Rightarrow> Transaction \<Rightarrow> u32 \<Rightarrow> u32 \<Rightarrow> UtxoSet \<Rightarrow> utxo_error + UtxoSet" where
  "AddUtxo c tx txOutIdx blockHeight u =
     (if of_nat (length (Vout tx)) \<le> txOutIdx then Inl ErrTxOutIndexOob
      else
        (let vout = Vout tx ! unat txOutIdx; sc = ScriptPubKey vout in
         if IsOpReturnScript sc then Inl ErrOpReturnVout
         else if IsContractPubkey sc then Inl ErrContractVout
         else case fst (TxHash c tx) of None \<Rightarrow> Inl ErrUtxoPanic | Some txHash \<Rightarrow>
           (let outPoint = \<lparr>Hash = txHash, Index = txOutIdx\<rparr> in
            if FindUtxo u outPoint \<noteq> None then Inl ErrAddExistingUtxo
            else Inr (put_utxo outPoint (NewUtxoWrap (Value vout) sc blockHeight) u))))"

definition SpendUtxo :: "OutPoint \<Rightarrow> UtxoSet \<Rightarrow> UtxoSet" where
  "SpendUtxo op u =
     put_utxo op (Spend (case FindUtxo u op of None \<Rightarrow> empty_UtxoWrap | Some w \<Rightarrow> w)) u"

fun input_amount :: "UtxoSet \<Rightarrow> u64 \<Rightarrow> TxIn list \<Rightarrow> u64" where
  "input_amount u acc [] = acc"
| "input_amount u acc (txIn # ins) =
     (case FindUtxo u (PrevOutPoint txIn) of
        None \<Rightarrow> 0
      | Some utxo \<Rightarrow> if IsSpent utxo then 0 else input_amount u (acc + utxo_value utxo) ins)"

definition TxInputAmount :: "UtxoSet \<Rightarrow> Transaction \<Rightarrow> u64" where
  "TxInputAmount u tx = input_amount u 0 (Vin tx)"

section \<open>Applying transactions\<close>

definition GetContractUtxoFromStateDB :: "StateView \<Rightarrow> bytes \<Rightarrow> UtxoWrap option" where
  "GetContractUtxoFromStateDB sv addr =
     (case sv_utxo sv addr of
        None \<Rightarrow> None
      | Some b \<Rightarrow> (case DeserializeUtxoWrap b of Inl _ \<Rightarrow> None | Inr w \<Rightarrow> Some w))"

definition contract_outpoint :: "bytes option \<Rightarrow> OutPoint" where
  "contract_outpoint addrHash = NewOutPoint (Some (NormalizeAddressHash addrHash)) 0"

text \<open>\<^verbatim>\<open>MakeContractAddress\<close> of a zero sender is a nil address, whose \<^verbatim>\<open>Hash160\<close> is nil.\<close>

definition MakeContractAddress :: "(bytes \<Rightarrow> u64 \<Rightarrow> bytes) \<Rightarrow> Address \<Rightarrow> u64 \<Rightarrow> Address option" where
  "MakeContractAddress create_addr sender nonce =
     (if address_hash sender = ZeroAddressHash then None
      else case NewContractAddressFromHash (create_addr (address_hash sender) nonce) of
        Inl _ \<Rightarrow> None | Inr a \<Rightarrow> Some a)"

text \<open>An output that pays to a public key hash: a new utxo, or value added to that of a contract.\<close>

definition apply_common ::
  "StateView \<Rightarrow> u32 \<Rightarrow> bytes option \<Rightarrow> Transaction \<Rightarrow> u32 \<Rightarrow> TxOut \<Rightarrow> UtxoSet \<Rightarrow> utxo_error + (UtxoSet \<times> Transaction)"
where
  "apply_common statedb blockHeight txHash tx txOutIdx vout u =
     (case ExtractAddress (ScriptPubKey vout) of Inl e \<Rightarrow> Inl (ErrExtract e)
      | Inr None \<Rightarrow> Inl ErrUtxoPanic
      | Inr (Some address) \<Rightarrow>
          if \<not> IsContractAddr statedb (address_hash address) then
            (let outPoint = NewOutPoint txHash txOutIdx in
             if FindUtxo u outPoint \<noteq> None then Inl ErrAddExistingUtxo
             else
               (let u = put_utxo outPoint (NewUtxoWrap (Value vout) (ScriptPubKey vout) blockHeight) u;
                    (typ, tx) = GetTxType tx (Some statedb)
                in Inr (if typ \<noteq> ContractTx
                        then u\<lparr>normalTxUtxoSet := insert outPoint (normalTxUtxoSet u)\<rparr> else u, tx)))
          else if Value vout = 0 then Inr (u, tx)
          else
            (let outPoint = contract_outpoint (Some (address_hash address)) in
             case (case FindUtxo u outPoint of Some w \<Rightarrow> Some w
                   | None \<Rightarrow> GetContractUtxoFromStateDB statedb (address_hash address)) of
               None \<Rightarrow> Inl ErrUtxoNotFound
             | Some w \<Rightarrow> Inr (put_utxo outPoint (SetValue (utxo_value w + Value vout) w) u, tx)))"

text \<open>An output that deploys or calls a contract.\<close>

definition apply_contract ::
  "(bytes \<Rightarrow> u64 \<Rightarrow> bytes) \<Rightarrow> u32 \<Rightarrow> TxOut \<Rightarrow> UtxoSet \<Rightarrow> utxo_error + UtxoSet" where
  "apply_contract create_addr blockHeight vout u =
     (case ParseContractInfo (ScriptPubKey vout) of Inl e \<Rightarrow> Inl (ErrExtract e)
      | Inr (frm, contractAddr, nonce) \<Rightarrow>
          (case contractAddr of
             None \<Rightarrow>
               (let outPoint = contract_outpoint
                      (map_option address_hash (MakeContractAddress create_addr frm nonce));
                    u = put_utxo outPoint (NewUtxoWrap 0 (ScriptPubKey vout) blockHeight) u
                in Inr (u\<lparr>contractUtxos := insert outPoint (contractUtxos u)\<rparr>))
           | Some addr \<Rightarrow>
               (let outPoint = contract_outpoint (Some (address_hash addr)) in
                case FindUtxo u outPoint of None \<Rightarrow> Inl ErrContractUtxoMissing | Some w \<Rightarrow>
                  (let u = put_utxo outPoint (AddValue (Value vout) w) u
                   in Inr (u\<lparr>contractUtxos := insert outPoint (contractUtxos u)\<rparr>)))))"

definition applyUtxo ::
  "('sig, 'pk) crypto_ops \<Rightarrow> (bytes \<Rightarrow> u64 \<Rightarrow> bytes) \<Rightarrow> StateView \<Rightarrow> u32 \<Rightarrow> Transaction \<Rightarrow> u32 \<Rightarrow> UtxoSet \<Rightarrow>
     utxo_error + (UtxoSet \<times> Transaction)" where
  "applyUtxo c create_addr statedb blockHeight tx txOutIdx u =
     (if of_nat (length (Vout tx)) \<le> txOutIdx then Inl ErrTxOutIndexOob
      else
        (let (txHash, tx) = TxHash c tx; vout = Vout tx ! unat txOutIdx in
         if \<not> IsContractPubkey (ScriptPubKey vout)
         then apply_common statedb blockHeight txHash tx txOutIdx vout u
         else map_sum id (\<lambda>u. (u, tx)) (apply_contract create_addr blockHeight vout u)))"

text \<open>
  The loops of \<^verbatim>\<open>applyTx\<close> over the outputs and over the inputs. Both may store the hash and the
  type of the transaction in it.
\<close>

fun apply_outs ::
  "('sig, 'pk) crypto_ops \<Rightarrow> (bytes \<Rightarrow> u64 \<Rightarrow> bytes) \<Rightarrow> StateView \<Rightarrow> u32 \<Rightarrow> nat \<Rightarrow> TxOut list \<Rightarrow>
     UtxoSet \<times> Transaction \<Rightarrow> utxo_error + (UtxoSet \<times> Transaction)" where
  "apply_outs c create_addr statedb blockHeight i [] (u, tx) = Inr (u, tx)"
| "apply_outs c create_addr statedb blockHeight i (txOut # outs) (u, tx) =
     (if IsOpReturnScript (ScriptPubKey txOut)
      then apply_outs c create_addr statedb blockHeight (i + 1) outs (u, tx)
      else case applyUtxo c create_addr statedb blockHeight tx (of_nat i) u of
        Inr r \<Rightarrow> apply_outs c create_addr statedb blockHeight (i + 1) outs r
      | Inl e \<Rightarrow>
          if e = ErrAddExistingUtxo
          then apply_outs c create_addr statedb blockHeight (i + 1) outs (u, snd (TxHash c tx))
          else Inl e)"

fun apply_ins :: "StateView \<Rightarrow> TxIn list \<Rightarrow> UtxoSet \<times> Transaction \<Rightarrow> UtxoSet \<times> Transaction" where
  "apply_ins statedb [] (u, tx) = (u, tx)"
| "apply_ins statedb (txIn # ins) (u, tx) =
     (let u = SpendUtxo (PrevOutPoint txIn) u;
          (typ, tx) = GetTxType tx (Some statedb)
      in apply_ins statedb ins
           (if typ \<noteq> ContractTx
            then u\<lparr>normalTxUtxoSet := insert (PrevOutPoint txIn) (normalTxUtxoSet u)\<rparr> else u, tx))"

definition applyTx ::
  "('sig, 'pk) crypto_ops \<Rightarrow> (bytes \<Rightarrow> u64 \<Rightarrow> bytes) \<Rightarrow> StateView \<Rightarrow> u32 \<Rightarrow> Transaction \<Rightarrow> UtxoSet \<Rightarrow>
     utxo_error + (UtxoSet \<times> Transaction)" where
  "applyTx c create_addr statedb blockHeight tx u =
     (case apply_outs c create_addr statedb blockHeight 0 (Vout tx) (u, tx) of
        Inl e \<Rightarrow> Inl e
      | Inr (u, tx) \<Rightarrow>
          if IsCoinBase tx \<or> IsInternalContract tx then Inr (u, tx)
          else Inr (apply_ins statedb (Vin tx) (u, tx)))"

fun internal_outs :: "bytes option \<Rightarrow> u32 \<Rightarrow> nat \<Rightarrow> TxOut list \<Rightarrow> UtxoSet \<Rightarrow> UtxoSet" where
  "internal_outs txHash height idx [] u = u"
| "internal_outs txHash height idx (vout # outs) u =
     internal_outs txHash height (idx + 1) outs
       (if \<not> IsPayToPubKeyHash (ScriptPubKey vout) then u
        else put_utxo (NewOutPoint txHash (of_nat idx))
               (NewUtxoWrap (Value vout) (ScriptPubKey vout) height) u)"

definition applyInternalTx :: "('sig, 'pk) crypto_ops \<Rightarrow> u32 \<Rightarrow> Transaction \<Rightarrow> UtxoSet \<Rightarrow> UtxoSet" where
  "applyInternalTx c height tx u = internal_outs (fst (TxHash c tx)) height 0 (Vout tx) u"

definition ApplyInternalTxs :: "('sig, 'pk) crypto_ops \<Rightarrow> Block \<Rightarrow> UtxoSet \<Rightarrow> UtxoSet" where
  "ApplyInternalTxs c block u = fold (applyInternalTx c (Height (Header block))) (InternalTxs block) u"

fun apply_txs ::
  "('sig, 'pk) crypto_ops \<Rightarrow> (bytes \<Rightarrow> u64 \<Rightarrow> bytes) \<Rightarrow> StateView \<Rightarrow> u32 \<Rightarrow> Transaction list \<Rightarrow> UtxoSet \<Rightarrow>
     utxo_error + (UtxoSet \<times> Transaction list)" where
  "apply_txs c create_addr statedb height [] u = Inr (u, [])"
| "apply_txs c create_addr statedb height (tx # txs) u =
     (case applyTx c create_addr statedb height tx u of Inl e \<Rightarrow> Inl e | Inr (u, tx) \<Rightarrow>
     (case apply_txs c create_addr statedb height txs u of Inl e \<Rightarrow> Inl e | Inr (u, txs) \<Rightarrow> Inr (u, tx # txs)))"

definition ApplyBlock ::
  "('sig, 'pk) crypto_ops \<Rightarrow> (bytes \<Rightarrow> u64 \<Rightarrow> bytes) \<Rightarrow> StateView \<Rightarrow> Block \<Rightarrow> UtxoSet \<Rightarrow>
     utxo_error + (UtxoSet \<times> Block)" where
  "ApplyBlock c create_addr statedb block u =
     (case apply_txs c create_addr statedb (Height (Header block)) (Txs block) u of
        Inl e \<Rightarrow> Inl e | Inr (u, txs) \<Rightarrow> Inr (u, block\<lparr>Txs := txs\<rparr>))"

section \<open>Reverting transactions\<close>

text \<open>
  \<open>load\<close> is \<^verbatim>\<open>LoadBlockInfoByTxHash\<close>: the block and the transaction with a given hash. A failure of it
  is fatal to the node (\<^verbatim>\<open>logger.Panicf\<close>), as is an index beyond the outputs of the transaction.
\<close>

fun revert_outs :: "bytes option \<Rightarrow> nat \<Rightarrow> TxOut list \<Rightarrow> UtxoSet \<Rightarrow> UtxoSet" where
  "revert_outs txHash i [] u = u"
| "revert_outs txHash i (out # outs) u =
     revert_outs txHash (i + 1) outs
       (if IsOpReturnScript (ScriptPubKey out) \<or> IsContractPubkey (ScriptPubKey out) then u
        else SpendUtxo (NewOutPoint txHash (of_nat i)) u)"

fun revert_ins :: "(bytes \<Rightarrow> (Block \<times> Transaction) option) \<Rightarrow> TxIn list \<Rightarrow> UtxoSet \<Rightarrow> utxo_error + UtxoSet" where
  "revert_ins load [] u = Inr u"
| "revert_ins load (txIn # ins) u =
     (let op = PrevOutPoint txIn in
      if IsContractType op then revert_ins load ins u
      else case FindUtxo u op of
        Some utxoWrap \<Rightarrow> revert_ins load ins (put_utxo op (UnSpend utxoWrap) u)
      | None \<Rightarrow>
          (case load (Hash op) of None \<Rightarrow> Inl ErrLoadBlock
           | Some (block, prevTx) \<Rightarrow>
               if length (Vout prevTx) \<le> unat (Index op) then Inl ErrUtxoPanic
               else
                 (let prevOut = Vout prevTx ! unat (Index op) in
                  if IsOpReturnScript (ScriptPubKey prevOut) then revert_ins load ins u
                  else revert_ins load ins
                    (put_utxo op (NewUtxoWrap (Value prevOut) (ScriptPubKey prevOut) (Height (Header block))) u))))"

definition RevertTx ::
  "('sig, 'pk) crypto_ops \<Rightarrow> (bytes \<Rightarrow> (Block \<times> Transaction) option) \<Rightarrow> Transaction \<Rightarrow> UtxoSet \<Rightarrow>
     utxo_error + UtxoSet" where
  "RevertTx c load tx u =
     (let u = revert_outs (fst (TxHash c tx)) 0 (Vout tx) u in
      if IsCoinBase tx \<or> IsInternalContract tx then Inr u else revert_ins load (Vin tx) u)"

fun revert_txs ::
  "('sig, 'pk) crypto_ops \<Rightarrow> (bytes \<Rightarrow> (Block \<times> Transaction) option) \<Rightarrow> Transaction list \<Rightarrow> UtxoSet \<Rightarrow>
     utxo_error + UtxoSet" where
  "revert_txs c load [] u = Inr u"
| "revert_txs c load (tx # txs) u =
     (case RevertTx c load tx u of Inl e \<Rightarrow> Inl e | Inr u \<Rightarrow> revert_txs c load txs u)"

definition RevertBlock ::
  "('sig, 'pk) crypto_ops \<Rightarrow> (bytes \<Rightarrow> (Block \<times> Transaction) option) \<Rightarrow> Block \<Rightarrow> UtxoSet \<Rightarrow>
     utxo_error + UtxoSet" where
  "RevertBlock c load block u = revert_txs c load (rev (Txs block @ InternalTxs block)) u"

section \<open>Storing and loading\<close>

text \<open>The key under which \<^verbatim>\<open>WriteUtxoSetToDB\<close> lists a utxo for the address that owns it.\<close>

definition addr_utxo_key :: "OutPoint \<Rightarrow> UtxoWrap \<Rightarrow> utxo_error + bytes option" where
  "addr_utxo_key op w =
     (let sc = utxo_script w in
      if sc = [] then
        Inr (if IsContractType op then Some (AddrUtxoKey (BytesToAddressHash (Hash op)) op) else None)
      else if IsOpReturnScript sc then Inl ErrOpReturnVout
      else case ExtractAddress sc of Inl e \<Rightarrow> Inl (ErrExtract e) | Inr addr \<Rightarrow>
        if IsTokenTransfer sc \<or> IsTokenIssue sc then
          (case (if IsTokenTransfer sc then map_sum ErrExtract TokenID (GetTransferParams sc) else Inr op) of
             Inl e \<Rightarrow> Inl e
           | Inr tokenID \<Rightarrow>
               (case addr of None \<Rightarrow> Inl ErrUtxoPanic
                | Some a \<Rightarrow> Inr (Some (AddrTokenUtxoKey (address_hash a) tokenID op))))
        else if \<not> IsContractPubkey sc then
          (case addr of None \<Rightarrow> Inl ErrUtxoPanic | Some a \<Rightarrow> Inr (Some (AddrUtxoKey (address_hash a) op)))
        else Inr (Some (AddrUtxoKey (BytesToAddressHash (Hash op)) op)))"

text \<open>One turn of the loop: the writes that reach the database, or the error that ends the loop.\<close>

definition utxo_writes :: "OutPoint \<Rightarrow> UtxoWrap \<Rightarrow> utxo_error + bop list" where
  "utxo_writes op w =
     (if \<not> IsModified w then Inr []
      else case utxoKey op of None \<Rightarrow> Inl ErrUtxoPanic | Some key \<Rightarrow>
        (case addr_utxo_key op w of Inl e \<Rightarrow> Inl e | Inr addrUtxoKey \<Rightarrow>
           if IsSpent w then
             Inr (OpDel key # (case addrUtxoKey of None \<Rightarrow> [] | Some k \<Rightarrow> [OpDel k]))
           else case SerializeUtxoWrap w of Inl e \<Rightarrow> Inl (ErrDecode e) | Inr serialized \<Rightarrow>
             (let v = (case serialized of None \<Rightarrow> [] | Some v \<Rightarrow> v)
              in Inr (OpPut key v # (case addrUtxoKey of None \<Rightarrow> [] | Some k \<Rightarrow> [OpPut k v])))))"

fun do_writes :: "'s Operations \<Rightarrow> bop list \<Rightarrow> 's \<Rightarrow> 's" where
  "do_writes ops [] s = s"
| "do_writes ops (OpPut k v # bs) s = do_writes ops bs (op_Put ops k v s)"
| "do_writes ops (OpDel k # bs) s = do_writes ops bs (op_Del ops k s)"

fun write_utxos :: "'s Operations \<Rightarrow> UtxoMap \<Rightarrow> 's \<Rightarrow> utxo_error option \<times> 's" where
  "write_utxos ops [] s = (None, s)"
| "write_utxos ops ((op, w) # m) s =
     (case utxo_writes op w of Inl e \<Rightarrow> (Some e, s) | Inr bs \<Rightarrow> write_utxos ops m (do_writes ops bs s))"

definition WriteUtxoSetToDB :: "'s Operations \<Rightarrow> UtxoSet \<Rightarrow> 's \<Rightarrow> utxo_error option \<times> 's" where
  "WriteUtxoSetToDB ops u s = write_utxos ops (utxoMap u) s"

definition fetchUtxoWrapFromDB :: "'s Operations \<Rightarrow> 's \<Rightarrow> OutPoint \<Rightarrow> utxo_error + UtxoWrap option" where
  "fetchUtxoWrapFromDB ops s op =
     (case utxoKey op of None \<Rightarrow> Inl ErrUtxoPanic | Some key \<Rightarrow>
     (case op_Get ops key s of
        Inl e \<Rightarrow> Inl (ErrStorage e)
      | Inr None \<Rightarrow> Inr None
      | Inr (Some b) \<Rightarrow>
          (case DeserializeUtxoWrap b of Inl e \<Rightarrow> Inl (ErrDecode e) | Inr w \<Rightarrow> Inr (Some w))))"

text \<open>What was fetched before an error stays in the set.\<close>

fun fetchUtxosFromOutPointSet ::
  "'s Operations \<Rightarrow> 's \<Rightarrow> OutPoint list \<Rightarrow> UtxoSet \<Rightarrow> utxo_error option \<times> UtxoSet" where
  "fetchUtxosFromOutPointSet ops s [] u = (None, u)"
| "fetchUtxosFromOutPointSet ops s (op # os) u =
     (case fetchUtxoWrapFromDB ops s op of Inl e \<Rightarrow> (Some e, u) | Inr entry \<Rightarrow>
        fetchUtxosFromOutPointSet ops s os (case entry of None \<Rightarrow> u | Some w \<Rightarrow> put_utxo op w u))"

definition LoadTxUtxos :: "'s Operations \<Rightarrow> 's \<Rightarrow> Transaction \<Rightarrow> UtxoSet \<Rightarrow> utxo_error option \<times> UtxoSet" where
  "LoadTxUtxos ops s tx u =
     (if IsCoinBase tx \<or> IsInternalContract tx then (None, u)
      else fetchUtxosFromOutPointSet ops s (remdups (map PrevOutPoint (Vin tx))) u)"

text \<open>\<open>spendable\<close> is the lookup in the pool's map of transactions, with the height of each.\<close>

fun extend_utxos ::
  "('sig, 'pk) crypto_ops \<Rightarrow> (bytes \<Rightarrow> (Transaction \<times> u32) option) \<Rightarrow> TxIn list \<Rightarrow> UtxoSet \<Rightarrow> UtxoSet" where
  "extend_utxos c spendable [] u = u"
| "extend_utxos c spendable (txIn # ins) u =
     extend_utxos c spendable ins
       (case FindUtxo u (PrevOutPoint txIn) of
          Some utxo \<Rightarrow>
            if \<not> IsSpent utxo then u
            else (case spendable (Hash (PrevOutPoint txIn)) of None \<Rightarrow> u | Some (t, h) \<Rightarrow>
                    (case AddUtxo c t (Index (PrevOutPoint txIn)) h u of Inl _ \<Rightarrow> u | Inr u \<Rightarrow> u))
        | None \<Rightarrow>
            (case spendable (Hash (PrevOutPoint txIn)) of None \<Rightarrow> u | Some (t, h) \<Rightarrow>
              (case AddUtxo c t (Index (PrevOutPoint txIn)) h u of Inl _ \<Rightarrow> u | Inr u \<Rightarrow> u)))"

definition GetExtendedTxUtxoSet ::
  "('sig, 'pk) crypto_ops \<Rightarrow> 's Operations \<Rightarrow> 's \<Rightarrow> (bytes \<Rightarrow> (Transaction \<times> u32) option) \<Rightarrow> Transaction \<Rightarrow>
     utxo_error + UtxoSet" where
  "GetExtendedTxUtxoSet c ops s spendable tx =
     (case LoadTxUtxos ops s tx NewUtxoSet of
        (Some e, _) \<Rightarrow> Inl e
      | (None, u) \<Rightarrow> Inr (extend_utxos c spendable (Vin tx) u))"

text \<open>The index of the last transaction with a given hash, as the Go map keeps it.\<close>

definition tx_indices :: "('sig, 'pk) crypto_ops \<Rightarrow> Transaction list \<Rightarrow> (bytes \<times> nat) list" where
  "tx_indices c txs = rev (zip (map (\<lambda>tx. the (fst (TxHash c tx))) txs) [0..<length txs])"

fun load_ins ::
  "('sig, 'pk) crypto_ops \<Rightarrow> bool \<Rightarrow> Block \<Rightarrow> nat \<Rightarrow> TxIn list \<Rightarrow> UtxoSet \<times> OutPoint list \<Rightarrow>
     UtxoSet \<times> OutPoint list" where
  "load_ins c needContract block i [] (u, fetch) = (u, fetch)"
| "load_ins c needContract block i (txIn # ins) (u, fetch) =
     load_ins c needContract block i ins
       (let op = PrevOutPoint txIn in
        if \<not> needContract \<and> IsContractType op then (u, fetch)
        else case map_of (tx_indices c (Txs block)) (Hash op) of
          Some index \<Rightarrow>
            if index \<le> i then
              (case AddUtxo c (Txs block ! index) (Index op) (Height (Header block)) u of
                 Inl _ \<Rightarrow> (u, fetch) | Inr u \<Rightarrow> (u, fetch))
            else if FindUtxo u op \<noteq> None then (u, fetch) else (u, List.insert op fetch)
        | None \<Rightarrow> if FindUtxo u op \<noteq> None then (u, fetch) else (u, List.insert op fetch))"

fun load_outs :: "StateView \<Rightarrow> TxOut list \<Rightarrow> OutPoint list \<Rightarrow> utxo_error + OutPoint list" where
  "load_outs statedb [] fetch = Inr fetch"
| "load_outs statedb (txOut # outs) fetch =
     (let sc = ScriptPubKey txOut in
      case (if IsContractPubkey sc then map_sum ErrExtract (map_option address_hash) (ParseContractAddr sc)
            else if IsPayToPubKeyHash sc then
              (case ExtractAddress sc of
                 Inr (Some a) \<Rightarrow>
                   Inr (if IsContractAddr statedb (address_hash a) then Some (address_hash a) else None)
               | _ \<Rightarrow> Inl ErrUtxoPanic)
            else Inr None) of
        Inl e \<Rightarrow> Inl e
      | Inr addr \<Rightarrow>
          load_outs statedb outs
            (case addr of None \<Rightarrow> fetch | Some a \<Rightarrow> List.insert (contract_outpoint (Some a)) fetch))"

fun load_txs ::
  "('sig, 'pk) crypto_ops \<Rightarrow> StateView \<Rightarrow> bool \<Rightarrow> Block \<Rightarrow> nat \<Rightarrow> Transaction list \<Rightarrow> UtxoSet \<times> OutPoint list \<Rightarrow>
     utxo_error option \<times> UtxoSet \<times> OutPoint list" where
  "load_txs c statedb needContract block i [] st = (None, st)"
| "load_txs c statedb needContract block i (tx # txs) st =
     (let (u, fetch) = (if 0 < i then load_ins c needContract block i (Vin tx) st else st) in
      if 0 < i \<and> \<not> needContract then load_txs c statedb needContract block (i + 1) txs (u, fetch)
      else case load_outs statedb (Vout tx) fetch of
        Inl e \<Rightarrow> (Some e, u, fetch)
      | Inr fetch \<Rightarrow> load_txs c statedb needContract block (i + 1) txs (u, fetch))"

definition LoadBlockUtxos ::
  "('sig, 'pk) crypto_ops \<Rightarrow> 's Operations \<Rightarrow> 's \<Rightarrow> StateView \<Rightarrow> bool \<Rightarrow> Block \<Rightarrow> UtxoSet \<Rightarrow>
     utxo_error option \<times> UtxoSet" where
  "LoadBlockUtxos c ops s statedb needContract block u =
     (if \<exists>tx\<in>set (Txs block). fst (TxHash c tx) = None then (Some ErrUtxoPanic, u)
      else case load_txs c statedb needContract block 0 (Txs block) (u, []) of
        (Some e, u, _) \<Rightarrow> (Some e, u)
      | (None, u, fetch) \<Rightarrow> fetchUtxosFromOutPointSet ops s fetch u)"

fun all_outs :: "bool \<Rightarrow> bytes \<Rightarrow> nat \<Rightarrow> TxOut list \<Rightarrow> OutPoint list \<Rightarrow> OutPoint list" where
  "all_outs needContract h idx [] fetch = fetch"
| "all_outs needContract h idx (out # outs) fetch =
     all_outs needContract h (idx + 1) outs
       (if IsOpReturnScript (ScriptPubKey out) then fetch
        else if \<not> needContract \<and> IsContractPubkey (ScriptPubKey out) then fetch
        else List.insert \<lparr>Hash = h, Index = of_nat idx\<rparr> fetch)"

text \<open>The error of the first step is dropped.\<close>

definition LoadBlockAllUtxos ::
  "('sig, 'pk) crypto_ops \<Rightarrow> 's Operations \<Rightarrow> 's \<Rightarrow> StateView \<Rightarrow> bool \<Rightarrow> Block \<Rightarrow> UtxoSet \<Rightarrow>
     utxo_error option \<times> UtxoSet" where
  "LoadBlockAllUtxos c ops s statedb needContract block u =
     (let (_, u) = LoadBlockUtxos c ops s statedb needContract block u;
          txs = Txs block @ InternalTxs block
      in if \<exists>tx\<in>set txs. fst (TxHash c tx) = None then (Some ErrUtxoPanic, u)
         else fetchUtxosFromOutPointSet ops s
           (fold (\<lambda>tx. all_outs needContract (the (fst (TxHash c tx))) 0 (Vout tx)) txs []) u)"

definition FetchOutPointOwner :: "OutPoint \<Rightarrow> UtxoSet \<Rightarrow> utxo_error + Address option" where
  "FetchOutPointOwner op u =
     (case FindUtxo u op of None \<Rightarrow> Inl ErrUtxoNotFound | Some w \<Rightarrow>
     (case ExtractAddress (utxo_script w) of Inl e \<Rightarrow> Inl (ErrExtract e) | Inr a \<Rightarrow> Inr a))"

section \<open>Balance changes\<close>

type_synonym BalanceChangeMap = "(bytes \<times> u64) list"

definition add_change :: "bytes \<Rightarrow> u64 \<Rightarrow> BalanceChangeMap \<Rightarrow> BalanceChangeMap" where
  "add_change a v m = AList.update a ((case map_of m a of None \<Rightarrow> 0 | Some x \<Rightarrow> x) + v) m"

definition p2pkh_owner :: "bytes \<Rightarrow> bytes option" where
  "p2pkh_owner sc =
     (if \<not> IsPayToPubKeyHash sc then None
      else case ExtractAddress sc of Inr (Some a) \<Rightarrow> Some (address_hash a) | _ \<Rightarrow> None)"

definition calcNormalTxBalanceChanges :: "Block \<Rightarrow> UtxoSet \<Rightarrow> BalanceChangeMap \<times> BalanceChangeMap" where
  "calcNormalTxBalanceChanges block u =
     (let add = fold (\<lambda>tx add.
            if TxTyp tx = ContractTx then add
            else fold (\<lambda>vout add.
                   case p2pkh_owner (ScriptPubKey vout) of
                     None \<Rightarrow> add | Some a \<Rightarrow> add_change a (Value vout) add) (Vout tx) add) (Txs block) [];
          sub = fold (\<lambda>(op, w) sub.
            if op \<notin> normalTxUtxoSet u then sub
            else case p2pkh_owner (utxo_script w) of None \<Rightarrow> sub
              | Some a \<Rightarrow> if IsSpent w then add_change a (utxo_value w) sub else sub) (utxoMap u) []
      in (add, sub))"

text \<open>A state that could not be opened is a nil pointer: reading it panics.\<close>

fun contract_credits ::
  "(bytes \<Rightarrow> u64 \<Rightarrow> bytes) \<Rightarrow> StateView option \<Rightarrow> TxOut list \<Rightarrow> BalanceChangeMap \<Rightarrow> utxo_error + BalanceChangeMap"
where
  "contract_credits create_addr statedb [] add = Inr add"
| "contract_credits create_addr statedb (vout # outs) add =
     (let sc = ScriptPubKey vout in
      if \<not> IsContractPubkey sc then
        (case p2pkh_owner sc of None \<Rightarrow> contract_credits create_addr statedb outs add
         | Some a \<Rightarrow>
             (case statedb of None \<Rightarrow> Inl ErrUtxoPanic
              | Some sv \<Rightarrow>
                  contract_credits create_addr statedb outs (if sv_code sv a \<noteq> [] then add_change a (Value vout) add else add)))
      else case ParseContractParams sc of Inl e \<Rightarrow> Inl (ErrExtract e) | Inr (param, t) \<Rightarrow>
        (if t = ContractCreationType then
           (case MakeContractAddress create_addr (AddressPubKeyHash (From param)) (Nonce param) of
              None \<Rightarrow> Inl ErrUtxoPanic
            | Some a \<Rightarrow> contract_credits create_addr statedb outs (add_change (address_hash a) (Value vout) add))
         else contract_credits create_addr statedb outs (add_change (To param) (Value vout) add)))"

fun block_credits ::
  "(bytes \<Rightarrow> u64 \<Rightarrow> bytes) \<Rightarrow> StateView option \<Rightarrow> Transaction list \<Rightarrow> BalanceChangeMap \<Rightarrow> utxo_error + BalanceChangeMap"
where
  "block_credits create_addr statedb [] add = Inr add"
| "block_credits create_addr statedb (tx # txs) add =
     (case contract_credits create_addr statedb (Vout tx) add of
        Inl e \<Rightarrow> Inl e | Inr add \<Rightarrow> block_credits create_addr statedb txs add)"

fun block_debits :: "Transaction list \<Rightarrow> BalanceChangeMap \<Rightarrow> utxo_error + BalanceChangeMap" where
  "block_debits [] sub = Inr sub"
| "block_debits (tx # txs) sub =
     (case Vin tx of [] \<Rightarrow> Inl ErrUtxoPanic
      | txIn # _ \<Rightarrow>
          if \<not> IsContractType (PrevOutPoint txIn) then block_debits txs sub
          else block_debits txs
            (add_change (BytesToAddressHash (Hash (PrevOutPoint txIn))) (OutputAmount tx) sub))"

definition calcContractAddrBalanceChanges ::
  "(bytes \<Rightarrow> u64 \<Rightarrow> bytes) \<Rightarrow> StateView option \<Rightarrow> Block \<Rightarrow> utxo_error + (BalanceChangeMap \<times> BalanceChangeMap)" where
  "calcContractAddrBalanceChanges create_addr statedb block =
     (case block_credits create_addr statedb (Txs block) [] of Inl e \<Rightarrow> Inl e | Inr add \<Rightarrow>
     (case block_debits (InternalTxs block) [] of Inl e \<Rightarrow> Inl e | Inr sub \<Rightarrow> Inr (add, sub)))"

text \<open>
  The utxos of contract addresses before a block is connected. A state database opened at two roots
  (\<^verbatim>\<open>state.New\<close>, which may fail) is read through \<open>RollbackState\<close>; opening it and loading a block from the
  table are arguments. The error of opening the state of the block itself is dropped by the code.
\<close>

record RollbackState =
  rb_view :: StateView
  rb_balance :: "bytes \<Rightarrow> u64"
  rb_GetUtxo :: "bytes \<Rightarrow> storage_error + bytes option"

definition rollback_entry ::
  "RollbackState option \<Rightarrow> RollbackState \<Rightarrow> u32 \<Rightarrow> (u64 \<Rightarrow> u64) \<Rightarrow> bytes \<Rightarrow> UtxoMap \<Rightarrow> utxo_error + UtxoMap" where
  "rollback_entry stateDB prevStateDB height change a um =
     (let op = contract_outpoint (Some a) in
      case map_of um op of
        Some utxo \<Rightarrow> Inr (AList.update op (SetValue (change (utxo_value utxo)) utxo) um)
      | None \<Rightarrow>
          (case stateDB of None \<Rightarrow> Inl ErrUtxoPanic
           | Some st \<Rightarrow>
               (case MakeContractScriptPubkey (Some ZeroAddressHash) (Some a) TransferGasLimit (sv_nonce (rb_view prevStateDB) a) VMVersion of
                  Inl _ \<Rightarrow> Inl ErrUtxoPanic
                | Inr sc \<Rightarrow>
                    (let utxo = NewUtxoWrap (rb_balance st a) sc height
                     in Inr (AList.update op (SetValue (change (utxo_value utxo)) utxo) um)))))"

fun rollback_entries ::
  "RollbackState option \<Rightarrow> RollbackState \<Rightarrow> u32 \<Rightarrow> (u64 \<Rightarrow> u64 \<Rightarrow> u64) \<Rightarrow> BalanceChangeMap \<Rightarrow> UtxoMap \<Rightarrow> utxo_error + UtxoMap"
where
  "rollback_entries stateDB prevStateDB height change [] um = Inr um"
| "rollback_entries stateDB prevStateDB height change ((a, v) # bs) um =
     (case rollback_entry stateDB prevStateDB height (\<lambda>x. change x v) a um of
        Inl e \<Rightarrow> Inl e | Inr um \<Rightarrow> rollback_entries stateDB prevStateDB height change bs um)"

fun rollback_check :: "RollbackState \<Rightarrow> UtxoMap \<Rightarrow> utxo_error + UtxoMap" where
  "rollback_check prevStateDB [] = Inr []"
| "rollback_check prevStateDB ((op, w) # um) =
     (let ah = BytesToAddressHash (Hash op) in
      if rb_balance prevStateDB ah \<noteq> utxo_value w then Inl ErrRollbackBalance
      else case rb_GetUtxo prevStateDB ah of
        Inl e \<Rightarrow> Inl (ErrStorage e)
      | Inr utxoBytes \<Rightarrow>
          (case (case utxoBytes of None \<Rightarrow> Inr (Spend w)
                 | Some b \<Rightarrow> map_sum ErrDecode id (DeserializeUtxoWrap b)) of
             Inl e \<Rightarrow> Inl e
           | Inr w' \<Rightarrow>
               (case rollback_check prevStateDB um of Inl e \<Rightarrow> Inl e | Inr um \<Rightarrow> Inr ((op, w') # um))))"

definition MakeRollbackContractUtxos ::
  "(bytes \<Rightarrow> u64 \<Rightarrow> bytes) \<Rightarrow> (bytes \<Rightarrow> bytes \<Rightarrow> utxo_error + RollbackState) \<Rightarrow> (bytes \<Rightarrow> utxo_error + Block) \<Rightarrow>
     Block \<Rightarrow> utxo_error + UtxoMap" where
  "MakeRollbackContractUtxos create_addr state_New LoadBlockByHash block =
     (let header = Header block;
          stateDB = (case state_New (RootHash header) (UtxoRoot header) of Inl _ \<Rightarrow> None | Inr st \<Rightarrow> Some st) in
      case LoadBlockByHash (PrevBlockHash header) of Inl e \<Rightarrow> Inl e | Inr prevBlock \<Rightarrow>
      (case state_New (RootHash (Header prevBlock)) (UtxoRoot (Header prevBlock)) of Inl e \<Rightarrow> Inl e | Inr prevStateDB \<Rightarrow>
      (case calcContractAddrBalanceChanges create_addr (map_option rb_view stateDB) block of Inl e \<Rightarrow> Inl e | Inr (bAdd, bSub) \<Rightarrow>
      (case rollback_entries stateDB prevStateDB (Height header) (\<lambda>x v. x - v) bAdd [] of Inl e \<Rightarrow> Inl e | Inr um \<Rightarrow>
      (case rollback_entries stateDB prevStateDB (Height header) (\<lambda>x v. x + v) bSub um of Inl e \<Rightarrow> Inl e | Inr um \<Rightarrow>
        rollback_check prevStateDB um)))))"

section \<open>Laws of the set\<close>

definition utxo_wf :: "UtxoSet \<Rightarrow> bool" where
  "utxo_wf u \<longleftrightarrow> distinct (map fst (utxoMap u))"

lemma FindUtxo_put [simp]: "FindUtxo (put_utxo op w u) = (FindUtxo u)(op \<mapsto> w)"
  by (simp add: FindUtxo_def put_utxo_def update_conv' fun_eq_iff)

lemma FindUtxo_more [simp]:
  "FindUtxo (u\<lparr>normalTxUtxoSet := s\<rparr>) = FindUtxo u" "FindUtxo (u\<lparr>contractUtxos := s\<rparr>) = FindUtxo u"
  by (simp_all add: FindUtxo_def fun_eq_iff)

lemma FindUtxo_Spend [simp]:
  "FindUtxo (SpendUtxo op u) =
     (FindUtxo u)(op \<mapsto> Spend (case FindUtxo u op of None \<Rightarrow> empty_UtxoWrap | Some w \<Rightarrow> w))"
  by (simp add: SpendUtxo_def)

lemma FindUtxo_New [simp]: "FindUtxo NewUtxoSet op = None"
  by (simp add: FindUtxo_def NewUtxoSet_def)

lemma utxo_wf_New [simp]: "utxo_wf NewUtxoSet"
  by (simp add: utxo_wf_def NewUtxoSet_def)

lemma utxo_wf_put [simp]: "utxo_wf u \<Longrightarrow> utxo_wf (put_utxo op w u)"
  by (simp add: utxo_wf_def put_utxo_def distinct_update)

lemma utxo_wf_more [simp]:
  "utxo_wf (u\<lparr>normalTxUtxoSet := s\<rparr>) = utxo_wf u" "utxo_wf (u\<lparr>contractUtxos := s\<rparr>) = utxo_wf u"
  by (simp_all add: utxo_wf_def)

lemma utxo_wf_Spend [simp]: "utxo_wf u \<Longrightarrow> utxo_wf (SpendUtxo op u)"
  by (simp add: SpendUtxo_def)

section \<open>The database form of the set\<close>

lemma NewAddress_wf:
  "NewAddressPubKeyHash h = Inr a \<Longrightarrow> addr_wf (address_hash a)"
  "NewSplitAddressFromHash h = Inr a \<Longrightarrow> addr_wf (address_hash a)"
  "NewContractAddressFromHash h = Inr a \<Longrightarrow> addr_wf (address_hash a)"
  by (auto simp: NewAddressPubKeyHash_def NewSplitAddressFromHash_def NewContractAddressFromHash_def addr_wf_def
      ZeroAddressHash_def split: if_splits)

lemma map_sum_Inr: "map_sum f g x = Inr y \<longleftrightarrow> (\<exists>z. x = Inr z \<and> y = g z)"
  by (cases x) auto

lemma ParseContractAddr_wf: "ParseContractAddr s = Inr (Some a) \<Longrightarrow> addr_wf (address_hash a)"
  by (auto simp: ParseContractAddr_def map_sum_Inr dest: NewAddress_wf split: prod.splits option.splits if_splits)

lemma address_at_wf:
  assumes "\<And>h a. new h = Inr a \<Longrightarrow> addr_wf (address_hash a)"
    and "(case r of (_, _, _, Some err) \<Rightarrow> Inl err | (_, d, _, None) \<Rightarrow> map_sum id Some (new (operand_bytes d))) = Inr (Some a)"
  shows "addr_wf (address_hash a)"
  using assms by (auto simp: map_sum_Inr split: prod.splits option.splits)

lemma ExtractAddress_wf: "ExtractAddress s = Inr (Some a) \<Longrightarrow> addr_wf (address_hash a)"
  unfolding ExtractAddress_def Let_def
  by (cases "pubkType s") (auto intro: address_at_wf NewAddress_wf ParseContractAddr_wf)

lemma GetTransferParams_wf: "GetTransferParams s = Inr v \<Longrightarrow> hash_wf (Hash (TokenID v))"
  by (auto simp: GetTransferParams_def hash_wf_def HashSize_def split: prod.splits option.splits if_splits)

lemma BytesToAddressHash_wf: "addr_wf (BytesToAddressHash b)"
  by (simp add: BytesToAddressHash_def addr_SetBytes_def Let_def size_defs)

lemma wf_not_Nil: "addr_wf a \<Longrightarrow> a \<noteq> []" "hash_wf h \<Longrightarrow> h \<noteq> []"
  by (auto simp: key_sizes)

lemma addr_utxo_key_cases:
  assumes "hash_wf (Hash op)" and "addr_utxo_key op w = Inr (Some k)"
  shows "(\<exists>a. addr_wf a \<and> k = AddrUtxoKey a op) \<or>
      (\<exists>a tid. addr_wf a \<and> hash_wf (Hash tid) \<and> k = AddrTokenUtxoKey a tid op)"
proof (cases "utxo_script w = []")
  case True
  with assms show ?thesis
    by (auto simp: addr_utxo_key_def intro: BytesToAddressHash_wf split: if_splits)
next
  case False
  let ?sc = "utxo_script w"
  from False assms(2) obtain addr where addr: "ExtractAddress ?sc = Inr addr" and "\<not> IsOpReturnScript ?sc"
    by (cases "ExtractAddress ?sc") (simp_all add: addr_utxo_key_def Let_def split: if_splits)
  with False assms(2) have eq: "(if IsTokenTransfer ?sc \<or> IsTokenIssue ?sc then
          (case (if IsTokenTransfer ?sc then map_sum ErrExtract TokenID (GetTransferParams ?sc) else Inr op) of
             Inl e \<Rightarrow> Inl e
           | Inr tokenID \<Rightarrow>
               (case addr of None \<Rightarrow> Inl ErrUtxoPanic
                | Some a \<Rightarrow> Inr (Some (AddrTokenUtxoKey (address_hash a) tokenID op))))
        else if \<not> IsContractPubkey ?sc then
          (case addr of None \<Rightarrow> Inl ErrUtxoPanic | Some a \<Rightarrow> Inr (Some (AddrUtxoKey (address_hash a) op)))
        else Inr (Some (AddrUtxoKey (BytesToAddressHash (Hash op)) op))) = Inr (Some k)"
    by (simp add: addr_utxo_key_def Let_def split del: if_split)
  show ?thesis
  proof (cases "IsTokenTransfer ?sc \<or> IsTokenIssue ?sc")
    case True
    with eq obtain a tid where "addr = Some a" "k = AddrTokenUtxoKey (address_hash a) tid op"
      and "(if IsTokenTransfer ?sc then map_sum ErrExtract TokenID (GetTransferParams ?sc) else Inr op) = Inr tid"
      by (auto split: sum.splits option.splits)
    with addr assms(1) show ?thesis
      by (auto simp: map_sum_Inr intro: ExtractAddress_wf dest: GetTransferParams_wf split: if_splits)
  next
    case False
    with eq addr show ?thesis
      by (auto intro: ExtractAddress_wf BytesToAddressHash_wf split: if_splits option.splits)
  qed
qed

lemma addr_utxo_key_form:
  assumes "hash_wf (Hash op)" and "addr_utxo_key op w = Inr (Some k)"
  shows "\<exists>ps. list_all elem_ok ps \<and> k = ascii (key_of (ps @ [hash_String (Hash op), hex_nat (unat (Index op))]))"
proof -
  note ne = wf_not_Nil(2) [OF assms(1)]
  have plain: "\<exists>ps. list_all elem_ok ps \<and> AddrUtxoKey a op =
      ascii (key_of (ps @ [hash_String (Hash op), hex_nat (unat (Index op))]))" if "addr_wf a" for a
    using ne wf_not_Nil(1) [OF that] by (intro exI [of _ "[''aut'', Hex a]"]) (simp add: addr_keys del: key_of_simps)
  have token: "\<exists>ps. list_all elem_ok ps \<and> AddrTokenUtxoKey a tid op =
      ascii (key_of (ps @ [hash_String (Hash op), hex_nat (unat (Index op))]))"
    if "addr_wf a" "hash_wf (Hash tid)" for a tid
    using ne wf_not_Nil(1) [OF that(1)] wf_not_Nil(2) [OF that(2)]
    by (intro exI [of _ "[''atut'', Hex a, hash_String (Hash tid), hex_nat (unat (Index tid))]"])
      (simp add: addr_keys del: key_of_simps)
  from addr_utxo_key_cases [OF assms]
  show ?thesis using plain token by blast
qed

lemma addr_utxo_key_inj:
  assumes "hash_wf (Hash op)" "hash_wf (Hash op')"
    and "addr_utxo_key op w = Inr (Some k)" "addr_utxo_key op' w' = Inr (Some k)"
  shows "op = op'"
proof -
  let ?e = "\<lambda>op. [hash_String (Hash op), hex_nat (unat (Index op))]"
  from addr_utxo_key_form assms obtain ps qs where "list_all elem_ok ps" "list_all elem_ok qs"
    and "key_of (ps @ ?e op) = key_of (qs @ ?e op')" by (metis ascii_inj)
  then have "ps @ ?e op = qs @ ?e op'"
    using assms(1,2) by (subst (asm) key_of_inj) (simp_all add: wf_not_Nil)
  then show ?thesis by (simp add: append_eq_append_conv hex_nat_inj OutPoint_eq_iff)
qed

definition ukey :: "OutPoint \<Rightarrow> bytes" where
  "ukey op = Hash op @ vlq (ucast (Index op))"

lemma utxoKey_ukey: "hash_wf (Hash op) \<Longrightarrow> utxoKey op = Some (ukey op)"
  by (simp add: utxoKey_eq ukey_def)

lemma ukey_inj: "hash_wf (Hash op) \<Longrightarrow> hash_wf (Hash op') \<Longrightarrow> ukey op = ukey op' \<longleftrightarrow> op = op'"
  using utxoKey_injective [of op op'] by (auto simp: utxoKey_ukey)

lemma ukey_not_addr:
  assumes "hash_wf (Hash op)" "hash_wf (Hash op')" and "addr_utxo_key op w = Inr (Some k)"
  shows "k \<noteq> ukey op'"
proof -
  have "64 \<le> length k" using addr_utxo_key_form [OF assms(1,3)] assms(1) by (auto simp: key_sizes)
  moreover have "length (ukey op') \<le> 42"
    using assms(2) length_vlq_le by (simp add: ukey_def key_sizes)
  ultimately show ?thesis by auto
qed

text \<open>What an entry of the set makes of the stored bytes of its outpoint.\<close>

definition stored :: "UtxoWrap \<Rightarrow> bytes option \<Rightarrow> bytes option" where
  "stored w old = (if \<not> IsModified w then old else if IsSpent w then None else Some (utxo_bytes w))"

lemma utxo_writes_cases:
  assumes "hash_wf (Hash op)" and "length (utxo_script w) < 2 ^ 62" and "utxo_writes op w = Inr bs"
  shows "(\<not> IsModified w \<and> bs = []) \<or>
    (\<exists>k. IsModified w \<and> addr_utxo_key op w = Inr k \<and>
      bs = (if IsSpent w then map OpDel (ukey op # (case k of None \<Rightarrow> [] | Some a \<Rightarrow> [a]))
            else map (\<lambda>x. OpPut x (utxo_bytes w)) (ukey op # (case k of None \<Rightarrow> [] | Some a \<Rightarrow> [a]))))"
proof (cases "IsModified w")
  case True
  with assms obtain k where k: "addr_utxo_key op w = Inr k"
    by (cases "addr_utxo_key op w") (simp_all add: utxo_writes_def utxoKey_ukey)
  have "\<not> IsSpent w \<Longrightarrow> SerializeUtxoWrap w = Inr (Some (utxo_bytes w))"
    by (rule SerializeUtxoWrap_eq)
  with assms True k show ?thesis
    by (cases k; cases "IsSpent w") (auto simp: utxo_writes_def utxoKey_ukey Let_def)
next
  case False
  with assms show ?thesis by (simp add: utxo_writes_def)
qed

definition storable :: "UtxoMap \<Rightarrow> bool" where
  "storable m \<longleftrightarrow> distinct (map fst m) \<and> (\<forall>(op, w)\<in>set m. hash_wf (Hash op) \<and> length (utxo_script w) < 2 ^ 62)"

context kv_store
begin

lemma do_writes_run_ops: "do_writes ops bs s = run_ops bs s"
proof (induction bs arbitrary: s)
  case (Cons b bs)
  then show ?case by (cases b) simp_all
qed simp

lemma do_writes_inv: "inv s \<Longrightarrow> inv (do_writes ops bs s)"
  by (simp add: do_writes_run_ops run_ops_inv)

lemma utxo_writes_at:
  assumes "inv s" and "hash_wf (Hash op)" "hash_wf (Hash op')" and "length (utxo_script w) < 2 ^ 62"
    and "utxo_writes op w = Inr bs"
  shows "abs (do_writes ops bs s) (ukey op') = (if op' = op then stored w (abs s (ukey op')) else abs s (ukey op'))"
  using utxo_writes_cases [OF assms(2,4,5)] ukey_inj [OF assms(3,2)] assms(1)
  by (auto simp: stored_def del_abs put_abs del_inv put_inv dest: ukey_not_addr [OF assms(2,3)]
      split: option.splits)

lemma utxo_writes_index:
  assumes "inv s" and "hash_wf (Hash op)" "hash_wf (Hash op')" and "length (utxo_script w) < 2 ^ 62"
    and "utxo_writes op w = Inr bs" and "addr_utxo_key op' w' = Inr (Some k)"
  shows "op' \<noteq> op \<Longrightarrow> abs (do_writes ops bs s) k = abs s k"
    and "op' = op \<Longrightarrow> w' = w \<Longrightarrow> abs (do_writes ops bs s) k = stored w (abs s k)"
  using utxo_writes_cases [OF assms(2,4,5)] ukey_not_addr [OF assms(3,2,6)] assms(1,6)
  by (auto simp: stored_def del_abs put_abs del_inv put_inv dest: addr_utxo_key_inj [OF assms(3,2,6)]
      split: option.splits)

lemma write_utxos_inv: "write_utxos ops m s = (e, s') \<Longrightarrow> inv s \<Longrightarrow> inv s'"
  by (induction m arbitrary: s) (auto simp: do_writes_inv split: sum.splits)

lemma write_utxos_at:
  assumes "write_utxos ops m s = (None, s')" and "inv s" and "storable m" and "hash_wf (Hash op)"
  shows "abs s' (ukey op) =
    (case map_of m op of None \<Rightarrow> abs s (ukey op) | Some w \<Rightarrow> stored w (abs s (ukey op)))"
  using assms
proof (induction m arbitrary: s)
  case (Cons x m)
  obtain op' w where x: "x = (op', w)" by (cases x)
  with Cons.prems obtain bs where bs: "utxo_writes op' w = Inr bs" by (cases "utxo_writes op' w") auto
  let ?s = "do_writes ops bs s"
  from Cons.prems x bs have "write_utxos ops m ?s = (None, s')" "storable m" by (auto simp: storable_def)
  with Cons have "abs s' (ukey op) =
      (case map_of m op of None \<Rightarrow> abs ?s (ukey op) | Some w \<Rightarrow> stored w (abs ?s (ukey op)))"
    by (simp add: do_writes_inv)
  moreover have "abs ?s (ukey op) = (if op = op' then stored w (abs s (ukey op)) else abs s (ukey op))"
    using utxo_writes_at [OF Cons.prems(2) _ Cons.prems(4) _ bs] Cons.prems(3) x by (simp add: storable_def)
  moreover have "map_of m op' = None"
    using Cons.prems(3) x by (simp add: storable_def map_of_eq_None_iff)
  ultimately show ?case using x by (auto split: option.splits)
qed simp

lemma write_utxos_index_frame:
  assumes "write_utxos ops m s = (None, s')" and "inv s" and "storable m"
    and "hash_wf (Hash op)" and "op \<notin> fst ` set m" and "addr_utxo_key op w = Inr (Some k)"
  shows "abs s' k = abs s k"
  using assms
proof (induction m arbitrary: s)
  case (Cons x m)
  obtain op' w' where x: "x = (op', w')" by (cases x)
  with Cons.prems obtain bs where bs: "utxo_writes op' w' = Inr bs" by (cases "utxo_writes op' w'") auto
  from Cons.prems x bs have m: "write_utxos ops m (do_writes ops bs s) = (None, s')" "storable m"
    and wf: "hash_wf (Hash op')" "length (utxo_script w') < 2 ^ 62" by (auto simp: storable_def)
  with Cons have "abs s' k = abs (do_writes ops bs s) k" by (simp add: do_writes_inv)
  with utxo_writes_index(1) [OF Cons.prems(2) wf(1) Cons.prems(4) wf(2) bs Cons.prems(6)] Cons.prems(5) x
  show ?case by simp
qed simp

lemma write_utxos_index:
  assumes "write_utxos ops m s = (None, s')" and "inv s" and "storable m"
    and "(op, w) \<in> set m" and "addr_utxo_key op w = Inr (Some k)"
  shows "abs s' k = stored w (abs s k)"
  using assms
proof (induction m arbitrary: s)
  case (Cons x m)
  obtain op' w' where x: "x = (op', w')" by (cases x)
  with Cons.prems obtain bs where bs: "utxo_writes op' w' = Inr bs" by (cases "utxo_writes op' w'") auto
  let ?s = "do_writes ops bs s"
  from Cons.prems x bs have m: "write_utxos ops m ?s = (None, s')" "storable m" by (auto simp: storable_def)
  have wf: "hash_wf (Hash op')" "hash_wf (Hash op)" "length (utxo_script w') < 2 ^ 62"
    using Cons.prems(3,4) x by (auto simp: storable_def)
  note at = utxo_writes_index [OF Cons.prems(2) wf bs]
  show ?case
  proof (cases "op = op'")
    case True
    have "op \<notin> fst ` set m" using Cons.prems(3) x True by (auto simp: storable_def)
    moreover from this have "w' = w" using Cons.prems(4) x True by force
    ultimately have "w' = w" "abs s' k = abs ?s k"
      using write_utxos_index_frame [OF m(1) _ m(2) wf(2) _ Cons.prems(5)] Cons.prems(2) by (auto simp: do_writes_inv)
    then show ?thesis using at(2) [OF Cons.prems(5)] True by simp
  next
    case False
    with Cons.prems(4) x have "(op, w) \<in> set m" by simp
    with Cons.IH m Cons.prems have "abs s' k = stored w (abs ?s k)" by (simp add: do_writes_inv)
    with at(1) [OF Cons.prems(5)] False show ?thesis by simp
  qed
qed simp

end

section \<open>Plain transactions\<close>

text \<open>
  A transaction without contract outputs, whose hash is known (every block read from the network or the
  database has it cached).
\<close>

definition plain_out :: "StateView \<Rightarrow> TxOut \<Rightarrow> bool" where
  "plain_out sv out \<longleftrightarrow> IsOpReturnScript (ScriptPubKey out) \<or>
     \<not> IsContractPubkey (ScriptPubKey out) \<and>
     (case ExtractAddress (ScriptPubKey out) of Inr (Some a) \<Rightarrow> \<not> IsContractAddr sv (address_hash a) | _ \<Rightarrow> False)"

definition plain_tx :: "StateView \<Rightarrow> Transaction \<Rightarrow> bool" where
  "plain_tx sv tx \<longleftrightarrow> cached_hash tx \<noteq> None \<and> length (Vout tx) < 2 ^ 32 \<and> list_all (plain_out sv) (Vout tx)"

text \<open>The utxo an output of a transaction becomes.\<close>

definition out_utxo :: "bytes \<Rightarrow> u32 \<Rightarrow> TxOut list \<Rightarrow> OutPoint \<Rightarrow> UtxoWrap option" where
  "out_utxo h height outs op =
     (if Hash op = h \<and> unat (Index op) < length outs \<and> \<not> IsOpReturnScript (ScriptPubKey (outs ! unat (Index op)))
      then Some (NewUtxoWrap (Value (outs ! unat (Index op))) (ScriptPubKey (outs ! unat (Index op))) height)
      else None)"

text \<open>Equal but for the cached type.\<close>

definition same_tx :: "Transaction \<Rightarrow> Transaction \<Rightarrow> bool" where
  "same_tx tx tx' \<longleftrightarrow> Vin tx' = Vin tx \<and> Vout tx' = Vout tx \<and> cached_hash tx' = cached_hash tx"

lemma same_tx_refl [simp]: "same_tx tx tx"
  by (simp add: same_tx_def)

lemma same_tx_trans: "same_tx a b \<Longrightarrow> same_tx b d \<Longrightarrow> same_tx a d"
  by (simp add: same_tx_def)

lemma GetTxType_same: "same_tx tx (snd (GetTxType tx s))"
  by (simp add: GetTxType_def ParseTxType_def same_tx_def split: prod.splits)

lemma TxHash_known: "cached_hash tx = Some h \<Longrightarrow> TxHash c tx = (Some h, tx)"
  by (simp add: TxHash_def)

lemma applyUtxo_plain:
  assumes "cached_hash tx = Some h" and "i < length (Vout tx)" and "length (Vout tx) < 2 ^ 32"
    and "plain_out sv (Vout tx ! i)" and "\<not> IsOpReturnScript (ScriptPubKey (Vout tx ! i))"
  defines "op \<equiv> \<lparr>Hash = h, Index = of_nat i\<rparr>"
  shows "if FindUtxo u op \<noteq> None then applyUtxo c ca sv height tx (of_nat i) u = Inl ErrAddExistingUtxo
    else \<exists>u' tx'. applyUtxo c ca sv height tx (of_nat i) u = Inr (u', tx') \<and> same_tx tx tx' \<and>
      FindUtxo u' = (FindUtxo u)(op \<mapsto> NewUtxoWrap (Value (Vout tx ! i)) (ScriptPubKey (Vout tx ! i)) height) \<and>
      (utxo_wf u \<longrightarrow> utxo_wf u')"
proof -
  have i: "unat (of_nat i :: u32) = i" using assms(2,3) by (simp add: unat_of_nat_less)
  then have lt: "\<not> of_nat (length (Vout tx)) \<le> (of_nat i :: u32)"
    using assms(2,3) by (simp add: word_le_nat_alt unat_of_nat_less)
  from assms(4,5) obtain a where a: "ExtractAddress (ScriptPubKey (Vout tx ! i)) = Inr (Some a)"
      "\<not> IsContractAddr sv (address_hash a)" "\<not> IsContractPubkey (ScriptPubKey (Vout tx ! i))"
    by (auto simp: plain_out_def split: sum.splits option.splits)
  obtain ty tx' where t: "GetTxType tx (Some sv) = (ty, tx')" by (cases "GetTxType tx (Some sv)")
  with GetTxType_same [of tx "Some sv"] have "same_tx tx tx'" by simp
  with lt a t show ?thesis
    by (simp add: applyUtxo_def TxHash_known [OF assms(1)] i apply_common_def Let_def NewOutPoint_def op_def)
qed

text \<open>The effect on lookups of applying the outputs from index \<open>i\<close> on.\<close>

definition outs_found :: "bytes \<Rightarrow> u32 \<Rightarrow> TxOut list \<Rightarrow> nat \<Rightarrow> UtxoSet \<Rightarrow> UtxoSet \<Rightarrow> bool" where
  "outs_found h height outs i u u' \<longleftrightarrow> (\<forall>op. FindUtxo u' op = (case FindUtxo u op of Some w \<Rightarrow> Some w
      | None \<Rightarrow> if i \<le> unat (Index op) then out_utxo h height outs op else None))"

lemma outs_found_step:
  assumes "outs_found h height outs (i + 1) u u'"
    and "\<And>op. unat (Index op) = i \<Longrightarrow> FindUtxo u op = None \<Longrightarrow> out_utxo h height outs op = None"
  shows "outs_found h height outs i u u'"
  unfolding outs_found_def
proof
  fix op
  show "FindUtxo u' op = (case FindUtxo u op of Some w \<Rightarrow> Some w
      | None \<Rightarrow> if i \<le> unat (Index op) then out_utxo h height outs op else None)"
    using assms(1) [unfolded outs_found_def, rule_format, of op] assms(2) [of op]
    by (cases "unat (Index op) = i") (auto split: option.splits)
qed

lemma apply_outs_plain:
  assumes "cached_hash tx = Some h" and "length (Vout tx) < 2 ^ 32" and "list_all (plain_out sv) (Vout tx)"
    and "outs = drop i (Vout tx)"
  shows "\<exists>u' tx'. apply_outs c ca sv height i outs (u, tx) = Inr (u', tx') \<and> same_tx tx tx' \<and>
    (utxo_wf u \<longrightarrow> utxo_wf u') \<and> outs_found h height (Vout tx) i u u'"
  using assms
proof (induction outs arbitrary: i u tx)
  case Nil
  then have "length (Vout tx) \<le> i" by simp
  then have "outs_found h height (Vout tx) i u u"
    by (auto simp: outs_found_def out_utxo_def split: option.splits)
  then show ?case by simp
next
  case (Cons out outs)
  then have i: "i < length (Vout tx)" by (cases "i < length (Vout tx)") auto
  with Cons.prems(4) have out: "out = Vout tx ! i" "outs = drop (i + 1) (Vout tx)"
    by (auto simp: Cons_nth_drop_Suc [symmetric])
  let ?op = "\<lparr>Hash = h, Index = of_nat i\<rparr> :: OutPoint"
  have ix: "unat (of_nat i :: u32) = i" using i Cons.prems(2) by (simp add: unat_of_nat_less)
  have at: "?op = op" if "Hash op = h" "unat (Index op) = i" for op
    using ix that by (auto simp: OutPoint_eq_iff)
  have plain: "plain_out sv out" using Cons.prems(3) i out by (auto simp: list_all_length)
  note apply1 = applyUtxo_plain [OF Cons.prems(1) i Cons.prems(2), of sv u c ca height]
  show ?case
  proof (cases "IsOpReturnScript (ScriptPubKey out) \<or> FindUtxo u ?op \<noteq> None")
    case True
    from Cons.IH [OF Cons.prems(1-3) out(2), of u] obtain u' tx' where
      *: "apply_outs c ca sv height (i + 1) outs (u, tx) = Inr (u', tx')" "same_tx tx tx'" "utxo_wf u \<longrightarrow> utxo_wf u'"
      "outs_found h height (Vout tx) (i + 1) u u'" by blast
    have "out_utxo h height (Vout tx) op = None" if "unat (Index op) = i" "FindUtxo u op = None" for op
      using that True out at [of op] by (cases "Hash op = h") (auto simp: out_utxo_def)
    with *(4) have "outs_found h height (Vout tx) i u u'" by (rule outs_found_step)
    moreover have "apply_outs c ca sv height i (out # outs) (u, tx) = Inr (u', tx')"
      using apply1 True plain out(1) *(1)
      by (cases "IsOpReturnScript (ScriptPubKey out)") (simp_all add: TxHash_known [OF Cons.prems(1)])
    ultimately show ?thesis using * by blast
  next
    case False
    with apply1 plain out(1)
    obtain u1 tx1 where 1: "applyUtxo c ca sv height tx (of_nat i) u = Inr (u1, tx1)" "same_tx tx tx1"
      "FindUtxo u1 = (FindUtxo u)(?op \<mapsto> NewUtxoWrap (Value out) (ScriptPubKey out) height)"
      "utxo_wf u \<longrightarrow> utxo_wf u1" by auto
    have same: "cached_hash tx1 = Some h" "Vout tx1 = Vout tx" using 1(2) Cons.prems(1) by (simp_all add: same_tx_def)
    with Cons.IH [of tx1 "i + 1" u1] Cons.prems(2,3) out(2) obtain u' tx' where
      *: "apply_outs c ca sv height (i + 1) outs (u1, tx1) = Inr (u', tx')" "same_tx tx1 tx'" "utxo_wf u1 \<longrightarrow> utxo_wf u'"
      "outs_found h height (Vout tx) (i + 1) u1 u'" by auto
    have "outs_found h height (Vout tx) i u u'"
      unfolding outs_found_def
    proof
      fix op
      note found = *(4) [unfolded outs_found_def, rule_format, of op]
      show "FindUtxo u' op = (case FindUtxo u op of Some w \<Rightarrow> Some w
        | None \<Rightarrow> if i \<le> unat (Index op) then out_utxo h height (Vout tx) op else None)"
      proof (cases "?op = op")
        case True
        with found 1(3) False i out(1) ix show ?thesis by (auto simp: out_utxo_def)
      next
        case neq: False
        with at [of op] have "unat (Index op) = i \<Longrightarrow> out_utxo h height (Vout tx) op = None"
          by (cases "Hash op = h") (auto simp: out_utxo_def)
        with neq found 1(3) show ?thesis
          by (cases "unat (Index op) = i") (auto split: option.splits)
      qed
    qed
    moreover have "apply_outs c ca sv height i (out # outs) (u, tx) = Inr (u', tx')" using 1(1) *(1) False by simp
    ultimately show ?thesis using * 1(2,4) same_tx_trans by blast
  qed
qed

lemma apply_ins_find:
  "FindUtxo (fst (apply_ins sv ins (u, tx))) op =
     (if op \<in> PrevOutPoint ` set ins
      then Some (Spend (case FindUtxo u op of None \<Rightarrow> empty_UtxoWrap | Some w \<Rightarrow> w)) else FindUtxo u op)"
proof (induction ins arbitrary: u tx)
  case (Cons i ins)
  obtain ty tx' where t: "GetTxType tx (Some sv) = (ty, tx')" by (cases "GetTxType tx (Some sv)")
  then obtain u1 where "apply_ins sv (i # ins) (u, tx) = apply_ins sv ins (u1, tx')"
    and u1: "FindUtxo u1 = FindUtxo (SpendUtxo (PrevOutPoint i) u)"
    by (cases "ty = ContractTx") (simp_all add: Let_def)
  with Cons.IH [of u1 tx'] show ?case by simp
qed simp

lemma apply_ins_wf: "utxo_wf u \<Longrightarrow> utxo_wf (fst (apply_ins sv ins (u, tx)))"
  by (induction ins arbitrary: u tx) (simp_all add: Let_def split: prod.split)

lemma apply_ins_same: "same_tx tx (snd (apply_ins sv ins (u, tx)))"
proof (induction ins arbitrary: u tx)
  case (Cons i ins)
  obtain ty tx' where t: "GetTxType tx (Some sv) = (ty, tx')" by (cases "GetTxType tx (Some sv)")
  with GetTxType_same [of tx "Some sv"] have "same_tx tx tx'" by simp
  with Cons show ?case by (auto simp: t Let_def intro: same_tx_trans)
qed simp

definition spends :: "Transaction \<Rightarrow> bool" where
  "spends tx \<longleftrightarrow> \<not> (IsCoinBase tx \<or> IsInternalContract tx)"

definition tx_ins :: "Transaction \<Rightarrow> OutPoint set" where
  "tx_ins tx = (if spends tx then PrevOutPoint ` set (Vin tx) else {})"

lemma same_tx_ins: "same_tx tx tx' \<Longrightarrow> spends tx' = spends tx" "same_tx tx tx' \<Longrightarrow> tx_ins tx' = tx_ins tx"
  by (simp_all add: same_tx_def spends_def tx_ins_def IsCoinBase_def IsInternalContract_def)

text \<open>Lookups after a plain transaction has been applied.\<close>

lemma applyTx_plain:
  assumes "plain_tx sv tx" and "cached_hash tx = Some h"
  shows "\<exists>u' tx'. applyTx c ca sv height tx u = Inr (u', tx') \<and> same_tx tx tx' \<and> (utxo_wf u \<longrightarrow> utxo_wf u') \<and>
    (\<forall>op. FindUtxo u' op =
      (let w = (case FindUtxo u op of Some w \<Rightarrow> Some w | None \<Rightarrow> out_utxo h height (Vout tx) op) in
       if op \<in> tx_ins tx then Some (Spend (case w of None \<Rightarrow> empty_UtxoWrap | Some w \<Rightarrow> w)) else w))"
proof -
  from apply_outs_plain [OF assms(2), of sv "Vout tx" 0 c ca height u] assms(1)
  obtain u1 tx1 where 1: "apply_outs c ca sv height 0 (Vout tx) (u, tx) = Inr (u1, tx1)" "same_tx tx tx1"
    "utxo_wf u \<longrightarrow> utxo_wf u1" "outs_found h height (Vout tx) 0 u u1" by (auto simp: plain_tx_def)
  have found: "FindUtxo u1 op = (case FindUtxo u op of Some w \<Rightarrow> Some w | None \<Rightarrow> out_utxo h height (Vout tx) op)" for op
    using 1(4) by (simp add: outs_found_def)
  show ?thesis
  proof (cases "spends tx")
    case True
    obtain u' tx' where u': "apply_ins sv (Vin tx1) (u1, tx1) = (u', tx')"
      by (cases "apply_ins sv (Vin tx1) (u1, tx1)")
    with True same_tx_ins(1) [OF 1(2)] have "applyTx c ca sv height tx u = Inr (u', tx')"
      by (simp add: applyTx_def 1 spends_def)
    moreover have "same_tx tx tx'"
      using 1(2) apply_ins_same [of tx1 sv "Vin tx1" u1] u' by (auto intro: same_tx_trans)
    moreover have "utxo_wf u \<longrightarrow> utxo_wf u'" using 1(3) apply_ins_wf [of u1 sv "Vin tx1" tx1] u' by auto
    moreover have "Vin tx1 = Vin tx" using 1(2) by (simp add: same_tx_def)
    ultimately show ?thesis
      using apply_ins_find [of sv "Vin tx1" u1 tx1] u' True found by (auto simp: tx_ins_def Let_def)
  next
    case False
    with same_tx_ins(1) [OF 1(2)] have "applyTx c ca sv height tx u = Inr (u1, tx1)"
      by (auto simp: applyTx_def 1 spends_def)
    with 1 False found show ?thesis by (simp add: tx_ins_def Let_def)
  qed
qed

lemma revert_outs_find:
  assumes "i + length outs < 2 ^ 32"
  shows "FindUtxo (revert_outs (Some h) i outs u) op =
    (if Hash op = h \<and> i \<le> unat (Index op) \<and> unat (Index op) < i + length outs \<and>
        \<not> IsOpReturnScript (ScriptPubKey (outs ! (unat (Index op) - i))) \<and>
        \<not> IsContractPubkey (ScriptPubKey (outs ! (unat (Index op) - i)))
     then Some (Spend (case FindUtxo u op of None \<Rightarrow> empty_UtxoWrap | Some w \<Rightarrow> w)) else FindUtxo u op)"
  using assms
proof (induction outs arbitrary: i u)
  case (Cons out outs)
  let ?op = "NewOutPoint (Some h) (of_nat i)"
  let ?skip = "IsOpReturnScript (ScriptPubKey out) \<or> IsContractPubkey (ScriptPubKey out)"
  let ?u = "if ?skip then u else SpendUtxo ?op u"
  have ix: "unat (of_nat i :: u32) = i" using Cons.prems by (simp add: unat_of_nat_less)
  have at: "op = ?op \<longleftrightarrow> Hash op = h \<and> unat (Index op) = i"
    using ix by (auto simp: OutPoint_eq_iff NewOutPoint_def)
  have IH: "FindUtxo (revert_outs (Some h) i (out # outs) u) op =
    (if Hash op = h \<and> i + 1 \<le> unat (Index op) \<and> unat (Index op) < i + 1 + length outs \<and>
        \<not> IsOpReturnScript (ScriptPubKey (outs ! (unat (Index op) - (i + 1)))) \<and>
        \<not> IsContractPubkey (ScriptPubKey (outs ! (unat (Index op) - (i + 1))))
     then Some (Spend (case FindUtxo ?u op of None \<Rightarrow> empty_UtxoWrap | Some w \<Rightarrow> w)) else FindUtxo ?u op)"
    using Cons.IH [of "i + 1" ?u] Cons.prems by simp
  show ?case
  proof (cases "unat (Index op) = i")
    case True
    then show ?thesis using at unfolding IH by auto
  next
    case False
    then have "FindUtxo ?u op = FindUtxo u op" using at by auto
    moreover have "i \<le> unat (Index op) \<longleftrightarrow> i + 1 \<le> unat (Index op)" using False by auto
    moreover have "i + 1 \<le> unat (Index op) \<Longrightarrow> (out # outs) ! (unat (Index op) - i) = outs ! (unat (Index op) - (i + 1))"
      by (simp add: nth_Cons')
    ultimately show ?thesis unfolding IH by auto
  qed
qed auto

lemma UnSpend_UnSpend [simp]: "UnSpend (UnSpend w) = UnSpend w"
  by (simp add: UnSpend_def)

lemma revert_ins_find:
  assumes "\<forall>i\<in>set ins. \<not> IsContractType (PrevOutPoint i) \<and> FindUtxo u (PrevOutPoint i) \<noteq> None"
  shows "\<exists>r. revert_ins load ins u = Inr r \<and> (\<forall>op. FindUtxo r op =
    (if op \<in> PrevOutPoint ` set ins then map_option UnSpend (FindUtxo u op) else FindUtxo u op))"
  using assms
proof (induction ins arbitrary: u)
  case (Cons i ins)
  then obtain w where w: "FindUtxo u (PrevOutPoint i) = Some w" by auto
  let ?u = "put_utxo (PrevOutPoint i) (UnSpend w) u"
  from Cons.prems have "\<forall>i\<in>set ins. \<not> IsContractType (PrevOutPoint i) \<and> FindUtxo ?u (PrevOutPoint i) \<noteq> None" by auto
  from Cons.IH [OF this] obtain r where r: "revert_ins load ins ?u = Inr r" "\<forall>op. FindUtxo r op =
      (if op \<in> PrevOutPoint ` set ins then map_option UnSpend (FindUtxo ?u op) else FindUtxo ?u op)" by blast
  then have "revert_ins load (i # ins) u = Inr r" using Cons.prems w by simp
  with r(2) w show ?case by auto
qed simp

text \<open>
  A transaction that may be applied: its inputs are unspent utxos of the set, not of contracts and not
  its own outputs. Its outputs may be in the set already: \<^verbatim>\<open>LoadBlockUtxos\<close> puts in those that are spent
  within the block.
\<close>

definition tx_outs :: "Transaction \<Rightarrow> OutPoint set" where
  "tx_outs tx = {op. out_utxo (the (cached_hash tx)) 0 (Vout tx) op \<noteq> None}"

definition tx_ok :: "StateView \<Rightarrow> UtxoSet \<Rightarrow> Transaction \<Rightarrow> bool" where
  "tx_ok sv u tx \<longleftrightarrow> plain_tx sv tx \<and> tx_ins tx \<inter> tx_outs tx = {} \<and>
     (\<forall>op\<in>tx_ins tx. \<not> IsContractType op \<and> (case FindUtxo u op of None \<Rightarrow> False | Some w \<Rightarrow> \<not> IsSpent w))"

text \<open>What a wallet or a validator sees of the set.\<close>

definition unspent :: "UtxoSet \<Rightarrow> OutPoint \<Rightarrow> (u64 \<times> bytes \<times> u32) option" where
  "unspent u op =
     (case FindUtxo u op of None \<Rightarrow> None
      | Some w \<Rightarrow> if IsSpent w then None else Some (utxo_value w, utxo_script w, utxo_height w))"

text \<open>\<open>v\<close> has what \<open>u\<close> has, up to modification flags and spent entries, and the outputs \<open>X\<close> removed.\<close>

definition agrees :: "OutPoint set \<Rightarrow> UtxoSet \<Rightarrow> UtxoSet \<Rightarrow> bool" where
  "agrees X u v \<longleftrightarrow> unspent v = (\<lambda>op. if op \<in> X then None else unspent u op) \<and>
     (\<forall>op w. FindUtxo u op = Some w \<longrightarrow> (\<exists>w'. FindUtxo v op = Some w' \<and>
        utxo_value w' = utxo_value w \<and> utxo_script w' = utxo_script w \<and> utxo_height w' = utxo_height w))"

lemma agrees_refl [simp]: "agrees {} u u"
  by (simp add: agrees_def)

lemma out_utxo_None: "out_utxo h height outs op = None \<longleftrightarrow> out_utxo h height' outs op = None"
  by (simp add: out_utxo_def)

lemma revert_outs_plain:
  assumes "plain_tx sv tx"
  shows "FindUtxo (revert_outs (Some h) 0 (Vout tx) v) op =
    (if out_utxo h 0 (Vout tx) op \<noteq> None
     then Some (Spend (case FindUtxo v op of None \<Rightarrow> empty_UtxoWrap | Some w \<Rightarrow> w)) else FindUtxo v op)"
  using assms revert_outs_find [of 0 "Vout tx" h v op]
  by (auto simp: plain_tx_def out_utxo_def list_all_length plain_out_def)

lemma RevertTx_plain:
  assumes "plain_tx sv tx" and h: "cached_hash tx = Some h"
    and ins: "\<forall>op\<in>tx_ins tx. \<not> IsContractType op \<and> FindUtxo v op \<noteq> None \<and> out_utxo h 0 (Vout tx) op = None"
  shows "\<exists>r. RevertTx c load tx v = Inr r \<and> (\<forall>op. FindUtxo r op =
    (if op \<in> tx_ins tx then map_option UnSpend (FindUtxo v op)
     else if out_utxo h 0 (Vout tx) op \<noteq> None
     then Some (Spend (case FindUtxo v op of None \<Rightarrow> empty_UtxoWrap | Some w \<Rightarrow> w)) else FindUtxo v op))"
proof -
  let ?v = "revert_outs (Some h) 0 (Vout tx) v"
  note vo = revert_outs_plain [OF assms(1), of h v]
  have hash: "TxHash c tx = (Some h, tx)" by (rule TxHash_known [OF h])
  show ?thesis
  proof (cases "spends tx")
    case True
    then have set: "PrevOutPoint ` set (Vin tx) = tx_ins tx" by (simp add: tx_ins_def)
    have eq: "FindUtxo ?v op = FindUtxo v op" if "op \<in> tx_ins tx" for op using ins that by (simp add: vo)
    have "\<forall>i\<in>set (Vin tx). \<not> IsContractType (PrevOutPoint i) \<and> FindUtxo ?v (PrevOutPoint i) \<noteq> None"
      using ins set eq by (metis imageI)
    from revert_ins_find [OF this, of load] set eq obtain r where "revert_ins load (Vin tx) ?v = Inr r"
      "\<forall>op. FindUtxo r op = (if op \<in> tx_ins tx then map_option UnSpend (FindUtxo v op) else FindUtxo ?v op)" by auto
    with True vo show ?thesis by (simp add: RevertTx_def spends_def hash)
  next
    case False
    with vo show ?thesis by (auto simp: RevertTx_def spends_def tx_ins_def hash)
  qed
qed

text \<open>Reverting a transaction undoes it, also when the set has been changed and restored in between.\<close>

lemma revert_applied:
  assumes ok: "tx_ok sv u tx" and app: "applyTx c ca sv height tx u = Inr (u', tx')" and v: "agrees X u' v"
    and X: "tx_ins tx \<inter> X = {}"
  shows "\<exists>r. RevertTx c load tx' v = Inr r \<and> agrees (tx_outs tx \<union> X) u r"
proof -
  from ok obtain h where h: "cached_hash tx = Some h" and plain: "plain_tx sv tx"
    by (auto simp: tx_ok_def plain_tx_def)
  let ?out = "\<lambda>op. out_utxo h 0 (Vout tx) op \<noteq> None"
  from applyTx_plain [OF plain h, of c ca height u] app
  have same: "same_tx tx tx'" and found: "\<And>op. FindUtxo u' op =
      (let w = (case FindUtxo u op of Some w \<Rightarrow> Some w | None \<Rightarrow> out_utxo h height (Vout tx) op) in
       if op \<in> tx_ins tx then Some (Spend (case w of None \<Rightarrow> empty_UtxoWrap | Some w \<Rightarrow> w)) else w)" by auto
  have outs: "?out op \<longleftrightarrow> op \<in> tx_outs tx" for op using h by (simp add: tx_outs_def)
  have vin: "\<exists>w w'. FindUtxo u op = Some w \<and> \<not> IsSpent w \<and> FindUtxo v op = Some w' \<and>
      utxo_value w' = utxo_value w \<and> utxo_script w' = utxo_script w \<and> utxo_height w' = utxo_height w"
    if op: "op \<in> tx_ins tx" for op
  proof -
    from ok op obtain w where w: "FindUtxo u op = Some w" "\<not> IsSpent w" by (auto simp: tx_ok_def split: option.splits)
    with found [of op] op have "FindUtxo u' op = Some (Spend w)" by simp
    with v w show ?thesis by (fastforce simp: agrees_def)
  qed
  have "\<forall>op\<in>tx_ins tx. \<not> IsContractType op \<and> FindUtxo v op \<noteq> None \<and> \<not> ?out op"
    using ok vin outs by (fastforce simp: tx_ok_def)
  with RevertTx_plain [of sv tx' h v c load] plain h same same_tx_ins [OF same]
  obtain r where r: "RevertTx c load tx' v = Inr r" "\<And>op. FindUtxo r op =
      (if op \<in> tx_ins tx then map_option UnSpend (FindUtxo v op) else if ?out op
       then Some (Spend (case FindUtxo v op of None \<Rightarrow> empty_UtxoWrap | Some w \<Rightarrow> w)) else FindUtxo v op)"
    by (auto simp: same_tx_def plain_tx_def)
  have other: "FindUtxo u' op = FindUtxo u op" if "op \<notin> tx_ins tx" "\<not> ?out op" for op
    using found [of op] that out_utxo_None [of h height "Vout tx" op 0] by (auto split: option.splits)
  have "unspent r op = (if op \<in> tx_outs tx \<union> X then None else unspent u op) \<and> (\<forall>w. FindUtxo u op = Some w \<longrightarrow> (\<exists>w'. FindUtxo r op = Some w' \<and>
        utxo_value w' = utxo_value w \<and> utxo_script w' = utxo_script w \<and> utxo_height w' = utxo_height w))" for op
  proof -
    consider "op \<in> tx_ins tx" | "op \<notin> tx_ins tx" "?out op" | "op \<notin> tx_ins tx" "\<not> ?out op" by blast
    then show ?thesis
    proof cases
      case 1
      with ok X have "op \<notin> tx_outs tx \<union> X" by (auto simp: tx_ok_def)
      with 1 vin [OF 1] r(2) [of op] show ?thesis by (auto simp: unspent_def)
    next
      case 2
      have "FindUtxo u op = Some w \<Longrightarrow> \<exists>w'. FindUtxo v op = Some w' \<and> utxo_value w' = utxo_value w \<and>
          utxo_script w' = utxo_script w \<and> utxo_height w' = utxo_height w" for w
        using v found [of op] 2(1) by (simp add: agrees_def)
      with 2 r(2) [of op] outs [of op] show ?thesis by (fastforce simp: unspent_def)
    next
      case 3
      with r(2) [of op] have "FindUtxo r op = FindUtxo v op" by simp
      moreover have "unspent u' op = unspent u op" using other [OF 3] by (simp add: unspent_def)
      ultimately show ?thesis
        using v other [OF 3] 3(2) outs [of op] fun_cong [of "unspent v" _ op] by (simp add: agrees_def unspent_def [of r] flip: unspent_def [of v])
    qed
  qed
  with r(1) show ?thesis by (auto simp: agrees_def)
qed

text \<open>Transactions that may be applied one after the other; none spends an output of a later one.\<close>

fun txs_ok ::
  "('sig, 'pk) crypto_ops \<Rightarrow> (bytes \<Rightarrow> u64 \<Rightarrow> bytes) \<Rightarrow> StateView \<Rightarrow> u32 \<Rightarrow> UtxoSet \<Rightarrow> Transaction list \<Rightarrow> bool"
where
  "txs_ok c ca sv height u [] \<longleftrightarrow> True"
| "txs_ok c ca sv height u (tx # txs) \<longleftrightarrow>
     tx_ok sv u tx \<and> tx_ins tx \<inter> \<Union> (tx_outs ` set txs) = {} \<and> (case applyTx c ca sv height tx u of Inl _ \<Rightarrow> False | Inr (u', _) \<Rightarrow> txs_ok c ca sv height u' txs)"

lemma revert_txs_append:
  "revert_txs c load (xs @ ys) u = (case revert_txs c load xs u of Inl e \<Rightarrow> Inl e | Inr u \<Rightarrow> revert_txs c load ys u)"
  by (induction xs arbitrary: u) (auto split: sum.splits)

lemma txs_ok_apply:
  "txs_ok c ca sv height u txs \<Longrightarrow> \<exists>u' txs'. apply_txs c ca sv height txs u = Inr (u', txs')"
proof (induction txs arbitrary: u)
  case (Cons tx txs)
  then show ?case by (fastforce split: sum.splits prod.splits)
qed simp

lemma revert_applied_txs:
  assumes "txs_ok c ca sv height u txs" and "apply_txs c ca sv height txs u = Inr (u', txs')" and "agrees {} u' v"
  shows "\<exists>r. revert_txs c load (rev txs') v = Inr r \<and> agrees (\<Union> (tx_outs ` set txs)) u r"
  using assms
proof (induction txs arbitrary: u txs')
  case (Cons tx txs)
  from Cons.prems(1) obtain u1 tx1 where 1: "tx_ok sv u tx" "applyTx c ca sv height tx u = Inr (u1, tx1)"
    "txs_ok c ca sv height u1 txs" "tx_ins tx \<inter> \<Union> (tx_outs ` set txs) = {}" by (auto split: sum.splits)
  with Cons.prems(2) obtain txs1 where 2: "apply_txs c ca sv height txs u1 = Inr (u', txs1)" "txs' = tx1 # txs1"
    by (auto split: sum.splits)
  from Cons.IH [OF 1(3) 2(1) Cons.prems(3)] obtain v1 where
    3: "revert_txs c load (rev txs1) v = Inr v1" "agrees (\<Union> (tx_outs ` set txs)) u1 v1" by blast
  from revert_applied [OF 1(1,2) 3(2) 1(4), of load] obtain r where
    "RevertTx c load tx1 v1 = Inr r" "agrees (\<Union> (tx_outs ` set (tx # txs))) u r" by auto
  with 3(1) 2(2) show ?case by (simp add: revert_txs_append)
qed simp

section \<open>Properties\<close>

lemma fetch_abs: "hash_wf (Hash op) \<Longrightarrow> fetchUtxoWrapFromDB (table_ops p) db op =
   (case table_Get p (ukey op) db of None \<Rightarrow> Inr None
    | Some b \<Rightarrow> (case DeserializeUtxoWrap b of Inl e \<Rightarrow> Inl (ErrDecode e) | Inr w \<Rightarrow> Inr (Some w)))"
  by (simp add: fetchUtxoWrapFromDB_def utxoKey_ukey table_ops_def split: option.splits)

text \<open>C19: Writing a utxo set to the database and reading it back is exact, for values up to \<open>2 * 10 ^ 18\<close>
  (the supply is below that) and scripts that script compression keeps. After a successful
  \<^verbatim>\<open>WriteUtxoSetToDB\<close> every outpoint reads as the set has it: an unspent entry comes back with its value,
  script and height, a spent one is gone, and an outpoint the set does not change reads as before. The
  entry in the index of the owner's address is the same as the one under the outpoint.\<close>

theorem utxo_set_persisted:
  assumes "unlocked db" and "storable (utxoMap u)" and "hash_wf (Hash op)"
    and "\<forall>(op, w)\<in>set (utxoMap u). utxo_value w \<le> 2 * 10 ^ 18 \<and> \<not> lossy_script (utxo_script w)"
    and "WriteUtxoSetToDB (table_ops p) u db = (None, db')"
  shows "fetchUtxoWrapFromDB (table_ops p) db' op =
     (case FindUtxo u op of None \<Rightarrow> fetchUtxoWrapFromDB (table_ops p) db op
      | Some w \<Rightarrow>
          if \<not> IsModified w then fetchUtxoWrapFromDB (table_ops p) db op
          else if IsSpent w then Inr None
          else Inr (Some (NewUtxoWrap (utxo_value w) (utxo_script w) (utxo_height w)))) \<and>
   (\<forall>w k. FindUtxo u op = Some w \<and> IsModified w \<and> addr_utxo_key op w = Inr (Some k) \<longrightarrow>
      table_Get p k db' = table_Get p (ukey op) db')"
proof -
  have w: "write_utxos (table_ops p) (utxoMap u) db = (None, db')"
    using assms(5) by (simp add: WriteUtxoSetToDB_def)
  have get: "table_Get p (ukey op) db' = (case FindUtxo u op of None \<Rightarrow> table_Get p (ukey op) db
      | Some w \<Rightarrow> stored w (table_Get p (ukey op) db))"
    using mem.write_utxos_at [OF w assms(1,2,3)] by (simp add: FindUtxo_def)
  have dec: "DeserializeUtxoWrap (utxo_bytes w) = Inr (NewUtxoWrap (utxo_value w) (utxo_script w) (utxo_height w))"
    if "FindUtxo u op = Some w" for w
    using that assms(2,4) DeserializeUtxoWrap_eq [of w]
    by (force simp: FindUtxo_def storable_def dest: map_of_SomeD)
  have "table_Get p k db' = table_Get p (ukey op) db'"
    if "FindUtxo u op = Some w" "IsModified w" "addr_utxo_key op w = Inr (Some k)" for w k
    using mem.write_utxos_index [OF w assms(1,2) map_of_SomeD that(3)] that get
    by (simp add: FindUtxo_def stored_def)
  with get dec assms(3) show ?thesis
    by (auto simp: fetch_abs stored_def split: option.splits)
qed

text \<open>C18: Disconnecting a block undoes connecting it. Take a block without internal transactions whose
  transactions pay only to ordinary addresses, have their hash cached, and spend, each when its turn
  comes, unspent outputs that are not contract outputs and not outputs of the same or a later
  transaction. The outputs of the block may be in the set beforehand, as \<^verbatim>\<open>LoadBlockUtxos\<close> puts in
  those that are spent within the block. Then \<^verbatim>\<open>ApplyBlock\<close> succeeds, \<^verbatim>\<open>RevertBlock\<close> on the result succeeds
  without reading the chain, and afterwards no output of the block is unspent while every other
  outpoint is unspent exactly if it was before, with the same value, script and height.\<close>

theorem reorg_restores_utxos:
  assumes "txs_ok c create_addr sv (Height (Header block)) u (Txs block)" and "InternalTxs block = []"
  shows "\<exists>u' block' r. ApplyBlock c create_addr sv block u = Inr (u', block') \<and> RevertBlock c load block' u' = Inr r \<and>
    unspent r = (\<lambda>op. if op \<in> \<Union> (tx_outs ` set (Txs block)) then None else unspent u op)"
proof -
  from txs_ok_apply [OF assms(1)] obtain u' txs' where
    1: "apply_txs c create_addr sv (Height (Header block)) (Txs block) u = Inr (u', txs')" by blast
  from revert_applied_txs [OF assms(1) 1 agrees_refl, of load] obtain r where
    "revert_txs c load (rev txs') u' = Inr r" "agrees (\<Union> (tx_outs ` set (Txs block))) u r" by blast
  with 1 assms(2) show ?thesis by (simp add: ApplyBlock_def RevertBlock_def agrees_def)
qed

text \<open>A set with one unspent output, and a block whose second transaction spends it and whose third
  spends an output of the second.\<close>

definition sample_set :: UtxoSet where
  "sample_set = put_utxo \<lparr>Hash = replicate 32 7, Index = 1\<rparr> (NewUtxoWrap 500 (PayToPubKeyHashScript (replicate 20 1)) 3) NewUtxoSet"

definition sample_tx :: "nat \<Rightarrow> TxIn list \<Rightarrow> TxOut list \<Rightarrow> Transaction" where
  "sample_tx n ins outs = \<lparr>cached_hash = Some (replicate 32 (of_nat n)), TxTyp = UnknownTx, Version = 1, Vin = ins, Vout = outs,
     Data = None, Magic = 0, LockTime = 0\<rparr>"

definition sample_block :: Block where
  "sample_block = \<lparr>blk_Hash = None, Header = zero_header,
     Txs = [sample_tx 8 [\<lparr>PrevOutPoint = NewNullOutPoint, ScriptSig = [], Sequence = 0\<rparr>]
              [\<lparr>Value = 317, ScriptPubKey = PayToPubKeyHashScript (replicate 20 2)\<rparr>],
            sample_tx 9 [\<lparr>PrevOutPoint = \<lparr>Hash = replicate 32 7, Index = 1\<rparr>, ScriptSig = [], Sequence = 0\<rparr>]
              [\<lparr>Value = 200, ScriptPubKey = PayToPubKeyHashScript (replicate 20 3)\<rparr>,
               \<lparr>Value = 250, ScriptPubKey = PayToPubKeyHashScript (replicate 20 1)\<rparr>],
            sample_tx 10 [\<lparr>PrevOutPoint = \<lparr>Hash = replicate 32 9, Index = 0\<rparr>, ScriptSig = [], Sequence = 0\<rparr>]
              [\<lparr>Value = 180, ScriptPubKey = PayToPubKeyHashScript (replicate 20 2)\<rparr>]],
     InternalTxs = [], Signature = [], blk_Irreversible = None\<rparr>"

definition sample_state :: StateView where
  "sample_state = \<lparr>sv_code = (\<lambda>_. []), sv_nonce = (\<lambda>_. 0), sv_utxo = (\<lambda>_. None)\<rparr>"

lemma p2pkh_plain:
  assumes "length h = 20"
  shows "plain_out sample_state \<lparr>Value = v, ScriptPubKey = PayToPubKeyHashScript h\<rparr>"
    "\<not> IsOpReturnScript (PayToPubKeyHashScript h)"
proof -
  have h: "length h = Ripemd160Size" using assms by (simp add: Ripemd160Size_def)
  have "\<not> IsContractPubkey (PayToPubKeyHashScript h)"
    by (simp add: p2pkh_bytes [OF h] IsContractPubkey_def opcode_defs)
  with p2pkh_class [OF h] show "plain_out sample_state \<lparr>Value = v, ScriptPubKey = PayToPubKeyHashScript h\<rparr>"
    by (simp add: plain_out_def IsContractAddr_def sample_state_def)
  show "\<not> IsOpReturnScript (PayToPubKeyHashScript h)"
    by (simp add: p2pkh_bytes [OF h] IsOpReturnScript_def opcode_defs)
qed

text \<open>What \<^verbatim>\<open>LoadBlockUtxos\<close> makes of the set for this block: the output spent within it is put in.\<close>

definition sample_loaded :: UtxoSet where
  "sample_loaded = snd (LoadBlockUtxos zero_crypto (table_ops []) NewMemoryDB sample_state True sample_block sample_set)"

lemma sample_loaded_find: "FindUtxo sample_loaded =
   [\<lparr>Hash = replicate 32 7, Index = 1\<rparr> \<mapsto> NewUtxoWrap 500 (PayToPubKeyHashScript (replicate 20 1)) 3,
    \<lparr>Hash = replicate 32 9, Index = 0\<rparr> \<mapsto> NewUtxoWrap 200 (PayToPubKeyHashScript (replicate 20 3)) 0]"
proof -
  have "utxoMap sample_loaded =
     [(\<lparr>Hash = replicate 32 7, Index = 1\<rparr>, NewUtxoWrap 500 (PayToPubKeyHashScript (replicate 20 1)) 3),
      (\<lparr>Hash = replicate 32 9, Index = 0\<rparr>, NewUtxoWrap 200 (PayToPubKeyHashScript (replicate 20 3)) 0)]"
    by code_simp
  then show ?thesis by (auto simp: FindUtxo_def fun_eq_iff)
qed

lemma txs_ok_Cons:
  assumes "plain_tx sv tx" and "cached_hash tx = Some h" and "tx_ok sv u tx" and "tx_ins tx \<inter> \<Union> (tx_outs ` set txs) = {}"
    and "\<And>u'. (\<And>op. FindUtxo u' op =
      (let w = (case FindUtxo u op of Some w \<Rightarrow> Some w | None \<Rightarrow> out_utxo h height (Vout tx) op) in
       if op \<in> tx_ins tx then Some (Spend (case w of None \<Rightarrow> empty_UtxoWrap | Some w \<Rightarrow> w)) else w)) \<Longrightarrow>
      txs_ok c ca sv height u' txs"
  shows "txs_ok c ca sv height u (tx # txs)"
  using applyTx_plain [OF assms(1,2), of c ca height u] assms(3-5) by auto

lemma sample_txs_ok: "txs_ok zero_crypto (\<lambda>_ _. []) sample_state 0 sample_loaded (Txs sample_block)"
proof -
  define t1 t2 t3 where "t1 = Txs sample_block ! 0" and "t2 = Txs sample_block ! 1" and "t3 = Txs sample_block ! 2"
  note t = this
  have plain: "plain_tx sample_state t1" "plain_tx sample_state t2" "plain_tx sample_state t3"
    by (simp_all add: t sample_block_def sample_tx_def plain_tx_def p2pkh_plain)
  have ins: "tx_ins t1 = {}" "tx_ins t2 = {\<lparr>Hash = replicate 32 7, Index = 1\<rparr>}" "tx_ins t3 = {\<lparr>Hash = replicate 32 9, Index = 0\<rparr>}"
    by (simp_all add: t sample_block_def sample_tx_def tx_ins_def spends_def IsCoinBase_def IsInternalContract_def
        NewNullOutPoint_def MaxUint32_def ZeroHash_def HashSize_def)
  have hash: "cached_hash t1 = Some (replicate 32 8)" "cached_hash t2 = Some (replicate 32 9)" "cached_hash t3 = Some (replicate 32 10)"
    by (simp_all add: t sample_block_def sample_tx_def)
  have kind: "\<not> IsContractType \<lparr>Hash = replicate 32 7, Index = 1\<rparr>" "\<not> IsContractType \<lparr>Hash = replicate 32 9, Index = 0\<rparr>"
    by (simp_all add: IsContractType_def ZeroAddressHash_def Ripemd160Size_def)
  have other: "tx_ins t2 \<inter> tx_outs t2 = {}" "tx_ins t2 \<inter> tx_outs t3 = {}" "tx_ins t3 \<inter> tx_outs t3 = {}"
    by (simp_all add: ins tx_outs_def hash out_utxo_def)
  have "txs_ok zero_crypto (\<lambda>_ _. []) sample_state 0 sample_loaded [t1, t2, t3]"
    by (intro txs_ok_Cons [OF plain(1) hash(1)] txs_ok_Cons [OF plain(2) hash(2)] txs_ok_Cons [OF plain(3) hash(3)])
      (use plain kind other in \<open>simp_all add: tx_ok_def ins sample_loaded_find\<close>)
  moreover have "Txs sample_block = [t1, t2, t3]" by (simp add: t sample_block_def)
  ultimately show ?thesis by simp
qed

theorem reorg_restores_utxos_witness:
  "\<exists>u' block' r. ApplyBlock zero_crypto (\<lambda>_ _. []) sample_state sample_block sample_loaded = Inr (u', block') \<and>
    RevertBlock zero_crypto (\<lambda>_. None) block' u' = Inr r \<and>
    unspent r = (\<lambda>op. if op \<in> \<Union> (tx_outs ` set (Txs sample_block)) then None else unspent sample_loaded op)"
proof -
  have "Height (Header sample_block) = 0" by (simp add: sample_block_def zero_header_def)
  then show ?thesis
    using reorg_restores_utxos [of zero_crypto "\<lambda>_ _. []" sample_state sample_block sample_loaded "\<lambda>_. None"] sample_txs_ok
    by (simp add: sample_block_def)
qed

theorem utxo_set_persisted_witness:
  "fetchUtxoWrapFromDB (table_ops [1]) (snd (WriteUtxoSetToDB (table_ops [1]) sample_set NewMemoryDB))
     \<lparr>Hash = replicate 32 7, Index = 1\<rparr> =
   Inr (Some (NewUtxoWrap 500 (PayToPubKeyHashScript (replicate 20 1)) 3))"
proof -
  have map: "utxoMap sample_set = [(\<lparr>Hash = replicate 32 7, Index = 1\<rparr>,
      NewUtxoWrap 500 (PayToPubKeyHashScript (replicate 20 1)) 3)]"
    by (simp add: sample_set_def put_utxo_def NewUtxoSet_def)
  have "fst (WriteUtxoSetToDB (table_ops [1]) sample_set NewMemoryDB) = None"
    by code_simp
  then obtain db' where "WriteUtxoSetToDB (table_ops [1]) sample_set NewMemoryDB = (None, db')"
    by (cases "WriteUtxoSetToDB (table_ops [1]) sample_set NewMemoryDB") simp
  moreover have "length (PayToPubKeyHashScript (replicate 20 1)) < 2 ^ 62" "\<not> lossy_script (PayToPubKeyHashScript (replicate 20 1))"
    by (simp_all add: p2pkh_bytes Ripemd160Size_def lossy_script_def isPubKeyHash_def isScriptHash_def)
  ultimately show ?thesis using utxo_set_persisted [of NewMemoryDB sample_set "\<lparr>Hash = replicate 32 7, Index = 1\<rparr>" "[1]" db'] map
    by (simp add: FindUtxo_def storable_def hash_wf_def HashSize_def unlocked_def NewMemoryDB_def)
qed

end
