(* ===== verification/Tx_Validate.thy ===== *)
theory Tx_Validate
  imports Utxo_Set Script_Exec
begin

text \<open>
  Validation of transactions and blocks, \<^verbatim>\<open>src/core/chain/validate.go\<close>: the time window of a block, the
  structure of a block, the context free checks of a transaction, the amounts of its inputs, and the
  collection of the scripts that have to be run. The conversion of a power of ten to \<^verbatim>\<open>uint64\<close> is the
  parameter \<open>pow10\<close> of the token amounts.
\<close>

datatype chain_error =
  ErrBlockTimeOut | ErrFutureBlock | ErrNoTransactions | ErrFirstTxNotCoinbase | ErrMultipleCoinbases
| ErrMaxTxsSizeExceeded | ErrUnfinalizedTx | ErrDoubleSpendTx | ErrNonStandardTransaction | ErrBadMerkleRoot
| ErrMissingTxOut | ErrBadTxOutValue | ErrTokenInvalidName | ErrSpendTooHigh | ErrTokenInputsOutputNotEqual
| ErrNoTxInputs | ErrNoTxOutputs | ErrUtxosOob | ErrVoutsOob | ErrBadCoinbaseScriptLen | ErrBadTxInput
| ErrScript script_error | ErrChainPanic

definition MaxBlockTimeOut :: int where "MaxBlockTimeOut = 1"
definition MaxTxsRoughSize :: nat where "MaxTxsRoughSize = 4 * 1024 * 1024"
definition MinCoinbaseScriptLen :: nat where "MinCoinbaseScriptLen = 2"
definition MaxCoinbaseScriptLen :: nat where "MaxCoinbaseScriptLen = 1000"
definition MaxVinInTx :: nat where "MaxVinInTx = 256"
definition MaxVoutInTx :: nat where "MaxVoutInTx = 256"

text \<open>The difference of the two times is computed in 64 bits.\<close>

definition VerifyBlockTimeOut :: "int \<Rightarrow> Block \<Rightarrow> chain_error option" where
  "VerifyBlockTimeOut now block =
     (if wrap_int (now - TimeStamp (Header block)) > MaxBlockTimeOut then Some ErrBlockTimeOut
      else if now < TimeStamp (Header block) then Some ErrFutureBlock else None)"

definition IsTxFinalized :: "Transaction \<Rightarrow> u32 \<Rightarrow> int \<Rightarrow> bool" where
  "IsTxFinalized tx blockHeight blockTime =
     (let lockTime = LockTime tx in
      if lockTime = 0 then True
      else
        (let blockTimeOrHeight = (if lockTime < LockTimeThreshold then int (unat blockHeight) else blockTime) in
         if lockTime < blockTimeOrHeight then True
         else list_all (\<lambda>txIn. Sequence txIn = MaxUint32) (Vin tx)))"

fun output_total :: "u64 \<Rightarrow> TxOut list \<Rightarrow> chain_error option" where
  "output_total totalValue [] = None"
| "output_total totalValue (txOut # outs) =
     (if Value txOut > TotalSupply then Some ErrBadTxOutValue
      else
        (let totalValue = totalValue + Value txOut in
         if totalValue < Value txOut then Some ErrBadTxOutValue
         else if totalValue > TotalSupply then Some ErrBadTxOutValue
         else output_total totalValue outs))"

definition ValidateTransactionPreliminary :: "Transaction \<Rightarrow> chain_error option" where
  "ValidateTransactionPreliminary tx =
     (if length (Vin tx) = 0 then Some ErrNoTxInputs
      else if length (Vout tx) = 0 then Some ErrNoTxOutputs
      else if length (Vin tx) > MaxVinInTx then Some ErrUtxosOob
      else if length (Vout tx) > MaxVoutInTx then Some ErrVoutsOob
      else case output_total 0 (Vout tx) of Some e \<Rightarrow> Some e
      | None \<Rightarrow>
          if IsCoinBase tx \<or> IsInternalContract tx then
            (let slen = length (ScriptSig (Vin tx ! 0)) in
             if slen < MinCoinbaseScriptLen \<or> slen > MaxCoinbaseScriptLen then Some ErrBadCoinbaseScriptLen else None)
          else if list_ex (\<lambda>txIn. isNullOutPoint (PrevOutPoint txIn)) (Vin tx) then Some ErrBadTxInput
          else None)"

text \<open>The outpoints a transaction adds to those the block spent so far.\<close>

fun check_spent :: "OutPoint list \<Rightarrow> TxIn list \<Rightarrow> OutPoint list option" where
  "check_spent existing [] = Some existing"
| "check_spent existing (txIn # ins) =
     (if PrevOutPoint txIn \<in> set existing then None else check_spent (PrevOutPoint txIn # existing) ins)"

text \<open>The loop over the transactions; \<^verbatim>\<open>IsStandardTx\<close> stores the type it finds in the transaction.\<close>

fun check_txs ::
  "('sig, 'pk) crypto_ops \<Rightarrow> StateView \<Rightarrow> BlockHeader \<Rightarrow> nat \<Rightarrow> OutPoint list \<Rightarrow> Transaction list \<Rightarrow>
     chain_error + Transaction list" where
  "check_txs c statedb header roughSize existing [] = Inr []"
| "check_txs c statedb header roughSize existing (tx # txs) =
     (let roughSize = roughSize + RoughSize tx in
      if roughSize > MaxTxsRoughSize then Inl ErrMaxTxsSizeExceeded
      else
        (let (_, tx) = TxHash c tx in
         if \<not> IsTxFinalized tx (Height header) (TimeStamp header) then Inl ErrUnfinalizedTx
         else case ValidateTransactionPreliminary tx of Some e \<Rightarrow> Inl e
         | None \<Rightarrow>
             (case check_spent existing (Vin tx) of None \<Rightarrow> Inl ErrDoubleSpendTx
              | Some existing \<Rightarrow>
                  (let (standard, tx) = IsStandardTx tx (Some statedb) in
                   if \<not> standard then Inl ErrNonStandardTransaction
                   else case check_txs c statedb header roughSize existing txs of
                     Inl e \<Rightarrow> Inl e | Inr txs \<Rightarrow> Inr (tx # txs)))))"

text \<open>
  The last check of \<^verbatim>\<open>validateBlock\<close> looks for duplicate transactions in a map whose keys are pointers to
  hashes; the pointers of different transactions differ, so it never finds one.
\<close>

definition validateBlock :: "('sig, 'pk) crypto_ops \<Rightarrow> StateView \<Rightarrow> Block \<Rightarrow> chain_error + Block" where
  "validateBlock c statedb block =
     (case Txs block of [] \<Rightarrow> Inl ErrNoTransactions
      | t # ts \<Rightarrow>
          if \<not> IsCoinBase t then Inl ErrFirstTxNotCoinbase
          else if list_ex IsCoinBase ts then Inl ErrMultipleCoinbases
          else case check_txs c statedb (Header block) 0 [] (Txs block) of Inl e \<Rightarrow> Inl e
          | Inr txs \<Rightarrow>
              (case CalcTxsHash c txs of None \<Rightarrow> Inl ErrChainPanic
               | Some root \<Rightarrow>
                   if TxsRoot (Header block) \<noteq> root then Inl ErrBadMerkleRoot else Inr (block\<lparr>Txs := txs\<rparr>)))"

section \<open>Scripts\<close>

record ScriptItem =
  it_tx :: Transaction
  txInIdx :: nat
  it_scriptSig :: bytes
  prevScriptPubKey :: bytes

fun check_scripts ::
  "('sig, 'pk) crypto_ops \<Rightarrow> UtxoSet \<Rightarrow> Transaction \<Rightarrow> bool \<Rightarrow> nat \<Rightarrow> TxIn list \<Rightarrow> chain_error + ScriptItem list" where
  "check_scripts c u tx skipValidation i [] = Inr []"
| "check_scripts c u tx skipValidation i (txIn # ins) =
     (case FindUtxo u (PrevOutPoint txIn) of None \<Rightarrow> Inl ErrMissingTxOut
      | Some utxo \<Rightarrow>
          if IsSpent utxo then Inl ErrMissingTxOut
          else if skipValidation then
            (case check_scripts c u tx skipValidation (i + 1) ins of Inl e \<Rightarrow> Inl e
             | Inr items \<Rightarrow> Inr (\<lparr>it_tx = tx, txInIdx = i, it_scriptSig = ScriptSig txIn,
                                 prevScriptPubKey = utxo_script utxo\<rparr> # items))
          else (case Validate c (ScriptSig txIn) (utxo_script utxo) tx i of Some e \<Rightarrow> Inl (ErrScript e)
                | None \<Rightarrow> check_scripts c u tx skipValidation (i + 1) ins))"

definition CheckTxScripts ::
  "('sig, 'pk) crypto_ops \<Rightarrow> UtxoSet \<Rightarrow> Transaction \<Rightarrow> bool \<Rightarrow> chain_error + ScriptItem list" where
  "CheckTxScripts c u tx skipValidation = check_scripts c u tx skipValidation 0 (Vin tx)"

text \<open>The items \<^verbatim>\<open>validateBlockScripts\<close> hands to the validator, of all transactions but the coinbase.\<close>

fun block_items :: "('sig, 'pk) crypto_ops \<Rightarrow> UtxoSet \<Rightarrow> Transaction list \<Rightarrow> chain_error + ScriptItem list" where
  "block_items c u [] = Inr []"
| "block_items c u (tx # txs) =
     (if IsInternalContract tx then block_items c u txs
      else case CheckTxScripts c u tx True of Inl e \<Rightarrow> Inl e
      | Inr items \<Rightarrow> (case block_items c u txs of Inl e \<Rightarrow> Inl e | Inr rest \<Rightarrow> Inr (items @ rest)))"

section \<open>Amounts\<close>

text \<open>\<^verbatim>\<open>strings.EqualFold\<close> with ``box'', whose letters fold only to their two ASCII cases.\<close>

definition fold_byte :: "byte \<Rightarrow> byte" where
  "fold_byte b = (if 65 \<le> b \<and> b \<le> 90 then b + 32 else b)"

definition EqualFold_box :: "bytes \<Rightarrow> bool" where
  "EqualFold_box name \<longleftrightarrow> map fold_byte name = ascii ''box''"

type_synonym TokenAmounts = "(OutPoint \<times> u64) list"

definition add_token :: "OutPoint \<Rightarrow> u64 \<Rightarrow> TokenAmounts \<Rightarrow> TokenAmounts" where
  "add_token tid v m = AList.update tid ((case map_of m tid of None \<Rightarrow> 0 | Some x \<Rightarrow> x) + v) m"

definition token_in :: "(byte \<Rightarrow> u64) \<Rightarrow> OutPoint \<Rightarrow> bytes \<Rightarrow> TokenAmounts \<Rightarrow> chain_error + TokenAmounts" where
  "token_in pow10 op sc m =
     (if IsTokenIssue sc then
        (case GetIssueParams sc of Inl _ \<Rightarrow> Inl ErrChainPanic
         | Inr params \<Rightarrow>
             if EqualFold_box (Name params) then Inl ErrTokenInvalidName
             else Inr (add_token op (IssueParams.TotalSupply params * pow10 (Decimals params)) m))
      else if IsTokenTransfer sc then
        (case GetTransferParams sc of Inl _ \<Rightarrow> Inl ErrChainPanic
         | Inr params \<Rightarrow> Inr (add_token (TokenID params) (Amount params) m))
      else Inr m)"

fun sum_inputs ::
  "(byte \<Rightarrow> u64) \<Rightarrow> UtxoSet \<Rightarrow> u64 \<Rightarrow> TokenAmounts \<Rightarrow> TxIn list \<Rightarrow> chain_error + (u64 \<times> TokenAmounts)" where
  "sum_inputs pow10 u amount m [] = Inr (amount, m)"
| "sum_inputs pow10 u amount m (txIn # ins) =
     (case FindUtxo u (PrevOutPoint txIn) of None \<Rightarrow> Inl ErrMissingTxOut
      | Some utxo \<Rightarrow>
          if IsSpent utxo then Inl ErrMissingTxOut
          else if utxo_value utxo > TotalSupply then Inl ErrBadTxOutValue
          else
            (let lastAmount = amount; amount = amount + utxo_value utxo in
             if amount < lastAmount \<or> amount > TotalSupply then Inl ErrBadTxOutValue
             else case token_in pow10 (PrevOutPoint txIn) (utxo_script utxo) m of Inl e \<Rightarrow> Inl e
             | Inr m \<Rightarrow> sum_inputs pow10 u amount m ins))"

fun sum_outputs :: "u64 \<Rightarrow> TokenAmounts \<Rightarrow> TxOut list \<Rightarrow> chain_error + (u64 \<times> TokenAmounts)" where
  "sum_outputs amount m [] = Inr (amount, m)"
| "sum_outputs amount m (txOut # outs) =
     (let amount = amount + Value txOut in
      if IsTokenTransfer (ScriptPubKey txOut) then
        (case GetTransferParams (ScriptPubKey txOut) of Inl _ \<Rightarrow> Inl ErrChainPanic
         | Inr params \<Rightarrow> sum_outputs amount (add_token (TokenID params) (Amount params) m) outs)
      else sum_outputs amount m outs)"

definition ValidateTxInputs :: "(byte \<Rightarrow> u64) \<Rightarrow> UtxoSet \<Rightarrow> Transaction \<Rightarrow> chain_error + u64" where
  "ValidateTxInputs pow10 u tx =
     (if IsCoinBase tx \<or> IsInternalContract tx then Inr 0
      else case sum_inputs pow10 u 0 [] (Vin tx) of Inl e \<Rightarrow> Inl e
      | Inr (totalInputAmount, tokenInputAmounts) \<Rightarrow>
          (case sum_outputs 0 [] (Vout tx) of Inl e \<Rightarrow> Inl e
           | Inr (totalOutputAmount, tokenOutputAmounts) \<Rightarrow>
               if totalInputAmount < totalOutputAmount then Inl ErrSpendTooHigh
               else if length tokenOutputAmounts \<noteq> length tokenInputAmounts then Inl ErrTokenInputsOutputNotEqual
               else if list_ex (\<lambda>(k, v). map_of tokenInputAmounts k \<noteq> Some v) tokenOutputAmounts
               then Inl ErrTokenInputsOutputNotEqual
               else Inr (totalInputAmount - totalOutputAmount)))"

section \<open>Laws\<close>

lemma TotalSupply_bound: "(v :: u64) \<le> TotalSupply \<longleftrightarrow> unat v \<le> 300000000000000000"
  by (simp add: word_le_nat_alt TotalSupply_unat)

lemma add_no_wrap: "unat (a :: u64) + unat b < 2 ^ 64 \<Longrightarrow> unat (a + b) = unat a + unat b"
  by (simp add: unat_plus_simple word_le_nat_alt unat_word_ariths)

text \<open>The running total of the outputs never wraps, since both summands are below the total supply.\<close>

lemma output_total_ok:
  assumes "output_total acc outs = None" and "acc \<le> TotalSupply"
  shows "(\<forall>out\<in>set outs. Value out \<le> TotalSupply) \<and>
    unat acc + (\<Sum>out\<leftarrow>outs. unat (Value out)) \<le> unat TotalSupply"
  using assms
proof (induction acc outs rule: output_total.induct)
  case (2 acc out outs)
  then have v: "Value out \<le> TotalSupply" by (auto simp: Let_def split: if_splits)
  with "2.prems" have "unat (acc + Value out) = unat acc + unat (Value out)"
    by (intro add_no_wrap) (simp add: TotalSupply_bound)
  with 2 v show ?case by (auto simp: Let_def not_less add.assoc split: if_splits)
qed (simp add: word_le_nat_alt)

lemma ValidateTransactionPreliminary_ok:
  assumes "ValidateTransactionPreliminary tx = None"
  shows "0 < length (Vin tx)" "length (Vin tx) \<le> 256" "0 < length (Vout tx)" "length (Vout tx) \<le> 256"
    "(\<Sum>out\<leftarrow>Vout tx. unat (Value out)) \<le> unat TotalSupply"
  using assms output_total_ok [of 0 "Vout tx"]
  by (auto simp: ValidateTransactionPreliminary_def MaxVinInTx_def MaxVoutInTx_def split: if_splits option.splits)

text \<open>The value of an outpoint that can be spent.\<close>

definition utxo_amount :: "UtxoSet \<Rightarrow> OutPoint \<Rightarrow> nat" where
  "utxo_amount u op = (case unspent u op of None \<Rightarrow> 0 | Some (v, _, _) \<Rightarrow> unat v)"

lemma sum_inputs_ok:
  assumes "sum_inputs pow10 u acc m ins = Inr (amount, m')" and "acc \<le> TotalSupply"
  shows "amount \<le> TotalSupply \<and> unat amount = unat acc + (\<Sum>i\<leftarrow>ins. utxo_amount u (PrevOutPoint i)) \<and>
    (\<forall>i\<in>set ins. unspent u (PrevOutPoint i) \<noteq> None)"
  using assms
proof (induction pow10 u acc m ins rule: sum_inputs.induct)
  case (2 pow10 u acc m i ins)
  then obtain w where w: "FindUtxo u (PrevOutPoint i) = Some w" "\<not> IsSpent w" "utxo_value w \<le> TotalSupply"
    by (auto split: option.splits if_splits)
  with "2.prems" have "unat (acc + utxo_value w) = unat acc + unat (utxo_value w)"
    by (intro add_no_wrap) (simp add: TotalSupply_bound)
  moreover have "utxo_amount u (PrevOutPoint i) = unat (utxo_value w)" "unspent u (PrevOutPoint i) \<noteq> None"
    using w by (simp_all add: utxo_amount_def unspent_def)
  ultimately show ?case using 2 w by (auto simp: Let_def split: if_splits sum.splits)
qed simp

lemma sum_outputs_ok:
  assumes "sum_outputs acc m outs = Inr (amount, m')"
    and "unat acc + (\<Sum>out\<leftarrow>outs. unat (Value out)) < 2 ^ 64"
  shows "unat amount = unat acc + (\<Sum>out\<leftarrow>outs. unat (Value out))"
  using assms
proof (induction acc m outs rule: sum_outputs.induct)
  case (2 acc m out outs)
  then have "unat (acc + Value out) = unat acc + unat (Value out)" by (intro add_no_wrap) simp
  with 2 show ?case by (auto simp: Let_def split: if_splits sum.splits)
qed simp

lemma ValidateTxInputs_amounts:
  assumes "ValidateTxInputs pow10 u tx = Inr fee" and "ValidateTransactionPreliminary tx = None" and "spends tx"
  shows "(\<Sum>i\<leftarrow>Vin tx. utxo_amount u (PrevOutPoint i)) = (\<Sum>out\<leftarrow>Vout tx. unat (Value out)) + unat fee"
    and "\<forall>i\<in>set (Vin tx). unspent u (PrevOutPoint i) \<noteq> None"
    and "(\<Sum>i\<leftarrow>Vin tx. utxo_amount u (PrevOutPoint i)) \<le> unat TotalSupply"
proof -
  from assms(1,3) obtain ia im oa om where
    i: "sum_inputs pow10 u 0 [] (Vin tx) = Inr (ia, im)" and out: "sum_outputs 0 [] (Vout tx) = Inr (oa, om)"
    and le: "oa \<le> ia" and fee: "fee = ia - oa"
    by (auto simp: ValidateTxInputs_def spends_def split: sum.splits if_splits)
  have "unat oa = (\<Sum>out\<leftarrow>Vout tx. unat (Value out))"
    using sum_outputs_ok [OF out] ValidateTransactionPreliminary_ok(5) [OF assms(2)] by (simp add: TotalSupply_unat)
  moreover have "unat ia = unat oa + unat fee" using le fee by (simp add: unat_sub word_le_nat_alt)
  moreover have in_ok: "unat ia = (\<Sum>i\<leftarrow>Vin tx. utxo_amount u (PrevOutPoint i))" "ia \<le> TotalSupply"
      "\<forall>i\<in>set (Vin tx). unspent u (PrevOutPoint i) \<noteq> None"
    using sum_inputs_ok [OF i] by simp_all
  ultimately show "(\<Sum>i\<leftarrow>Vin tx. utxo_amount u (PrevOutPoint i)) = (\<Sum>out\<leftarrow>Vout tx. unat (Value out)) + unat fee"
    "\<forall>i\<in>set (Vin tx). unspent u (PrevOutPoint i) \<noteq> None"
    "(\<Sum>i\<leftarrow>Vin tx. utxo_amount u (PrevOutPoint i)) \<le> unat TotalSupply"
    by (simp_all add: word_le_nat_alt)
qed

section \<open>The total of the unspent outputs\<close>

definition total_unspent :: "UtxoSet \<Rightarrow> nat" where
  "total_unspent u = (\<Sum>op\<in>fst ` set (utxoMap u). utxo_amount u op)"

text \<open>What leaves the set for good: the values of unspendable outputs.\<close>

definition kept_value :: "TxOut list \<Rightarrow> nat" where
  "kept_value outs = (\<Sum>out\<leftarrow>outs. if IsOpReturnScript (ScriptPubKey out) then 0 else unat (Value out))"

definition burned_value :: "TxOut list \<Rightarrow> nat" where
  "burned_value outs = (\<Sum>out\<leftarrow>outs. if IsOpReturnScript (ScriptPubKey out) then unat (Value out) else 0)"

lemma kept_burned: "kept_value outs + burned_value outs = (\<Sum>out\<leftarrow>outs. unat (Value out))"
  by (induction outs) (auto simp: kept_value_def burned_value_def)

lemma dom_FindUtxo: "dom (FindUtxo u) = fst ` set (utxoMap u)"
proof -
  have "FindUtxo u = map_of (utxoMap u)" by (simp add: fun_eq_iff FindUtxo_def)
  then show ?thesis by (simp add: dom_map_of_conv_image_fst)
qed

lemma total_over:
  assumes "finite S" and "dom (FindUtxo u) \<subseteq> S"
  shows "total_unspent u = (\<Sum>op\<in>S. utxo_amount u op)"
proof -
  have "utxo_amount u op = 0" if "op \<in> S - fst ` set (utxoMap u)" for op
  proof -
    have "op \<notin> dom (FindUtxo u)" using that by (simp add: dom_FindUtxo)
    then show ?thesis by (simp add: domIff utxo_amount_def unspent_def)
  qed
  with assms show ?thesis
    unfolding total_unspent_def dom_FindUtxo by (intro sum.mono_neutral_left) auto
qed

lemma out_points:
  assumes "length outs < 2 ^ 32"
  shows "finite {op. out_utxo h height outs op \<noteq> None}"
    and "(\<Sum>op | out_utxo h height outs op \<noteq> None. unat (utxo_value (the (out_utxo h height outs op)))) = kept_value outs"
proof -
  let ?I = "{i. i < length outs \<and> \<not> IsOpReturnScript (ScriptPubKey (outs ! i))}"
  let ?f = "\<lambda>i. \<lparr>Hash = h, Index = of_nat i\<rparr> :: OutPoint"
  have ix: "unat (of_nat i :: u32) = i" if "i < length outs" for i using that assms by (simp add: unat_of_nat_less)
  have O: "{op. out_utxo h height outs op \<noteq> None} = ?f ` ?I"
  proof (intro set_eqI iffI)
    fix op assume "op \<in> {op. out_utxo h height outs op \<noteq> None}"
    then have "op = ?f (unat (Index op))" "unat (Index op) \<in> ?I" by (auto simp: out_utxo_def split: if_splits)
    then show "op \<in> ?f ` ?I" by blast
  qed (auto simp: out_utxo_def ix)
  then show "finite {op. out_utxo h height outs op \<noteq> None}" by simp
  have "inj_on ?f ?I" using ix by (auto simp: inj_on_def) metis
  then have "(\<Sum>op\<in>?f ` ?I. unat (utxo_value (the (out_utxo h height outs op)))) =
      (\<Sum>i\<in>?I. unat (utxo_value (the (out_utxo h height outs (?f i)))))" by (simp add: sum.reindex)
  also have "\<dots> = (\<Sum>i\<in>?I. unat (Value (outs ! i)))"
    by (rule sum.cong) (simp_all add: out_utxo_def ix)
  also have "\<dots> = (\<Sum>i<length outs. if IsOpReturnScript (ScriptPubKey (outs ! i)) then 0 else unat (Value (outs ! i)))"
    by (rule sum.mono_neutral_cong_left) auto
  also have "\<dots> = kept_value outs"
    by (simp add: kept_value_def sum_list_sum_nth lessThan_atLeast0)
  finally show "(\<Sum>op | out_utxo h height outs op \<noteq> None. unat (utxo_value (the (out_utxo h height outs op)))) = kept_value outs"
    unfolding O .
qed

lemma applyTx_total:
  assumes ok: "tx_ok sv u tx" and fresh: "\<forall>op\<in>tx_outs tx. FindUtxo u op = None"
    and app: "applyTx c ca sv height tx u = Inr (u', tx')"
  shows "total_unspent u' + (\<Sum>op\<in>tx_ins tx. utxo_amount u op) = total_unspent u + kept_value (Vout tx)"
proof -
  from ok obtain h where h: "cached_hash tx = Some h" and plain: "plain_tx sv tx"
    by (auto simp: tx_ok_def plain_tx_def)
  let ?O = "{op. out_utxo h height (Vout tx) op \<noteq> None}" and ?D = "dom (FindUtxo u)" and ?I = "tx_ins tx"
  from applyTx_plain [OF plain h, of c ca height u] app have found: "\<And>op. FindUtxo u' op =
      (let w = (case FindUtxo u op of Some w \<Rightarrow> Some w | None \<Rightarrow> out_utxo h height (Vout tx) op) in
       if op \<in> tx_ins tx then Some (Spend (case w of None \<Rightarrow> empty_UtxoWrap | Some w \<Rightarrow> w)) else w)" by auto
  have new: "?O \<inter> ?D = {}" and ins: "?I \<subseteq> ?D"
    using ok fresh h out_utxo_None [of h height "Vout tx" _ 0] by (auto simp: tx_ok_def tx_outs_def split: option.splits)
  have "length (Vout tx) < 2 ^ 32" using plain by (simp add: plain_tx_def)
  note out = out_points [OF this, of h height]
  have fin: "finite ?D" by (simp add: dom_FindUtxo)
  have amounts: "op \<in> ?I \<Longrightarrow> utxo_amount u' op = 0"
    "op \<in> ?O \<Longrightarrow> utxo_amount u' op = unat (utxo_value (the (out_utxo h height (Vout tx) op)))"
    "op \<in> ?D - ?I \<Longrightarrow> utxo_amount u' op = utxo_amount u op" for op
    using found [of op] new ins
    by (auto simp: utxo_amount_def unspent_def Let_def out_utxo_def split: option.splits if_splits)
  have "total_unspent u' = (\<Sum>op\<in>(?D - ?I) \<union> ?I \<union> ?O. utxo_amount u' op)"
    using found fin finite_subset [OF ins fin] out(1) by (intro total_over) (auto simp: Let_def split: option.splits if_splits)
  also have "\<dots> = (\<Sum>op\<in>(?D - ?I) \<union> ?I. utxo_amount u' op) + (\<Sum>op\<in>?O. utxo_amount u' op)"
    by (rule sum.union_disjoint) (use fin finite_subset [OF ins fin] out(1) new ins in blast)+
  also have "(\<Sum>op\<in>(?D - ?I) \<union> ?I. utxo_amount u' op) = (\<Sum>op\<in>?D - ?I. utxo_amount u' op) + (\<Sum>op\<in>?I. utxo_amount u' op)"
    by (rule sum.union_disjoint) (use fin finite_subset [OF ins fin] in blast)+
  also have "(\<Sum>op\<in>?D - ?I. utxo_amount u' op) = (\<Sum>op\<in>?D - ?I. utxo_amount u op)"
    using amounts(3) by (rule sum.cong [OF refl])
  also have "(\<Sum>op\<in>?I. utxo_amount u' op) = 0" using amounts(1) by simp
  also have "(\<Sum>op\<in>?O. utxo_amount u' op) = kept_value (Vout tx)"
    using amounts(2) by (simp only: out(2) [symmetric] cong: sum.cong)
  finally have "total_unspent u' = (\<Sum>op\<in>?D - ?I. utxo_amount u op) + kept_value (Vout tx)" by simp
  moreover have "total_unspent u = (\<Sum>op\<in>?D - ?I. utxo_amount u op) + (\<Sum>op\<in>?I. utxo_amount u op)"
    using total_over [OF fin subset_refl] sum.subset_diff [OF ins fin, of "utxo_amount u"] by simp
  ultimately show ?thesis by simp
qed

section \<open>Blocks\<close>

lemma check_spent_distinct:
  "check_spent existing ins = Some r \<Longrightarrow> distinct existing \<Longrightarrow>
     distinct r \<and> r = rev (map PrevOutPoint ins) @ existing"
  by (induction existing ins arbitrary: r rule: check_spent.induct) (auto split: if_splits)

lemma IsStandardTx_same: "same_tx tx (snd (IsStandardTx tx s))"
  by (simp add: IsStandardTx_def ParseTxType_def same_tx_def split: prod.splits)

lemma TxHash_ins: "Vin (snd (TxHash c tx)) = Vin tx" "Vout (snd (TxHash c tx)) = Vout tx"
  by (simp_all add: TxHash_def split: option.splits)

lemma ValidateTransactionPreliminary_cong:
  "Vin a = Vin b \<Longrightarrow> Vout a = Vout b \<Longrightarrow> ValidateTransactionPreliminary a = ValidateTransactionPreliminary b"
  by (simp only: ValidateTransactionPreliminary_def IsCoinBase_def IsInternalContract_def)

lemma check_txs_ok:
  assumes "check_txs c sv header rough existing txs = Inr txs'" and "distinct existing"
  shows "distinct (existing @ map PrevOutPoint (concat (map Vin txs))) \<and>
    list_all (\<lambda>tx. ValidateTransactionPreliminary tx = None) txs \<and>
    list_all2 (\<lambda>tx tx'. Vin tx' = Vin tx \<and> Vout tx' = Vout tx) txs txs' \<and>
    rough + (\<Sum>tx\<leftarrow>txs. RoughSize tx) \<le> max rough MaxTxsRoughSize"
  using assms
proof (induction txs arbitrary: rough existing txs')
  case (Cons tx txs)
  obtain h tx1 where h: "TxHash c tx = (h, tx1)" by (cases "TxHash c tx")
  then have tx1: "Vin tx1 = Vin tx" "Vout tx1 = Vout tx" using TxHash_ins [of c tx] by simp_all
  obtain st tx2 where st: "IsStandardTx tx1 (Some sv) = (st, tx2)" by (cases "IsStandardTx tx1 (Some sv)")
  then have tx2: "Vin tx2 = Vin tx" "Vout tx2 = Vout tx"
    using IsStandardTx_same [of tx1 "Some sv"] tx1 by (simp_all add: same_tx_def)
  from Cons.prems(1) h st obtain ex txs1 where
    a: "rough + RoughSize tx \<le> MaxTxsRoughSize" and b: "ValidateTransactionPreliminary tx1 = None"
    and d: "check_spent existing (Vin tx1) = Some ex"
    and e: "check_txs c sv header (rough + RoughSize tx) ex txs = Inr txs1" "txs' = tx2 # txs1"
    by (auto simp: Let_def split: if_splits option.splits sum.splits)
  from check_spent_distinct [OF d Cons.prems(2)] have
    ex: "distinct ex" "ex = rev (map PrevOutPoint (Vin tx)) @ existing" unfolding tx1 by blast+
  let ?xs = "map PrevOutPoint (Vin tx)" and ?ys = "map PrevOutPoint (concat (map Vin txs))"
  note IH = Cons.IH [OF e(1) ex(1)]
  then have "distinct (existing @ ?xs @ ?ys)" unfolding ex(2) by auto
  then have "distinct (existing @ map PrevOutPoint (concat (map Vin (tx # txs))))" by (simp only: list.map concat.simps map_append)
  moreover have "rough + (\<Sum>tx\<leftarrow>tx # txs. RoughSize tx) \<le> max rough MaxTxsRoughSize"
    using IH a by (simp add: max_def split: if_splits)
  ultimately show ?case using IH b tx2 e(2) ValidateTransactionPreliminary_cong [OF tx1]
    by (simp only: list.pred_inject list.rel_inject)
qed simp

lemma merkle_of_checked:
  "validateBlock c sv block = Inr block' \<Longrightarrow> CalcTxsHash c (Txs block') = Some (TxsRoot (Header block))"
  by (auto simp: validateBlock_def split: list.splits if_splits sum.splits option.splits)

lemma wrap_int_cases:
  assumes "- (2 ^ 64) < d" and "d < 2 ^ 64"
  shows "wrap_int d = (if d \<ge> 2 ^ 63 then d - 2 ^ 64 else if d < - (2 ^ 63) then d + 2 ^ 64 else d)"
proof -
  have "(d + 2 ^ 63) mod 2 ^ 64 = (d + 2 ^ 63 - 2 ^ 64) mod 2 ^ 64" "(d + 2 ^ 63) mod 2 ^ 64 = (d + 2 ^ 63 + 2 ^ 64) mod 2 ^ 64"
    by (simp_all only: minus_mod_self2 mod_add_self2)
  moreover have "(d + 2 ^ 63 - 2 ^ 64) mod 2 ^ 64 = d + 2 ^ 63 - 2 ^ 64" if "d \<ge> 2 ^ 63"
    using assms that by (intro mod_pos_pos_trivial) simp_all
  moreover have "(d + 2 ^ 63 + 2 ^ 64) mod 2 ^ 64 = d + 2 ^ 63 + 2 ^ 64" if "d < - (2 ^ 63)"
    using assms that by (intro mod_pos_pos_trivial) simp_all
  ultimately show ?thesis using wrap_int_id [of d] by (simp add: wrap_int_def)
qed

section \<open>Properties\<close>

text \<open>C17: A valid transaction moves value and creates none. Under \<^verbatim>\<open>ValidateTransactionPreliminary\<close> and
  \<^verbatim>\<open>ValidateTxInputs\<close>, applying a plain transaction with distinct inputs and new outputs succeeds, and the
  sum of all unspent outputs falls by exactly the fee and the values of the unspendable outputs, as
  unbounded numbers: no sum wraps.\<close>

theorem supply_conserved:
  assumes "plain_tx sv tx" and "spends tx" and "distinct (map PrevOutPoint (Vin tx))"
    and "\<forall>op. out_utxo (the (cached_hash tx)) 0 (Vout tx) op \<noteq> None \<longrightarrow> FindUtxo u op = None"
    and "\<forall>op\<in>tx_ins tx. \<not> IsContractType op"
    and "ValidateTransactionPreliminary tx = None" and "ValidateTxInputs pow10 u tx = Inr fee"
  shows "\<exists>u' tx'. applyTx c create_addr sv height tx u = Inr (u', tx') \<and>
    total_unspent u' + unat fee + burned_value (Vout tx) = total_unspent u"
proof -
  note v = ValidateTxInputs_amounts [OF assms(7,6,2)]
  have ins: "tx_ins tx = set (map PrevOutPoint (Vin tx))" using assms(2) by (auto simp: tx_ins_def)
  have fresh: "\<forall>op\<in>tx_outs tx. FindUtxo u op = None" using assms(4) by (simp add: tx_outs_def)
  then have ok: "tx_ok sv u tx"
    unfolding tx_ok_def using assms(1,5) v(2) ins by (auto simp: unspent_def split: option.splits if_splits)
  obtain h where "cached_hash tx = Some h" using assms(1) by (auto simp: plain_tx_def)
  from applyTx_plain [OF assms(1) this, of c create_addr height u] obtain u' tx' where
    app: "applyTx c create_addr sv height tx u = Inr (u', tx')" by blast
  have "(\<Sum>op\<in>tx_ins tx. utxo_amount u op) = (\<Sum>i\<leftarrow>Vin tx. utxo_amount u (PrevOutPoint i))"
    unfolding ins sum_list_distinct_conv_sum_set [OF assms(3), symmetric] by (simp add: comp_def)
  with applyTx_total [OF ok fresh app] v(1) kept_burned [of "Vout tx"] app show ?thesis by auto
qed

text \<open>C22: A block that \<^verbatim>\<open>validateBlock\<close> accepts starts with its only coinbase, spends no outpoint
  twice, neither within a transaction nor across transactions, carries the root of its transactions,
  and every transaction has between one and 256 inputs and outputs with a total within the supply.\<close>

theorem validated_block_sound:
  assumes "validateBlock c sv block = Inr block'"
  shows "(\<exists>t ts. Txs block = t # ts \<and> IsCoinBase t \<and> list_all (\<lambda>tx. \<not> IsCoinBase tx) ts) \<and>
    distinct (map PrevOutPoint (concat (map Vin (Txs block)))) \<and>
    CalcTxsHash c (Txs block') = Some (TxsRoot (Header block)) \<and>
    list_all2 (\<lambda>tx tx'. Vin tx' = Vin tx \<and> Vout tx' = Vout tx) (Txs block) (Txs block') \<and>
    list_all (\<lambda>tx. 0 < length (Vin tx) \<and> length (Vin tx) \<le> 256 \<and> 0 < length (Vout tx) \<and> length (Vout tx) \<le> 256 \<and>
      (\<Sum>out\<leftarrow>Vout tx. unat (Value out)) \<le> unat TotalSupply) (Txs block) \<and>
    (\<Sum>tx\<leftarrow>Txs block. RoughSize tx) \<le> MaxTxsRoughSize"
proof -
  from assms obtain t ts txs where txs: "Txs block = t # ts" "IsCoinBase t" "\<not> list_ex IsCoinBase ts"
    "check_txs c sv (Header block) 0 [] (Txs block) = Inr txs" "Txs block' = txs"
    by (auto simp: validateBlock_def split: list.splits if_splits sum.splits option.splits)
  from check_txs_ok [OF txs(4)] ValidateTransactionPreliminary_ok
  have "list_all (\<lambda>tx. 0 < length (Vin tx) \<and> length (Vin tx) \<le> 256 \<and> 0 < length (Vout tx) \<and> length (Vout tx) \<le> 256 \<and>
      (\<Sum>out\<leftarrow>Vout tx. unat (Value out)) \<le> unat TotalSupply) (Txs block)"
    by (simp add: list_all_iff)
  with check_txs_ok [OF txs(4)] txs merkle_of_checked [OF assms] show ?thesis
    by (auto simp: list_ex_iff list_all_iff)
qed

text \<open>C27: The time window of a block. With both times in the range of \<^verbatim>\<open>int64\<close> the check accepts a
  block stamped with the current second or the one before, and, because the difference wraps, every
  time stamp at least \<open>2 ^ 63\<close> seconds in the past.\<close>

theorem block_time_window:
  assumes "int_range 64 now" and "int_range 64 (TimeStamp (Header block))"
  shows "VerifyBlockTimeOut now block = None \<longleftrightarrow>
    now - 1 \<le> TimeStamp (Header block) \<and> TimeStamp (Header block) \<le> now \<or>
    TimeStamp (Header block) \<le> now - 2 ^ 63"
proof -
  let ?d = "now - TimeStamp (Header block)"
  have "- (2 ^ 64) < ?d" "?d < 2 ^ 64" using assms by (simp_all add: int_range_def)
  note d = wrap_int_cases [OF this]
  with assms show ?thesis by (auto simp: VerifyBlockTimeOut_def MaxBlockTimeOut_def int_range_def)
qed

lemma token_exclusive: "IsTokenTransfer s \<Longrightarrow> \<not> IsTokenIssue s"
  by (auto simp: IsTokenTransfer_def IsTokenIssue_def Let_def TokenTxHashKey_def TokenNameKey_def
      split: if_splits)

text \<open>C29: Token amounts are added modulo \<open>2 ^ 64\<close>. A transaction that spends a token output of amount
  \<open>a\<close> and creates two token outputs of amounts \<open>x\<close> and \<open>y\<close> passes \<^verbatim>\<open>ValidateTxInputs\<close> whenever
  \<open>x + y = a\<close> in 64 bit arithmetic, so one token unit can be turned into \<open>2 ^ 64 + 1\<close>.\<close>

theorem token_amounts_wrap:
  assumes "Vin tx = [txIn]" and "FindUtxo u (PrevOutPoint txIn) = Some w" and "\<not> IsSpent w"
    and "utxo_value w \<le> TotalSupply" and "hash_wf (Hash tid)"
    and "length h = 20" "length ha = 20" "length hb = 20"
    and "utxo_script w = TransferTokenScript h \<lparr>TokenID = tid, Amount = a\<rparr>"
    and "Vout tx = [\<lparr>Value = 0, ScriptPubKey = TransferTokenScript ha \<lparr>TokenID = tid, Amount = x\<rparr>\<rparr>,
      \<lparr>Value = 0, ScriptPubKey = TransferTokenScript hb \<lparr>TokenID = tid, Amount = y\<rparr>\<rparr>]"
    and "x + y = a" and "spends tx"
  shows "ValidateTxInputs pow10 u tx = Inr (utxo_value w)"
proof -
  have tok: "IsTokenTransfer (TransferTokenScript k \<lparr>TokenID = tid, Amount = b\<rparr>)"
      "\<not> IsTokenIssue (TransferTokenScript k \<lparr>TokenID = tid, Amount = b\<rparr>)"
      "GetTransferParams (TransferTokenScript k \<lparr>TokenID = tid, Amount = b\<rparr>) = Inr \<lparr>TokenID = tid, Amount = b\<rparr>"
    if "length k = 20" for k b
    using IsTokenTransfer_script [of k "\<lparr>TokenID = tid, Amount = b\<rparr>"] transfer_script_parse [of k "\<lparr>TokenID = tid, Amount = b\<rparr>"]
      token_exclusive that assms(5) by (auto simp: Ripemd160Size_def)
  have "sum_inputs pow10 u 0 [] (Vin tx) = Inr (utxo_value w, [(tid, a)])"
    using assms(1-4) by (simp add: assms(9) token_in_def tok [OF assms(6)] add_token_def not_less Let_def)
  moreover have "sum_outputs 0 [] (Vout tx) = Inr (0, [(tid, a)])"
    using assms(11) by (simp add: assms(10) tok [OF assms(7)] tok [OF assms(8)] add_token_def)
  ultimately show ?thesis using assms(12) by (simp add: ValidateTxInputs_def spends_def)
qed

text \<open>Both modes of \<^verbatim>\<open>CheckTxScripts\<close> agree: running the scripts at once, or collecting them for later.\<close>

definition item_valid :: "('sig, 'pk) crypto_ops \<Rightarrow> ScriptItem \<Rightarrow> script_error option" where
  "item_valid c it = Validate c (it_scriptSig it) (prevScriptPubKey it) (it_tx it) (txInIdx it)"

lemma check_scripts_modes:
  "(\<exists>r. check_scripts c u tx False i ins = Inr r) \<longleftrightarrow>
   (\<exists>items. check_scripts c u tx True i ins = Inr items \<and> list_all (\<lambda>it. item_valid c it = None) items)"
proof (induction ins arbitrary: i)
  case (Cons txIn ins)
  show ?case
  proof (cases "FindUtxo u (PrevOutPoint txIn)")
    case (Some w)
    then show ?thesis using Cons.IH [of "i + 1"]
      by (auto simp: item_valid_def split: sum.splits option.splits)
  qed simp
qed simp

lemma check_scripts_items:
  assumes "check_scripts c u tx True i ins = Inr items"
  shows "length items = length ins" and "k < length ins \<Longrightarrow> \<exists>w. FindUtxo u (PrevOutPoint (ins ! k)) = Some w \<and>
    \<not> IsSpent w \<and> items ! k = \<lparr>it_tx = tx, txInIdx = i + k, it_scriptSig = ScriptSig (ins ! k),
      prevScriptPubKey = utxo_script w\<rparr>"
proof -
  have "length items = length ins \<and> (\<forall>k<length ins. \<exists>w. FindUtxo u (PrevOutPoint (ins ! k)) = Some w \<and>
    \<not> IsSpent w \<and> items ! k = \<lparr>it_tx = tx, txInIdx = i + k, it_scriptSig = ScriptSig (ins ! k),
      prevScriptPubKey = utxo_script w\<rparr>)"
    using assms
  proof (induction ins arbitrary: i items)
    case (Cons txIn ins)
    then obtain w its where w: "FindUtxo u (PrevOutPoint txIn) = Some w" "\<not> IsSpent w"
      and its: "check_scripts c u tx True (i + 1) ins = Inr its"
      "items = \<lparr>it_tx = tx, txInIdx = i, it_scriptSig = ScriptSig txIn, prevScriptPubKey = utxo_script w\<rparr> # its"
      by (auto split: option.splits if_splits sum.splits)
    from Cons.IH [OF its(1)] w its(2) show ?case by (auto simp: nth_Cons' less_Suc_eq_0_disj)
  qed simp
  then show "length items = length ins" and "k < length ins \<Longrightarrow> \<exists>w. FindUtxo u (PrevOutPoint (ins ! k)) = Some w \<and>
    \<not> IsSpent w \<and> items ! k = \<lparr>it_tx = tx, txInIdx = i + k, it_scriptSig = ScriptSig (ins ! k),
      prevScriptPubKey = utxo_script w\<rparr>" by simp_all
qed


section \<open>Witnesses\<close>

definition sample_valid_block :: Block where
  "sample_valid_block = \<lparr>blk_Hash = None, Header = zero_header\<lparr>TxsRoot := replicate 32 0, TimeStamp := 9\<rparr>,
     Txs = [sample_tx 8 [\<lparr>PrevOutPoint = NewNullOutPoint, ScriptSig = [1, 2, 3], Sequence = 0\<rparr>]
              [\<lparr>Value = 317, ScriptPubKey = PayToPubKeyHashScript (replicate 20 2)\<rparr>],
            sample_tx 9 [\<lparr>PrevOutPoint = \<lparr>Hash = replicate 32 7, Index = 1\<rparr>, ScriptSig = [], Sequence = 0\<rparr>]
              [\<lparr>Value = 200, ScriptPubKey = PayToPubKeyHashScript (replicate 20 3)\<rparr>,
               \<lparr>Value = 250, ScriptPubKey = PayToPubKeyHashScript (replicate 20 1)\<rparr>]],
     InternalTxs = [], Signature = [], blk_Irreversible = None\<rparr>"

lemma sample_standard:
  assumes "list_all (\<lambda>out. \<exists>h. length h = 20 \<and> ScriptPubKey out = PayToPubKeyHashScript h) outs"
  shows "IsStandardTx (sample_tx n ins outs) (Some sample_state) = (True, (sample_tx n ins outs)\<lparr>TxTyp := PayToPubkTx\<rparr>)"
proof -
  have "ParseTxType_loop (Some sample_state) i 0 0 UnknownTx outs = (PayToPubkTx, 0, PayToPubkTx)" for i
    using assms
  proof (induction outs arbitrary: i)
    case (Cons out outs)
    then obtain h where "length h = Ripemd160Size" "ScriptPubKey out = PayToPubKeyHashScript h"
      by (auto simp: Ripemd160Size_def)
    with Cons p2pkh_class [of h] show ?case
      by (simp add: contract_payee_def IsContractAddr_def sample_state_def)
  qed simp
  then show ?thesis by (simp add: IsStandardTx_def ParseTxType_def sample_tx_def tx_types)
qed

lemma sample_fields:
  "Vin (sample_tx n ins outs) = ins" "Vout (sample_tx n ins outs) = outs" "Data (sample_tx n ins outs) = None"
  "LockTime (sample_tx n ins outs) = 0"
  by (simp_all add: sample_tx_def)

lemma sample_hash: "TxHash zero_crypto (sample_tx n ins outs) = (Some (replicate 32 (of_nat n)), sample_tx n ins outs)"
  by (rule TxHash_known) (simp add: sample_tx_def)

lemma sample_valid: "\<exists>b. validateBlock zero_crypto sample_state sample_valid_block = Inr b"
proof -
  let ?t = "Txs sample_valid_block"
  have "list_all (\<lambda>tx. ValidateTransactionPreliminary tx = None) ?t" by code_simp
  then have prelim: "ValidateTransactionPreliminary (?t ! 0) = None" "ValidateTransactionPreliminary (?t ! 1) = None"
    by (simp_all add: sample_valid_block_def)
  have len: "length (PayToPubKeyHashScript (replicate 20 b)) = 25" for b
    using length_p2pkh [of "replicate 20 b"] by (simp add: Ripemd160Size_def p2PKHScriptLen_def)
  have p: "\<exists>h. length h = 20 \<and> PayToPubKeyHashScript (replicate 20 b) = PayToPubKeyHashScript h" for b
    by (intro exI [of _ "replicate 20 b"]) simp
  have "check_txs zero_crypto sample_state (Header sample_valid_block) 0 [] ?t =
      Inr (map (\<lambda>tx. tx\<lparr>TxTyp := PayToPubkTx\<rparr>) ?t)"
    using prelim
    by (simp add: sample_valid_block_def sample_hash Let_def RoughSize_def MaxTxsRoughSize_def sample_standard
        sample_fields IsTxFinalized_def HashSize_def len NewNullOutPoint_def MaxUint32_def p)
  moreover have "CalcTxsHash zero_crypto (map (\<lambda>tx. tx\<lparr>TxTyp := PayToPubkTx\<rparr>) ?t) = Some (replicate 32 0)"
    by code_simp
  moreover have "IsCoinBase (?t ! 0)" "\<not> IsCoinBase (?t ! 1)" by code_simp+
  ultimately show ?thesis by (simp add: validateBlock_def sample_valid_block_def)
qed

theorem validated_block_sound_witness:
  "distinct (map PrevOutPoint (concat (map Vin (Txs sample_valid_block))))"
proof -
  have "\<exists>b. validateBlock zero_crypto sample_state sample_valid_block = Inr b" by (rule sample_valid)
  then obtain b where "validateBlock zero_crypto sample_state sample_valid_block = Inr b" ..
  from validated_block_sound [OF this] show ?thesis by blast
qed

theorem block_time_window_witness: "VerifyBlockTimeOut 10 sample_valid_block = None"
  using block_time_window [of 10 sample_valid_block]
  by (simp add: int_range_def sample_valid_block_def)

theorem supply_conserved_witness:
  "\<exists>u' tx'. applyTx zero_crypto (\<lambda>_ _. []) sample_state 4 (Txs sample_valid_block ! 1) sample_set = Inr (u', tx') \<and>
    total_unspent u' + 50 = total_unspent sample_set"
proof -
  define t where "t = last (Txs sample_valid_block)"
  then have t: "t = Txs sample_valid_block ! 1" "Vin t = [\<lparr>PrevOutPoint = \<lparr>Hash = replicate 32 7, Index = 1\<rparr>, ScriptSig = [], Sequence = 0\<rparr>]"
    "Vout t = [\<lparr>Value = 200, ScriptPubKey = PayToPubKeyHashScript (replicate 20 3)\<rparr>,
               \<lparr>Value = 250, ScriptPubKey = PayToPubKeyHashScript (replicate 20 1)\<rparr>]"
    "cached_hash t = Some (replicate 32 9)"
    by (simp_all add: sample_valid_block_def sample_tx_def)
  have spends: "spends t" "tx_ins t = {\<lparr>Hash = replicate 32 7, Index = 1\<rparr>}"
    by (simp_all add: t(2) tx_ins_def spends_def IsCoinBase_def IsInternalContract_def
        MaxUint32_def ZeroHash_def HashSize_def)
  have plain: "plain_tx sample_state t" by (simp add: t(3,4) plain_tx_def p2pkh_plain)
  have "ValidateTransactionPreliminary t = None" "ValidateTxInputs (\<lambda>_. 1) sample_set t = Inr 50"
    unfolding t_def by code_simp+
  from supply_conserved [OF plain spends(1) _ _ _ this, where c = zero_crypto and create_addr = "\<lambda>_ _. []" and height = 4]
  show ?thesis
    unfolding t(1) [symmetric] by (simp add: t(2-4) spends out_utxo_def sample_set_def IsContractType_def burned_value_def p2pkh_plain)
qed

theorem token_amounts_wrap_witness:
  "ValidateTxInputs (\<lambda>_. 1)
     (put_utxo \<lparr>Hash = replicate 32 7, Index = 1\<rparr>
        (NewUtxoWrap 5 (TransferTokenScript (replicate 20 1) \<lparr>TokenID = \<lparr>Hash = replicate 32 6, Index = 0\<rparr>, Amount = 1\<rparr>) 3) NewUtxoSet)
     (sample_tx 9 [\<lparr>PrevOutPoint = \<lparr>Hash = replicate 32 7, Index = 1\<rparr>, ScriptSig = [], Sequence = 0\<rparr>]
        [\<lparr>Value = 0, ScriptPubKey = TransferTokenScript (replicate 20 2)
            \<lparr>TokenID = \<lparr>Hash = replicate 32 6, Index = 0\<rparr>, Amount = 0x8000000000000000\<rparr>\<rparr>,
         \<lparr>Value = 0, ScriptPubKey = TransferTokenScript (replicate 20 3)
            \<lparr>TokenID = \<lparr>Hash = replicate 32 6, Index = 0\<rparr>, Amount = 0x8000000000000001\<rparr>\<rparr>]) = Inr 5"
  by (subst token_amounts_wrap [where x = "0x8000000000000000" and y = "0x8000000000000001" and a = 1
        and tid = "\<lparr>Hash = replicate 32 6, Index = 0\<rparr>" and h = "replicate 20 1" and ha = "replicate 20 2" and hb = "replicate 20 3"
        and w = "NewUtxoWrap 5 (TransferTokenScript (replicate 20 1) \<lparr>TokenID = \<lparr>Hash = replicate 32 6, Index = 0\<rparr>, Amount = 1\<rparr>) 3"
        and txIn = "\<lparr>PrevOutPoint = \<lparr>Hash = replicate 32 7, Index = 1\<rparr>, ScriptSig = [], Sequence = 0\<rparr>"])
    (simp_all add: sample_tx_def TotalSupply_unat word_le_nat_alt hash_wf_def HashSize_def spends_def IsCoinBase_def IsInternalContract_def
      MaxUint32_def ZeroHash_def)

end
