(* ===== verification/Script_Validator.thy ===== *)
theory Script_Validator
  imports Tx_Validate "HOL-Library.Multiset"
begin

text \<open>
  The parallel script validator of \<^verbatim>\<open>src/core/chain/validate.go\<close>: \<^verbatim>\<open>scriptValidator.validate\<close> hands the
  items to a number of workers (\<^verbatim>\<open>doValidate\<close>) over an unbuffered channel, collects one result per item
  over another, and closes a third one when it returns. A send on an unbuffered channel happens together
  with its receive, so every communication is one step of the relation \<open>vstep\<close>. \<open>check\<close> is the
  validation of one item, \<open>n\<close> the number of workers.
\<close>

datatype worker = WIdle | WBusy nat | WStopped

datatype 'e vmain = MRunning | MReturned "'e option"

record 'e vstate =
  nextItemIdx :: nat
  validatedItems :: nat
  vmain :: "'e vmain"
  workers :: "worker list"

definition newScriptValidator :: "nat \<Rightarrow> 'e vstate" where
  "newScriptValidator n = \<lparr>nextItemIdx = 0, validatedItems = 0, vmain = MRunning, workers = replicate n WIdle\<rparr>"

inductive vstep :: "('it \<Rightarrow> 'e option) \<Rightarrow> 'it list \<Rightarrow> 'e vstate \<Rightarrow> 'e vstate \<Rightarrow> bool"
  for check :: "'it \<Rightarrow> 'e option" and items :: "'it list" where
  send: "vmain s = MRunning \<Longrightarrow> validatedItems s < length items \<Longrightarrow> nextItemIdx s < length items \<Longrightarrow>
    k < length (workers s) \<Longrightarrow> workers s ! k = WIdle \<Longrightarrow>
    vstep check items s (s\<lparr>nextItemIdx := nextItemIdx s + 1, workers := (workers s)[k := WBusy (nextItemIdx s)]\<rparr>)"
| result_ok: "vmain s = MRunning \<Longrightarrow> validatedItems s < length items \<Longrightarrow>
    k < length (workers s) \<Longrightarrow> workers s ! k = WBusy i \<Longrightarrow> check (items ! i) = None \<Longrightarrow>
    vstep check items s (s\<lparr>validatedItems := validatedItems s + 1, workers := (workers s)[k := WIdle]\<rparr>)"
| result_err: "vmain s = MRunning \<Longrightarrow> validatedItems s < length items \<Longrightarrow>
    k < length (workers s) \<Longrightarrow> workers s ! k = WBusy i \<Longrightarrow> check (items ! i) = Some e \<Longrightarrow>
    vstep check items s (s\<lparr>validatedItems := validatedItems s + 1, vmain := MReturned (Some e),
      workers := (workers s)[k := WStopped]\<rparr>)"
| all_done: "vmain s = MRunning \<Longrightarrow> \<not> validatedItems s < length items \<Longrightarrow>
    vstep check items s (s\<lparr>vmain := MReturned None\<rparr>)"
| quit: "vmain s = MReturned r \<Longrightarrow> k < length (workers s) \<Longrightarrow> workers s ! k = WIdle \<Longrightarrow>
    vstep check items s (s\<lparr>workers := (workers s)[k := WStopped]\<rparr>)"

inductive vreach :: "('it \<Rightarrow> 'e option) \<Rightarrow> 'it list \<Rightarrow> nat \<Rightarrow> 'e vstate \<Rightarrow> bool"
  for check :: "'it \<Rightarrow> 'e option" and items :: "'it list" and n :: nat where
  start: "vreach check items n (newScriptValidator n)"
| step: "vreach check items n s \<Longrightarrow> vstep check items s s' \<Longrightarrow> vreach check items n s'"

section \<open>Invariant\<close>

text \<open>The items under validation.\<close>

fun busy1 :: "worker \<Rightarrow> nat multiset" where
  "busy1 (WBusy i) = {#i#}"
| "busy1 _ = {#}"

primrec busy :: "worker list \<Rightarrow> nat multiset" where
  "busy [] = {#}"
| "busy (w # ws) = busy1 w + busy ws"

lemma busy_update: "k < length ws \<Longrightarrow> busy (ws[k := x]) + busy1 (ws ! k) = busy ws + busy1 x"
  by (induction ws arbitrary: k) (auto simp: nth_Cons' split: nat.split)

lemma busy_replicate [simp]: "busy (replicate n WIdle) = {#}"
  by (induction n) auto

lemma busy_mem: "i \<in># busy ws \<longleftrightarrow> (\<exists>k<length ws. ws ! k = WBusy i)"
proof (induction ws)
  case (Cons w ws)
  then show ?case by (cases w) (auto simp: less_Suc_eq_0_disj)
qed simp

definition vinv :: "('it \<Rightarrow> 'e option) \<Rightarrow> 'it list \<Rightarrow> nat \<Rightarrow> 'e vstate \<Rightarrow> bool" where
  "vinv check items n s \<longleftrightarrow>
     length (workers s) = n \<and> nextItemIdx s \<le> length items \<and> (\<forall>i\<in>#busy (workers s). i < nextItemIdx s) \<and>
     (case vmain s of
        MRunning \<Rightarrow>
          WStopped \<notin> set (workers s) \<and> validatedItems s + size (busy (workers s)) = nextItemIdx s \<and>
          (\<forall>i<nextItemIdx s. check (items ! i) \<noteq> None \<longrightarrow> i \<in># busy (workers s))
      | MReturned None \<Rightarrow> \<forall>it\<in>set items. check it = None
      | MReturned (Some e) \<Rightarrow> \<exists>it\<in>set items. check it = Some e)"

lemma vinv_init: "vinv check items n (newScriptValidator n)"
  by (simp add: vinv_def newScriptValidator_def)

lemma vinv_step:
  assumes "vstep check items s s'" and "vinv check items n s"
  shows "vinv check items n s'"
  using assms
proof (cases rule: vstep.cases)
  case (send k)
  then have b: "busy ((workers s)[k := WBusy (nextItemIdx s)]) = add_mset (nextItemIdx s) (busy (workers s))"
    using busy_update [of k "workers s" "WBusy (nextItemIdx s)"] by simp
  with send assms(2) show ?thesis
    using set_update_subset_insert [of "workers s" k "WBusy (nextItemIdx s)"]
    by (auto simp: vinv_def less_Suc_eq)
next
  case (result_ok k i)
  then have b: "add_mset i (busy ((workers s)[k := WIdle])) = busy (workers s)"
    using busy_update [of k "workers s" WIdle] by simp
  then have "size (busy (workers s)) = size (busy ((workers s)[k := WIdle])) + 1"
    and "\<And>j. j \<in># busy (workers s) \<longleftrightarrow> j = i \<or> j \<in># busy ((workers s)[k := WIdle])"
    by (metis Suc_eq_plus1 size_add_mset) (metis b insert_noteq_member add_mset_remove_trivial_eq insert_iff set_mset_add_mset_insert)
  with result_ok assms(2) show ?thesis
    using set_update_subset_insert [of "workers s" k WIdle] by (auto simp: vinv_def)
next
  case (result_err k i e)
  then have "i \<in># busy (workers s)" by (auto simp: busy_mem)
  with result_err assms(2) have "items ! i \<in> set items" by (auto simp: vinv_def)
  moreover have "busy ((workers s)[k := WStopped]) \<subseteq># busy (workers s)"
    using busy_update [of k "workers s" WStopped] result_err by (metis add.right_neutral busy1.simps(3) mset_subset_eq_add_left)
  ultimately show ?thesis using result_err assms(2)
    by (auto simp: vinv_def dest: mset_subset_eqD)
next
  case all_done
  then have "size (busy (workers s)) = 0" "nextItemIdx s = length items"
    using assms(2) by (auto simp: vinv_def simp del: size_eq_0_iff_empty)
  with all_done assms(2) show ?thesis by (auto simp: vinv_def in_set_conv_nth)
next
  case (quit r k)
  then have "busy ((workers s)[k := WStopped]) = busy (workers s)"
    using busy_update [of k "workers s" WStopped] by simp
  with quit assms(2) show ?thesis by (auto simp: vinv_def split: option.splits)
qed

lemma vreach_inv: "vreach check items n s \<Longrightarrow> vinv check items n s"
  by (induction rule: vreach.induct) (auto intro: vinv_init vinv_step)

lemma vprogress:
  assumes "vinv check items n s" and "vmain s = MRunning" and "0 < n"
  shows "\<exists>s'. vstep check items s s'"
proof (cases "validatedItems s < length items")
  case True
  show ?thesis
  proof (cases "busy (workers s) = {#}")
    case True
    then have "nextItemIdx s < length items" using assms \<open>validatedItems s < length items\<close> by (simp add: vinv_def)
    moreover have "workers s ! 0 \<noteq> WBusy i" for i using True assms busy_mem [of i "workers s"] by (auto simp: vinv_def)
    moreover have "workers s ! 0 \<noteq> WStopped" using assms by (auto simp: vinv_def in_set_conv_nth)
    ultimately show ?thesis
      using vstep.send [of s items 0 check] assms \<open>validatedItems s < length items\<close>
      by (cases "workers s ! 0") (auto simp: vinv_def)
  next
    case False
    then obtain i where "i \<in># busy (workers s)" by blast
    then obtain k where "k < length (workers s)" "workers s ! k = WBusy i" by (auto simp: busy_mem)
    with assms(2) True show ?thesis
      by (cases "check (items ! i)") (blast intro: vstep.intros)+
  qed
next
  case False
  with assms(2) show ?thesis by (blast intro: vstep.all_done)
qed

text \<open>Every step brings the run nearer to its end.\<close>

definition idle :: "worker list \<Rightarrow> nat" where
  "idle ws = length (filter (\<lambda>w. w = WIdle) ws)"

definition vmeasure :: "'it list \<Rightarrow> 'e vstate \<Rightarrow> nat" where
  "vmeasure items s = 3 * (length items - nextItemIdx s) + 2 * size (busy (workers s)) +
     (if vmain s = MRunning then 1 else 0) + idle (workers s)"

lemma idle_update:
  "k < length ws \<Longrightarrow> idle (ws[k := x]) + (if ws ! k = WIdle then 1 else 0) = idle ws + (if x = WIdle then 1 else 0)"
proof (induction ws arbitrary: k)
  case (Cons w ws)
  show ?case
  proof (cases k)
    case (Suc j)
    with Cons.IH [of j] Cons.prems show ?thesis by (auto simp: idle_def)
  qed (auto simp: idle_def)
qed simp

lemma vmeasure_step:
  assumes "vstep check items s s'"
  shows "vmeasure items s' < vmeasure items s"
  using assms
proof (cases rule: vstep.cases)
  case (send k)
  then show ?thesis
    using arg_cong [OF busy_update [of k "workers s" "WBusy (nextItemIdx s)"], of size] idle_update [of k "workers s" "WBusy (nextItemIdx s)"]
    by (simp add: vmeasure_def)
next
  case (result_ok k i)
  then show ?thesis
    using arg_cong [OF busy_update [of k "workers s" WIdle], of size] idle_update [of k "workers s" WIdle]
    by (simp add: vmeasure_def)
next
  case (result_err k i e)
  then show ?thesis
    using arg_cong [OF busy_update [of k "workers s" WStopped], of size] idle_update [of k "workers s" WStopped]
    by (simp add: vmeasure_def)
next
  case all_done
  then show ?thesis by (simp add: vmeasure_def)
next
  case (quit r k)
  then show ?thesis
    using arg_cong [OF busy_update [of k "workers s" WStopped], of size] idle_update [of k "workers s" WStopped]
    by (simp add: vmeasure_def)
qed

section \<open>Properties\<close>

text \<open>C24: The parallel validator returns what a sequential one would. However the workers interleave,
  when \<^verbatim>\<open>validate\<close> returns it returns nil exactly if every item is valid, and an error it returns is that
  of some item; no run goes on forever, and with at least one worker none stops before \<^verbatim>\<open>validate\<close> has
  returned.\<close>

theorem validator_correct:
  assumes "0 < n"
  shows "(\<forall>s r. vreach check items n s \<longrightarrow> vmain s = MReturned r \<longrightarrow>
      (r = None \<longleftrightarrow> (\<forall>it\<in>set items. check it = None)) \<and>
      (\<forall>e. r = Some e \<longrightarrow> (\<exists>it\<in>set items. check it = Some e))) \<and>
    wfP (\<lambda>s' s. vstep check items s s') \<and>
    (\<forall>s. vreach check items n s \<longrightarrow> (\<forall>s'. \<not> vstep check items s s') \<longrightarrow> (\<exists>r. vmain s = MReturned r))"
proof (intro conjI allI impI)
  fix s r
  assume "vreach check items n s" and r: "vmain s = MReturned r"
  from vreach_inv [OF this(1)] r
  show "r = None \<longleftrightarrow> (\<forall>it\<in>set items. check it = None)" and "\<And>e. r = Some e \<Longrightarrow> \<exists>it\<in>set items. check it = Some e"
    by (auto simp: vinv_def split: option.splits)
next
  show "wfP (\<lambda>s' s. vstep check items s s')"
    by (rule wfp_subset [OF wfp_if_convertible_to_nat [of _ "vmeasure items"]]) (auto intro: vmeasure_step)
next
  fix s
  assume "vreach check items n s" and "\<forall>s'. \<not> vstep check items s s'"
  with vprogress [OF vreach_inv _ assms] show "\<exists>r. vmain s = MReturned r" by (cases "vmain s") blast+
qed

theorem validator_correct_witness:
  "wfP (\<lambda>s' s. vstep (\<lambda>b. if b then None else Some ()) [True, False] s s')"
  by (rule validator_correct [of 2, THEN conjunct2, THEN conjunct1]) simp

text \<open>C26: The workers are not all released when an item is invalid. There is a run in which \<^verbatim>\<open>validate\<close>
  returns the error of one item while another worker has its result ready: nobody receives it any more,
  no step is possible, and that worker stays blocked forever.\<close>

theorem validator_leaks_worker:
  "\<exists>(check :: bool \<Rightarrow> unit option) items s. vreach check items 2 s \<and> vmain s = MReturned (Some ()) \<and>
    WBusy 1 \<in> set (workers s) \<and> (\<forall>s'. \<not> vstep check items s s')"
proof -
  let ?check = "\<lambda>b. if b then None else Some ()" and ?items = "[False, True]"
  let ?s0 = "newScriptValidator 2 :: unit vstate"
  let ?s1 = "?s0\<lparr>nextItemIdx := 1, workers := [WBusy 0, WIdle]\<rparr>"
  let ?s2 = "?s1\<lparr>nextItemIdx := 2, workers := [WBusy 0, WBusy 1]\<rparr>"
  let ?s3 = "?s2\<lparr>validatedItems := 1, vmain := MReturned (Some ()), workers := [WStopped, WBusy 1]\<rparr>"
  have 1: "vstep ?check ?items ?s0 ?s1"
    using vstep.send [of ?s0 ?items 0 ?check] by (simp add: newScriptValidator_def numeral_2_eq_2)
  have 2: "vstep ?check ?items ?s1 ?s2"
    using vstep.send [of ?s1 ?items 1 ?check] by (simp add: newScriptValidator_def numeral_2_eq_2)
  have 3: "vstep ?check ?items ?s2 ?s3"
    using vstep.result_err [of ?s2 ?items 0 0 ?check "()"] by (simp add: newScriptValidator_def)
  have "vreach ?check ?items 2 ?s3"
    using 1 2 3 by (blast intro: vreach.intros)
  moreover have "\<not> vstep ?check ?items ?s3 s'" for s'
    by (rule notI, erule vstep.cases) (auto simp: nth_Cons' split: if_splits)
  ultimately show ?thesis
    by (intro exI [of _ ?check] exI [of _ ?items] exI [of _ ?s3]) (simp add: newScriptValidator_def)
qed

text \<open>A run can always be completed.\<close>

lemma vrun_returns:
  assumes "0 < n" and "vreach check items n s"
  shows "\<exists>s' r. vreach check items n s' \<and> vmain s' = MReturned r"
  using assms(2)
proof (induction "vmeasure items s" arbitrary: s rule: less_induct)
  case less
  show ?case
  proof (cases "vmain s")
    case MRunning
    with vprogress [OF vreach_inv [OF less.prems] _ assms(1)] obtain s' where s': "vstep check items s s'" by blast
    with less.prems have "vreach check items n s'" by (rule vreach.step)
    with less.hyps [OF vmeasure_step [OF s']] show ?thesis .
  qed (use less.prems in blast)
qed

lemma block_items_tx:
  assumes "block_items c u txs = Inr items" and "tx \<in> set txs" and "\<not> IsInternalContract tx"
  shows "\<exists>its. CheckTxScripts c u tx True = Inr its \<and> set its \<subseteq> set items"
  using assms
proof (induction txs arbitrary: items)
  case (Cons t txs)
  then show ?case by (auto split: if_splits sum.splits) blast
qed simp

text \<open>C25: A block whose scripts pass the parallel validator is authorised: every input of every
  transaction but the coinbase and the internal ones refers to an unspent output, and its unlocking
  script satisfies the script of that output for this very input.\<close>

theorem block_scripts_authorised:
  assumes "block_items c u (tl (Txs block)) = Inr items"
    and "vreach (item_valid c) items n s" and "vmain s = MReturned None"
    and "tx \<in> set (tl (Txs block))" and "\<not> IsInternalContract tx" and "k < length (Vin tx)"
  shows "\<exists>w. FindUtxo u (PrevOutPoint (Vin tx ! k)) = Some w \<and> \<not> IsSpent w \<and>
    Validate c (ScriptSig (Vin tx ! k)) (utxo_script w) tx k = None"
proof -
  from block_items_tx [OF assms(1,4,5)] obtain its where
    its: "check_scripts c u tx True 0 (Vin tx) = Inr its" "set its \<subseteq> set items" by (auto simp: CheckTxScripts_def)
  have all: "\<forall>it\<in>set items. item_valid c it = None" using vreach_inv [OF assms(2)] assms(3) by (simp add: vinv_def)
  from check_scripts_items [OF its(1)] assms(6) obtain w where
    w: "FindUtxo u (PrevOutPoint (Vin tx ! k)) = Some w" "\<not> IsSpent w" and len: "k < length its"
    and it: "its ! k = \<lparr>it_tx = tx, txInIdx = k, it_scriptSig = ScriptSig (Vin tx ! k), prevScriptPubKey = utxo_script w\<rparr>"
    by force
  from len its(2) all have "item_valid c (its ! k) = None" by (meson nth_mem subsetD)
  with w it show ?thesis by (simp add: item_valid_def)
qed

theorem block_scripts_authorised_witness:
  "\<exists>u tx w. FindUtxo u (PrevOutPoint (Vin tx ! 0)) = Some w \<and> \<not> IsSpent w \<and>
    Validate zero_crypto (ScriptSig (Vin tx ! 0)) (utxo_script w) tx 0 = None"
proof -
  define tx where "tx = sample_tx 9 [\<lparr>PrevOutPoint = \<lparr>Hash = replicate 32 7, Index = 1\<rparr>,
      ScriptSig = SignatureScript [1, 2] [3], Sequence = 0\<rparr>] []"
  define w where "w = NewUtxoWrap 5 (PayToPubKeyHashScript (replicate 20 0)) 3"
  define u where "u = put_utxo \<lparr>Hash = replicate 32 7, Index = 1\<rparr> w NewUtxoSet"
  define block where "block = sample_valid_block\<lparr>Txs := [sample_tx 8 [] [], tx]\<rparr>"
  let ?item = "\<lparr>it_tx = tx, txInIdx = 0, it_scriptSig = SignatureScript [1, 2] [3], prevScriptPubKey = PayToPubKeyHashScript (replicate 20 0)\<rparr>"
  have intern: "\<not> IsInternalContract tx" by (simp add: tx_def sample_tx_def IsInternalContract_def MaxUint32_def)
  have items: "block_items zero_crypto u (tl (Txs block)) = Inr [?item]"
    using intern by (simp add: block_def CheckTxScripts_def u_def w_def) (simp add: tx_def sample_tx_def)
  have valid: "item_valid zero_crypto ?item = None"
    using Validate_p2pkh_eq [of "[1, 2]" "[3]" "replicate 20 0" zero_crypto tx 0]
    by (simp add: item_valid_def Ripemd160Size_def verifySig_def CalcTxHashForSig_def zero_crypto_def Hash160_def
        CalcTxHash_def DoubleHashH_def Let_def tx_def sample_tx_def)
  from vrun_returns [OF _ vreach.start, of 2 "item_valid zero_crypto" "[?item]"] obtain s r where
    s: "vreach (item_valid zero_crypto) [?item] 2 s" "vmain s = MReturned r" by auto
  with vreach_inv [OF s(1)] valid have "r = None" by (cases r) (auto simp: vinv_def)
  moreover have "tx \<in> set (tl (Txs block))" "0 < length (Vin tx)" by (simp add: block_def) (simp add: tx_def sample_tx_def)
  ultimately show ?thesis using block_scripts_authorised [OF items s(1), of tx 0] s(2) intern by blast
qed

end
