(* ===== verification/State_Trie.thy ===== *)
theory State_Trie
  imports Chain_Types "HOL-Library.Sublist"
begin

text \<open>
  The Merkle Patricia trie of the world state (\<^verbatim>\<open>src/core/trie\<close>). A node is a list of byte
  slices stored in a table under the SHA3 digest of its encoding: three slices are a leaf (path,
  value, terminator), two an extension (path, digest of the next node), sixteen a branch (a digest or
  nothing per nibble).

  The trie only puts and gets, so the table is the history of its writes, newest first, and
  \<^verbatim>\<open>Get\<close> reads the newest entry of a key. The protobuf encoding of a node and the digest are
  parameters (\<^verbatim>\<open>node_codec\<close>). The recursive operations follow digests, so on a damaged table they
  need not return: they carry fuel and answer \<^verbatim>\<open>Diverges\<close> when it is used up, and a Go run time
  panic is the answer \<^verbatim>\<open>TriePanic\<close>.
\<close>

section \<open>Nodes\<close>

datatype trie_error = ErrNodeNotFound | ErrInvalidNodeType | ErrInvalidKeyPath | ErrNodeEncoding | TriePanic | Diverges

datatype Flag = unknown | leaf | extension | branch

record Node =
  nd_Hash :: "bytes option"
  nd_Value :: "bytes list"

record node_codec =
  marshal_node :: "bytes list \<Rightarrow> bytes option"
  unmarshal_node :: "bytes \<Rightarrow> bytes list option"
  sha3_256 :: "bytes \<Rightarrow> bytes"

definition termintor :: bytes where "termintor = [0]"

definition newNode :: "bytes list \<Rightarrow> Node" where
  "newNode v = \<lparr>nd_Hash = None, nd_Value = v\<rparr>"

definition newEmptyBranchNode :: Node where
  "newEmptyBranchNode = newNode (replicate 16 [])"

definition newExtensionNode :: "bytes \<Rightarrow> bytes \<Rightarrow> Node" where
  "newExtensionNode key v = newNode [key, v]"

definition node_Type :: "Node \<Rightarrow> Flag" where
  "node_Type n =
     (if length (nd_Value n) = 3 then leaf
      else if length (nd_Value n) = 2 then extension
      else if length (nd_Value n) = 16 then branch
      else unknown)"

definition BranchLen :: "Node \<Rightarrow> nat" where
  "BranchLen n = length (filter (\<lambda>v. length v > 0) (nd_Value n))"

definition bytesToHash :: "bytes \<Rightarrow> bytes option" where
  "bytesToHash bs = (if length bs = 0 then None else Some (hash_SetBytes ZeroHash bs))"

definition hashToBytes :: "bytes option \<Rightarrow> bytes" where
  "hashToBytes h = (case h of None \<Rightarrow> [] | Some b \<Rightarrow> b)"

fun first_sub :: "nat \<Rightarrow> bytes list \<Rightarrow> bytes option \<times> nat" where
  "first_sub idx [] = (None, 0)"
| "first_sub idx (v # vs) = (if length v > 0 then (bytesToHash v, idx) else first_sub (idx + 1) vs)"

definition FirstSubNodeHashInBranch :: "Node \<Rightarrow> bytes option \<times> nat" where
  "FirstSubNodeHashInBranch n = first_sub 0 (nd_Value n)"

definition Node_FromProtoMessage :: "node_codec \<Rightarrow> bytes list \<Rightarrow> trie_error + Node" where
  "Node_FromProtoMessage c msg =
     (case marshal_node c msg of
        None \<Rightarrow> Inl ErrNodeEncoding
      | Some b \<Rightarrow> Inr \<lparr>nd_Hash = Some (hash_SetBytes ZeroHash (sha3_256 c b)), nd_Value = msg\<rparr>)"

definition Node_Unmarshal :: "node_codec \<Rightarrow> bytes \<Rightarrow> trie_error + Node" where
  "Node_Unmarshal c data =
     (case unmarshal_node c data of
        None \<Rightarrow> Inl ErrNodeEncoding
      | Some msg \<Rightarrow> Node_FromProtoMessage c msg)"

definition Node_Marshal :: "node_codec \<Rightarrow> Node \<Rightarrow> bytes option" where
  "Node_Marshal c n = marshal_node c (nd_Value n)"

section \<open>Paths\<close>

definition keyToHex :: "bytes \<Rightarrow> bytes" where
  "keyToHex key = concat (map (\<lambda>b. [b div 16, b mod 16]) key)"

fun hexToKey :: "bytes \<Rightarrow> bytes" where
  "hexToKey (a # b # rest) = (push_bit 4 a + b) # hexToKey rest"
| "hexToKey _ = []"

definition commonPrefixes :: "bytes \<Rightarrow> bytes \<Rightarrow> trie_error + bytes" where
  "commonPrefixes old new =
     (if length old > length new then Inl ErrInvalidKeyPath
      else Inr (longest_common_prefix old new))"

section \<open>The table and the trie\<close>

type_synonym tdb = "(bytes \<times> bytes) list"

type_synonym 'a tm = "tdb \<Rightarrow> (trie_error + 'a) \<times> tdb"

definition tbind :: "'a tm \<Rightarrow> ('a \<Rightarrow> 'b tm) \<Rightarrow> 'b tm" where
  "tbind m f db = (case m db of (Inl e, db') \<Rightarrow> (Inl e, db') | (Inr x, db') \<Rightarrow> f x db')"

definition tret :: "'a \<Rightarrow> 'a tm" where "tret x db = (Inr x, db)"

definition terr :: "trie_error \<Rightarrow> 'a tm" where "terr e db = (Inl e, db)"

definition tlift :: "trie_error + 'a \<Rightarrow> 'a tm" where "tlift r db = (r, db)"

record Trie =
  rootHash :: "bytes option"
  trie_db :: tdb

definition trie_New :: "bytes option \<Rightarrow> tdb \<Rightarrow> trie_error + Trie" where
  "trie_New root db =
     (let root' = (if root = Some ZeroHash then None else root)
      in case root' of
           None \<Rightarrow> Inr \<lparr>rootHash = None, trie_db = db\<rparr>
         | Some h \<Rightarrow> (case map_of db h of
                         None \<Rightarrow> Inl ErrNodeNotFound
                       | Some v \<Rightarrow> Inr \<lparr>rootHash = Some h, trie_db = db\<rparr>))"

definition trie_Hash :: "Trie \<Rightarrow> bytes" where
  "trie_Hash t = (case rootHash t of None \<Rightarrow> ZeroHash | Some h \<Rightarrow> h)"

definition getNode :: "node_codec \<Rightarrow> bytes \<Rightarrow> Node tm" where
  "getNode c hash db =
     (case map_of db hash of
        None \<Rightarrow> (Inl ErrNodeNotFound, db)
      | Some nodeBin \<Rightarrow> (Node_Unmarshal c nodeBin, db))"

definition trie_commit :: "node_codec \<Rightarrow> Node \<Rightarrow> bytes tm" where
  "trie_commit c node db =
     (if node_Type node = unknown then (Inl ErrNodeNotFound, db)
      else case Node_Marshal c node of
             None \<Rightarrow> (Inl ErrNodeEncoding, db)
           | Some nodeBin \<Rightarrow>
               (case bytesToHash (sha3_256 c nodeBin) of
                  None \<Rightarrow> (Inl TriePanic, db)
                | Some h \<Rightarrow> (Inr h, (h, nodeBin) # db)))"

text \<open>Reading and writing the slot of a branch for a nibble; out of range the index panics.\<close>

definition branch_slot :: "Node \<Rightarrow> byte \<Rightarrow> bytes tm" where
  "branch_slot n x = (if unat x < length (nd_Value n) then tret (nd_Value n ! unat x) else terr TriePanic)"

definition set_slot :: "byte \<Rightarrow> bytes \<Rightarrow> Node \<Rightarrow> Node tm" where
  "set_slot x v n =
     (if unat x < length (nd_Value n) then tret (n\<lparr>nd_Value := (nd_Value n)[unat x := v]\<rparr>) else terr TriePanic)"

subsection \<open>Lookup\<close>

primrec trie_get :: "nat \<Rightarrow> node_codec \<Rightarrow> bytes option \<Rightarrow> bytes \<Rightarrow> bytes tm" where
  "trie_get 0 c hash key = terr Diverges"
| "trie_get (Suc fuel) c hash key =
     (case hash of
        None \<Rightarrow> terr ErrNodeNotFound
      | Some h \<Rightarrow>
          tbind (getNode c h) (\<lambda>root.
          if node_Type root = unknown then terr ErrNodeNotFound
          else if node_Type root = branch then
            (case key of
               [] \<Rightarrow> terr TriePanic
             | k # ks \<Rightarrow> tbind (branch_slot root k) (\<lambda>v. trie_get fuel c (bytesToHash v) ks))
          else
            tbind (tlift (commonPrefixes (nd_Value root ! 0) key)) (\<lambda>prefixs.
            if node_Type root = leaf then
              (if length prefixs \<noteq> length (nd_Value root ! 0) \<or> length prefixs \<noteq> length key
               then terr ErrNodeNotFound else tret (nd_Value root ! 1))
            else trie_get fuel c (bytesToHash (nd_Value root ! 1)) (drop (length prefixs) key))))"

text \<open>One unit of fuel per level and one for the empty slot a lookup may end in.\<close>

definition key_fuel :: "bytes \<Rightarrow> nat" where "key_fuel k = length k + 2"

definition trie_Get :: "node_codec \<Rightarrow> Trie \<Rightarrow> bytes \<Rightarrow> trie_error + bytes" where
  "trie_Get c t key =
     (let k = keyToHex key
      in case fst (trie_get (key_fuel k) c (rootHash t) k (trie_db t)) of
           Inl e \<Rightarrow> if e = ErrNodeNotFound then Inr [] else Inl e
         | Inr v \<Rightarrow> Inr v)"


subsection \<open>Insertion\<close>

text \<open>\<^verbatim>\<open>t.update(nil, key, value)\<close>: a fresh leaf.\<close>

definition new_leaf :: "node_codec \<Rightarrow> bytes \<Rightarrow> bytes \<Rightarrow> bytes tm" where
  "new_leaf c key v = trie_commit c (newNode [key, v, termintor])"

definition updateBranchNode ::
  "(bytes option \<Rightarrow> bytes \<Rightarrow> bytes \<Rightarrow> bytes tm) \<Rightarrow> node_codec \<Rightarrow> Node \<Rightarrow> bytes option \<Rightarrow> bytes \<Rightarrow> bytes \<Rightarrow> bytes tm"
where
  "updateBranchNode update c root hash key v =
     tbind (update hash (drop 1 key) v) (\<lambda>hash.
     tbind (set_slot (key ! 0) hash root) (\<lambda>root.
     trie_commit c root))"

text \<open>An extension node that splits under the common prefix: the old path and the new key part at
  position \<^verbatim>\<open>n\<close>; what is left of the old path hangs below the branch.\<close>

definition split_extension :: "node_codec \<Rightarrow> Node \<Rightarrow> nat \<Rightarrow> bytes \<Rightarrow> bytes \<Rightarrow> bytes tm" where
  "split_extension c root n key v =
     tbind (new_leaf c (drop (n + 1) key) v) (\<lambda>newLeafHash.
     tbind (if n + 1 = length (nd_Value root ! 0) then tret (nd_Value root ! 1)
            else trie_commit c (newExtensionNode (drop (n + 1) (nd_Value root ! 0)) (nd_Value root ! 1))) (\<lambda>old.
     tbind (set_slot ((nd_Value root ! 0) ! n) old newEmptyBranchNode) (\<lambda>b.
     tbind (set_slot (key ! n) newLeafHash b) (\<lambda>b.
     trie_commit c b))))"

primrec trie_update :: "nat \<Rightarrow> node_codec \<Rightarrow> bytes option \<Rightarrow> bytes \<Rightarrow> bytes \<Rightarrow> bytes tm" where
  "trie_update 0 c hash key v = terr Diverges"
| "trie_update (Suc fuel) c hash key v =
     (case hash of
        None \<Rightarrow> new_leaf c key v
      | Some h \<Rightarrow>
          tbind (getNode c h) (\<lambda>root.
          if node_Type root = unknown then terr ErrNodeNotFound
          else if node_Type root = branch then
            (case key of
               [] \<Rightarrow> terr TriePanic
             | k # ks \<Rightarrow>
                 tbind (branch_slot root k) (\<lambda>s.
                 updateBranchNode (trie_update fuel c) c root (bytesToHash s) key v))
          else
            tbind (tlift (commonPrefixes (nd_Value root ! 0) key)) (\<lambda>prefixs.
            let n = length prefixs; rootKeyLen = length (nd_Value root ! 0)
            in if node_Type root = leaf then
                 (if n = rootKeyLen then trie_commit c (root\<lparr>nd_Value := (nd_Value root)[1 := v]\<rparr>)
                  else
                    tbind (new_leaf c (drop (n + 1) (nd_Value root ! 0)) (nd_Value root ! 1)) (\<lambda>oldleafHash.
                    tbind (new_leaf c (drop (n + 1) key) v) (\<lambda>newLeafHash.
                    tbind (set_slot ((nd_Value root ! 0) ! n) oldleafHash newEmptyBranchNode) (\<lambda>b.
                    tbind (set_slot (key ! n) newLeafHash b) (\<lambda>b.
                    tbind (trie_commit c b) (\<lambda>branchHash.
                    if n = 0 then tret branchHash
                    else trie_commit c (newExtensionNode prefixs branchHash)))))))
               else if n = rootKeyLen then
                 tbind (trie_update fuel c (bytesToHash (nd_Value root ! 1)) (drop n key) v) (\<lambda>hash.
                 trie_commit c (root\<lparr>nd_Value := (nd_Value root)[1 := hash]\<rparr>))
               else if n = 0 then split_extension c root 0 key v
               else
                 tbind (split_extension c root n key v) (\<lambda>branchHash.
                 trie_commit c (newExtensionNode prefixs branchHash)))))"

subsection \<open>Deletion\<close>

text \<open>A branch left with one child merges with it.\<close>

definition merge_child :: "node_codec \<Rightarrow> Node \<Rightarrow> bytes tm" where
  "merge_child c root =
     (case FirstSubNodeHashInBranch root of
        (None, _) \<Rightarrow> terr TriePanic
      | (Some subHash, index) \<Rightarrow>
          tbind (getNode c subHash) (\<lambda>subNode.
          case node_Type subNode of
            leaf \<Rightarrow> trie_commit c (subNode\<lparr>nd_Value := (nd_Value subNode)[0 := of_nat index # nd_Value subNode ! 0]\<rparr>)
          | branch \<Rightarrow> trie_commit c (newExtensionNode [of_nat index] subHash)
          | extension \<Rightarrow> trie_commit c (newExtensionNode (of_nat index # nd_Value subNode ! 0) (nd_Value subNode ! 1))
          | unknown \<Rightarrow> terr ErrInvalidNodeType))"

text \<open>An extension whose child changed: the error of \<^verbatim>\<open>getNode\<close> is dropped by the code and the nil
  node then panics.\<close>

definition merge_extension :: "node_codec \<Rightarrow> Node \<Rightarrow> bytes \<Rightarrow> bytes tm" where
  "merge_extension c root newHash db =
     (case getNode c newHash db of
        (Inl _, db) \<Rightarrow> (Inl TriePanic, db)
      | (Inr subNode, db) \<Rightarrow>
          (if node_Type subNode = unknown then terr ErrInvalidNodeType
           else if node_Type subNode = branch then trie_commit c (root\<lparr>nd_Value := (nd_Value root)[1 := newHash]\<rparr>)
           else trie_commit c (subNode\<lparr>nd_Value := (nd_Value subNode)[0 := nd_Value root ! 0 @ nd_Value subNode ! 0]\<rparr>))
          db)"

primrec trie_delete :: "nat \<Rightarrow> node_codec \<Rightarrow> bytes option \<Rightarrow> bytes \<Rightarrow> (bytes option) tm" where
  "trie_delete 0 c hash key = terr Diverges"
| "trie_delete (Suc fuel) c hash key =
     (case hash of
        None \<Rightarrow> terr ErrNodeNotFound
      | Some h \<Rightarrow>
          tbind (getNode c h) (\<lambda>root.
          if node_Type root = unknown then terr ErrInvalidNodeType
          else if node_Type root = branch then
            (case key of
               [] \<Rightarrow> terr TriePanic
             | k # ks \<Rightarrow>
                 tbind (branch_slot root k) (\<lambda>s.
                 tbind (trie_delete fuel c (bytesToHash s) ks) (\<lambda>newHash.
                 tbind (set_slot k (hashToBytes newHash) root) (\<lambda>root.
                 tbind (if BranchLen root = 1 then merge_child c root else trie_commit c root) (\<lambda>h.
                 tret (Some h))))))
          else
            (case commonPrefixes (nd_Value root ! 0) key of
               Inl _ \<Rightarrow> terr ErrNodeNotFound
             | Inr prefixs \<Rightarrow>
                 if node_Type root = leaf then
                   (if length prefixs \<noteq> length (nd_Value root ! 0) \<or> length prefixs \<noteq> length key
                    then terr ErrNodeNotFound else tret None)
                 else
                   tbind (trie_delete fuel c (bytesToHash (nd_Value root ! 1)) (drop (length prefixs) key)) (\<lambda>newHash.
                   case newHash of
                     None \<Rightarrow> tret None
                   | Some nh \<Rightarrow> tbind (merge_extension c root nh) (\<lambda>h. tret (Some h))))))"

definition trie_Update :: "node_codec \<Rightarrow> bytes \<Rightarrow> bytes \<Rightarrow> Trie \<Rightarrow> trie_error option \<times> Trie" where
  "trie_Update c key v t =
     (let k = keyToHex key;
          (r, db) = (if length v \<noteq> 0 then tbind (trie_update (key_fuel k) c (rootHash t) k v) (\<lambda>h. tret (Some h)) (trie_db t)
                     else trie_delete (key_fuel k) c (rootHash t) k (trie_db t))
      in case r of
           Inl e \<Rightarrow> (Some e, t\<lparr>trie_db := db\<rparr>)
         | Inr h \<Rightarrow> (None, \<lparr>rootHash = h, trie_db = db\<rparr>))"

definition trie_Delete :: "node_codec \<Rightarrow> bytes \<Rightarrow> Trie \<Rightarrow> trie_error option \<times> Trie" where
  "trie_Delete c key t = trie_Update c key [] t"

section \<open>What a node represents\<close>

text \<open>The protobuf library decodes what it encoded, and the digest has 32 bytes.\<close>

definition codec_ok :: "node_codec \<Rightarrow> bool" where
  "codec_ok c \<longleftrightarrow> (\<forall>vs. \<exists>b. marshal_node c vs = Some b \<and> unmarshal_node c b = Some vs)
                 \<and> (\<forall>b. length (sha3_256 c b) = HashSize)"

text \<open>No digest of the table stands for two encodings.\<close>

definition collision_free :: "tdb \<Rightarrow> bool" where
  "collision_free db \<longleftrightarrow> (\<forall>x\<in>set db. \<forall>y\<in>set db. fst x = fst y \<longrightarrow> snd x = snd y)"

definition nhash :: "node_codec \<Rightarrow> bytes list \<Rightarrow> bytes" where
  "nhash c vs = sha3_256 c (the (marshal_node c vs))"

definition has :: "node_codec \<Rightarrow> tdb \<Rightarrow> bytes \<Rightarrow> bytes list \<Rightarrow> bool" where
  "has c db h vs \<longleftrightarrow> h = nhash c vs \<and> (h, the (marshal_node c vs)) \<in> set db"

definition nibs :: "bytes \<Rightarrow> bool" where "nibs p \<longleftrightarrow> (\<forall>x\<in>set p. unat x < 16)"

definition beneath :: "bytes \<Rightarrow> (bytes \<rightharpoonup> bytes) \<Rightarrow> bytes \<rightharpoonup> bytes" where
  "beneath p M k = (if take (length p) k = p then M (drop (length p) k) else None)"

definition fan :: "(nat \<Rightarrow> bytes \<rightharpoonup> bytes) \<Rightarrow> bytes \<rightharpoonup> bytes" where
  "fan Ms k = (case k of [] \<Rightarrow> None | x # xs \<Rightarrow> if unat x < 16 then Ms (unat x) xs else None)"

text \<open>The node with digest \<^verbatim>\<open>h\<close> represents a map on paths of length \<^verbatim>\<open>n\<close>. Values are not
  empty, extensions have a path and lead to a branch, branches have two children.\<close>

inductive rep :: "node_codec \<Rightarrow> tdb \<Rightarrow> bytes \<Rightarrow> nat \<Rightarrow> (bytes \<rightharpoonup> bytes) \<Rightarrow> bool" for c db where
  rep_leaf: "has c db h [p, v, termintor] \<Longrightarrow> nibs p \<Longrightarrow> v \<noteq> [] \<Longrightarrow> rep c db h (length p) [p \<mapsto> v]"
| rep_ext: "has c db h [p, h'] \<Longrightarrow> p \<noteq> [] \<Longrightarrow> nibs p \<Longrightarrow> has c db h' vs \<Longrightarrow> length vs = 16 \<Longrightarrow> rep c db h' m M \<Longrightarrow>
    rep c db h (length p + m) (beneath p M)"
| rep_branch: "has c db h vs \<Longrightarrow> length vs = 16 \<Longrightarrow> 2 \<le> length (filter (\<lambda>v. v \<noteq> []) vs) \<Longrightarrow>
    (\<And>i. i < 16 \<Longrightarrow> vs ! i = [] \<Longrightarrow> Ms i = Map.empty) \<Longrightarrow>
    (\<And>i. i < 16 \<Longrightarrow> vs ! i \<noteq> [] \<Longrightarrow> rep c db (vs ! i) n (Ms i)) \<Longrightarrow>
    rep c db h (Suc n) (fan Ms)"

lemma nibs_simps [simp]: "nibs []" "nibs (x # xs) \<longleftrightarrow> unat x < 16 \<and> nibs xs" "nibs (xs @ ys) \<longleftrightarrow> nibs xs \<and> nibs ys"
  by (auto simp: nibs_def)

lemma collision_free_mono: "collision_free db' \<Longrightarrow> set db \<subseteq> set db' \<Longrightarrow> collision_free db"
  unfolding collision_free_def by blast

lemma has_mono: "has c db h vs \<Longrightarrow> set db \<subseteq> set db' \<Longrightarrow> has c db' h vs"
  by (auto simp: has_def)

lemma rep_mono:
  assumes "rep c db h n M" "set db \<subseteq> set db'"
  shows "rep c db' h n M"
  using assms
proof induction
  case rep_leaf
  then show ?case by (intro rep.rep_leaf) (auto intro: has_mono)
next
  case rep_ext
  then show ?case by (auto intro: rep.rep_ext has_mono)
next
  case rep_branch
  then show ?case by (auto intro: rep.rep_branch has_mono)
qed

lemma has_hash: "codec_ok c \<Longrightarrow> has c db h vs \<Longrightarrow> length h = HashSize"
  by (simp add: has_def codec_ok_def nhash_def)

lemma rep_hash: "codec_ok c \<Longrightarrow> rep c db h n M \<Longrightarrow> length h = HashSize"
  by (erule rep.cases) (auto intro: has_hash)

lemma bytesToHash_full [simp]: "length h = HashSize \<Longrightarrow> bytesToHash h = Some h"
  using hash_SetBytes_full [of ZeroHash h] by (auto simp: bytesToHash_def hash_wf_def ZeroHash_def HashSize_def)

lemma getNode_has:
  assumes "codec_ok c" "collision_free db" "has c db h vs"
  shows "getNode c h db = (Inr \<lparr>nd_Hash = Some h, nd_Value = vs\<rparr>, db)"
proof -
  obtain b where b: "marshal_node c vs = Some b" "unmarshal_node c b = Some vs" "length (sha3_256 c b) = HashSize"
    using assms(1) by (auto simp: codec_ok_def)
  have mem: "(h, b) \<in> set db" "h = sha3_256 c b" using assms(3) b by (auto simp: has_def nhash_def)
  obtain b' where b': "map_of db h = Some b'" using weak_map_of_SomeI [OF mem(1)] by blast
  moreover have "b' = b" using assms(2) mem(1) map_of_SomeD [OF b'] unfolding collision_free_def by fastforce
  ultimately show ?thesis
    using b mem(2) hash_SetBytes_full [of ZeroHash h]
    by (simp add: getNode_def Node_Unmarshal_def Node_FromProtoMessage_def hash_wf_def ZeroHash_def)
qed

lemma commit_node:
  assumes "codec_ok c" "node_Type n \<noteq> unknown"
  shows "trie_commit c n db = (Inr (nhash c (nd_Value n)), (nhash c (nd_Value n), the (marshal_node c (nd_Value n))) # db)"
proof -
  obtain b where b: "marshal_node c (nd_Value n) = Some b" using assms(1) by (auto simp: codec_ok_def)
  have "length (sha3_256 c b) = HashSize" using assms(1) by (simp add: codec_ok_def)
  then show ?thesis using assms(2) b by (simp add: trie_commit_def Node_Marshal_def nhash_def)
qed

lemma has_commit [simp]: "has c ((nhash c vs, the (marshal_node c vs)) # db) (nhash c vs) vs"
  by (simp add: has_def)

lemma tbind_simps [simp]:
  "m db = (Inr x, db') \<Longrightarrow> tbind m f db = f x db'"
  "m db = (Inl e, db') \<Longrightarrow> tbind m f db = (Inl e, db')"
  by (auto simp: tbind_def)

lemma node_Type_simps [simp]:
  "nd_Value n = [a, b] \<Longrightarrow> node_Type n = extension"
  "nd_Value n = [a, b, d] \<Longrightarrow> node_Type n = leaf"
  "length (nd_Value n) = 16 \<Longrightarrow> node_Type n = branch"
  by (auto simp: node_Type_def)

section \<open>Tables only grow\<close>

definition grows :: "'a tm \<Rightarrow> bool" where
  "grows m \<longleftrightarrow> (\<forall>db. set db \<subseteq> set (snd (m db)))"

lemma grows_tbind: "grows m \<Longrightarrow> (\<And>x. grows (f x)) \<Longrightarrow> grows (tbind m f)"
  unfolding grows_def tbind_def by (fastforce split: prod.splits sum.splits)

lemma grows_basic [simp, intro]:
  "grows (tret x)" "grows (terr e)" "grows (tlift r)" "grows (getNode c h)" "grows (trie_commit c n)"
  by (auto simp: grows_def tret_def terr_def tlift_def getNode_def trie_commit_def split: option.splits)

lemma grows_slot [simp, intro]: "grows (branch_slot n x)" "grows (set_slot x v n)"
  by (auto simp: branch_slot_def set_slot_def)

lemma grows_if: "(P \<Longrightarrow> grows a) \<Longrightarrow> (\<not> P \<Longrightarrow> grows b) \<Longrightarrow> grows (if P then a else b)"
  by simp

lemma grows_case:
  "grows a \<Longrightarrow> (\<And>y. grows (f y)) \<Longrightarrow> grows (case x of None \<Rightarrow> a | Some y \<Rightarrow> f y)"
  "grows a' \<Longrightarrow> (\<And>y ys. grows (g y ys)) \<Longrightarrow> grows (case xs of [] \<Rightarrow> a' | y # ys \<Rightarrow> g y ys)"
  "(\<And>e. grows (f1 e)) \<Longrightarrow> (\<And>r. grows (f2 r)) \<Longrightarrow> grows (case q of Inl e \<Rightarrow> f1 e | Inr r \<Rightarrow> f2 r)"
  by (simp_all split: option.split list.split sum.split)

lemma grows_new_leaf [simp, intro]: "grows (new_leaf c k v)"
  by (simp add: new_leaf_def)

lemmas grows_rules = grows_tbind grows_if grows_case grows_basic grows_slot grows_new_leaf

lemma grows_split [simp, intro]: "grows (split_extension c root n k v)"
  unfolding split_extension_def by (intro grows_rules)

lemma grows_merge [simp, intro]: "grows (merge_child c root)" "grows (merge_extension c root h)"
proof -
  show "grows (merge_child c root)"
    unfolding merge_child_def by (auto intro!: grows_tbind split: prod.splits option.splits Flag.splits)
  show "grows (merge_extension c root h)"
    by (auto simp: grows_def merge_extension_def getNode_def terr_def trie_commit_def split: option.splits sum.splits)
qed

lemma grows_update: "grows (trie_update fuel c h k v)"
proof (induction fuel arbitrary: h k)
  case (Suc fuel)
  then show ?case
    unfolding trie_update.simps updateBranchNode_def Let_def by (intro grows_rules grows_split Suc.IH)
qed simp

lemma grows_delete: "grows (trie_delete fuel c h k)"
proof (induction fuel arbitrary: h k)
  case (Suc fuel)
  then show ?case
    unfolding trie_delete.simps by (intro grows_rules grows_merge Suc.IH)
qed simp

lemma growsD: "grows m \<Longrightarrow> m db = (r, db') \<Longrightarrow> set db \<subseteq> set db'"
  unfolding grows_def by (metis snd_conv)

section \<open>Lookup reads the represented map\<close>

lemma lcp_split:
  "longest_common_prefix xs ys = xs \<and> take (length xs) ys = xs \<or>
   longest_common_prefix xs ys = ys \<and> length ys < length xs \<or>
   (\<exists>x ps y ks. xs = longest_common_prefix xs ys @ x # ps \<and> ys = longest_common_prefix xs ys @ y # ks \<and> x \<noteq> y)"
proof (induction xs ys rule: longest_common_prefix.induct)
  case (1 x xs y ys)
  then show ?case by (cases "x = y") auto
qed auto

lemma commonPrefixes_cases:
  assumes "length p \<le> length k"
  obtains (prefix) ks where "k = p @ ks" "commonPrefixes p k = Inr p"
  | (differ) q x ps y ks where "p = q @ x # ps" "k = q @ y # ks" "x \<noteq> y" "commonPrefixes p k = Inr q"
proof -
  have "commonPrefixes p k = Inr (longest_common_prefix p k)" using assms by (simp add: commonPrefixes_def)
  with lcp_split [of p k] assms that show thesis
    by (metis append_take_drop_id not_less)
qed

lemma beneath_append [simp]: "beneath p M (p @ k) = M k"
  by (simp add: beneath_def)

lemma beneath_differ: "x \<noteq> y \<Longrightarrow> beneath (q @ x # ps) M (q @ y # ks) = None"
  by (simp add: beneath_def)

lemma beneath_Nil [simp]: "beneath [] M = M"
  by (simp add: beneath_def fun_eq_iff)

lemma beneath_single: "beneath p [k \<mapsto> v] = [p @ k \<mapsto> v]"
proof
  fix l
  have "l = p @ drop (length p) l" if "take (length p) l = p"
    using that append_take_drop_id [of "length p" l] by metis
  then show "beneath p [k \<mapsto> v] l = [p @ k \<mapsto> v] l"
    by (auto simp: beneath_def)
qed

lemma beneath_beneath: "beneath p (beneath q M) = beneath (p @ q) M"
proof
  fix l
  have "take (length p) l = p" if "take (length p + length q) l = p @ q"
    using arg_cong [OF that, of "take (length p)"] by simp
  then show "beneath p (beneath q M) l = beneath (p @ q) M l"
    by (auto simp: beneath_def take_add drop_drop add.commute)
qed

lemma branch_slot_simps [simp]: "length vs = 16 \<Longrightarrow> unat x < 16 \<Longrightarrow> branch_slot \<lparr>nd_Hash = h, nd_Value = vs\<rparr> x = tret (vs ! unat x)"
  by (simp add: branch_slot_def)

lemma tret_simp [simp]: "tret x db = (Inr x, db)"
  by (simp add: tret_def)

lemma terr_simp [simp]: "terr e db = (Inl e, db)"
  by (simp add: terr_def)

lemma tlift_simp [simp]: "tlift r db = (r, db)"
  by (simp add: tlift_def)

text \<open>A key longer than the paths of the node is never found, whatever way it takes.\<close>

lemma trie_get_long:
  assumes "codec_ok c" "collision_free db" "rep c db h n M"
  shows "n < length k \<Longrightarrow> nibs k \<Longrightarrow> n + 2 \<le> fuel \<Longrightarrow> trie_get fuel c (Some h) k db = (Inl ErrNodeNotFound, db)"
  using assms(3)
proof (induction arbitrary: k fuel)
  case (rep_leaf h p v)
  obtain f where f: "fuel = Suc f" using rep_leaf by (cases fuel) auto
  have "length p \<le> length k" using rep_leaf by simp
  then show ?case
  proof (cases rule: commonPrefixes_cases)
    case prefix
    then show ?thesis using f getNode_has [OF assms(1,2) rep_leaf(1)] rep_leaf by simp
  next
    case differ
    then show ?thesis using f getNode_has [OF assms(1,2) rep_leaf(1)] rep_leaf by simp
  qed
next
  case (rep_ext h p h' vs m M)
  obtain f where f: "fuel = Suc f" "m + 2 \<le> f" using rep_ext by (cases fuel; cases p) auto
  have h': "bytesToHash h' = Some h'" using rep_hash [OF assms(1) rep_ext(6)] by simp
  have "length p \<le> length k" using rep_ext by simp
  then obtain q where q: "commonPrefixes p k = Inr q" "length q \<le> length p"
    by (cases rule: commonPrefixes_cases) auto
  have "trie_get f c (Some h') (drop (length q) k) db = (Inl ErrNodeNotFound, db)"
    using rep_ext f q by (intro rep_ext.IH) (auto simp: nibs_def dest: in_set_dropD)
  then show ?case using f q h' getNode_has [OF assms(1,2) rep_ext(1)] by simp
next
  case (rep_branch h vs Ms n)
  obtain f where f: "fuel = Suc f" "n + 2 \<le> f" using rep_branch by (cases fuel) auto
  obtain x ks where k: "k = x # ks" "unat x < 16" "nibs ks" "n < length ks" using rep_branch by (cases k) auto
  show ?case
  proof (cases "vs ! unat x = []")
    case True
    obtain g where "f = Suc g" using f by (cases f) auto
    with True k f rep_branch(2) getNode_has [OF assms(1,2) rep_branch(1)] show ?thesis by (simp add: bytesToHash_def)
  next
    case False
    have "bytesToHash (vs ! unat x) = Some (vs ! unat x)"
      using rep_hash [OF assms(1) rep_branch(5) [OF k(2) False]] by simp
    with k f rep_branch(2) getNode_has [OF assms(1,2) rep_branch(1)] rep_branch(6) [OF k(2) False k(4,3) f(2)]
    show ?thesis by simp
  qed
qed

lemma trie_get_rep:
  assumes "codec_ok c" "collision_free db" "rep c db h n M"
  shows "length k = n \<Longrightarrow> nibs k \<Longrightarrow> n + 2 \<le> fuel \<Longrightarrow>
    trie_get fuel c (Some h) k db = ((case M k of None \<Rightarrow> Inl ErrNodeNotFound | Some v \<Rightarrow> Inr v), db)"
  using assms(3)
proof (induction arbitrary: k fuel)
  case (rep_leaf h p v)
  obtain f where f: "fuel = Suc f" using rep_leaf by (cases fuel) auto
  have "length p \<le> length k" using rep_leaf by simp
  then show ?case
  proof (cases rule: commonPrefixes_cases)
    case prefix
    then show ?thesis using f getNode_has [OF assms(1,2) rep_leaf(1)] rep_leaf by simp
  next
    case differ
    then show ?thesis using f getNode_has [OF assms(1,2) rep_leaf(1)] rep_leaf by auto
  qed
next
  case (rep_ext h p h' vs m M)
  obtain f where f: "fuel = Suc f" "m + 2 \<le> f" using rep_ext by (cases fuel; cases p) auto
  have h': "bytesToHash h' = Some h'" using rep_hash [OF assms(1) rep_ext(6)] by simp
  have "length p \<le> length k" using rep_ext by simp
  then show ?case
  proof (cases rule: commonPrefixes_cases)
    case (prefix ks)
    then show ?thesis using f h' getNode_has [OF assms(1,2) rep_ext(1)] rep_ext by simp
  next
    case (differ q x ps y ks)
    have "trie_get f c (Some h') (y # ks) db = (Inl ErrNodeNotFound, db)"
      using differ rep_ext f by (intro trie_get_long [OF assms(1,2) rep_ext(6)]) auto
    then show ?thesis using differ f h' getNode_has [OF assms(1,2) rep_ext(1)] by (simp add: beneath_differ)
  qed
next
  case (rep_branch h vs Ms n)
  obtain f where f: "fuel = Suc f" "n + 2 \<le> f" using rep_branch by (cases fuel) auto
  obtain x ks where k: "k = x # ks" "unat x < 16" "nibs ks" "n = length ks" using rep_branch by (cases k) auto
  show ?case
  proof (cases "vs ! unat x = []")
    case True
    obtain g where "f = Suc g" using f by (cases f) auto
    with True k f rep_branch(2,4) getNode_has [OF assms(1,2) rep_branch(1)] show ?thesis by (simp add: bytesToHash_def fan_def)
  next
    case False
    have "bytesToHash (vs ! unat x) = Some (vs ! unat x)"
      using rep_hash [OF assms(1) rep_branch(5) [OF k(2) False]] by simp
    with k f rep_branch(2) getNode_has [OF assms(1,2) rep_branch(1)] rep_branch(6) [OF k(2) False k(4) [symmetric] k(3) f(2)]
    show ?thesis by (simp add: fan_def)
  qed
qed

section \<open>Insertion updates the represented map\<close>

definition pairm :: "byte \<Rightarrow> (bytes \<rightharpoonup> bytes) \<Rightarrow> byte \<Rightarrow> (bytes \<rightharpoonup> bytes) \<Rightarrow> nat \<Rightarrow> bytes \<rightharpoonup> bytes" where
  "pairm x A y B i = (if i = unat x then A else if i = unat y then B else Map.empty)"

lemma unat_byte_eq: "unat (x :: byte) = unat y \<longleftrightarrow> x = y"
  by (simp add: word_unat_eq_iff)

lemma two_filter:
  assumes "i < length xs" "j < length xs" "i \<noteq> j" "P (xs ! i)" "P (xs ! j)"
  shows "2 \<le> length (filter P xs)"
proof -
  have "card {i, j} \<le> card {k. k < length xs \<and> P (xs ! k)}"
    using assms by (intro card_mono) auto
  then show ?thesis using assms(3) by (simp add: length_filter_conv_card)
qed

lemma has_unique:
  assumes "codec_ok c" "collision_free db" "has c db h vs" "has c db h vs'"
  shows "vs = vs'"
  using getNode_has [OF assms(1,2,3)] getNode_has [OF assms(1,2,4)] by simp

lemma beneath_split:
  assumes "x \<noteq> y" "unat x < 16" "unat y < 16"
  shows "(beneath (q @ x # ps) M)(q @ y # ks \<mapsto> v) = beneath q (fan (pairm x (beneath ps M) y [ks \<mapsto> v]))"
proof
  fix l
  show "((beneath (q @ x # ps) M)(q @ y # ks \<mapsto> v)) l = beneath q (fan (pairm x (beneath ps M) y [ks \<mapsto> v])) l"
  proof (cases "take (length q) l = q")
    case True
    then obtain r where l: "l = q @ r" by (metis append_take_drop_id)
    show ?thesis
    proof (cases r)
      case Nil
      then show ?thesis using l by (simp add: beneath_def fan_def)
    next
      case (Cons z zs)
      then show ?thesis using l assms by (auto simp: beneath_def fan_def pairm_def unat_byte_eq)
    qed
  next
    case False
    have "take (length q) (take (length (q @ x # ps)) l) \<noteq> q" using False by simp
    then have "take (length (q @ x # ps)) l \<noteq> q @ x # ps" by (metis append_eq_conv_conj)
    then show ?thesis using False by (auto simp: beneath_def)
  qed
qed

lemma rep_pair:
  assumes "codec_ok c" "x \<noteq> y" "unat x < 16" "unat y < 16"
    and "has c db b ((replicate 16 [])[unat x := hx, unat y := hy])"
    and "rep c db hx m A" "rep c db hy m B"
  shows "rep c db b (Suc m) (fan (pairm x A y B))"
proof -
  have ne: "hx \<noteq> []" "hy \<noteq> []" using rep_hash [OF assms(1,6)] rep_hash [OF assms(1,7)] by (auto simp: HashSize_def)
  have xy: "unat x \<noteq> unat y" using assms(2) by (simp add: unat_byte_eq)
  show ?thesis
  proof (rule rep_branch [OF assms(5)])
    show "2 \<le> length (filter (\<lambda>v. v \<noteq> []) ((replicate 16 [])[unat x := hx, unat y := hy]))"
      using assms ne xy by (intro two_filter [of "unat x" _ "unat y"]) auto
  next
    fix i :: nat
    assume "i < 16" "(replicate 16 [])[unat x := hx, unat y := hy] ! i = []"
    then show "pairm x A y B i = Map.empty" using ne assms(3,4) by (auto simp: pairm_def nth_list_update split: if_splits)
  next
    fix i :: nat
    assume "i < 16" "(replicate 16 [])[unat x := hx, unat y := hy] ! i \<noteq> []"
    then show "rep c db ((replicate 16 [])[unat x := hx, unat y := hy] ! i) m (pairm x A y B i)"
      using assms(3,4,6,7) xy by (auto simp: pairm_def nth_list_update split: if_splits)
  qed simp
qed

lemma set_slot_simp [simp]:
  "unat x < length (nd_Value n) \<Longrightarrow> set_slot x v n = tret (n\<lparr>nd_Value := (nd_Value n)[unat x := v]\<rparr>)"
  by (simp add: set_slot_def)

lemma node_simps [simp]:
  "nd_Value newEmptyBranchNode = replicate 16 []" "nd_Value (newExtensionNode p h) = [p, h]" "nd_Value (newNode vs) = vs"
  by (simp_all add: newEmptyBranchNode_def newExtensionNode_def newNode_def)

lemma tbind_mid:
  assumes "tbind m f db = (r, db')" "m db = (r1, db1)" "\<And>x. grows (f x)"
  shows "set db1 \<subseteq> set db'"
proof (cases r1)
  case (Inl e)
  then show ?thesis using assms(1,2) by simp
next
  case (Inr x)
  then show ?thesis using assms growsD [of "f x" db1 r db'] by simp
qed

lemma new_leaf_rep:
  assumes "codec_ok c" "nibs k" "v \<noteq> []"
  shows "\<exists>h db'. new_leaf c k v db = (Inr h, db') \<and> rep c db' h (length k) [k \<mapsto> v] \<and> set db \<subseteq> set db'"
  using assms by (auto simp: new_leaf_def commit_node node_Type_def intro!: rep_leaf)

lemma ext_rep:
  assumes "codec_ok c" "rep c db b m M" "has c db b vs" "length vs = 16" "nibs p" "p \<noteq> []"
  shows "\<exists>h db'. trie_commit c (newExtensionNode p b) db = (Inr h, db') \<and> rep c db' h (length p + m) (beneath p M) \<and> set db \<subseteq> set db'"
proof -
  let ?e = "(nhash c [p, b], the (marshal_node c [p, b]))"
  have "rep c (?e # db) (nhash c [p, b]) (length p + m) (beneath p M)"
    using assms by (intro rep_ext [where vs = vs]) (auto intro: has_mono rep_mono)
  then show ?thesis using assms(1) by (auto simp: commit_node node_Type_def)
qed

lemma pair_commit:
  assumes "codec_ok c" "x \<noteq> y" "unat x < 16" "unat y < 16" "rep c db hx m A" "rep c db hy m B"
  shows "\<exists>b db' vs. trie_commit c (newEmptyBranchNode\<lparr>nd_Value := (replicate 16 [])[unat x := hx, unat y := hy]\<rparr>) db = (Inr b, db')
     \<and> rep c db' b (Suc m) (fan (pairm x A y B)) \<and> has c db' b vs \<and> length vs = 16 \<and> set db \<subseteq> set db'"
proof -
  let ?vs = "(replicate 16 [])[unat x := hx, unat y := hy]"
  let ?db = "(nhash c ?vs, the (marshal_node c ?vs)) # db"
  have h: "has c ?db (nhash c ?vs) ?vs" by simp
  have "rep c ?db (nhash c ?vs) (Suc m) (fan (pairm x A y B))"
    using assms by (intro rep_pair [OF _ _ _ _ h]) (auto intro: rep_mono)
  moreover have "trie_commit c (newEmptyBranchNode\<lparr>nd_Value := ?vs\<rparr>) db = (Inr (nhash c ?vs), ?db)"
    using assms(1) by (simp add: commit_node)
  moreover have "set db \<subseteq> set ?db" "length ?vs = 16" by auto
  ultimately show ?thesis using h by blast
qed

lemma split_extension_rep:
  assumes "codec_ok c" "x \<noteq> y" "unat x < 16" "unat y < 16" "nibs ps" "nibs ks" "v \<noteq> []"
    and root: "nd_Value root = [q @ x # ps, h']" and rep: "rep c db h' m M" and br: "has c db h' vs" "length vs = 16"
    and len: "length ks = length ps + m"
  shows "\<exists>b db' vs. split_extension c root (length q) (q @ y # ks) v db = (Inr b, db')
     \<and> rep c db' b (Suc (length ps + m)) (fan (pairm x (beneath ps M) y [ks \<mapsto> v])) \<and> has c db' b vs \<and> length vs = 16 \<and> set db \<subseteq> set db'"
proof -
  obtain hl db1 where l: "new_leaf c ks v db = (Inr hl, db1)" "rep c db1 hl (length ks) [ks \<mapsto> v]" "set db \<subseteq> set db1"
    using new_leaf_rep assms by blast
  define old where "old = (if ps = [] then tret h' else trie_commit c (newExtensionNode ps h'))"
  have "\<exists>ho db2. old db1 = (Inr ho, db2) \<and> rep c db2 ho (length ps + m) (beneath ps M) \<and> set db1 \<subseteq> set db2"
  proof (cases "ps = []")
    case True
    then show ?thesis using rep l(3) by (auto simp: old_def intro: rep_mono)
  next
    case False
    then show ?thesis
      using ext_rep [of c db1 h' m M vs ps] assms l(3) by (auto simp: old_def intro: rep_mono has_mono)
  qed
  then obtain ho db2 where o: "old db1 = (Inr ho, db2)" "rep c db2 ho (length ps + m) (beneath ps M)" "set db1 \<subseteq> set db2"
    by blast
  have "rep c db2 hl (length ps + m) [ks \<mapsto> v]" using l(2) o(3) len by (simp add: rep_mono)
  then obtain b db' vs' where b: "trie_commit c (newEmptyBranchNode\<lparr>nd_Value := (replicate 16 [])[unat x := ho, unat y := hl]\<rparr>) db2 = (Inr b, db')"
    "rep c db' b (Suc (length ps + m)) (fan (pairm x (beneath ps M) y [ks \<mapsto> v]))" "has c db' b vs'" "length vs' = 16" "set db2 \<subseteq> set db'"
    using pair_commit [OF assms(1-4) o(2)] by blast
  have "split_extension c root (length q) (q @ y # ks) v db = (Inr b, db')"
    using l(1) o(1) b(1) assms(3,4) by (cases "ps = []") (auto simp: split_extension_def root old_def)
  then show ?thesis using b l(3) o(3) by blast
qed

lemma trie_update_leaf:
  assumes "codec_ok c" "has c db h [p, w, termintor]" "nibs p" "w \<noteq> []" "length k = length p" "nibs k" "v \<noteq> []"
    and "collision_free db"
  shows "\<exists>h' db'. trie_update (Suc f) c (Some h) k v db = (Inr h', db') \<and> rep c db' h' (length p) ([p \<mapsto> w](k \<mapsto> v))"
proof -
  have g: "getNode c h db = (Inr \<lparr>nd_Hash = Some h, nd_Value = [p, w, termintor]\<rparr>, db)"
    by (rule getNode_has [OF assms(1,8,2)])
  have "length p \<le> length k" using assms(5) by simp
  then show ?thesis
  proof (cases rule: commonPrefixes_cases)
    case (prefix ks)
    then have "k = p" using assms(5) by simp
    then show ?thesis
      using g prefix(2) assms by (auto simp: commit_node intro!: rep_leaf)
  next
    case (differ q x ps y ks)
    obtain ho db1 where o: "new_leaf c ps w db = (Inr ho, db1)" "rep c db1 ho (length ps) [ps \<mapsto> w]" "set db \<subseteq> set db1"
      using new_leaf_rep [of c ps w db] assms differ(1) by auto
    obtain hn db2 where n: "new_leaf c ks v db1 = (Inr hn, db2)" "rep c db2 hn (length ks) [ks \<mapsto> v]" "set db1 \<subseteq> set db2"
      using new_leaf_rep [of c ks v db1] assms differ(2) by auto
    have xy: "unat x < 16" "unat y < 16" "length ks = length ps" "nibs q" using assms differ by auto
    have "rep c db2 ho (length ps) [ps \<mapsto> w]" "rep c db2 hn (length ps) [ks \<mapsto> v]"
      using o(2) n(2,3) xy(3) by (auto intro: rep_mono)
    from pair_commit [OF assms(1) differ(3) xy(1,2) this] obtain b db3 vs where
      b: "trie_commit c (newEmptyBranchNode\<lparr>nd_Value := (replicate 16 [])[unat x := ho, unat y := hn]\<rparr>) db2 = (Inr b, db3)"
        "rep c db3 b (Suc (length ps)) (fan (pairm x [ps \<mapsto> w] y [ks \<mapsto> v]))" "has c db3 b vs" "length vs = 16"
      by blast
    have m: "[p \<mapsto> w](k \<mapsto> v) = beneath q (fan (pairm x [ps \<mapsto> w] y [ks \<mapsto> v]))"
      using beneath_split [OF differ(3) xy(1,2), of q ps "[[] \<mapsto> w]" ks v] by (simp add: differ(1,2) beneath_single)
    show ?thesis
    proof (cases "q = []")
      case True
      then show ?thesis using g differ o(1) n(1) b(1,2) xy m by simp
    next
      case False
      obtain h' db' where "trie_commit c (newExtensionNode q b) db3 = (Inr h', db')"
        "rep c db' h' (length q + Suc (length ps)) (beneath q (fan (pairm x [ps \<mapsto> w] y [ks \<mapsto> v])))"
        using ext_rep [OF assms(1) b(2-4) xy(4) False] by blast
      then show ?thesis using False g differ o(1) n(1) b(1) xy m by simp
    qed
  qed
qed

lemma tbind_tret [simp]: "tbind (tret x) f = f x"
  by (rule ext) simp

lemma filter_update_le: "P y \<Longrightarrow> length (filter P xs) \<le> length (filter P (xs[i := y]))"
  by (induction xs arbitrary: i) (auto split: nat.splits)

lemma fan_update: "unat x < 16 \<Longrightarrow> (fan Ms)(x # ks \<mapsto> v) = fan (Ms(unat x := (Ms (unat x))(ks \<mapsto> v)))"
  by (auto simp: fan_def fun_eq_iff unat_byte_eq split: list.splits)

lemma beneath_update: "(beneath p M)(p @ ks \<mapsto> v) = beneath p (M(ks \<mapsto> v))"
proof
  fix l
  have "l = p @ drop (length p) l" if "take (length p) l = p"
    using that append_take_drop_id [of "length p" l] by metis
  then show "((beneath p M)(p @ ks \<mapsto> v)) l = beneath p (M(ks \<mapsto> v)) l"
    by (auto simp: beneath_def)
qed

lemma rep_set_child:
  assumes "length vs = 16" "2 \<le> length (filter (\<lambda>v. v \<noteq> []) vs)" "i < 16" "rep c db h' n A" "h' \<noteq> []"
    and "\<And>j. j < 16 \<Longrightarrow> vs ! j = [] \<Longrightarrow> Ms j = Map.empty"
    and "\<And>j. j < 16 \<Longrightarrow> vs ! j \<noteq> [] \<Longrightarrow> rep c db (vs ! j) n (Ms j)"
    and "has c db b (vs[i := h'])"
  shows "rep c db b (Suc n) (fan (Ms(i := A)))"
proof (rule rep_branch [OF assms(8)])
  show "2 \<le> length (filter (\<lambda>v. v \<noteq> []) (vs[i := h']))"
    using filter_update_le [where P = "\<lambda>v. v \<noteq> []", of h' vs i] assms(2,5) by simp
  show "length (vs[i := h']) = 16" using assms(1) by simp
next
  fix j assume "j < 16" "vs[i := h'] ! j = []"
  then show "(Ms(i := A)) j = Map.empty" using assms(1,3,5,6) by (auto simp: nth_list_update split: if_splits)
next
  fix j assume "j < 16" "vs[i := h'] ! j \<noteq> []"
  then show "rep c db (vs[i := h'] ! j) n ((Ms(i := A)) j)" using assms(1,3,4,7) by (auto simp: nth_list_update split: if_splits)
qed

definition is_branch :: "node_codec \<Rightarrow> tdb \<Rightarrow> bytes \<Rightarrow> bool" where
  "is_branch c db h \<longleftrightarrow> (\<exists>vs. has c db h vs \<and> length vs = 16)"

lemma not_is_branch:
  assumes "codec_ok c" "collision_free db" "has c db h ws" "length ws \<noteq> 16"
  shows "\<not> is_branch c db h"
  using assms has_unique unfolding is_branch_def by metis

lemma trie_update_rep:
  assumes "codec_ok c" "rep c db h n M"
  shows "length k = n \<Longrightarrow> nibs k \<Longrightarrow> v \<noteq> [] \<Longrightarrow> n + 2 \<le> fuel \<Longrightarrow> trie_update fuel c (Some h) k v db = (r, db') \<Longrightarrow>
    collision_free db' \<Longrightarrow>
    \<exists>h'. r = Inr h' \<and> rep c db' h' n (M(k \<mapsto> v)) \<and> (is_branch c db h \<longrightarrow> is_branch c db' h')"
  using assms(2)
proof (induction arbitrary: k fuel r db')
  case (rep_leaf h p w)
  have sub: "set db \<subseteq> set db'" by (rule growsD [OF grows_update rep_leaf.prems(5)])
  then have cf: "collision_free db" by (rule collision_free_mono [OF rep_leaf.prems(6)])
  obtain f where f: "fuel = Suc f" using rep_leaf by (cases fuel) auto
  obtain h' db2 where u: "trie_update (Suc f) c (Some h) k v db = (Inr h', db2)" "rep c db2 h' (length p) ([p \<mapsto> w](k \<mapsto> v))"
    using trie_update_leaf [OF assms(1) rep_leaf(1-3) rep_leaf.prems(1-3) cf] by blast
  have "r = Inr h'" "db' = db2" using rep_leaf.prems(5) unfolding f u(1) by auto
  moreover have "\<not> is_branch c db h" using not_is_branch [OF assms(1) cf rep_leaf(1)] by simp
  ultimately show ?case using u(2) by blast
next
  case (rep_ext h p h' vs m M)
  have sub: "set db \<subseteq> set db'" by (rule growsD [OF grows_update rep_ext.prems(5)])
  then have cf: "collision_free db" by (rule collision_free_mono [OF rep_ext.prems(6)])
  obtain f where f: "fuel = Suc f" "m + 2 \<le> f" using rep_ext by (cases fuel; cases p) auto
  have h': "bytesToHash h' = Some h'" using rep_hash [OF assms(1) rep_ext(6)] by simp
  have g: "getNode c h db = (Inr \<lparr>nd_Hash = Some h, nd_Value = [p, h']\<rparr>, db)"
    by (rule getNode_has [OF assms(1) cf rep_ext(1)])
  have nb: "\<not> is_branch c db h" using not_is_branch [OF assms(1) cf rep_ext(1)] by simp
  have "length p \<le> length k" using rep_ext by simp
  then show ?case
  proof (cases rule: commonPrefixes_cases)
    case (prefix ks)
    obtain r1 db1 where u: "trie_update f c (Some h') ks v db = (r1, db1)" by fastforce
    have run: "tbind (trie_update f c (Some h') ks v) (\<lambda>h1. trie_commit c \<lparr>nd_Hash = Some h, nd_Value = [p, h1]\<rparr>) db = (r, db')"
      using rep_ext.prems(5) f g h' prefix by simp
    have "collision_free db1"
      by (rule collision_free_mono [OF rep_ext.prems(6) tbind_mid [OF run u]]) simp
    moreover have "length ks = m" "nibs ks" using prefix rep_ext.prems by auto
    moreover have "is_branch c db h'" using rep_ext(4,5) unfolding is_branch_def by blast
    ultimately obtain h1 where h1: "r1 = Inr h1" "rep c db1 h1 m (M(ks \<mapsto> v))" "is_branch c db1 h1"
      using rep_ext.IH [OF _ _ rep_ext.prems(3) f(2) u] by blast
    then obtain vs' where vs': "has c db1 h1 vs'" "length vs' = 16" by (auto simp: is_branch_def)
    have "(beneath p M)(k \<mapsto> v) = beneath p (M(ks \<mapsto> v))"
      unfolding prefix(1) by (rule beneath_update)
    then show ?thesis
      using run u h1(1) ext_rep [OF assms(1) h1(2) vs' rep_ext(3,2)] nb
      by (auto simp: commit_node [OF assms(1)])
  next
    case (differ q x ps y ks)
    have nx: "unat x < 16" "unat y < 16" "nibs ps" "nibs ks" "nibs q" "length ks = length ps + m"
      using differ rep_ext by auto
    obtain b db1 vs1 where b: "split_extension c \<lparr>nd_Hash = Some h, nd_Value = [p, h']\<rparr> (length q) k v db = (Inr b, db1)"
      "rep c db1 b (Suc (length ps + m)) (fan (pairm x (beneath ps M) y [ks \<mapsto> v]))" "has c db1 b vs1" "length vs1 = 16"
      using split_extension_rep [of c x y ps ks v "\<lparr>nd_Hash = Some h, nd_Value = [p, h']\<rparr>" q h' db m M vs]
        assms(1) differ nx rep_ext by auto
    have m: "(beneath p M)(k \<mapsto> v) = beneath q (fan (pairm x (beneath ps M) y [ks \<mapsto> v]))"
      unfolding differ(1,2) by (rule beneath_split [OF differ(3) nx(1,2)])
    show ?thesis
    proof (cases "q = []")
      case True
      then show ?thesis using rep_ext.prems(5) f g differ b m nb by auto
    next
      case False
      obtain h2 db2 where "trie_commit c (newExtensionNode q b) db1 = (Inr h2, db2)"
        "rep c db2 h2 (length q + Suc (length ps + m)) (beneath q (fan (pairm x (beneath ps M) y [ks \<mapsto> v])))"
        using ext_rep [OF assms(1) b(2-4) nx(5) False] by blast
      then show ?thesis using False rep_ext.prems(5) f g differ b m nb by (auto simp: add.assoc)
    qed
  qed
next
  case (rep_branch h vs Ms n)
  have sub: "set db \<subseteq> set db'" by (rule growsD [OF grows_update rep_branch.prems(5)])
  then have cf: "collision_free db" by (rule collision_free_mono [OF rep_branch.prems(6)])
  obtain f where f: "fuel = Suc f" "n + 2 \<le> f" using rep_branch by (cases fuel) auto
  obtain x ks where k: "k = x # ks" "unat x < 16" "nibs ks" "length ks = n" using rep_branch by (cases k) auto
  have g: "getNode c h db = (Inr \<lparr>nd_Hash = Some h, nd_Value = vs\<rparr>, db)"
    by (rule getNode_has [OF assms(1) cf rep_branch(1)])
  let ?s = "bytesToHash (vs ! unat x)"
  obtain r1 db1 where u: "trie_update f c ?s ks v db = (r1, db1)" by fastforce
  have run: "tbind (trie_update f c ?s ks v) (\<lambda>h1. trie_commit c \<lparr>nd_Hash = Some h, nd_Value = vs[unat x := h1]\<rparr>) db = (r, db')"
    using rep_branch.prems(5) f g k rep_branch(2) by (simp add: updateBranchNode_def)
  have sub1: "set db1 \<subseteq> set db'" by (rule tbind_mid [OF run u]) simp
  have cf1: "collision_free db1" by (rule collision_free_mono [OF rep_branch.prems(6) sub1])
  have "\<exists>h1. r1 = Inr h1 \<and> rep c db1 h1 n ((Ms (unat x))(ks \<mapsto> v))"
  proof (cases "vs ! unat x = []")
    case True
    obtain f' where "f = Suc f'" using f(2) by (cases f) auto
    then show ?thesis
      using u True new_leaf_rep [OF assms(1) k(3) rep_branch.prems(3), of db] k(2,4) rep_branch(4) [OF k(2) True]
      by (auto simp: bytesToHash_def)
  next
    case False
    have "bytesToHash (vs ! unat x) = Some (vs ! unat x)"
      using rep_hash [OF assms(1) rep_branch(5) [OF k(2) False]] by simp
    then show ?thesis using rep_branch(6) [OF k(2) False k(4,3) rep_branch.prems(3) f(2) _ cf1] u by (auto simp: fun_upd_def)
  qed
  then obtain h1 where h1: "r1 = Inr h1" "rep c db1 h1 n ((Ms (unat x))(ks \<mapsto> v))" by blast
  let ?vs = "vs[unat x := h1]"
  have r: "r = Inr (nhash c ?vs)" "db' = (nhash c ?vs, the (marshal_node c ?vs)) # db1"
    using run u h1(1) rep_branch(2) by (simp_all add: commit_node [OF assms(1)])
  have ne: "h1 \<noteq> []" using rep_hash [OF assms(1) h1(2)] by (auto simp: HashSize_def)
  have "has c db' (nhash c ?vs) ?vs" using r(2) by simp
  moreover from this have "rep c db' (nhash c ?vs) (Suc n) (fan (Ms(unat x := (Ms (unat x))(ks \<mapsto> v))))"
    using rep_branch(2-5) k(2) ne sub sub1 h1(2) by (intro rep_set_child [of vs]) (auto intro: rep_mono)
  ultimately show ?case using r(1) k rep_branch(2) by (auto simp: fan_update is_branch_def intro!: exI [of _ ?vs])
qed

section \<open>Deletion removes the key\<close>

lemma trie_delete_long:
  assumes "codec_ok c" "collision_free db" "rep c db h n M"
  shows "n < length k \<Longrightarrow> nibs k \<Longrightarrow> n + 2 \<le> fuel \<Longrightarrow> trie_delete fuel c (Some h) k db = (Inl ErrNodeNotFound, db)"
  using assms(3)
proof (induction arbitrary: k fuel)
  case (rep_leaf h p v)
  obtain f where f: "fuel = Suc f" using rep_leaf by (cases fuel) auto
  have "length p \<le> length k" using rep_leaf by simp
  then show ?case
    by (cases rule: commonPrefixes_cases) (use f getNode_has [OF assms(1,2) rep_leaf(1)] rep_leaf in simp_all)
next
  case (rep_ext h p h' vs m M)
  obtain f where f: "fuel = Suc f" "m + 2 \<le> f" using rep_ext by (cases fuel; cases p) auto
  have h': "bytesToHash h' = Some h'" using rep_hash [OF assms(1) rep_ext(6)] by simp
  have "length p \<le> length k" using rep_ext by simp
  then obtain q where q: "commonPrefixes p k = Inr q" "length q \<le> length p"
    by (cases rule: commonPrefixes_cases) auto
  have "trie_delete f c (Some h') (drop (length q) k) db = (Inl ErrNodeNotFound, db)"
    using rep_ext f q by (intro rep_ext.IH) (auto simp: nibs_def dest: in_set_dropD)
  then show ?case using f q h' getNode_has [OF assms(1,2) rep_ext(1)] by simp
next
  case (rep_branch h vs Ms n)
  obtain f where f: "fuel = Suc f" "n + 2 \<le> f" using rep_branch by (cases fuel) auto
  obtain x ks where k: "k = x # ks" "unat x < 16" "nibs ks" "n < length ks" using rep_branch by (cases k) auto
  show ?case
  proof (cases "vs ! unat x = []")
    case True
    obtain g where "f = Suc g" using f by (cases f) auto
    with True k f rep_branch(2) getNode_has [OF assms(1,2) rep_branch(1)] show ?thesis by (simp add: bytesToHash_def)
  next
    case False
    have "bytesToHash (vs ! unat x) = Some (vs ! unat x)"
      using rep_hash [OF assms(1) rep_branch(5) [OF k(2) False]] by simp
    with k f rep_branch(2) getNode_has [OF assms(1,2) rep_branch(1)] rep_branch(6) [OF k(2) False k(4,3) f(2)]
    show ?thesis by simp
  qed
qed

lemma trie_delete_absent:
  assumes "codec_ok c" "collision_free db" "rep c db h n M"
  shows "length k = n \<Longrightarrow> nibs k \<Longrightarrow> n + 2 \<le> fuel \<Longrightarrow> M k = None \<Longrightarrow>
    trie_delete fuel c (Some h) k db = (Inl ErrNodeNotFound, db)"
  using assms(3)
proof (induction arbitrary: k fuel)
  case (rep_leaf h p v)
  obtain f where f: "fuel = Suc f" using rep_leaf by (cases fuel) auto
  have "length p \<le> length k" using rep_leaf by simp
  then show ?case
    by (cases rule: commonPrefixes_cases) (use f getNode_has [OF assms(1,2) rep_leaf(1)] rep_leaf in auto)
next
  case (rep_ext h p h' vs m M)
  obtain f where f: "fuel = Suc f" "m + 2 \<le> f" using rep_ext by (cases fuel; cases p) auto
  have h': "bytesToHash h' = Some h'" using rep_hash [OF assms(1) rep_ext(6)] by simp
  have "length p \<le> length k" using rep_ext by simp
  then show ?case
  proof (cases rule: commonPrefixes_cases)
    case (prefix ks)
    then show ?thesis using f h' getNode_has [OF assms(1,2) rep_ext(1)] rep_ext by simp
  next
    case (differ q x ps y ks)
    have "trie_delete f c (Some h') (y # ks) db = (Inl ErrNodeNotFound, db)"
      using differ rep_ext f by (intro trie_delete_long [OF assms(1,2) rep_ext(6)]) auto
    then show ?thesis using differ f h' getNode_has [OF assms(1,2) rep_ext(1)] by simp
  qed
next
  case (rep_branch h vs Ms n)
  obtain f where f: "fuel = Suc f" "n + 2 \<le> f" using rep_branch by (cases fuel) auto
  obtain x ks where k: "k = x # ks" "unat x < 16" "nibs ks" "n = length ks" using rep_branch by (cases k) auto
  show ?case
  proof (cases "vs ! unat x = []")
    case True
    obtain g where "f = Suc g" using f by (cases f) auto
    with True k f rep_branch(2,4) getNode_has [OF assms(1,2) rep_branch(1)] show ?thesis by (simp add: bytesToHash_def)
  next
    case False
    have "Ms (unat x) ks = None" using rep_branch.prems k by (simp add: fan_def)
    moreover have "bytesToHash (vs ! unat x) = Some (vs ! unat x)"
      using rep_hash [OF assms(1) rep_branch(5) [OF k(2) False]] by simp
    ultimately show ?thesis
      using k f rep_branch(2) getNode_has [OF assms(1,2) rep_branch(1)] rep_branch(6) [OF k(2) False k(4) [symmetric] k(3) f(2)] by simp
  qed
qed

text \<open>Whatever kind of node a path is put in front of, the result represents the map under that path.\<close>

lemma merge_extension_rep:
  assumes "codec_ok c" "collision_free db" "rep c db h n M" "nibs p" "p \<noteq> []" "nd_Value root = [p, h0]"
  shows "\<exists>h' db'. merge_extension c root h db = (Inr h', db') \<and> rep c db' h' (length p + n) (beneath p M) \<and> set db \<subseteq> set db'"
  using assms(3)
proof cases
  case (rep_leaf q v)
  have "rep c ((nhash c [p @ q, v, termintor], the (marshal_node c [p @ q, v, termintor])) # db)
     (nhash c [p @ q, v, termintor]) (length (p @ q)) [p @ q \<mapsto> v]"
    using rep_leaf assms(4) by (intro rep.rep_leaf) auto
  then show ?thesis using rep_leaf getNode_has [OF assms(1,2) rep_leaf(3)] assms(1,6)
    by (auto simp: merge_extension_def commit_node beneath_single)
next
  case (rep_ext q h1 vs m M1)
  have "rep c ((nhash c [p @ q, h1], the (marshal_node c [p @ q, h1])) # db)
     (nhash c [p @ q, h1]) (length (p @ q) + m) (beneath (p @ q) M1)"
    using rep_ext assms(4) by (intro rep.rep_ext [where vs = vs]) (auto intro: has_mono rep_mono)
  then show ?thesis using rep_ext getNode_has [OF assms(1,2) rep_ext(3)] assms(1,6)
    by (auto simp: merge_extension_def commit_node beneath_beneath add.assoc)
next
  case (rep_branch vs Ms m)
  have "rep c ((nhash c [p, h], the (marshal_node c [p, h])) # db) (nhash c [p, h]) (length p + n) (beneath p M)"
    using rep_branch assms by (intro rep.rep_ext [where vs = vs]) (auto intro: has_mono rep_mono)
  then show ?thesis using rep_branch getNode_has [OF assms(1,2) rep_branch(3)] assms(1,6)
    by (auto simp: merge_extension_def commit_node)
qed

lemma merge_child_rep:
  assumes "codec_ok c" "collision_free db" "rep c db h n M" "FirstSubNodeHashInBranch root = (Some h, i)" "i < 16"
  shows "\<exists>h' db'. merge_child c root db = (Inr h', db') \<and> rep c db' h' (Suc n) (beneath [of_nat i] M) \<and> set db \<subseteq> set db'"
proof -
  have i: "nibs [of_nat i]" using assms(5) by (simp add: unat_of_nat_less)
  from assms(3) show ?thesis
  proof cases
    case (rep_leaf q v)
    have "rep c ((nhash c [of_nat i # q, v, termintor], the (marshal_node c [of_nat i # q, v, termintor])) # db)
       (nhash c [of_nat i # q, v, termintor]) (length (of_nat i # q)) [of_nat i # q \<mapsto> v]"
      using rep_leaf i by (intro rep.rep_leaf) auto
    then show ?thesis using rep_leaf getNode_has [OF assms(1,2) rep_leaf(3)] assms(1,4)
      by (auto simp: merge_child_def commit_node beneath_single)
  next
    case (rep_ext q h1 vs m M1)
    have "rep c ((nhash c [of_nat i # q, h1], the (marshal_node c [of_nat i # q, h1])) # db)
       (nhash c [of_nat i # q, h1]) (length (of_nat i # q) + m) (beneath (of_nat i # q) M1)"
      using rep_ext i by (intro rep.rep_ext [where vs = vs]) (auto intro: has_mono rep_mono)
    then show ?thesis using rep_ext getNode_has [OF assms(1,2) rep_ext(3)] assms(1,4)
      by (auto simp: merge_child_def commit_node beneath_beneath)
  next
    case (rep_branch vs Ms m)
    have "rep c ((nhash c [[of_nat i], h], the (marshal_node c [[of_nat i], h])) # db)
       (nhash c [[of_nat i], h]) (length [of_nat i :: byte] + n) (beneath [of_nat i] M)"
      using rep_branch i assms by (intro rep.rep_ext [where vs = vs]) (auto intro: has_mono rep_mono)
    then show ?thesis using rep_branch getNode_has [OF assms(1,2) rep_branch(3)] assms(1,4)
      by (auto simp: merge_child_def commit_node)
  qed
qed

lemma first_sub_ex:
  "\<exists>v\<in>set vs. v \<noteq> [] \<Longrightarrow> \<exists>i<length vs. vs ! i \<noteq> [] \<and> first_sub j vs = (bytesToHash (vs ! i), j + i)"
proof (induction vs arbitrary: j)
  case (Cons v vs)
  show ?case
  proof (cases "v = []")
    case True
    then have "\<exists>v\<in>set vs. v \<noteq> []" using Cons.prems by auto
    from Cons.IH [OF this, of "j + 1"] obtain i where "i < length vs" "vs ! i \<noteq> []" "first_sub (j + 1) vs = (bytesToHash (vs ! i), j + 1 + i)" by blast
    with True show ?thesis by (intro exI [of _ "Suc i"]) simp
  qed (auto intro!: exI [of _ 0])
qed simp

lemma fan_single:
  assumes "\<And>j. j < 16 \<Longrightarrow> j \<noteq> i \<Longrightarrow> Ms j = Map.empty" "i < 16"
  shows "fan Ms = beneath [of_nat i] (Ms i)"
proof
  fix k
  show "fan Ms k = beneath [of_nat i] (Ms i) k"
  proof (cases k)
    case (Cons x xs)
    have "x = of_nat i \<longleftrightarrow> unat x = i" using assms(2) by (auto simp: unat_of_nat_less)
    then show ?thesis using Cons assms by (auto simp: fan_def beneath_def)
  qed (simp add: fan_def beneath_def)
qed

lemma filter_delete:
  "i < length xs \<Longrightarrow> P (xs ! i) \<Longrightarrow> \<not> P y \<Longrightarrow> Suc (length (filter P (xs[i := y]))) = length (filter P xs)"
  by (induction xs arbitrary: i) (auto split: nat.splits)

lemma fan_remove: "unat x < 16 \<Longrightarrow> (fan Ms)(x # ks := None) = fan (Ms(unat x := (Ms (unat x))(ks := None)))"
  by (auto simp: fan_def fun_eq_iff unat_byte_eq split: list.splits)

text \<open>A branch that lost a child: it merges with the last one or is written again.\<close>

lemma drop_child_rep:
  assumes "codec_ok c" "collision_free db" "length vs = 16" "2 \<le> length (filter (\<lambda>v. v \<noteq> []) vs)" "x < 16" "vs ! x \<noteq> []"
    and "\<And>j. j < 16 \<Longrightarrow> vs ! j = [] \<Longrightarrow> Ms j = Map.empty"
    and "\<And>j. j < 16 \<Longrightarrow> vs ! j \<noteq> [] \<Longrightarrow> rep c db (vs ! j) n (Ms j)"
    and root: "nd_Value root = vs[x := []]"
  shows "\<exists>h' db'. (if BranchLen root = 1 then merge_child c root else trie_commit c root) db = (Inr h', db')
     \<and> rep c db' h' (Suc n) (fan (Ms(x := Map.empty)))"
proof -
  have cnt: "Suc (BranchLen root) = length (filter (\<lambda>v. v \<noteq> []) vs)"
    using filter_delete [of x vs "\<lambda>v. v \<noteq> []" "[]"] assms(3,5,6) by (simp add: BranchLen_def root)
  show ?thesis
  proof (cases "BranchLen root = 1")
    case True
    then have "\<exists>v\<in>set (vs[x := []]). v \<noteq> []"
      by (auto simp: BranchLen_def root filter_empty_conv dest!: arg_cong [of _ _ "\<lambda>n. n = (0::nat)"])
    from first_sub_ex [OF this, of 0] obtain i where i: "i < 16" "vs[x := []] ! i \<noteq> []" "first_sub 0 (vs[x := []]) = (bytesToHash (vs[x := []] ! i), i)"
      using assms(3) by auto
    then have ix: "i \<noteq> x" "vs[x := []] ! i = vs ! i" using assms(3,5) by (auto simp: nth_list_update split: if_splits)
    have rep_i: "rep c db (vs ! i) n (Ms i)" using assms(8) i ix by auto
    have "FirstSubNodeHashInBranch root = (Some (vs ! i), i)"
      using i(3) rep_hash [OF assms(1) rep_i] ix by (simp add: FirstSubNodeHashInBranch_def root)
    from merge_child_rep [OF assms(1,2) rep_i this i(1)] obtain h' db' where
      m: "merge_child c root db = (Inr h', db')" "rep c db' h' (Suc n) (beneath [of_nat i] (Ms i))" by blast
    have "(Ms(x := Map.empty)) j = Map.empty" if "j < 16" "j \<noteq> i" for j
    proof (cases "vs[x := []] ! j = []")
      case True
      then show ?thesis using assms(3,5,7) that by (auto simp: nth_list_update split: if_splits)
    next
      case False
      then have "2 \<le> BranchLen root"
        using two_filter [of i "vs[x := []]" j "\<lambda>v. v \<noteq> []"] i that assms(3) by (simp add: BranchLen_def root)
      with \<open>BranchLen root = 1\<close> show ?thesis by simp
    qed
    from fan_single [of i "Ms(x := Map.empty)", OF this i(1)] m True ix show ?thesis by simp
  next
    case False
    then have "2 \<le> length (filter (\<lambda>v. v \<noteq> []) (vs[x := []]))"
      using cnt assms(4) by (simp add: BranchLen_def root)
    moreover have "rep c ((nhash c (vs[x := []]), the (marshal_node c (vs[x := []]))) # db) (vs ! j) n (Ms j)" if "j < 16" "vs ! j \<noteq> []" for j
      by (rule rep_mono [OF assms(8) [OF that]]) auto
    ultimately have "rep c ((nhash c (vs[x := []]), the (marshal_node c (vs[x := []]))) # db) (nhash c (vs[x := []])) (Suc n) (fan (Ms(x := Map.empty)))"
      using assms(3,5,7) by (intro rep_branch [where vs = "vs[x := []]"]) (auto simp: nth_list_update split: if_splits)
    moreover have "trie_commit c root db = (Inr (nhash c (vs[x := []])), (nhash c (vs[x := []]), the (marshal_node c (vs[x := []]))) # db)"
      using assms(1,3) root by (subst commit_node) auto
    ultimately show ?thesis using False by auto
  qed
qed

definition removed :: "node_codec \<Rightarrow> tdb \<Rightarrow> nat \<Rightarrow> (bytes \<rightharpoonup> bytes) \<Rightarrow> trie_error + bytes option \<Rightarrow> bool" where
  "removed c db n M r \<longleftrightarrow> (\<exists>q. r = Inr q \<and> (case q of None \<Rightarrow> M = Map.empty | Some h \<Rightarrow> rep c db h n M))"

lemma beneath_remove: "(beneath p M)(p @ ks := None) = beneath p (M(ks := None))"
proof
  fix l
  have "l = p @ drop (length p) l" if "take (length p) l = p"
    using that append_take_drop_id [of "length p" l] by metis
  then show "((beneath p M)(p @ ks := None)) l = beneath p (M(ks := None)) l"
    by (auto simp: beneath_def)
qed

lemma beneath_empty [simp]: "beneath p Map.empty = Map.empty"
  by (simp add: beneath_def fun_eq_iff)

lemma delete_ext_rep:
  assumes "codec_ok c" "collision_free db'" "has c db h [p, h']" "p \<noteq> []" "nibs p" "length h' = HashSize"
    and run: "trie_delete (Suc f) c (Some h) (p @ ks) db = (r, db')"
    and IH: "\<And>r1 db1. trie_delete f c (Some h') ks db = (r1, db1) \<Longrightarrow> collision_free db1 \<Longrightarrow> removed c db1 m (M(ks := None)) r1"
  shows "removed c db' (length p + m) (beneath p (M(ks := None))) r"
proof -
  have sub: "set db \<subseteq> set db'" by (rule growsD [OF grows_delete run])
  then have cf: "collision_free db" by (rule collision_free_mono [OF assms(2)])
  have g: "getNode c h db = (Inr \<lparr>nd_Hash = Some h, nd_Value = [p, h']\<rparr>, db)"
    by (rule getNode_has [OF assms(1) cf assms(3)])
  obtain r1 db1 where d: "trie_delete f c (Some h') ks db = (r1, db1)" by fastforce
  let ?k = "\<lambda>newHash. case newHash of None \<Rightarrow> tret None
     | Some nh \<Rightarrow> tbind (merge_extension c \<lparr>nd_Hash = Some h, nd_Value = [p, h']\<rparr> nh) (\<lambda>h. tret (Some h))"
  have cp: "commonPrefixes p (p @ ks) = Inr p" by (rule commonPrefixes_cases [of p "p @ ks"]) auto
  have run': "tbind (trie_delete f c (Some h') ks) ?k db = (r, db')"
    using run g cp assms(6) by simp
  have "set db1 \<subseteq> set db'" by (rule tbind_mid [OF run' d]) (auto intro!: grows_rules grows_merge)
  then have cf1: "collision_free db1" by (rule collision_free_mono [OF assms(2)])
  from IH [OF d cf1] obtain q where q: "r1 = Inr q" "case q of None \<Rightarrow> M(ks := None) = Map.empty | Some h1 \<Rightarrow> rep c db1 h1 m (M(ks := None))"
    by (auto simp: removed_def)
  show ?thesis
  proof (cases q)
    case None
    then show ?thesis using run' d q by (auto simp: removed_def)
  next
    case (Some h1)
    then have "rep c db1 h1 m (M(ks := None))" using q(2) by simp
    from merge_extension_rep [OF assms(1) cf1 this assms(5,4), of "\<lparr>nd_Hash = Some h, nd_Value = [p, h']\<rparr>" h']
    obtain h2 db2 where "merge_extension c \<lparr>nd_Hash = Some h, nd_Value = [p, h']\<rparr> h1 db1 = (Inr h2, db2)"
      "rep c db2 h2 (length p + m) (beneath p (M(ks := None)))"
      by auto
    then show ?thesis using run' d q Some by (auto simp: removed_def)
  qed
qed

lemma delete_branch_rep:
  assumes "codec_ok c" "collision_free db'" "has c db h vs" "length vs = 16" "2 \<le> length (filter (\<lambda>v. v \<noteq> []) vs)"
    and children: "\<And>j. j < 16 \<Longrightarrow> vs ! j = [] \<Longrightarrow> Ms j = Map.empty"
      "\<And>j. j < 16 \<Longrightarrow> vs ! j \<noteq> [] \<Longrightarrow> rep c db (vs ! j) n (Ms j)"
    and x: "unat x < 16" "vs ! unat x \<noteq> []"
    and run: "trie_delete (Suc f) c (Some h) (x # ks) db = (r, db')"
    and IH: "\<And>r1 db1. trie_delete f c (Some (vs ! unat x)) ks db = (r1, db1) \<Longrightarrow> collision_free db1 \<Longrightarrow>
      removed c db1 n ((Ms (unat x))(ks := None)) r1"
  shows "removed c db' (Suc n) (fan (Ms(unat x := (Ms (unat x))(ks := None)))) r \<and> (\<exists>h'. r = Inr (Some h'))"
proof -
  have sub: "set db \<subseteq> set db'" by (rule growsD [OF grows_delete run])
  then have cf: "collision_free db" by (rule collision_free_mono [OF assms(2)])
  have g: "getNode c h db = (Inr \<lparr>nd_Hash = Some h, nd_Value = vs\<rparr>, db)"
    by (rule getNode_has [OF assms(1) cf assms(3)])
  obtain r1 db1 where d: "trie_delete f c (Some (vs ! unat x)) ks db = (r1, db1)" by fastforce
  let ?root = "\<lambda>newHash. \<lparr>nd_Hash = Some h, nd_Value = vs[unat x := hashToBytes newHash]\<rparr>"
  let ?k = "\<lambda>newHash. tbind (if BranchLen (?root newHash) = 1 then merge_child c (?root newHash) else trie_commit c (?root newHash)) (\<lambda>h. tret (Some h))"
  have run': "tbind (trie_delete f c (Some (vs ! unat x)) ks) ?k db = (r, db')"
    using run g x rep_hash [OF assms(1) children(2) [OF x]] assms(4) by simp
  have "set db1 \<subseteq> set db'" by (rule tbind_mid [OF run' d]) (auto intro!: grows_rules grows_merge)
  then have cf1: "collision_free db1" by (rule collision_free_mono [OF assms(2)])
  have sub1: "set db \<subseteq> set db1" by (rule growsD [OF grows_delete d])
  have ch1: "rep c db1 (vs ! j) n (Ms j)" if "j < 16" "vs ! j \<noteq> []" for j
    by (rule rep_mono [OF children(2) [OF that] sub1])
  from IH [OF d cf1] obtain q where q: "r1 = Inr q"
    "case q of None \<Rightarrow> (Ms (unat x))(ks := None) = Map.empty | Some h1 \<Rightarrow> rep c db1 h1 n ((Ms (unat x))(ks := None))"
    by (auto simp: removed_def)
  show ?thesis
  proof (cases q)
    case None
    have "nd_Value (?root None) = vs[unat x := []]" by (simp add: hashToBytes_def)
    from drop_child_rep [OF assms(1) cf1 assms(4,5) x children(1) ch1 this] obtain h2 db2 where
      "(if BranchLen (?root None) = 1 then merge_child c (?root None) else trie_commit c (?root None)) db1 = (Inr h2, db2)"
      "rep c db2 h2 (Suc n) (fan (Ms(unat x := Map.empty)))" by auto
    then show ?thesis using run' d q None by (auto simp: removed_def)
  next
    case (Some h1)
    then have "rep c db1 h1 n ((Ms (unat x))(ks := None))" using q(2) by simp
    moreover from this have "h1 \<noteq> []" using rep_hash [OF assms(1)] by (fastforce simp: HashSize_def)
    ultimately have h1: "rep c db1 h1 n ((Ms (unat x))(ks := None))" "h1 \<noteq> []" by blast+
    let ?vs = "vs[unat x := h1]"
    let ?db = "(nhash c ?vs, the (marshal_node c ?vs)) # db1"
    have "2 \<le> BranchLen (?root (Some h1))"
      using filter_update_le [where P = "\<lambda>v. v \<noteq> []", of h1 vs "unat x"] assms(5) h1(2) by (simp add: BranchLen_def hashToBytes_def)
    then have "r = Inr (Some (nhash c ?vs))" "db' = ?db"
      using run' d q(1) Some assms(1,4) by (auto simp: hashToBytes_def commit_node)
    moreover have "rep c ?db (nhash c ?vs) (Suc n) (fan (Ms(unat x := (Ms (unat x))(ks := None))))"
      using assms(4,5) x(1) h1 children(1) by (intro rep_set_child [of vs]) (auto intro: rep_mono rep_mono [OF ch1])
    ultimately show ?thesis by (simp add: removed_def)
  qed
qed

lemma trie_delete_rep:
  assumes "codec_ok c" "rep c db h n M"
  shows "length k = n \<Longrightarrow> nibs k \<Longrightarrow> M k \<noteq> None \<Longrightarrow> n + 2 \<le> fuel \<Longrightarrow> trie_delete fuel c (Some h) k db = (r, db') \<Longrightarrow>
    collision_free db' \<Longrightarrow> removed c db' n (M(k := None)) r"
  using assms(2)
proof (induction arbitrary: k fuel r db')
  case (rep_leaf h p w)
  have cf: "collision_free db"
    by (rule collision_free_mono [OF rep_leaf.prems(6) growsD [OF grows_delete rep_leaf.prems(5)]])
  obtain f where "fuel = Suc f" using rep_leaf by (cases fuel) auto
  moreover have "k = p" using rep_leaf.prems(3) by (auto split: if_splits)
  moreover have "commonPrefixes p p = Inr p" by (rule commonPrefixes_cases [of p p]) auto
  ultimately show ?case
    using rep_leaf.prems(5) getNode_has [OF assms(1) cf rep_leaf(1)] by (auto simp: removed_def fun_eq_iff)
next
  case (rep_ext h p h' vs m M)
  obtain f where f: "fuel = Suc f" "m + 2 \<le> f" using rep_ext by (cases fuel; cases p) auto
  have p: "take (length p) k = p" "M (drop (length p) k) \<noteq> None"
    using rep_ext.prems(3) by (auto simp: beneath_def split: if_splits)
  then obtain ks where k: "k = p @ ks" by (metis append_take_drop_id)
  show ?case
    unfolding k beneath_remove
  proof (rule delete_ext_rep [OF assms(1) rep_ext.prems(6) rep_ext(1,2,3)])
    show "length h' = HashSize" by (rule rep_hash [OF assms(1) rep_ext(6)])
    show "trie_delete (Suc f) c (Some h) (p @ ks) db = (r, db')" using rep_ext.prems(5) f k by simp
    show "removed c db1 m (M(ks := None)) r1" if "trie_delete f c (Some h') ks db = (r1, db1)" "collision_free db1" for r1 db1
      using rep_ext.IH [OF _ _ _ f(2) that] rep_ext.prems(1,2) p(2) k by (simp add: fun_upd_def)
  qed
next
  case (rep_branch h vs Ms n)
  obtain f where f: "fuel = Suc f" "n + 2 \<le> f" using rep_branch by (cases fuel) auto
  obtain x ks where k: "k = x # ks" "unat x < 16" "nibs ks" "length ks = n" using rep_branch by (cases k) auto
  have some: "Ms (unat x) ks \<noteq> None" using rep_branch.prems(3) k by (simp add: fan_def)
  then have ne: "vs ! unat x \<noteq> []" using rep_branch(4) [OF k(2)] by auto
  show ?case
    unfolding k(1) fan_remove [OF k(2)]
  proof (rule delete_branch_rep [OF assms(1) rep_branch.prems(6) rep_branch(1,2,3,4,5) k(2) ne, THEN conjunct1])
    show "trie_delete (Suc f) c (Some h) (x # ks) db = (r, db')" using rep_branch.prems(5) f k(1) by simp
    show "removed c db1 n ((Ms (unat x))(ks := None)) r1"
      if "trie_delete f c (Some (vs ! unat x)) ks db = (r1, db1)" "collision_free db1" for r1 db1
      by (rule rep_branch(6) [OF k(2) ne k(4,3) some f(2) that])
  qed
qed

section \<open>The trie is a map, and its history is kept\<close>

lemma nibs_keyToHex [simp]: "nibs (keyToHex key)"
proof -
  have "unat (b div 16) < 16 \<and> unat (b mod 16) < 16" for b :: byte
    using unat_byte_less [of b] by (simp add: unat_div unat_mod del: unat_byte_less)
  then show ?thesis by (auto simp: nibs_def keyToHex_def)
qed

lemma length_keyToHex [simp]: "length (keyToHex key) = 2 * length key"
  by (induction key) (auto simp: keyToHex_def)

lemma keyToHex_inj: "keyToHex a = keyToHex b \<longleftrightarrow> a = b"
proof (induction a arbitrary: b)
  case Nil
  then show ?case by (cases b) (auto simp: keyToHex_def)
next
  case (Cons x a)
  have "x = y" if "x div 16 = y div 16" "x mod 16 = y mod 16" for y :: byte
    using that by (metis div_mult_mod_eq)
  then show ?case using Cons by (cases b) (auto simp: keyToHex_def)
qed

lemma key_fuel_enough [simp]:
  "2 * length key + 2 \<le> key_fuel (keyToHex key)" "Suc (Suc (2 * length key)) \<le> key_fuel (keyToHex key)"
  by (simp_all add: key_fuel_def)

definition trie_ok :: "node_codec \<Rightarrow> Trie \<Rightarrow> nat \<Rightarrow> (bytes \<rightharpoonup> bytes) \<Rightarrow> bool" where
  "trie_ok c t n M \<longleftrightarrow> (case rootHash t of None \<Rightarrow> M = Map.empty | Some h \<Rightarrow> rep c (trie_db t) h n M)"

lemma trie_ok_mono: "trie_ok c t n M \<Longrightarrow> set (trie_db t) \<subseteq> set db \<Longrightarrow> trie_ok c (t\<lparr>trie_db := db\<rparr>) n M"
  by (auto simp: trie_ok_def intro: rep_mono split: option.splits)

lemma trie_Get_ok:
  assumes "codec_ok c" "collision_free (trie_db t)" "trie_ok c t (2 * length key) M"
  shows "trie_Get c t key = Inr (case M (keyToHex key) of None \<Rightarrow> [] | Some v \<Rightarrow> v)"
proof (cases "rootHash t")
  case None
  then show ?thesis using assms(3) by (simp add: trie_Get_def trie_ok_def key_fuel_def)
next
  case (Some h)
  then have "rep c (trie_db t) h (2 * length key) M" using assms(3) by (simp add: trie_ok_def)
  from trie_get_rep [OF assms(1,2) this, of "keyToHex key" "key_fuel (keyToHex key)"] Some
  show ?thesis by (simp add: trie_Get_def Let_def del: One_nat_def split: option.split)
qed

lemma trie_Update_grows: "trie_Update c key v t = (e, t') \<Longrightarrow> set (trie_db t) \<subseteq> set (trie_db t')"
proof -
  assume u: "trie_Update c key v t = (e, t')"
  let ?m = "if v \<noteq> [] then tbind (trie_update (key_fuel (keyToHex key)) c (rootHash t) (keyToHex key) v) (\<lambda>h. tret (Some h))
            else trie_delete (key_fuel (keyToHex key)) c (rootHash t) (keyToHex key)"
  obtain r db where m: "?m (trie_db t) = (r, db)" by fastforce
  have "grows ?m" by (intro grows_rules grows_update grows_delete)
  from growsD [OF this m] have "set (trie_db t) \<subseteq> set db" .
  moreover have "trie_db t' = db"
    using u m by (cases r; cases "v = []") (auto simp: trie_Update_def Let_def)
  ultimately show ?thesis by simp
qed

lemma trie_Update_ok:
  assumes "codec_ok c" "trie_ok c t (2 * length key) M" "trie_Update c key v t = (e, t')" "collision_free (trie_db t')"
  shows "trie_ok c t' (2 * length key) (M(keyToHex key := (if v = [] then None else Some v)))
    \<and> e = (if v = [] \<and> M (keyToHex key) = None then Some ErrNodeNotFound else None)"
proof -
  let ?k = "keyToHex key" and ?f = "key_fuel (keyToHex key)"
  have cf: "collision_free (trie_db t)"
    by (rule collision_free_mono [OF assms(4) trie_Update_grows [OF assms(3)]])
  show ?thesis
  proof (cases "v = []")
    case False
    obtain r db where u: "trie_update ?f c (rootHash t) ?k v (trie_db t) = (r, db)" by fastforce
    have db: "trie_db t' = db" using u False assms(3) by (cases r) (auto simp: trie_Update_def Let_def)
    have "\<exists>h. r = Inr h \<and> rep c db h (2 * length key) (M(?k \<mapsto> v))"
    proof (cases "rootHash t")
      case None
      then show ?thesis
        using u new_leaf_rep [OF assms(1) nibs_keyToHex False, of key "trie_db t"] assms(2) by (auto simp: key_fuel_def trie_ok_def)
    next
      case (Some h)
      then show ?thesis
        using trie_update_rep [OF assms(1) _ _ _ False, of "trie_db t" h "2 * length key" M ?k ?f r db] u assms(2,4) db
        by (auto simp: trie_ok_def)
    qed
    then show ?thesis using u False assms(3) by (auto simp: trie_Update_def Let_def trie_ok_def)
  next
    case True
    show ?thesis
    proof (cases "rootHash t = None \<or> M ?k = None")
      case absent: True
      have "trie_delete ?f c (rootHash t) ?k (trie_db t) = (Inl ErrNodeNotFound, trie_db t)"
      proof (cases "rootHash t")
        case (Some h)
        then show ?thesis using trie_delete_absent [OF assms(1) cf, of h "2 * length key" M ?k ?f] assms(2) absent
          by (simp add: trie_ok_def)
      qed (simp add: key_fuel_def)
      moreover have "M ?k = None" using absent assms(2) by (auto simp: trie_ok_def)
      moreover from this have "M(?k := None) = M" by auto
      ultimately show ?thesis using True assms(2,3) by (auto simp: trie_Update_def Let_def trie_ok_def)
    next
      case False
      then obtain h where h: "rootHash t = Some h" "M ?k \<noteq> None" by auto
      obtain r db where d: "trie_delete ?f c (Some h) ?k (trie_db t) = (r, db)" by fastforce
      have db: "trie_db t' = db" using d h True assms(3) by (cases r) (auto simp: trie_Update_def Let_def)
      have "removed c db (2 * length key) (M(?k := None)) r"
        using assms(2,4) h(1) db
        by (intro trie_delete_rep [where M = M and k = ?k, OF assms(1) _ _ _ h(2) key_fuel_enough(1) d]) (simp_all add: trie_ok_def)
      then show ?thesis
        using d h True assms(3) by (auto simp: trie_Update_def Let_def trie_ok_def removed_def split: option.splits)
    qed
  qed
qed

definition empty_trie :: Trie where "empty_trie = \<lparr>rootHash = None, trie_db = []\<rparr>"

definition trie_run :: "node_codec \<Rightarrow> (bytes \<times> bytes) list \<Rightarrow> Trie \<Rightarrow> Trie" where
  "trie_run c ops t = fold (\<lambda>(k, v) t. snd (trie_Update c k v t)) ops t"

definition map_run :: "(bytes \<times> bytes) list \<Rightarrow> bytes \<Rightarrow> bytes" where
  "map_run ops = fold (\<lambda>(k, v) m. m(k := v)) ops (\<lambda>_. [])"

lemma trie_run_grows: "set (trie_db t) \<subseteq> set (trie_db (trie_run c ops t))"
proof (induction ops arbitrary: t)
  case (Cons kv ops)
  obtain k v where "kv = (k, v)" by fastforce
  moreover obtain e t' where "trie_Update c k v t = (e, t')" by fastforce
  ultimately show ?case
    using trie_Update_grows [of c k v t e t'] Cons [of t'] by (auto simp: trie_run_def)
qed (simp add: trie_run_def)

lemma trie_run_ok:
  assumes "codec_ok c" "\<forall>(k, v)\<in>set ops. length k = L" "collision_free (trie_db (trie_run c ops empty_trie))"
  shows "\<exists>M. trie_ok c (trie_run c ops empty_trie) (2 * L) M
    \<and> (\<forall>k. length k = L \<longrightarrow> M (keyToHex k) = (if map_run ops k = [] then None else Some (map_run ops k)))"
  using assms(2,3)
proof (induction ops rule: rev_induct)
  case Nil
  then show ?case by (auto simp: trie_run_def empty_trie_def trie_ok_def map_run_def)
next
  case (snoc kv ops)
  obtain k v where kv: "kv = (k, v)" by fastforce
  let ?t = "trie_run c ops empty_trie"
  obtain e t' where u: "trie_Update c k v ?t = (e, t')" by fastforce
  have t': "trie_run c (ops @ [kv]) empty_trie = t'" using u kv by (simp add: trie_run_def)
  have "collision_free (trie_db ?t)"
    by (rule collision_free_mono [OF _ trie_Update_grows [OF u]]) (use snoc.prems(2) t' in simp)
  with snoc obtain M where M: "trie_ok c ?t (2 * L) M"
    "\<forall>k. length k = L \<longrightarrow> M (keyToHex k) = (if map_run ops k = [] then None else Some (map_run ops k))" by auto
  have L: "length k = L" using snoc.prems(1) kv by simp
  have "trie_ok c t' (2 * L) (M(keyToHex k := (if v = [] then None else Some v)))"
    using trie_Update_ok [OF assms(1) _ u, of M] M(1) L snoc.prems(2) t' by simp
  moreover have "map_run (ops @ [kv]) = (map_run ops)(k := v)" using kv by (simp add: map_run_def)
  then have "\<forall>l. length l = L \<longrightarrow> (M(keyToHex k := (if v = [] then None else Some v))) (keyToHex l) =
      (if map_run (ops @ [kv]) l = [] then None else Some (map_run (ops @ [kv]) l))"
    using M(2) by (simp add: keyToHex_inj)
  ultimately show ?case unfolding t' by blast
qed

text \<open>C20: The trie is a map that keeps its history: start from an empty table and update any keys
  of one length, an empty value meaning deletion. As long as no two node encodings written have the
  same digest, a lookup through the root reached after the first updates \<^verbatim>\<open>xs\<close>, made in the table
  as it is after all the updates \<^verbatim>\<open>xs @ ys\<close>, returns exactly what the last of the updates
  \<^verbatim>\<open>xs\<close> of that key wrote, and nothing for a key never written or deleted; it never fails, panics or
  runs out of the fuel \<^verbatim>\<open>key_fuel\<close>.\<close>

theorem trie_refines_map:
  assumes "codec_ok c" "\<forall>(k, v)\<in>set (xs @ ys). length k = L" "length key = L"
    and "collision_free (trie_db (trie_run c (xs @ ys) empty_trie))"
  shows "trie_Get c ((trie_run c xs empty_trie)\<lparr>trie_db := trie_db (trie_run c (xs @ ys) empty_trie)\<rparr>) key = Inr (map_run xs key)"
proof -
  let ?t = "trie_run c xs empty_trie" and ?t' = "trie_run c (xs @ ys) empty_trie"
  have sub: "set (trie_db ?t) \<subseteq> set (trie_db ?t')"
    using trie_run_grows [of ?t c ys] by (simp add: trie_run_def)
  obtain M where M: "trie_ok c ?t (2 * L) M"
    "\<forall>k. length k = L \<longrightarrow> M (keyToHex k) = (if map_run xs k = [] then None else Some (map_run xs k))"
    using trie_run_ok [OF assms(1), of xs L] assms(2) collision_free_mono [OF assms(4) sub] by auto
  have "trie_ok c (?t\<lparr>trie_db := trie_db ?t'\<rparr>) (2 * length key) M"
    using trie_ok_mono [OF M(1) sub] assms(3) by simp
  from trie_Get_ok [OF assms(1) _ this] show ?thesis using assms(3,4) M(2) by auto
qed

text \<open>A codec that marks every byte, and both ends of the encoding for the digest: an instance of the
  parameters.\<close>

definition mark_slice :: "bytes \<Rightarrow> bytes" where
  "mark_slice v = concat (map (\<lambda>b. [1, b]) v) @ [0]"

fun unmark :: "bytes \<Rightarrow> bytes \<Rightarrow> bytes list option" where
  "unmark acc [] = (if acc = [] then Some [] else None)"
| "unmark acc [x] = (if x = 0 then Some [acc] else None)"
| "unmark acc (x # b # rest) =
     (if x = 0 then map_option ((#) acc) (unmark [] (b # rest)) else unmark (acc @ [b]) rest)"

definition sample_digest :: "bytes \<Rightarrow> bytes" where
  "sample_digest b = take 32 (take 16 b @ take 16 (rev b) @ replicate 32 0)"

definition sample_codec :: node_codec where
  "sample_codec = \<lparr>marshal_node = \<lambda>vs. Some (concat (map mark_slice vs)), unmarshal_node = unmark [], sha3_256 = sample_digest\<rparr>"

lemma unmark_slice: "unmark acc (mark_slice v @ rest) = map_option ((#) (acc @ v)) (unmark [] rest)"
proof (induction v arbitrary: acc)
  case Nil
  then show ?case by (cases rest) (auto simp: mark_slice_def)
next
  case (Cons b v)
  from Cons [of "acc @ [b]"] show ?case by (simp add: mark_slice_def)
qed

lemma unmark_slices: "unmark [] (concat (map mark_slice vs)) = Some vs"
  by (induction vs) (simp_all add: unmark_slice)

lemma sample_codec_ok: "codec_ok sample_codec"
  by (simp add: codec_ok_def sample_codec_def unmark_slices sample_digest_def HashSize_def)

definition sample_ops :: "(bytes \<times> bytes) list" where
  "sample_ops = [([0x12, 0x34], [1]), ([0x12, 0x35], [2, 3]), ([0x92, 0x35], [4]), ([0x12, 0x34], [])]"

theorem trie_refines_map_witness:
  "trie_Get sample_codec ((trie_run sample_codec sample_ops empty_trie)
     \<lparr>trie_db := trie_db (trie_run sample_codec (sample_ops @ [([0x92, 0x35], [])]) empty_trie)\<rparr>) [0x92, 0x35] = Inr [4]"
proof -
  have "map_run sample_ops [0x92, 0x35] = [4]" by code_simp
  moreover have "collision_free (trie_db (trie_run sample_codec (sample_ops @ [([0x92, 0x35], [])]) empty_trie))" by code_simp
  moreover have "\<forall>(k, v)\<in>set (sample_ops @ [([0x92, 0x35], [])]). length k = 2" by code_simp
  ultimately show ?thesis
    using trie_refines_map [OF sample_codec_ok, of sample_ops "[([0x92, 0x35], [])]" 2 "[0x92, 0x35]"] by simp
qed

end
