(* ===== verification/World_State.thy ===== *)
theory World_State
  imports State_Trie Block_Types "HOL-Library.AList"
begin

text \<open>
  The world state of the contracts (\<^verbatim>\<open>src/core/worldstate\<close>): accounts cached in front of the state
  trie, the journal of their changes, snapshots and their revert, and the commit to the trie.

  A \<^verbatim>\<open>*stateObject\<close> is always the entry of its address in the live map, so the methods that
  change an object take the address; the journal entry of a replaced object holds the replaced
  value, which nothing changes until it is put back. The live map and the other maps of the code are
  association lists. A nil byte slice and an empty one are both the empty list. The reads fill caches,
  so they return the state too. The value \<^term>\<open>None\<close> of an operation is a Go panic. The RLP
  encoding and the Keccak digest are parameters (\<^verbatim>\<open>state_codec\<close>).
\<close>

section \<open>Accounts and state objects\<close>

record Account =
  ac_Nonce :: u64
  ac_Balance :: int
  ac_Root :: bytes
  ac_CodeHash :: bytes

record stateObject =
  so_address :: bytes
  so_data :: Account
  so_dbErr :: "trie_error option"
  so_trie :: "bytes option option"
  so_code :: bytes
  originStorage :: "(bytes \<times> bytes) list"
  dirtyStorage :: "(bytes \<times> bytes) list"
  dirtyCode :: bool
  suicided :: bool
  so_deleted :: bool

record state_codec =
  sc_node :: node_codec
  keccak256 :: "bytes \<Rightarrow> bytes"
  rlp_account :: "Account \<Rightarrow> bytes option"
  rlp_decode_account :: "bytes \<Rightarrow> Account option"
  rlp_string :: "bytes \<Rightarrow> bytes"
  rlp_Split :: "bytes \<Rightarrow> bytes option"

definition emptyCodeHash :: "state_codec \<Rightarrow> bytes" where "emptyCodeHash c = keccak256 c []"

definition zero_Account :: Account where
  "zero_Account = \<lparr>ac_Nonce = 0, ac_Balance = 0, ac_Root = ZeroHash, ac_CodeHash = []\<rparr>"

definition newObject :: "state_codec \<Rightarrow> bytes \<Rightarrow> Account \<Rightarrow> stateObject" where
  "newObject c address data =
     \<lparr>so_address = address,
      so_data = (if ac_CodeHash data = [] then data\<lparr>ac_CodeHash := emptyCodeHash c\<rparr> else data),
      so_dbErr = None, so_trie = None, so_code = [], originStorage = [], dirtyStorage = [],
      dirtyCode = False, suicided = False, so_deleted = False\<rparr>"

definition so_empty :: "state_codec \<Rightarrow> stateObject \<Rightarrow> bool" where
  "so_empty c s \<longleftrightarrow> ac_Nonce (so_data s) = 0 \<and> ac_Balance (so_data s) = 0 \<and> ac_CodeHash (so_data s) = emptyCodeHash c"

definition so_setError :: "trie_error option \<Rightarrow> stateObject \<Rightarrow> stateObject" where
  "so_setError e s = (if so_dbErr s = None then s\<lparr>so_dbErr := e\<rparr> else s)"

definition so_markSuicided :: "stateObject \<Rightarrow> stateObject" where
  "so_markSuicided s = s\<lparr>suicided := True\<rparr>"

definition so_setBalance :: "int \<Rightarrow> stateObject \<Rightarrow> stateObject" where
  "so_setBalance amount s = s\<lparr>so_data := (so_data s)\<lparr>ac_Balance := amount\<rparr>\<rparr>"

definition so_setNonce :: "u64 \<Rightarrow> stateObject \<Rightarrow> stateObject" where
  "so_setNonce nonce s = s\<lparr>so_data := (so_data s)\<lparr>ac_Nonce := nonce\<rparr>\<rparr>"

definition so_setCode :: "bytes \<Rightarrow> bytes \<Rightarrow> stateObject \<Rightarrow> stateObject" where
  "so_setCode codeHash code s =
     s\<lparr>so_code := code, so_data := (so_data s)\<lparr>ac_CodeHash := codeHash\<rparr>, dirtyCode := True\<rparr>"

definition so_setState :: "bytes \<Rightarrow> bytes \<Rightarrow> stateObject \<Rightarrow> stateObject" where
  "so_setState key v s = s\<lparr>dirtyStorage := AList.update key v (dirtyStorage s)\<rparr>"

text \<open>The storage trie opens on first use; a root the table does not know is replaced by the empty
  trie and the error is remembered.\<close>

definition so_getTrie :: "tdb \<Rightarrow> stateObject \<Rightarrow> bytes option \<times> stateObject" where
  "so_getTrie db s =
     (case so_trie s of
        Some r \<Rightarrow> (r, s)
      | None \<Rightarrow> (case trie_New (Some (ac_Root (so_data s))) db of
                    Inr t \<Rightarrow> (rootHash t, s\<lparr>so_trie := Some (rootHash t)\<rparr>)
                  | Inl e \<Rightarrow> (None, so_setError (Some e) (s\<lparr>so_trie := Some None\<rparr>))))"

definition so_GetCommittedState :: "state_codec \<Rightarrow> tdb \<Rightarrow> bytes \<Rightarrow> stateObject \<Rightarrow> bytes \<times> stateObject" where
  "so_GetCommittedState c db key s =
     (case map_of (originStorage s) key of
        Some v \<Rightarrow> (v, s)
      | None \<Rightarrow>
          (let (root, s) = so_getTrie db s
           in case trie_Get (sc_node c) \<lparr>rootHash = root, trie_db = db\<rparr> key of
                Inl e \<Rightarrow> (ZeroHash, so_setError (Some e) s)
              | Inr enc \<Rightarrow>
                  (let v = (if enc = [] then ZeroHash
                            else case rlp_Split c enc of
                                   None \<Rightarrow> hash_SetBytes ZeroHash []
                                 | Some content \<Rightarrow> hash_SetBytes ZeroHash content);
                       s = (if enc \<noteq> [] \<and> rlp_Split c enc = None then so_setError (Some ErrNodeEncoding) s else s)
                   in (v, s\<lparr>originStorage := AList.update key v (originStorage s)\<rparr>))))"

definition so_GetState :: "state_codec \<Rightarrow> tdb \<Rightarrow> bytes \<Rightarrow> stateObject \<Rightarrow> bytes \<times> stateObject" where
  "so_GetState c db key s =
     (case map_of (dirtyStorage s) key of
        Some v \<Rightarrow> (v, s)
      | None \<Rightarrow> so_GetCommittedState c db key s)"

definition so_Code :: "state_codec \<Rightarrow> tdb \<Rightarrow> stateObject \<Rightarrow> bytes \<times> stateObject" where
  "so_Code c db s =
     (if so_code s \<noteq> [] then (so_code s, s)
      else if ac_CodeHash (so_data s) = emptyCodeHash c then ([], s)
      else let code = (case map_of db (ac_CodeHash (so_data s)) of None \<Rightarrow> [] | Some b \<Rightarrow> b);
               s = (if code = [] then so_setError (Some ErrNodeNotFound) s else s)
           in (code, s\<lparr>so_code := code\<rparr>))"

fun update_entries ::
  "state_codec \<Rightarrow> (bytes \<times> bytes) list \<Rightarrow> bytes option \<Rightarrow> stateObject \<Rightarrow> tdb \<Rightarrow> bytes option \<times> stateObject \<times> tdb"
where
  "update_entries c [] root s db = (root, s, db)"
| "update_entries c ((key, v) # rest) root s db =
     (let s = s\<lparr>dirtyStorage := AList.delete key (dirtyStorage s)\<rparr>
      in if (case map_of (originStorage s) key of None \<Rightarrow> ZeroHash | Some orig \<Rightarrow> orig) = v
         then update_entries c rest root s db
         else let s = s\<lparr>originStorage := AList.update key v (originStorage s)\<rparr>;
                  (e, t) = (if v = ZeroHash then trie_Delete (sc_node c) key \<lparr>rootHash = root, trie_db = db\<rparr>
                            else trie_Update (sc_node c) key (rlp_string c (dropWhile (\<lambda>b. b = 0) v)) \<lparr>rootHash = root, trie_db = db\<rparr>)
              in update_entries c rest (rootHash t) (so_setError e s) (trie_db t))"

definition so_updateTrie :: "state_codec \<Rightarrow> stateObject \<Rightarrow> tdb \<Rightarrow> stateObject \<times> tdb" where
  "so_updateTrie c s db =
     (let (root, s) = so_getTrie db s;
          (root, s, db) = update_entries c (dirtyStorage s) root s db
      in (s\<lparr>so_trie := Some root\<rparr>, db))"

definition so_updateRoot :: "state_codec \<Rightarrow> stateObject \<Rightarrow> tdb \<Rightarrow> stateObject \<times> tdb" where
  "so_updateRoot c s db =
     (let (s, db) = so_updateTrie c s db;
          root = (case so_trie s of Some (Some h) \<Rightarrow> h | _ \<Rightarrow> ZeroHash)
      in (s\<lparr>so_data := (so_data s)\<lparr>ac_Root := root\<rparr>\<rparr>, db))"

definition so_CommitTrie :: "state_codec \<Rightarrow> stateObject \<Rightarrow> tdb \<Rightarrow> trie_error option \<times> stateObject \<times> tdb" where
  "so_CommitTrie c s db = (let (s, db) = so_updateTrie c s db in (so_dbErr s, s, db))"

section \<open>The journal\<close>

datatype journalEntry =
  CreateObjectChange bytes
| ResetObjectChange stateObject
| SuicideChange bytes bool int
| BalanceChange bytes int
| NonceChange bytes u64
| StorageChange bytes bytes bytes
| CodeChange bytes bytes bytes
| RefundChange u64
| AddLogChange bytes
| AddPreimageChange bytes
| TouchChange bytes

fun dirtied :: "journalEntry \<Rightarrow> bytes option" where
  "dirtied (CreateObjectChange a) = Some a"
| "dirtied (ResetObjectChange _) = None"
| "dirtied (SuicideChange a _ _) = Some a"
| "dirtied (BalanceChange a _) = Some a"
| "dirtied (NonceChange a _) = Some a"
| "dirtied (StorageChange a _ _) = Some a"
| "dirtied (CodeChange a _ _) = Some a"
| "dirtied (RefundChange _) = None"
| "dirtied (AddLogChange _) = None"
| "dirtied (AddPreimageChange _) = None"
| "dirtied (TouchChange a) = Some a"

record journal =
  entries :: "journalEntry list"
  dirties :: "(bytes \<times> int) list"

definition newJournal :: journal where "newJournal = \<lparr>entries = [], dirties = []\<rparr>"

definition dirty_count :: "bytes \<Rightarrow> journal \<Rightarrow> int" where
  "dirty_count a j = (case map_of (dirties j) a of None \<Rightarrow> 0 | Some n \<Rightarrow> n)"

definition journal_dirty :: "bytes \<Rightarrow> journal \<Rightarrow> journal" where
  "journal_dirty a j = j\<lparr>dirties := AList.update a (dirty_count a j + 1) (dirties j)\<rparr>"

definition journal_append :: "journalEntry \<Rightarrow> journal \<Rightarrow> journal" where
  "journal_append e j =
     (let j = j\<lparr>entries := entries j @ [e]\<rparr>
      in case dirtied e of None \<Rightarrow> j | Some a \<Rightarrow> journal_dirty a j)"

definition journal_undirty :: "bytes \<Rightarrow> journal \<Rightarrow> journal" where
  "journal_undirty a j =
     (let n = dirty_count a j - 1
      in if n = 0 then j\<lparr>dirties := AList.delete a (dirties j)\<rparr> else j\<lparr>dirties := AList.update a n (dirties j)\<rparr>)"

section \<open>The state database\<close>

datatype state_error = TrieFailure trie_error | ExecFailure

record StateDB =
  st_db :: tdb
  st_trie :: "bytes option"
  st_utxoTrie :: "bytes option"
  stateObjects :: "(bytes \<times> stateObject) list"
  stateObjectsDirty :: "bytes list"
  st_dbErr :: "state_error option"
  refund :: u64
  thash :: bytes
  bhash :: bytes
  txIndex :: int
  logs :: "(bytes \<times> Log list) list"
  logSize :: u64
  preimages :: "(bytes \<times> bytes) list"
  st_journal :: journal
  validRevisions :: "(int \<times> nat) list"
  nextRevisionID :: int

definition sd_New :: "bytes option \<Rightarrow> bytes option \<Rightarrow> tdb \<Rightarrow> trie_error + StateDB" where
  "sd_New rootHash' utxoRootHash db =
     (case trie_New rootHash' db of
        Inl e \<Rightarrow> Inl e
      | Inr tr \<Rightarrow>
          (case trie_New utxoRootHash db of
             Inl e \<Rightarrow> Inl e
           | Inr utr \<Rightarrow>
               Inr \<lparr>st_db = db, st_trie = rootHash tr, st_utxoTrie = rootHash utr, stateObjects = [],
                    stateObjectsDirty = [], st_dbErr = None, refund = 0, thash = ZeroHash, bhash = ZeroHash,
                    txIndex = 0, logs = [], logSize = 0, preimages = [], st_journal = newJournal,
                    validRevisions = [], nextRevisionID = 0\<rparr>))"

definition sd_setError :: "state_error option \<Rightarrow> StateDB \<Rightarrow> StateDB" where
  "sd_setError e s = (if st_dbErr s = None then s\<lparr>st_dbErr := e\<rparr> else s)"

definition sd_append :: "journalEntry \<Rightarrow> StateDB \<Rightarrow> StateDB" where
  "sd_append e s = s\<lparr>st_journal := journal_append e (st_journal s)\<rparr>"

definition clearJournalAndRefund :: "StateDB \<Rightarrow> StateDB" where
  "clearJournalAndRefund s = s\<lparr>st_journal := newJournal, validRevisions := [], refund := 0\<rparr>"

definition sd_Reset :: "StateDB \<Rightarrow> trie_error + StateDB" where
  "sd_Reset s =
     (case trie_New (Some (case st_trie s of None \<Rightarrow> ZeroHash | Some h \<Rightarrow> h)) (st_db s) of
        Inl e \<Rightarrow> Inl e
      | Inr tr \<Rightarrow>
          (case trie_New (Some (case st_utxoTrie s of None \<Rightarrow> ZeroHash | Some h \<Rightarrow> h)) (st_db s) of
             Inl e \<Rightarrow> Inl e
           | Inr utr \<Rightarrow>
               Inr (clearJournalAndRefund
                     (s\<lparr>st_trie := rootHash tr, st_utxoTrie := rootHash utr, stateObjects := [], stateObjectsDirty := [],
                        thash := ZeroHash, bhash := ZeroHash, txIndex := 0, logs := [], logSize := 0, preimages := []\<rparr>))))"

subsection \<open>State objects\<close>

definition setStateObject :: "stateObject \<Rightarrow> StateDB \<Rightarrow> StateDB" where
  "setStateObject obj s = s\<lparr>stateObjects := AList.update (so_address obj) obj (stateObjects s)\<rparr>"

definition getStateObject :: "state_codec \<Rightarrow> bytes \<Rightarrow> StateDB \<Rightarrow> stateObject option \<times> StateDB" where
  "getStateObject c addr s =
     (case map_of (stateObjects s) addr of
        Some obj \<Rightarrow> (if so_deleted obj then None else Some obj, s)
      | None \<Rightarrow>
          (case trie_Get (sc_node c) \<lparr>rootHash = st_trie s, trie_db = st_db s\<rparr> addr of
             Inl e \<Rightarrow> (None, sd_setError (Some (TrieFailure e)) s)
           | Inr enc \<Rightarrow>
               if enc = [] then (None, sd_setError None s)
               else case rlp_decode_account c enc of
                      None \<Rightarrow> (None, s)
                    | Some data \<Rightarrow> (let obj = newObject c addr data in (Some obj, setStateObject obj s))))"

definition createObject :: "state_codec \<Rightarrow> bytes \<Rightarrow> StateDB \<Rightarrow> stateObject \<times> stateObject option \<times> StateDB" where
  "createObject c addr s =
     (let (prev, s) = getStateObject c addr s;
          newobj = so_setNonce 0 (newObject c addr zero_Account);
          s = (case prev of
                 None \<Rightarrow> sd_append (CreateObjectChange addr) s
               | Some p \<Rightarrow> sd_append (ResetObjectChange p) s)
      in (newobj, prev, setStateObject newobj s))"

definition getOrNewStateObject :: "state_codec \<Rightarrow> bytes \<Rightarrow> StateDB \<Rightarrow> stateObject \<times> StateDB" where
  "getOrNewStateObject c addr s =
     (case getStateObject c addr s of
        (Some obj, s) \<Rightarrow> if so_deleted obj then (let (obj, _, s) = createObject c addr s in (obj, s)) else (obj, s)
      | (None, s) \<Rightarrow> (let (obj, _, s) = createObject c addr s in (obj, s)))"

definition sd_CreateAccount :: "state_codec \<Rightarrow> bytes \<Rightarrow> StateDB \<Rightarrow> StateDB" where
  "sd_CreateAccount c addr s =
     (let (new, prev, s) = createObject c addr s
      in case prev of
           None \<Rightarrow> s
         | Some p \<Rightarrow> setStateObject (so_setBalance (ac_Balance (so_data p)) new) s)"

subsection \<open>Reads\<close>

definition sd_Exist :: "state_codec \<Rightarrow> bytes \<Rightarrow> StateDB \<Rightarrow> bool \<times> StateDB" where
  "sd_Exist c addr s = (let (so, s) = getStateObject c addr s in (so \<noteq> None, s))"

definition sd_Empty :: "state_codec \<Rightarrow> bytes \<Rightarrow> StateDB \<Rightarrow> bool \<times> StateDB" where
  "sd_Empty c addr s =
     (let (so, s) = getStateObject c addr s in (case so of None \<Rightarrow> True | Some obj \<Rightarrow> so_empty c obj, s))"

definition sd_GetBalance :: "state_codec \<Rightarrow> bytes \<Rightarrow> StateDB \<Rightarrow> int \<times> StateDB" where
  "sd_GetBalance c addr s =
     (let (so, s) = getStateObject c addr s in (case so of None \<Rightarrow> 0 | Some obj \<Rightarrow> ac_Balance (so_data obj), s))"

definition sd_GetNonce :: "state_codec \<Rightarrow> bytes \<Rightarrow> StateDB \<Rightarrow> u64 \<times> StateDB" where
  "sd_GetNonce c addr s =
     (let (so, s) = getStateObject c addr s in (case so of None \<Rightarrow> 0 | Some obj \<Rightarrow> ac_Nonce (so_data obj), s))"

definition sd_GetCode :: "state_codec \<Rightarrow> bytes \<Rightarrow> StateDB \<Rightarrow> bytes \<times> StateDB" where
  "sd_GetCode c addr s =
     (let (so, s) = getStateObject c addr s
      in case so of
           None \<Rightarrow> ([], s)
         | Some obj \<Rightarrow> (let (code, obj) = so_Code c (st_db s) obj in (code, setStateObject obj s)))"

definition sd_GetCodeSize :: "state_codec \<Rightarrow> bytes \<Rightarrow> StateDB \<Rightarrow> nat \<times> StateDB" where
  "sd_GetCodeSize c addr s = (let (code, s) = sd_GetCode c addr s in (length code, s))"

definition sd_IsContractAddr :: "state_codec \<Rightarrow> bytes \<Rightarrow> StateDB \<Rightarrow> bool \<times> StateDB" where
  "sd_IsContractAddr c addr s = (let (n, s) = sd_GetCodeSize c addr s in (n > 0, s))"

definition sd_GetCodeHash :: "state_codec \<Rightarrow> bytes \<Rightarrow> StateDB \<Rightarrow> bytes \<times> StateDB" where
  "sd_GetCodeHash c addr s =
     (let (so, s) = getStateObject c addr s
      in (case so of None \<Rightarrow> ZeroHash | Some obj \<Rightarrow> BytesToHash (ac_CodeHash (so_data obj)), s))"

definition sd_GetState :: "state_codec \<Rightarrow> bytes \<Rightarrow> bytes \<Rightarrow> StateDB \<Rightarrow> bytes \<times> StateDB" where
  "sd_GetState c a b s =
     (let (so, s) = getStateObject c a s
      in case so of
           None \<Rightarrow> (ZeroHash, s)
         | Some obj \<Rightarrow> (let (v, obj) = so_GetState c (st_db s) b obj in (v, setStateObject obj s)))"

definition sd_GetCommittedState :: "state_codec \<Rightarrow> bytes \<Rightarrow> bytes \<Rightarrow> StateDB \<Rightarrow> bytes \<times> StateDB" where
  "sd_GetCommittedState c a b s =
     (let (so, s) = getStateObject c a s
      in case so of
           None \<Rightarrow> (ZeroHash, s)
         | Some obj \<Rightarrow> (let (v, obj) = so_GetCommittedState c (st_db s) b obj in (v, setStateObject obj s)))"

definition sd_HasSuicided :: "state_codec \<Rightarrow> bytes \<Rightarrow> StateDB \<Rightarrow> bool \<times> StateDB" where
  "sd_HasSuicided c addr s =
     (let (so, s) = getStateObject c addr s in (case so of None \<Rightarrow> False | Some obj \<Rightarrow> suicided obj, s))"

definition sd_GetLogs :: "bytes \<Rightarrow> StateDB \<Rightarrow> Log list" where
  "sd_GetLogs hash s = (case map_of (logs s) hash of None \<Rightarrow> [] | Some ls \<Rightarrow> ls)"

definition sd_GetUtxo :: "state_codec \<Rightarrow> bytes \<Rightarrow> StateDB \<Rightarrow> trie_error + bytes" where
  "sd_GetUtxo c addr s = trie_Get (sc_node c) \<lparr>rootHash = st_utxoTrie s, trie_db = st_db s\<rparr> addr"

subsection \<open>Writes\<close>

definition sd_AddLog :: "Log \<Rightarrow> StateDB \<Rightarrow> StateDB" where
  "sd_AddLog l s =
     (let s = sd_append (AddLogChange (thash s)) s;
          l = l\<lparr>log_TxHash := thash s, log_BlockHash := bhash s, log_TxIndex := word_of_int (txIndex s),
                log_Index := ucast (logSize s)\<rparr>
      in s\<lparr>logs := AList.update (thash s) (sd_GetLogs (thash s) s @ [l]) (logs s), logSize := logSize s + 1\<rparr>)"

definition sd_AddPreimage :: "bytes \<Rightarrow> bytes \<Rightarrow> StateDB \<Rightarrow> StateDB" where
  "sd_AddPreimage hash preimage s =
     (if map_of (preimages s) hash = None
      then (sd_append (AddPreimageChange hash) s)\<lparr>preimages := AList.update hash preimage (preimages s)\<rparr>
      else s)"

definition sd_AddRefund :: "u64 \<Rightarrow> StateDB \<Rightarrow> StateDB" where
  "sd_AddRefund gas s = (sd_append (RefundChange (refund s)) s)\<lparr>refund := refund s + gas\<rparr>"

definition sd_SubRefund :: "u64 \<Rightarrow> StateDB \<Rightarrow> StateDB option" where
  "sd_SubRefund gas s =
     (if gas > refund s then None
      else Some ((sd_append (RefundChange (refund s)) s)\<lparr>refund := refund s - gas\<rparr>))"

definition ripemd :: bytes where "ripemd = replicate 19 0 @ [3]"

definition so_touch :: "bytes \<Rightarrow> StateDB \<Rightarrow> StateDB" where
  "so_touch addr s =
     (let s = sd_append (TouchChange addr) s
      in if addr = ripemd then s\<lparr>st_journal := journal_dirty addr (st_journal s)\<rparr> else s)"

definition so_SetBalance :: "stateObject \<Rightarrow> int \<Rightarrow> StateDB \<Rightarrow> StateDB" where
  "so_SetBalance obj amount s =
     setStateObject (so_setBalance amount obj) (sd_append (BalanceChange (so_address obj) (ac_Balance (so_data obj))) s)"

definition sd_AddBalance :: "state_codec \<Rightarrow> bytes \<Rightarrow> int \<Rightarrow> StateDB \<Rightarrow> StateDB" where
  "sd_AddBalance c addr amount s =
     (let (obj, s) = getOrNewStateObject c addr s
      in if amount = 0 then (if so_empty c obj then so_touch (so_address obj) s else s)
         else so_SetBalance obj (ac_Balance (so_data obj) + amount) s)"

definition sd_SubBalance :: "state_codec \<Rightarrow> bytes \<Rightarrow> int \<Rightarrow> StateDB \<Rightarrow> StateDB" where
  "sd_SubBalance c addr amount s =
     (let (obj, s) = getOrNewStateObject c addr s
      in if amount = 0 then s else so_SetBalance obj (ac_Balance (so_data obj) - amount) s)"

definition sd_SetBalance :: "state_codec \<Rightarrow> bytes \<Rightarrow> int \<Rightarrow> StateDB \<Rightarrow> StateDB" where
  "sd_SetBalance c addr amount s = (let (obj, s) = getOrNewStateObject c addr s in so_SetBalance obj amount s)"

definition sd_SetNonce :: "state_codec \<Rightarrow> bytes \<Rightarrow> u64 \<Rightarrow> StateDB \<Rightarrow> StateDB" where
  "sd_SetNonce c addr nonce s =
     (let (obj, s) = getOrNewStateObject c addr s
      in setStateObject (so_setNonce nonce obj) (sd_append (NonceChange (so_address obj) (ac_Nonce (so_data obj))) s))"

definition sd_SetCode :: "state_codec \<Rightarrow> bytes \<Rightarrow> bytes \<Rightarrow> StateDB \<Rightarrow> StateDB" where
  "sd_SetCode c addr code s =
     (let (obj, s) = getOrNewStateObject c addr s;
          (prevcode, obj) = so_Code c (st_db s) obj
      in setStateObject (so_setCode (BytesToHash (keccak256 c code)) code obj)
           (sd_append (CodeChange (so_address obj) prevcode (ac_CodeHash (so_data obj))) s))"

definition sd_SetState :: "state_codec \<Rightarrow> bytes \<Rightarrow> bytes \<Rightarrow> bytes \<Rightarrow> StateDB \<Rightarrow> StateDB" where
  "sd_SetState c addr key v s =
     (let (obj, s) = getOrNewStateObject c addr s;
          (prev, obj) = so_GetState c (st_db s) key obj
      in if prev = v then setStateObject obj s
         else setStateObject (so_setState key v obj) (sd_append (StorageChange (so_address obj) key prev) s))"

definition sd_Suicide :: "state_codec \<Rightarrow> bytes \<Rightarrow> StateDB \<Rightarrow> bool \<times> StateDB" where
  "sd_Suicide c addr s =
     (case getStateObject c addr s of
        (None, s) \<Rightarrow> (False, s)
      | (Some obj, s) \<Rightarrow>
          (True, setStateObject (so_setBalance 0 (so_markSuicided obj))
                   (sd_append (SuicideChange addr (suicided obj) (ac_Balance (so_data obj))) s)))"

definition sd_Prepare :: "bytes \<Rightarrow> bytes \<Rightarrow> int \<Rightarrow> StateDB \<Rightarrow> StateDB" where
  "sd_Prepare th bh ti s = s\<lparr>thash := th, bhash := bh, txIndex := ti\<rparr>"

definition sd_UpdateUtxo :: "state_codec \<Rightarrow> bytes \<Rightarrow> bytes \<Rightarrow> StateDB \<Rightarrow> trie_error option \<times> StateDB" where
  "sd_UpdateUtxo c addr utxoBytes s =
     (let (e, t) = trie_Update (sc_node c) addr utxoBytes \<lparr>rootHash = st_utxoTrie s, trie_db = st_db s\<rparr>
      in (e, s\<lparr>st_utxoTrie := rootHash t, st_db := trie_db t\<rparr>))"

section \<open>Snapshots\<close>

fun je_revert :: "state_codec \<Rightarrow> journalEntry \<Rightarrow> StateDB \<Rightarrow> StateDB option" where
  "je_revert c (CreateObjectChange a) s =
     Some (s\<lparr>stateObjects := AList.delete a (stateObjects s), stateObjectsDirty := removeAll a (stateObjectsDirty s)\<rparr>)"
| "je_revert c (ResetObjectChange p) s = Some (setStateObject p s)"
| "je_revert c (SuicideChange a prev prevbalance) s =
     (case getStateObject c a s of
        (None, s) \<Rightarrow> Some s
      | (Some obj, s) \<Rightarrow> Some (setStateObject (so_setBalance prevbalance (obj\<lparr>suicided := prev\<rparr>)) s))"
| "je_revert c (BalanceChange a prev) s =
     (case getStateObject c a s of (None, s) \<Rightarrow> None | (Some obj, s) \<Rightarrow> Some (setStateObject (so_setBalance prev obj) s))"
| "je_revert c (NonceChange a prev) s =
     (case getStateObject c a s of (None, s) \<Rightarrow> None | (Some obj, s) \<Rightarrow> Some (setStateObject (so_setNonce prev obj) s))"
| "je_revert c (StorageChange a key prevalue) s =
     (case getStateObject c a s of (None, s) \<Rightarrow> None | (Some obj, s) \<Rightarrow> Some (setStateObject (so_setState key prevalue obj) s))"
| "je_revert c (CodeChange a prevcode prevhash) s =
     (case getStateObject c a s of
        (None, s) \<Rightarrow> None
      | (Some obj, s) \<Rightarrow> Some (setStateObject (so_setCode (BytesToHash prevhash) prevcode obj) s))"
| "je_revert c (RefundChange prev) s = Some (s\<lparr>refund := prev\<rparr>)"
| "je_revert c (AddLogChange txhash) s =
     (let ls = sd_GetLogs txhash s
      in if length ls = 0 then None
         else if length ls = 1 then Some (s\<lparr>logs := AList.delete txhash (logs s), logSize := logSize s - 1\<rparr>)
         else Some (s\<lparr>logs := AList.update txhash (butlast ls) (logs s), logSize := logSize s - 1\<rparr>))"
| "je_revert c (AddPreimageChange hash) s = Some (s\<lparr>preimages := AList.delete hash (preimages s)\<rparr>)"
| "je_revert c (TouchChange a) s = Some s"

text \<open>The entries from the last one down to the snapshot, each undone and then taken out of the
  count of dirty accounts.\<close>

definition undo_entry :: "state_codec \<Rightarrow> journalEntry \<Rightarrow> StateDB \<Rightarrow> StateDB option" where
  "undo_entry c e s =
     map_option (\<lambda>s. case dirtied e of None \<Rightarrow> s | Some a \<Rightarrow> s\<lparr>st_journal := journal_undirty a (st_journal s)\<rparr>) (je_revert c e s)"

fun undo_entries :: "state_codec \<Rightarrow> journalEntry list \<Rightarrow> StateDB \<Rightarrow> StateDB option" where
  "undo_entries c [] s = Some s"
| "undo_entries c (e # es) s = Option.bind (undo_entry c e s) (undo_entries c es)"

definition journal_revert :: "state_codec \<Rightarrow> nat \<Rightarrow> StateDB \<Rightarrow> StateDB option" where
  "journal_revert c snapshot s =
     map_option (\<lambda>s. s\<lparr>st_journal := (st_journal s)\<lparr>entries := take snapshot (entries (st_journal s))\<rparr>\<rparr>)
       (undo_entries c (rev (drop snapshot (entries (st_journal s)))) s)"

definition sd_Snapshot :: "StateDB \<Rightarrow> int \<times> StateDB" where
  "sd_Snapshot s =
     (nextRevisionID s,
      s\<lparr>nextRevisionID := nextRevisionID s + 1,
        validRevisions := validRevisions s @ [(nextRevisionID s, length (entries (st_journal s)))]\<rparr>)"

text \<open>\<^verbatim>\<open>sort.Search\<close> of the Go library: binary search for the first index with the property.\<close>

function sort_Search :: "(nat \<Rightarrow> bool) \<Rightarrow> nat \<Rightarrow> nat \<Rightarrow> nat" where
  "sort_Search f i j =
     (if i < j then let h = (i + j) div 2 in if \<not> f h then sort_Search f (h + 1) j else sort_Search f i h
      else i)"
  by pat_completeness auto
termination
  by (relation "measure (\<lambda>(f, i, j). j - i)") auto

declare sort_Search.simps [simp del]

definition sd_RevertToSnapshot :: "state_codec \<Rightarrow> int \<Rightarrow> StateDB \<Rightarrow> StateDB option" where
  "sd_RevertToSnapshot c revid s =
     (let idx = sort_Search (\<lambda>i. fst (validRevisions s ! i) \<ge> revid) 0 (length (validRevisions s))
      in if idx = length (validRevisions s) \<or> fst (validRevisions s ! idx) \<noteq> revid then None
         else let snapshot = snd (validRevisions s ! idx)
              in map_option (\<lambda>s'. s'\<lparr>validRevisions := take idx (validRevisions s)\<rparr>) (journal_revert c snapshot s))"

section \<open>Commit\<close>

definition updateStateObject :: "state_codec \<Rightarrow> stateObject \<Rightarrow> StateDB \<Rightarrow> StateDB option" where
  "updateStateObject c obj s =
     (case rlp_account c (so_data obj) of
        None \<Rightarrow> None
      | Some data \<Rightarrow>
          (let (e, t) = trie_Update (sc_node c) (so_address obj) data \<lparr>rootHash = st_trie s, trie_db = st_db s\<rparr>
           in Some (sd_setError (map_option TrieFailure e) (s\<lparr>st_trie := rootHash t, st_db := trie_db t\<rparr>))))"

definition deleteStateObject :: "state_codec \<Rightarrow> stateObject \<Rightarrow> StateDB \<Rightarrow> StateDB" where
  "deleteStateObject c obj s =
     (let s = setStateObject (obj\<lparr>so_deleted := True\<rparr>) s;
          (e, t) = trie_Delete (sc_node c) (so_address obj) \<lparr>rootHash = st_trie s, trie_db = st_db s\<rparr>
      in sd_setError (map_option TrieFailure e) (s\<lparr>st_trie := rootHash t, st_db := trie_db t\<rparr>))"

fun finalise_all :: "state_codec \<Rightarrow> bool \<Rightarrow> bytes list \<Rightarrow> StateDB \<Rightarrow> StateDB option" where
  "finalise_all c deleteEmptyObjects [] s = Some s"
| "finalise_all c deleteEmptyObjects (addr # rest) s =
     (case map_of (stateObjects s) addr of
        None \<Rightarrow> finalise_all c deleteEmptyObjects rest s
      | Some obj \<Rightarrow>
          Option.bind
            (if suicided obj \<or> (deleteEmptyObjects \<and> so_empty c obj) then Some (deleteStateObject c obj s)
             else let (obj, db) = so_updateRoot c obj (st_db s)
                  in updateStateObject c obj (setStateObject obj (s\<lparr>st_db := db\<rparr>)))
            (\<lambda>s. finalise_all c deleteEmptyObjects rest (s\<lparr>stateObjectsDirty := List.insert addr (stateObjectsDirty s)\<rparr>)))"

definition sd_finalise :: "state_codec \<Rightarrow> bool \<Rightarrow> StateDB \<Rightarrow> StateDB option" where
  "sd_finalise c deleteEmptyObjects s =
     map_option clearJournalAndRefund (finalise_all c deleteEmptyObjects (map fst (dirties (st_journal s))) s)"

definition sd_IntermediateRoot :: "state_codec \<Rightarrow> bool \<Rightarrow> StateDB \<Rightarrow> (bytes \<times> StateDB) option" where
  "sd_IntermediateRoot c deleteEmptyObjects s =
     map_option (\<lambda>s. (case st_trie s of None \<Rightarrow> ZeroHash | Some h \<Rightarrow> h, s)) (sd_finalise c deleteEmptyObjects s)"

fun commit_all :: "state_codec \<Rightarrow> bool \<Rightarrow> bytes list \<Rightarrow> StateDB \<Rightarrow> (trie_error option \<times> StateDB) option" where
  "commit_all c deleteEmptyObjects [] s = Some (None, s)"
| "commit_all c deleteEmptyObjects (addr # rest) s =
     (case map_of (stateObjects s) addr of
        None \<Rightarrow> commit_all c deleteEmptyObjects rest s
      | Some obj \<Rightarrow>
          (let isDirty = (addr \<in> set (stateObjectsDirty s));
               next = (\<lambda>s. commit_all c deleteEmptyObjects rest (s\<lparr>stateObjectsDirty := removeAll addr (stateObjectsDirty s)\<rparr>))
           in if suicided obj \<or> (isDirty \<and> deleteEmptyObjects \<and> so_empty c obj) then next (deleteStateObject c obj s)
              else if isDirty then
                let (obj, db) = (if so_code obj \<noteq> [] \<and> dirtyCode obj
                                 then (obj\<lparr>dirtyCode := False\<rparr>, (ac_CodeHash (so_data obj), so_code obj) # st_db s)
                                 else (obj, st_db s));
                    (err, obj, db) = so_CommitTrie c obj db;
                    s = setStateObject obj (s\<lparr>st_db := db\<rparr>)
                in (case err of
                      Some e \<Rightarrow> Some (Some e, s)
                    | None \<Rightarrow> Option.bind (updateStateObject c obj s) next)
              else next s))"

definition sd_Commit :: "state_codec \<Rightarrow> bool \<Rightarrow> StateDB \<Rightarrow> ((trie_error + bytes option \<times> bytes option) \<times> StateDB) option" where
  "sd_Commit c deleteEmptyObjects s =
     Option.bind (sd_finalise c deleteEmptyObjects s) (\<lambda>s.
     let s = s\<lparr>stateObjectsDirty := fold List.insert (map fst (dirties (st_journal s))) (stateObjectsDirty s)\<rparr>
     in map_option
          (\<lambda>(err, s). (case err of Some e \<Rightarrow> Inl e | None \<Rightarrow> Inr (st_trie s, st_utxoTrie s), clearJournalAndRefund s))
          (commit_all c deleteEmptyObjects (map fst (stateObjects s)) s))"

section \<open>Copies\<close>

text \<open>The copied object gets a copy of the \<^emph>\<open>account\<close> trie of the database.\<close>

definition deepCopy :: "state_codec \<Rightarrow> bytes option \<Rightarrow> stateObject \<Rightarrow> stateObject" where
  "deepCopy c dbtrie s =
     (newObject c (so_address s) (so_data s))
       \<lparr>so_trie := (case so_trie s of None \<Rightarrow> None | Some _ \<Rightarrow> Some dbtrie),
        so_code := so_code s, dirtyStorage := dirtyStorage s, originStorage := originStorage s,
        suicided := suicided s, dirtyCode := dirtyCode s, so_deleted := so_deleted s\<rparr>"

fun copy_dirties :: "state_codec \<Rightarrow> StateDB \<Rightarrow> bytes list \<Rightarrow> StateDB \<Rightarrow> StateDB" where
  "copy_dirties c s [] cpy = cpy"
| "copy_dirties c s (addr # rest) cpy =
     (case map_of (stateObjects s) addr of
        Some obj \<Rightarrow> copy_dirties c s rest
          (cpy\<lparr>stateObjects := AList.update addr (deepCopy c (st_trie cpy) obj) (stateObjects cpy),
               stateObjectsDirty := List.insert addr (stateObjectsDirty cpy)\<rparr>)
      | None \<Rightarrow> copy_dirties c s rest cpy)"

fun copy_dirty_objects :: "state_codec \<Rightarrow> StateDB \<Rightarrow> bytes list \<Rightarrow> StateDB \<Rightarrow> StateDB option" where
  "copy_dirty_objects c s [] cpy = Some cpy"
| "copy_dirty_objects c s (addr # rest) cpy =
     (case map_of (stateObjects cpy) addr of
        Some _ \<Rightarrow> copy_dirty_objects c s rest cpy
      | None \<Rightarrow> (case map_of (stateObjects s) addr of
                    None \<Rightarrow> None
                  | Some obj \<Rightarrow> copy_dirty_objects c s rest
                      (cpy\<lparr>stateObjects := AList.update addr (deepCopy c (st_trie cpy) obj) (stateObjects cpy),
                           stateObjectsDirty := List.insert addr (stateObjectsDirty cpy)\<rparr>)))"

definition sd_Copy :: "state_codec \<Rightarrow> StateDB \<Rightarrow> StateDB option" where
  "sd_Copy c s =
     (let state = \<lparr>st_db = st_db s, st_trie = st_trie s, st_utxoTrie = st_utxoTrie s, stateObjects = [],
                   stateObjectsDirty = [], st_dbErr = None, refund = refund s, thash = ZeroHash, bhash = ZeroHash,
                   txIndex = 0, logs = logs s, logSize = logSize s, preimages = preimages s, st_journal = newJournal,
                   validRevisions = [], nextRevisionID = 0\<rparr>
      in copy_dirty_objects c s (stateObjectsDirty s) (copy_dirties c s (map fst (dirties (st_journal s))) state))"

definition sd_StorageTrie :: "state_codec \<Rightarrow> bytes \<Rightarrow> StateDB \<Rightarrow> (bytes option) option \<times> StateDB" where
  "sd_StorageTrie c a s =
     (case getStateObject c a s of
        (None, s) \<Rightarrow> (None, s)
      | (Some obj, s) \<Rightarrow>
          (let (cpy, db) = so_updateTrie c (deepCopy c (st_trie s) obj) (st_db s)
           in (so_trie cpy, s\<lparr>st_db := db\<rparr>)))"

section \<open>The abstract state\<close>

text \<open>What can be observed of an account and of the state, independently of the caches.\<close>

record AcctView =
  av_nonce :: u64
  av_balance :: int
  av_hash :: bytes
  av_code :: bytes
  av_store :: "bytes \<Rightarrow> bytes"
  av_suicided :: bool

record AState =
  as_acc :: "bytes \<Rightarrow> AcctView option"
  as_refund :: u64
  as_logs :: "bytes \<Rightarrow> Log list"
  as_logSize :: u64
  as_pre :: "bytes \<Rightarrow> bytes option"

definition obj_view :: "state_codec \<Rightarrow> tdb \<Rightarrow> stateObject \<Rightarrow> AcctView" where
  "obj_view c db obj =
     \<lparr>av_nonce = ac_Nonce (so_data obj), av_balance = ac_Balance (so_data obj), av_hash = ac_CodeHash (so_data obj),
      av_code = fst (so_Code c db obj), av_store = (\<lambda>k. fst (so_GetState c db k obj)), av_suicided = suicided obj\<rparr>"

definition trie_obj :: "state_codec \<Rightarrow> tdb \<Rightarrow> bytes option \<Rightarrow> bytes \<Rightarrow> stateObject option" where
  "trie_obj c db root a =
     (case trie_Get (sc_node c) \<lparr>rootHash = root, trie_db = db\<rparr> a of
        Inl _ \<Rightarrow> None
      | Inr enc \<Rightarrow> if enc = [] then None else map_option (newObject c a) (rlp_decode_account c enc))"

definition lookup :: "state_codec \<Rightarrow> bytes \<Rightarrow> StateDB \<Rightarrow> stateObject option" where
  "lookup c a s =
     (case map_of (stateObjects s) a of
        Some obj \<Rightarrow> if so_deleted obj then None else Some obj
      | None \<Rightarrow> trie_obj c (st_db s) (st_trie s) a)"

definition abs_state :: "state_codec \<Rightarrow> StateDB \<Rightarrow> AState" where
  "abs_state c s =
     \<lparr>as_acc = (\<lambda>a. map_option (obj_view c (st_db s)) (lookup c a s)), as_refund = refund s,
      as_logs = (\<lambda>h. sd_GetLogs h s), as_logSize = logSize s, as_pre = map_of (preimages s)\<rparr>"

definition acc_upd :: "bytes \<Rightarrow> (AcctView \<Rightarrow> AcctView) \<Rightarrow> AState \<Rightarrow> AState option" where
  "acc_upd a f A = map_option (\<lambda>v. A\<lparr>as_acc := (as_acc A)(a \<mapsto> f v)\<rparr>) (as_acc A a)"

fun v_undo :: "state_codec \<Rightarrow> tdb \<Rightarrow> journalEntry \<Rightarrow> AState \<Rightarrow> AState option" where
  "v_undo c db (CreateObjectChange a) A = Some (A\<lparr>as_acc := (as_acc A)(a := None)\<rparr>)"
| "v_undo c db (ResetObjectChange p) A = Some (A\<lparr>as_acc := (as_acc A)(so_address p \<mapsto> obj_view c db p)\<rparr>)"
| "v_undo c db (SuicideChange a prev bal) A =
     (case acc_upd a (\<lambda>v. v\<lparr>av_suicided := prev, av_balance := bal\<rparr>) A of None \<Rightarrow> Some A | Some A' \<Rightarrow> Some A')"
| "v_undo c db (BalanceChange a prev) A = acc_upd a (\<lambda>v. v\<lparr>av_balance := prev\<rparr>) A"
| "v_undo c db (NonceChange a prev) A = acc_upd a (\<lambda>v. v\<lparr>av_nonce := prev\<rparr>) A"
| "v_undo c db (StorageChange a key prev) A = acc_upd a (\<lambda>v. v\<lparr>av_store := (av_store v)(key := prev)\<rparr>) A"
| "v_undo c db (CodeChange a prevcode prevhash) A = acc_upd a (\<lambda>v. v\<lparr>av_code := prevcode, av_hash := prevhash\<rparr>) A"
| "v_undo c db (RefundChange prev) A = Some (A\<lparr>as_refund := prev\<rparr>)"
| "v_undo c db (AddLogChange h) A =
     (if as_logs A h = [] then None
      else Some (A\<lparr>as_logs := (as_logs A)(h := butlast (as_logs A h)), as_logSize := as_logSize A - 1\<rparr>))"
| "v_undo c db (AddPreimageChange h) A = Some (A\<lparr>as_pre := (as_pre A)(h := None)\<rparr>)"
| "v_undo c db (TouchChange a) A = Some A"

fun v_undo_all :: "state_codec \<Rightarrow> tdb \<Rightarrow> journalEntry list \<Rightarrow> AState \<Rightarrow> AState option" where
  "v_undo_all c db [] A = Some A"
| "v_undo_all c db (e # es) A = Option.bind (v_undo c db e A) (v_undo_all c db es)"

text \<open>The code the table has for a digest.\<close>

definition code_at :: "state_codec \<Rightarrow> tdb \<Rightarrow> bytes \<Rightarrow> bytes" where
  "code_at c db h = (if h = emptyCodeHash c then [] else case map_of db h of None \<Rightarrow> [] | Some b \<Rightarrow> b)"

definition entry_ok :: "state_codec \<Rightarrow> StateDB \<Rightarrow> journalEntry \<Rightarrow> bool" where
  "entry_ok c s e \<longleftrightarrow>
     (case e of
        CreateObjectChange a \<Rightarrow> trie_obj c (st_db s) (st_trie s) a = None
      | ResetObjectChange p \<Rightarrow> \<not> so_deleted p \<and> hash_wf (ac_CodeHash (so_data p))
      | CodeChange a prevcode prevhash \<Rightarrow> hash_wf prevhash \<and> (prevcode = [] \<longrightarrow> code_at c (st_db s) prevhash = [])
      | _ \<Rightarrow> True)"

text \<open>Objects carry their address and a full code digest, deleted ones have left the trie, and the
  journal can be undone.\<close>

definition sd_wf :: "state_codec \<Rightarrow> StateDB \<Rightarrow> bool" where
  "sd_wf c s \<longleftrightarrow>
     (\<forall>a obj. map_of (stateObjects s) a = Some obj \<longrightarrow>
        so_address obj = a \<and> hash_wf (ac_CodeHash (so_data obj)) \<and> (so_deleted obj \<longrightarrow> trie_obj c (st_db s) (st_trie s) a = None)) \<and>
     (\<forall>a obj. trie_obj c (st_db s) (st_trie s) a = Some obj \<longrightarrow> hash_wf (ac_CodeHash (so_data obj))) \<and>
     (\<forall>e\<in>set (entries (st_journal s)). entry_ok c s e)"

section \<open>Reads do not change the abstract state\<close>

lemma newObject_simps [simp]:
  "so_address (newObject c a d) = a" "so_deleted (newObject c a d) = False"
  by (simp_all add: newObject_def)

lemma getStateObject_lookup:
  "getStateObject c a s = (lookup c a s, snd (getStateObject c a s))"
  by (auto simp: getStateObject_def lookup_def trie_obj_def Let_def split: option.splits sum.splits)

text \<open>A state that differs from another in caches only.\<close>

definition same_but_caches :: "state_codec \<Rightarrow> StateDB \<Rightarrow> StateDB \<Rightarrow> bool" where
  "same_but_caches c s t \<longleftrightarrow>
     st_db t = st_db s \<and> st_trie t = st_trie s \<and> st_utxoTrie t = st_utxoTrie s \<and> refund t = refund s \<and>
     thash t = thash s \<and> bhash t = bhash s \<and> txIndex t = txIndex s \<and> logs t = logs s \<and> logSize t = logSize s \<and>
     preimages t = preimages s \<and> st_journal t = st_journal s \<and> validRevisions t = validRevisions s \<and>
     nextRevisionID t = nextRevisionID s \<and> abs_state c t = abs_state c s \<and> (sd_wf c s \<longrightarrow> sd_wf c t)"

lemma setStateObject_simps [simp]:
  "st_db (setStateObject obj s) = st_db s" "st_trie (setStateObject obj s) = st_trie s"
  "st_utxoTrie (setStateObject obj s) = st_utxoTrie s" "refund (setStateObject obj s) = refund s"
  "thash (setStateObject obj s) = thash s" "bhash (setStateObject obj s) = bhash s"
  "txIndex (setStateObject obj s) = txIndex s" "logs (setStateObject obj s) = logs s"
  "logSize (setStateObject obj s) = logSize s" "preimages (setStateObject obj s) = preimages s"
  "st_journal (setStateObject obj s) = st_journal s" "validRevisions (setStateObject obj s) = validRevisions s"
  "nextRevisionID (setStateObject obj s) = nextRevisionID s"
  by (simp_all add: setStateObject_def)

lemma lookup_setStateObject:
  "lookup c b (setStateObject obj s) =
     (if b = so_address obj then if so_deleted obj then None else Some obj else lookup c b s)"
  by (simp add: lookup_def setStateObject_def update_conv' split: option.split)

lemma trie_obj_address: "trie_obj c db r a = Some obj \<Longrightarrow> so_address obj = a \<and> \<not> so_deleted obj"
  by (auto simp: trie_obj_def split: sum.splits if_splits)

lemma lookup_wf:
  assumes "sd_wf c s" "lookup c a s = Some obj"
  shows "so_address obj = a" "hash_wf (ac_CodeHash (so_data obj))" "\<not> so_deleted obj"
  using assms unfolding sd_wf_def lookup_def by (auto split: option.splits if_splits dest: trie_obj_address)

lemma entry_ok_cong: "st_db t = st_db s \<Longrightarrow> st_trie t = st_trie s \<Longrightarrow> entry_ok c t e = entry_ok c s e"
  by (simp add: entry_ok_def split: journalEntry.splits)

lemma abs_state_cong:
  assumes "st_db t = st_db s" "\<And>a. map_option (obj_view c (st_db s)) (lookup c a t) = map_option (obj_view c (st_db s)) (lookup c a s)"
    "refund t = refund s" "logs t = logs s" "logSize t = logSize s" "preimages t = preimages s"
  shows "abs_state c t = abs_state c s"
  using assms by (simp add: abs_state_def sd_GetLogs_def)

text \<open>Putting an object with the same view back in the live map.\<close>

lemma cache_object:
  assumes "lookup c a s = Some obj" "so_address obj' = a" "\<not> so_deleted obj'" "hash_wf (ac_CodeHash (so_data obj'))"
    and "obj_view c (st_db s) obj' = obj_view c (st_db s) obj"
  shows "same_but_caches c s (setStateObject obj' s)"
proof -
  have "abs_state c (setStateObject obj' s) = abs_state c s"
    by (rule abs_state_cong) (use assms in \<open>auto simp: lookup_setStateObject\<close>)
  moreover have "sd_wf c (setStateObject obj' s)" if "sd_wf c s"
    using that assms entry_ok_cong [of "setStateObject obj' s" s c]
    by (auto simp: sd_wf_def setStateObject_def update_conv' split: if_splits)
  ultimately show ?thesis by (simp add: same_but_caches_def setStateObject_def)
qed

lemma same_but_caches_refl [simp]: "same_but_caches c s s"
  by (simp add: same_but_caches_def)

lemma same_but_caches_trans: "same_but_caches c s t \<Longrightarrow> same_but_caches c t u \<Longrightarrow> same_but_caches c s u"
  by (simp add: same_but_caches_def)

lemma sd_setError_same [simp]: "same_but_caches c s (sd_setError e s)"
proof -
  have "lookup c a (sd_setError e s) = lookup c a s" for a by (simp add: lookup_def sd_setError_def split: option.split)
  then have "abs_state c (sd_setError e s) = abs_state c s" by (intro abs_state_cong) (auto simp: sd_setError_def)
  moreover have "sd_wf c (sd_setError e s) = sd_wf c s"
    using entry_ok_cong [of "sd_setError e s" s c] by (simp add: sd_wf_def sd_setError_def)
  ultimately show ?thesis by (simp add: same_but_caches_def) (simp add: sd_setError_def)
qed

lemma getStateObject_same:
  assumes "sd_wf c s"
  shows "same_but_caches c s (snd (getStateObject c a s))"
proof (cases "map_of (stateObjects s) a")
  case (Some obj)
  then show ?thesis by (simp add: getStateObject_def)
next
  case None
  show ?thesis
  proof (cases "trie_obj c (st_db s) (st_trie s) a")
    case None': None
    then show ?thesis
      using None by (auto simp: getStateObject_def trie_obj_def Let_def split: sum.splits option.splits if_splits)
  next
    case (Some obj)
    then have l: "lookup c a s = Some obj" using None by (simp add: lookup_def)
    have "snd (getStateObject c a s) = setStateObject obj s"
      using None Some by (auto simp: getStateObject_def trie_obj_def Let_def split: sum.splits option.splits if_splits)
    then show ?thesis using cache_object [OF l] lookup_wf [OF assms l] by simp
  qed
qed

section \<open>The view of a changed object\<close>

lemma so_setError_simps [simp]:
  "so_address (so_setError e s) = so_address s" "so_data (so_setError e s) = so_data s" "so_trie (so_setError e s) = so_trie s"
  "so_code (so_setError e s) = so_code s" "originStorage (so_setError e s) = originStorage s"
  "dirtyStorage (so_setError e s) = dirtyStorage s" "suicided (so_setError e s) = suicided s" "so_deleted (so_setError e s) = so_deleted s"
  by (simp_all add: so_setError_def)

lemma fst_so_Code: "fst (so_Code c db s) = (if so_code s \<noteq> [] then so_code s else code_at c db (ac_CodeHash (so_data s)))"
  by (simp add: so_Code_def code_at_def Let_def)

text \<open>The root the storage trie of an object reads from, and what it reads.\<close>

definition storage_root :: "tdb \<Rightarrow> bytes option option \<Rightarrow> bytes \<Rightarrow> bytes option" where
  "storage_root db tr root =
     (case tr of Some r \<Rightarrow> r
      | None \<Rightarrow> (case trie_New (Some root) db of Inr t \<Rightarrow> rootHash t | Inl _ \<Rightarrow> None))"

definition stored_value :: "state_codec \<Rightarrow> tdb \<Rightarrow> bytes option \<Rightarrow> bytes \<Rightarrow> bytes" where
  "stored_value c db root key =
     (case trie_Get (sc_node c) \<lparr>rootHash = root, trie_db = db\<rparr> key of
        Inl _ \<Rightarrow> ZeroHash
      | Inr enc \<Rightarrow> if enc = [] then ZeroHash
                   else case rlp_Split c enc of None \<Rightarrow> hash_SetBytes ZeroHash [] | Some content \<Rightarrow> hash_SetBytes ZeroHash content)"

lemma so_getTrie_simps:
  "fst (so_getTrie db s) = storage_root db (so_trie s) (ac_Root (so_data s))"
  "so_address (snd (so_getTrie db s)) = so_address s" "so_data (snd (so_getTrie db s)) = so_data s"
  "so_code (snd (so_getTrie db s)) = so_code s" "originStorage (snd (so_getTrie db s)) = originStorage s"
  "dirtyStorage (snd (so_getTrie db s)) = dirtyStorage s" "suicided (snd (so_getTrie db s)) = suicided s"
  "so_deleted (snd (so_getTrie db s)) = so_deleted s"
  "storage_root db (so_trie (snd (so_getTrie db s))) r = (case so_trie s of Some q \<Rightarrow> q | None \<Rightarrow> storage_root db None (ac_Root (so_data s)))"
  by (auto simp: so_getTrie_def storage_root_def split: option.splits sum.splits)

lemma fst_so_GetCommittedState:
  "fst (so_GetCommittedState c db k s) =
     (case map_of (originStorage s) k of
        Some v \<Rightarrow> v
      | None \<Rightarrow> stored_value c db (storage_root db (so_trie s) (ac_Root (so_data s))) k)"
  using so_getTrie_simps(1) [of db s]
  by (auto simp: so_GetCommittedState_def stored_value_def Let_def split: option.splits sum.splits prod.splits)

definition slot :: "(bytes \<times> bytes) list \<Rightarrow> (bytes \<times> bytes) list \<Rightarrow> (bytes \<Rightarrow> bytes) \<Rightarrow> bytes \<Rightarrow> bytes" where
  "slot d orig f k =
     (case map_of d k of Some v \<Rightarrow> v | None \<Rightarrow> (case map_of orig k of Some v \<Rightarrow> v | None \<Rightarrow> f k))"

lemma fst_so_GetState:
  "fst (so_GetState c db k s) =
     slot (dirtyStorage s) (originStorage s) (stored_value c db (storage_root db (so_trie s) (ac_Root (so_data s)))) k"
  by (simp add: so_GetState_def fst_so_GetCommittedState slot_def split: option.splits)

lemma slot_update:
  "slot (AList.update k v d) orig f = (slot d orig f)(k := v)"
  "map_of orig k = None \<Longrightarrow> slot d (AList.update k (f k) orig) f = slot d orig f"
  by (auto simp: slot_def update_conv' fun_eq_iff split: option.splits)

lemmas view_simps = obj_view_def fst_so_Code fst_so_GetState

lemma obj_view_changes:
  "obj_view c db (so_setBalance n obj) = (obj_view c db obj)\<lparr>av_balance := n\<rparr>"
  "obj_view c db (so_setNonce k obj) = (obj_view c db obj)\<lparr>av_nonce := k\<rparr>"
  "obj_view c db (obj\<lparr>suicided := b\<rparr>) = (obj_view c db obj)\<lparr>av_suicided := b\<rparr>"
  "obj_view c db (so_setState key v obj) = (obj_view c db obj)\<lparr>av_store := (av_store (obj_view c db obj))(key := v)\<rparr>"
  "code = [] \<longrightarrow> code_at c db h = [] \<Longrightarrow> obj_view c db (so_setCode h code obj) = (obj_view c db obj)\<lparr>av_code := code, av_hash := h\<rparr>"
  by (auto simp: view_simps so_setBalance_def so_setNonce_def so_setState_def so_setCode_def slot_update)

lemma obj_simps [simp]:
  "so_address (so_setBalance n obj) = so_address obj" "so_deleted (so_setBalance n obj) = so_deleted obj"
  "ac_CodeHash (so_data (so_setBalance n obj)) = ac_CodeHash (so_data obj)"
  "so_address (so_setNonce k obj) = so_address obj" "so_deleted (so_setNonce k obj) = so_deleted obj"
  "ac_CodeHash (so_data (so_setNonce k obj)) = ac_CodeHash (so_data obj)"
  "so_address (so_setState key v obj) = so_address obj" "so_deleted (so_setState key v obj) = so_deleted obj"
  "so_data (so_setState key v obj) = so_data obj"
  "so_address (so_setCode h b obj) = so_address obj" "so_deleted (so_setCode h b obj) = so_deleted obj"
  "ac_CodeHash (so_data (so_setCode h b obj)) = h"
  "so_markSuicided obj = obj\<lparr>suicided := True\<rparr>"
  by (simp_all add: so_setBalance_def so_setNonce_def so_setState_def so_setCode_def so_markSuicided_def)

text \<open>Reading code or storage only fills caches.\<close>

lemma so_Code_same:
  "obj_view c db (snd (so_Code c db s)) = obj_view c db s" "so_address (snd (so_Code c db s)) = so_address s"
  "so_deleted (snd (so_Code c db s)) = so_deleted s" "so_data (snd (so_Code c db s)) = so_data s"
  by (auto simp: view_simps so_Code_def code_at_def Let_def fun_eq_iff split: option.splits)

lemma obj_view_setError [simp]: "obj_view c db (so_setError e s) = obj_view c db s"
  by (simp add: view_simps)

lemma obj_view_origin:
  assumes "map_of (originStorage s) k = None" "v = stored_value c db (storage_root db (so_trie s) (ac_Root (so_data s))) k"
  shows "obj_view c db (s\<lparr>originStorage := AList.update k v (originStorage s)\<rparr>) = obj_view c db s"
  using assms by (simp add: view_simps slot_update)

lemma obj_view_getTrie: "obj_view c db (snd (so_getTrie db s)) = obj_view c db s"
proof -
  have "storage_root db (so_trie (snd (so_getTrie db s))) (ac_Root (so_data s)) = storage_root db (so_trie s) (ac_Root (so_data s))"
    unfolding so_getTrie_simps(9) by (simp add: storage_root_def split: option.splits)
  then show ?thesis by (simp add: view_simps so_getTrie_simps)
qed

lemma so_GetCommittedState_same:
  "obj_view c db (snd (so_GetCommittedState c db k s)) = obj_view c db s"
  "so_address (snd (so_GetCommittedState c db k s)) = so_address s"
  "so_deleted (snd (so_GetCommittedState c db k s)) = so_deleted s" "so_data (snd (so_GetCommittedState c db k s)) = so_data s"
proof -
  obtain root s1 where g: "so_getTrie db s = (root, s1)" by fastforce
  have s1: "s1 = snd (so_getTrie db s)" "root = fst (so_getTrie db s)" using g by simp_all
  have view: "obj_view c db s1 = obj_view c db s" unfolding s1 by (rule obj_view_getTrie)
  have root: "root = storage_root db (so_trie s1) (ac_Root (so_data s1))"
    unfolding s1 so_getTrie_simps(1,3,9) by (simp add: storage_root_def split: option.splits)
  have origin: "originStorage s1 = originStorage s" unfolding s1 by (simp add: so_getTrie_simps)
  show "obj_view c db (snd (so_GetCommittedState c db k s)) = obj_view c db s"
  proof (cases "map_of (originStorage s) k")
    case None
    note v = stored_value_def [of c db root k]
    show ?thesis
    proof (cases "trie_Get (sc_node c) \<lparr>rootHash = root, trie_db = db\<rparr> k")
      case (Inl e)
      then show ?thesis using None g view by (simp add: so_GetCommittedState_def)
    next
      case (Inr enc)
      have "snd (so_GetCommittedState c db k s) =
        (let s2 = (if enc \<noteq> [] \<and> rlp_Split c enc = None then so_setError (Some ErrNodeEncoding) s1 else s1)
         in s2\<lparr>originStorage := AList.update k (stored_value c db root k) (originStorage s2)\<rparr>)"
        using None Inr g v by (auto simp: so_GetCommittedState_def Let_def split: option.splits)
      then show ?thesis
        using None root origin view by (auto simp: Let_def obj_view_origin)
    qed
  qed (simp add: so_GetCommittedState_def)
  note h = so_getTrie_simps(2,3,8) [of db s, unfolded g snd_conv]
  show "so_address (snd (so_GetCommittedState c db k s)) = so_address s"
    "so_deleted (snd (so_GetCommittedState c db k s)) = so_deleted s" "so_data (snd (so_GetCommittedState c db k s)) = so_data s"
    using h by (simp_all add: so_GetCommittedState_def Let_def g split: option.splits sum.splits)
qed

lemma so_GetState_same:
  "obj_view c db (snd (so_GetState c db k s)) = obj_view c db s" "so_address (snd (so_GetState c db k s)) = so_address s"
  "so_deleted (snd (so_GetState c db k s)) = so_deleted s" "so_data (snd (so_GetState c db k s)) = so_data s"
  by (simp_all add: so_GetState_def so_GetCommittedState_same split: option.split)

section \<open>Steps that the journal can undo\<close>

definition revs_ok :: "StateDB \<Rightarrow> bool" where
  "revs_ok s \<longleftrightarrow> sorted_wrt (<) (map fst (validRevisions s)) \<and>
     (\<forall>r\<in>set (validRevisions s). fst r < nextRevisionID s \<and> snd r \<le> length (entries (st_journal s)))"

definition sd_inv :: "state_codec \<Rightarrow> StateDB \<Rightarrow> bool" where
  "sd_inv c s \<longleftrightarrow> sd_wf c s \<and> revs_ok s"

text \<open>The step from \<^verbatim>\<open>s\<close> to \<^verbatim>\<open>t\<close> adds entries to the journal that lead back to the abstract state
  of \<^verbatim>\<open>s\<close>, and revisions that point into them.\<close>

definition undoable :: "state_codec \<Rightarrow> StateDB \<Rightarrow> StateDB \<Rightarrow> bool" where
  "undoable c s t \<longleftrightarrow>
     st_db t = st_db s \<and> st_trie t = st_trie s \<and> st_utxoTrie t = st_utxoTrie s \<and>
     thash t = thash s \<and> bhash t = bhash s \<and> txIndex t = txIndex s \<and>
     nextRevisionID s \<le> nextRevisionID t \<and>
     (\<exists>es rs. entries (st_journal t) = entries (st_journal s) @ es \<and>
        v_undo_all c (st_db s) (rev es) (abs_state c t) = Some (abs_state c s) \<and>
        validRevisions t = validRevisions s @ rs \<and>
        (\<forall>r\<in>set rs. nextRevisionID s \<le> fst r \<and> length (entries (st_journal s)) \<le> snd r))"

definition jstep :: "state_codec \<Rightarrow> StateDB \<Rightarrow> StateDB \<Rightarrow> bool" where
  "jstep c s t \<longleftrightarrow> (sd_inv c s \<longrightarrow> sd_inv c t \<and> undoable c s t)"

lemma v_undo_all_append:
  "v_undo_all c db (xs @ ys) A = Option.bind (v_undo_all c db xs A) (v_undo_all c db ys)"
  by (induction xs arbitrary: A) (auto split: Option.bind_splits)

lemma jstep_refl [simp]: "jstep c s s"
  by (auto simp: jstep_def undoable_def)

lemma jstep_trans [trans]:
  assumes "jstep c s t" "jstep c t u"
  shows "jstep c s u"
proof (unfold jstep_def, intro impI conjI)
  assume "sd_inv c s"
  then have st: "sd_inv c t" "undoable c s t" using assms(1) by (auto simp: jstep_def)
  then have tu: "undoable c t u" and "sd_inv c u" using assms(2) by (auto simp: jstep_def)
  then show "sd_inv c u" by simp
  obtain es1 rs1 where 1: "entries (st_journal t) = entries (st_journal s) @ es1"
    "v_undo_all c (st_db s) (rev es1) (abs_state c t) = Some (abs_state c s)" "validRevisions t = validRevisions s @ rs1"
    "\<forall>r\<in>set rs1. nextRevisionID s \<le> fst r \<and> length (entries (st_journal s)) \<le> snd r"
    using st(2) unfolding undoable_def by blast
  obtain es2 rs2 where 2: "entries (st_journal u) = entries (st_journal t) @ es2"
    "v_undo_all c (st_db t) (rev es2) (abs_state c u) = Some (abs_state c t)" "validRevisions u = validRevisions t @ rs2"
    "\<forall>r\<in>set rs2. nextRevisionID t \<le> fst r \<and> length (entries (st_journal t)) \<le> snd r"
    using tu unfolding undoable_def by blast
  have "v_undo_all c (st_db s) (rev (es1 @ es2)) (abs_state c u) = Some (abs_state c s)"
    using 1(2) 2(2) st(2) by (simp add: v_undo_all_append undoable_def)
  moreover have "\<forall>r\<in>set (rs1 @ rs2). nextRevisionID s \<le> fst r \<and> length (entries (st_journal s)) \<le> snd r"
    using 1(1,4) 2(4) st(2) by (fastforce simp: undoable_def)
  moreover have "entries (st_journal u) = entries (st_journal s) @ es1 @ es2" "validRevisions u = validRevisions s @ rs1 @ rs2"
    using 1(1,3) 2(1,3) by auto
  ultimately show "undoable c s u"
    using st(2) tu unfolding undoable_def by (metis order_trans)
qed

lemma jstep_same: "same_but_caches c s t \<Longrightarrow> jstep c s t"
  by (auto simp: jstep_def undoable_def same_but_caches_def sd_inv_def revs_ok_def)

lemma jstep_getStateObject: "jstep c s (snd (getStateObject c a s))"
proof (cases "sd_wf c s")
  case True
  then show ?thesis using jstep_same getStateObject_same by blast
qed (simp add: jstep_def sd_inv_def)

lemma entries_append [simp]: "entries (journal_append e j) = entries j @ [e]"
  by (simp add: journal_append_def journal_dirty_def Let_def split: option.split)

text \<open>The common shape of the changes: the journal gets an entry and an object is replaced.\<close>

lemma sd_append_simps [simp]:
  "st_db (sd_append e s) = st_db s" "st_trie (sd_append e s) = st_trie s" "st_utxoTrie (sd_append e s) = st_utxoTrie s"
  "refund (sd_append e s) = refund s" "thash (sd_append e s) = thash s" "bhash (sd_append e s) = bhash s"
  "txIndex (sd_append e s) = txIndex s" "logs (sd_append e s) = logs s" "logSize (sd_append e s) = logSize s"
  "preimages (sd_append e s) = preimages s" "validRevisions (sd_append e s) = validRevisions s"
  "nextRevisionID (sd_append e s) = nextRevisionID s" "stateObjects (sd_append e s) = stateObjects s"
  "entries (st_journal (sd_append e s)) = entries (st_journal s) @ [e]"
  "lookup c a (sd_append e s) = lookup c a s" "sd_GetLogs h (sd_append e s) = sd_GetLogs h s"
  by (simp_all add: sd_append_def lookup_def sd_GetLogs_def split: option.split)

lemma abs_setStateObject:
  assumes "\<not> so_deleted obj"
  shows "abs_state c (setStateObject obj s) =
    (abs_state c s)\<lparr>as_acc := (as_acc (abs_state c s))(so_address obj \<mapsto> obj_view c (st_db s) obj)\<rparr>"
  using assms by (auto simp: abs_state_def lookup_setStateObject sd_GetLogs_def)

lemma abs_append [simp]: "abs_state c (sd_append e s) = abs_state c s"
  by (simp add: abs_state_def)

lemma wf_setStateObject:
  assumes "sd_wf c s" "\<not> so_deleted obj" "hash_wf (ac_CodeHash (so_data obj))"
  shows "sd_wf c (setStateObject obj s)"
  using assms entry_ok_cong [of "setStateObject obj s" s c]
  by (auto simp: sd_wf_def) (auto simp: setStateObject_def update_conv' split: if_splits)

lemma wf_append: "sd_wf c s \<Longrightarrow> entry_ok c s e \<Longrightarrow> sd_wf c (sd_append e s)"
  using entry_ok_cong [of "sd_append e s" s c] by (simp add: sd_wf_def)

lemma jstep_entry:
  assumes "sd_inv c s \<Longrightarrow> sd_wf c t"
    and "st_db t = st_db s" "st_trie t = st_trie s" "st_utxoTrie t = st_utxoTrie s" "thash t = thash s" "bhash t = bhash s"
      "txIndex t = txIndex s" "nextRevisionID t = nextRevisionID s" "validRevisions t = validRevisions s"
      "entries (st_journal t) = entries (st_journal s) @ [e]"
    and "sd_inv c s \<Longrightarrow> v_undo c (st_db s) e (abs_state c t) = Some (abs_state c s)"
  shows "jstep c s t"
proof (unfold jstep_def, intro impI conjI)
  assume inv: "sd_inv c s"
  show "sd_inv c t" using assms inv by (auto simp: sd_inv_def revs_ok_def)
  show "undoable c s t"
    unfolding undoable_def using assms inv by (auto intro!: exI [of _ "[e]"] exI [of _ "[]"])
qed

lemma jstep_change:
  assumes obj: "lookup c a s = Some obj"
    and obj': "so_address obj' = so_address obj" "\<not> so_deleted obj'" "sd_inv c s \<Longrightarrow> hash_wf (ac_CodeHash (so_data obj'))"
    and e: "sd_inv c s \<Longrightarrow> entry_ok c s e"
    and undo: "sd_inv c s \<Longrightarrow>
      v_undo c (st_db s) e ((abs_state c s)\<lparr>as_acc := (as_acc (abs_state c s))(a \<mapsto> obj_view c (st_db s) obj')\<rparr>) = Some (abs_state c s)"
  shows "jstep c s (setStateObject obj' (sd_append e s))"
proof (rule jstep_entry)
  assume inv: "sd_inv c s"
  then have wf: "sd_wf c s" by (simp add: sd_inv_def)
  show "sd_wf c (setStateObject obj' (sd_append e s))"
    using wf obj' e inv by (auto intro: wf_setStateObject wf_append)
  show "v_undo c (st_db s) e (abs_state c (setStateObject obj' (sd_append e s))) = Some (abs_state c s)"
    using undo [OF inv] lookup_wf(1) [OF wf obj] obj' by (simp add: abs_setStateObject)
qed simp_all

lemma acc_lookup: "lookup c a s = Some obj \<Longrightarrow> as_acc (abs_state c s) a = Some (obj_view c (st_db s) obj)"
  by (simp add: abs_state_def)

lemma acc_upd_back:
  assumes "lookup c a s = Some obj" "f v = obj_view c (st_db s) obj"
  shows "acc_upd a f ((abs_state c s)\<lparr>as_acc := (as_acc (abs_state c s))(a \<mapsto> v)\<rparr>) = Some (abs_state c s)"
proof -
  have "(as_acc (abs_state c s))(a \<mapsto> obj_view c (st_db s) obj) = as_acc (abs_state c s)"
    using acc_lookup [OF assms(1)] by auto
  then show ?thesis using assms(2) by (simp add: acc_upd_def)
qed

section \<open>Every operation is undoable\<close>

definition keccak_ok :: "state_codec \<Rightarrow> bool" where
  "keccak_ok c \<longleftrightarrow> (\<forall>b. hash_wf (keccak256 c b))"

lemma getStateObject_step:
  assumes "getStateObject c a s = (r, s')"
  shows "r = lookup c a s" "jstep c s s'" "sd_inv c s \<Longrightarrow> sd_inv c s'" "sd_inv c s \<Longrightarrow> lookup c a s' = lookup c a s"
    "sd_inv c s \<Longrightarrow> abs_state c s' = abs_state c s" "st_db s' = st_db s"
proof -
  show r: "r = lookup c a s" using assms getStateObject_lookup [of c a s] by simp
  show j: "jstep c s s'" using assms jstep_getStateObject [of c s a] by simp
  show "sd_inv c s'" if "sd_inv c s" using j that by (simp add: jstep_def)
  show "lookup c a s' = lookup c a s"
    using assms by (auto simp: getStateObject_def lookup_def trie_obj_def sd_setError_def setStateObject_def update_conv' Let_def
        split: option.splits sum.splits if_splits)
  show "abs_state c s' = abs_state c s" if "sd_inv c s"
    using that assms getStateObject_same [of c s a] by (simp add: sd_inv_def same_but_caches_def)
  show "st_db s' = st_db s"
    using assms by (auto simp: getStateObject_def sd_setError_def setStateObject_def Let_def split: option.splits sum.splits if_splits)
qed

lemma newobj_simps [simp]:
  "keccak_ok c \<Longrightarrow> hash_wf (ac_CodeHash (so_data (newObject c a zero_Account)))"
  by (simp add: newObject_def zero_Account_def keccak_ok_def emptyCodeHash_def)

lemma createObject_step:
  assumes "keccak_ok c" "createObject c a s = (new, prev, s')"
  shows "jstep c s s'" "prev = lookup c a s" "new = so_setNonce 0 (newObject c a zero_Account)" "lookup c a s' = Some new"
proof -
  obtain r s1 where g: "getStateObject c a s = (r, s1)" by fastforce
  note s1 = getStateObject_step [OF g]
  let ?new = "so_setNonce 0 (newObject c a zero_Account)"
  let ?e = "case r of None \<Rightarrow> CreateObjectChange a | Some p \<Rightarrow> ResetObjectChange p"
  have s': "s' = setStateObject ?new (sd_append ?e s1)" and new: "new = ?new" and prev: "prev = r"
    using assms(2) g by (auto simp: createObject_def Let_def split: option.splits)
  show "prev = lookup c a s" "new = ?new" using s1 new prev by auto
  show "lookup c a s' = Some new" by (simp add: s' new lookup_setStateObject)
  have "jstep c s1 s'" if "sd_inv c s"
  proof (rule jstep_entry [where e = ?e])
    assume inv: "sd_inv c s1"
    have wf: "sd_wf c s1" using inv by (simp add: sd_inv_def)
    have l: "lookup c a s1 = r" using s1(1,4) that by simp
    have "entry_ok c s1 ?e"
      using l wf lookup_wf [OF wf, of a] by (auto simp: entry_ok_def lookup_def sd_wf_def split: option.splits if_splits)
    then show "sd_wf c s'" unfolding s' using wf assms(1) by (intro wf_setStateObject wf_append) simp_all
    show "v_undo c (st_db s1) ?e (abs_state c s') = Some (abs_state c s1)"
    proof (cases r)
      case None
      then have "as_acc (abs_state c s1) a = None" using l by (simp add: abs_state_def)
      then have "(as_acc (abs_state c s1))(a := None) = as_acc (abs_state c s1)" by auto
      then show ?thesis using None by (simp add: s' abs_setStateObject)
    next
      case (Some p)
      then have p: "lookup c a s1 = Some p" using l by simp
      have "(as_acc (abs_state c s1))(a \<mapsto> obj_view c (st_db s1) p) = as_acc (abs_state c s1)"
        using acc_lookup [OF p] by auto
      then show ?thesis using Some lookup_wf(1) [OF wf p] by (simp add: s' abs_setStateObject)
    qed
  qed (simp_all add: s')
  then show "jstep c s s'" using s1(2) jstep_trans by (auto simp: jstep_def)
qed

lemma getOrNew_step:
  assumes "keccak_ok c" "getOrNewStateObject c a s = (obj, s')"
  shows "jstep c s s'" "sd_inv c s \<Longrightarrow> lookup c a s' = Some obj \<and> so_address obj = a \<and> \<not> so_deleted obj \<and> hash_wf (ac_CodeHash (so_data obj))"
proof -
  obtain r s1 where g: "getStateObject c a s = (r, s1)" by fastforce
  note s1 = getStateObject_step [OF g]
  have *: "jstep c s s' \<and> (sd_inv c s \<longrightarrow> lookup c a s' = Some obj)"
  proof (cases "r = None \<or> so_deleted (the r)")
    case True
    then obtain prev where "createObject c a s1 = (obj, prev, s')"
      using assms(2) g by (auto simp: getOrNewStateObject_def split: option.splits prod.splits)
    from createObject_step [OF assms(1) this] s1(2) show ?thesis using jstep_trans by blast
  next
    case False
    then show ?thesis using assms(2) g s1 by (auto simp: getOrNewStateObject_def)
  qed
  then show "jstep c s s'" by simp
  show "lookup c a s' = Some obj \<and> so_address obj = a \<and> \<not> so_deleted obj \<and> hash_wf (ac_CodeHash (so_data obj))" if "sd_inv c s"
    using * that lookup_wf [of c s' a obj] by (auto simp: jstep_def sd_inv_def)
qed

lemma jstepI: "(sd_inv c s \<Longrightarrow> jstep c s t) \<Longrightarrow> jstep c s t"
  by (auto simp: jstep_def)

lemma jstep_CreateAccount:
  assumes "keccak_ok c"
  shows "jstep c s (sd_CreateAccount c a s)"
proof (rule jstepI)
  assume inv: "sd_inv c s"
  obtain r s1 where g: "getStateObject c a s = (r, s1)" by fastforce
  note s1 = getStateObject_step [OF g]
  show ?thesis
  proof (cases r)
    case None
    obtain new prev s' where cr: "createObject c a s = (new, prev, s')" by (rule prod_cases3)
    then have "prev = None" using createObject_step(2) [OF assms cr] s1(1) None by simp
    then show ?thesis using cr createObject_step(1) [OF assms cr] by (simp add: sd_CreateAccount_def)
  next
    case (Some p)
    let ?new = "so_setNonce 0 (newObject c a zero_Account)"
    have p: "lookup c a s1 = Some p" using s1(1,4) inv Some by simp
    have wf1: "sd_wf c s1" using s1(3) [OF inv] by (simp add: sd_inv_def)
    let ?t = "setStateObject (so_setBalance (ac_Balance (so_data p)) ?new) (setStateObject ?new (sd_append (ResetObjectChange p) s1))"
    have t: "sd_CreateAccount c a s = ?t"
      using g Some by (simp add: sd_CreateAccount_def createObject_def Let_def)
    have "jstep c s1 ?t"
    proof (rule jstep_entry [where e = "ResetObjectChange p"])
      show "sd_wf c ?t"
        using wf1 lookup_wf [OF wf1 p] assms by (intro wf_setStateObject wf_append) (simp_all add: entry_ok_def)
      have "(as_acc (abs_state c s1))(a \<mapsto> obj_view c (st_db s1) p) = as_acc (abs_state c s1)"
        using acc_lookup [OF p] by auto
      then show "v_undo c (st_db s1) (ResetObjectChange p) (abs_state c ?t) = Some (abs_state c s1)"
        using lookup_wf(1) [OF wf1 p] by (simp add: abs_setStateObject)
    qed simp_all
    then show ?thesis unfolding t using s1(2) jstep_trans by blast
  qed
qed

lemma view_self [simp]:
  "(obj_view c db obj)\<lparr>av_balance := ac_Balance (so_data obj)\<rparr> = obj_view c db obj"
  "(obj_view c db obj)\<lparr>av_nonce := ac_Nonce (so_data obj)\<rparr> = obj_view c db obj"
  "(obj_view c db obj)\<lparr>av_suicided := suicided obj, av_balance := ac_Balance (so_data obj)\<rparr> = obj_view c db obj"
  "(obj_view c db obj)\<lparr>av_code := fst (so_Code c db obj), av_hash := ac_CodeHash (so_data obj)\<rparr> = obj_view c db obj"
  "(obj_view c db obj)\<lparr>av_store := (av_store (obj_view c db obj))(k := fst (so_GetState c db k obj))\<rparr> = obj_view c db obj"
  by (simp_all add: obj_view_def fun_upd_idem)

lemma jstep_SetBalance_obj:
  assumes "lookup c a s = Some obj"
  shows "jstep c s (so_SetBalance obj n s)"
proof (rule jstepI)
  assume inv: "sd_inv c s"
  then have wf: "sd_wf c s" by (simp add: sd_inv_def)
  note l = lookup_wf [OF wf assms]
  show ?thesis
    unfolding so_SetBalance_def
    by (rule jstep_change [OF assms])
      (use l assms in \<open>simp_all add: entry_ok_def acc_upd_back [OF assms] obj_view_changes\<close>)
qed

lemma jstep_getOrNew:
  assumes "keccak_ok c" "getOrNewStateObject c a s = (obj, s')"
    and "sd_inv c s' \<Longrightarrow> lookup c a s' = Some obj \<Longrightarrow> so_address obj = a \<Longrightarrow> \<not> so_deleted obj \<Longrightarrow>
      hash_wf (ac_CodeHash (so_data obj)) \<Longrightarrow> jstep c s' t"
  shows "jstep c s t"
proof (rule jstepI)
  assume inv: "sd_inv c s"
  note g = getOrNew_step [OF assms(1,2)]
  have "sd_inv c s'" using g(1) inv by (simp add: jstep_def)
  with assms(3) g(2) [OF inv] have "jstep c s' t" by blast
  with g(1) show ?thesis using jstep_trans by blast
qed

lemma jstep_touch: "jstep c s (so_touch a s)"
proof -
  have "jstep c s (sd_append (TouchChange a) s)"
    by (rule jstep_entry [where e = "TouchChange a"]) (auto simp: sd_inv_def entry_ok_def intro: wf_append)
  moreover have "jstep c s' (s'\<lparr>st_journal := journal_dirty a (st_journal s')\<rparr>)" for s'
  proof -
    let ?t = "s'\<lparr>st_journal := journal_dirty a (st_journal s')\<rparr>"
    have l: "lookup c b ?t = lookup c b s'" for b by (simp add: lookup_def split: option.split)
    then have "abs_state c ?t = abs_state c s'" by (intro abs_state_cong) auto
    moreover have "entries (st_journal ?t) = entries (st_journal s')" by (simp add: journal_dirty_def)
    moreover from this have "sd_wf c ?t = sd_wf c s'"
      using entry_ok_cong [of ?t s' c] by (simp add: sd_wf_def)
    ultimately show ?thesis by (auto simp: jstep_def undoable_def sd_inv_def revs_ok_def)
  qed
  ultimately show ?thesis unfolding so_touch_def Let_def using jstep_trans by auto
qed

lemma jstep_AddBalance: "keccak_ok c \<Longrightarrow> jstep c s (sd_AddBalance c a n s)"
proof -
  assume k: "keccak_ok c"
  obtain obj s' where g: "getOrNewStateObject c a s = (obj, s')" by fastforce
  show ?thesis
    by (rule jstep_getOrNew [OF k g]) (use g in \<open>auto simp: sd_AddBalance_def intro: jstep_touch jstep_SetBalance_obj\<close>)
qed

lemma jstep_SubBalance: "keccak_ok c \<Longrightarrow> jstep c s (sd_SubBalance c a n s)"
proof -
  assume k: "keccak_ok c"
  obtain obj s' where g: "getOrNewStateObject c a s = (obj, s')" by fastforce
  show ?thesis
    by (rule jstep_getOrNew [OF k g]) (use g in \<open>auto simp: sd_SubBalance_def intro: jstep_SetBalance_obj\<close>)
qed

lemma jstep_SetBalance: "keccak_ok c \<Longrightarrow> jstep c s (sd_SetBalance c a n s)"
proof -
  assume k: "keccak_ok c"
  obtain obj s' where g: "getOrNewStateObject c a s = (obj, s')" by fastforce
  show ?thesis
    by (rule jstep_getOrNew [OF k g]) (use g in \<open>auto simp: sd_SetBalance_def intro: jstep_SetBalance_obj\<close>)
qed

lemma jstep_SetNonce: "keccak_ok c \<Longrightarrow> jstep c s (sd_SetNonce c a n s)"
proof -
  assume k: "keccak_ok c"
  obtain obj s' where g: "getOrNewStateObject c a s = (obj, s')" by fastforce
  show ?thesis
  proof (rule jstep_getOrNew [OF k g])
    assume l: "sd_inv c s'" "lookup c a s' = Some obj" "so_address obj = a" "\<not> so_deleted obj" "hash_wf (ac_CodeHash (so_data obj))"
    have "jstep c s' (setStateObject (so_setNonce n obj) (sd_append (NonceChange a (ac_Nonce (so_data obj))) s'))"
      by (rule jstep_change [OF l(2)]) (use l in \<open>simp_all add: entry_ok_def acc_upd_back [OF l(2)] obj_view_changes\<close>)
    then show "jstep c s' (sd_SetNonce c a n s)" using g l(3) by (simp add: sd_SetNonce_def)
  qed
qed

text \<open>Storing an object whose caches were filled, with the view it had.\<close>

lemma lookup_cached:
  assumes "sd_inv c s" "lookup c a s = Some obj" "obj_view c (st_db s) obj' = obj_view c (st_db s) obj"
    "so_address obj' = so_address obj" "so_deleted obj' = so_deleted obj" "so_data obj' = so_data obj"
  shows "jstep c s (setStateObject obj' s)" "lookup c a (setStateObject obj' s) = Some obj'"
proof -
  have wf: "sd_wf c s" using assms(1) by (simp add: sd_inv_def)
  show "jstep c s (setStateObject obj' s)"
    using assms lookup_wf [OF wf assms(2)] by (intro jstep_same cache_object [OF assms(2)]) auto
  show "lookup c a (setStateObject obj' s) = Some obj'"
    using assms lookup_wf [OF wf assms(2)] by (simp add: lookup_setStateObject)
qed

lemma set_set: "so_address obj' = so_address obj \<Longrightarrow> setStateObject obj (sd_append e (setStateObject obj' s)) = setStateObject obj (sd_append e s)"
proof -
  have "AList.update a x (AList.update a y xs) = AList.update a x xs" for a :: bytes and x y :: stateObject and xs
    by (induction xs) auto
  then show "so_address obj' = so_address obj \<Longrightarrow> ?thesis" by (simp add: setStateObject_def sd_append_def)
qed

lemma jstep_SetCode: "keccak_ok c \<Longrightarrow> jstep c s (sd_SetCode c a code s)"
proof -
  assume k: "keccak_ok c"
  obtain obj s' where g: "getOrNewStateObject c a s = (obj, s')" by fastforce
  obtain prevcode obj' where cd: "so_Code c (st_db s') obj = (prevcode, obj')" by fastforce
  note o' = so_Code_same [of c "st_db s'" obj, unfolded cd snd_conv]
  have pc: "prevcode = fst (so_Code c (st_db s') obj')" "prevcode = [] \<Longrightarrow> code_at c (st_db s') (ac_CodeHash (so_data obj)) = []"
    using o'(1) fst_so_Code [of c "st_db s'" obj] cd by (simp_all add: obj_view_def split: if_splits)
  have h: "hash_wf (BytesToHash (keccak256 c code))" "code_at c (st_db s') (BytesToHash (keccak256 c [])) = []"
    using k by (simp_all add: keccak_ok_def BytesToHash_def hash_SetBytes_wf hash_SetBytes_full code_at_def emptyCodeHash_def)
  show ?thesis
  proof (rule jstep_getOrNew [OF k g])
    assume l: "sd_inv c s'" "lookup c a s' = Some obj" "so_address obj = a" "\<not> so_deleted obj" "hash_wf (ac_CodeHash (so_data obj))"
    note cached = lookup_cached [OF l(1,2) o'(1-3) o'(4)]
    let ?s = "setStateObject obj' s'"
    let ?e = "CodeChange a prevcode (ac_CodeHash (so_data obj'))"
    have hw: "hash_wf (ac_CodeHash (so_data obj'))" "fst (so_Code c (st_db s') obj') = [] \<longrightarrow> code_at c (st_db s') (ac_CodeHash (so_data obj')) = []"
      using l(5) pc o'(4) by simp_all
    have v: "code = [] \<longrightarrow> code_at c (st_db s') (BytesToHash (keccak256 c code)) = []" using h(2) by simp
    have "jstep c ?s (setStateObject (so_setCode (BytesToHash (keccak256 c code)) code obj') (sd_append ?e ?s))"
      by (rule jstep_change [OF cached(2)])
        (use l(3,4) h pc(1) o'(2,3) v hw in \<open>simp_all add: entry_ok_def acc_upd_back [OF cached(2)] obj_view_changes(5)\<close>)
    also have "setStateObject (so_setCode (BytesToHash (keccak256 c code)) code obj') (sd_append ?e ?s) = sd_SetCode c a code s"
      using g cd l(3) o' by (simp add: sd_SetCode_def set_set)
    finally show "jstep c s' (sd_SetCode c a code s)" using cached(1) jstep_trans by blast
  qed
qed

lemma jstep_SetState: "keccak_ok c \<Longrightarrow> jstep c s (sd_SetState c a key v s)"
proof -
  assume k: "keccak_ok c"
  obtain obj s' where g: "getOrNewStateObject c a s = (obj, s')" by fastforce
  obtain prev obj' where gs: "so_GetState c (st_db s') key obj = (prev, obj')" by fastforce
  note o' = so_GetState_same [of c "st_db s'" key obj, unfolded gs snd_conv]
  have "av_store (obj_view c (st_db s') obj') key = av_store (obj_view c (st_db s') obj) key" by (simp add: o'(1))
  then have prev: "prev = fst (so_GetState c (st_db s') key obj')" using gs by (simp add: obj_view_def)
  show ?thesis
  proof (rule jstep_getOrNew [OF k g])
    assume l: "sd_inv c s'" "lookup c a s' = Some obj" "so_address obj = a" "\<not> so_deleted obj" "hash_wf (ac_CodeHash (so_data obj))"
    note cached = lookup_cached [OF l(1,2) o'(1-3) o'(4)]
    let ?s = "setStateObject obj' s'" and ?e = "StorageChange a key prev"
    have hw: "hash_wf (ac_CodeHash (so_data obj'))" using l(5) o'(4) by simp
    have "jstep c ?s (setStateObject (so_setState key v obj') (sd_append ?e ?s))"
      by (rule jstep_change [OF cached(2)])
        (use l(3,4) prev o'(2,3) hw in \<open>simp_all add: entry_ok_def acc_upd_back [OF cached(2)] obj_view_changes(4)\<close>)
    also have "setStateObject (so_setState key v obj') (sd_append ?e ?s) = setStateObject (so_setState key v obj') (sd_append ?e s')"
      by (simp add: set_set)
    finally show "jstep c s' (sd_SetState c a key v s)"
      using cached(1) jstep_trans g gs l(3) o' by (auto simp: sd_SetState_def)
  qed
qed

lemma jstep_Suicide: "jstep c s (snd (sd_Suicide c a s))"
proof (rule jstepI)
  assume inv: "sd_inv c s"
  obtain r s' where g: "getStateObject c a s = (r, s')" by fastforce
  note s' = getStateObject_step [OF g]
  show ?thesis
  proof (cases r)
    case None
    then show ?thesis using g s'(2) by (simp add: sd_Suicide_def)
  next
    case (Some obj)
    have l: "lookup c a s' = Some obj" using s'(1,4) inv Some by simp
    have wf: "sd_wf c s'" using s'(3) [OF inv] by (simp add: sd_inv_def)
    let ?e = "SuicideChange a (suicided obj) (ac_Balance (so_data obj))"
    have "(obj_view c (st_db s') (so_setBalance 0 (so_markSuicided obj)))\<lparr>av_suicided := suicided obj, av_balance := ac_Balance (so_data obj)\<rparr>
        = obj_view c (st_db s') obj"
      by (simp add: obj_view_changes)
    then have undo_eq: "acc_upd a (\<lambda>v. v\<lparr>av_suicided := suicided obj, av_balance := ac_Balance (so_data obj)\<rparr>)
        ((abs_state c s')\<lparr>as_acc := (as_acc (abs_state c s'))(a \<mapsto> obj_view c (st_db s') (so_setBalance 0 (so_markSuicided obj)))\<rparr>) = Some (abs_state c s')"
      by (rule acc_upd_back [OF l])
    have "jstep c s' (setStateObject (so_setBalance 0 (so_markSuicided obj)) (sd_append ?e s'))"
      by (rule jstep_change [OF l]) (use lookup_wf [OF wf l] undo_eq in \<open>simp_all add: entry_ok_def\<close>)
    then show ?thesis using g Some s'(2) jstep_trans by (auto simp: sd_Suicide_def)
  qed
qed

lemma wf_other:
  assumes "stateObjects t = stateObjects s" "st_db t = st_db s" "st_trie t = st_trie s" "entries (st_journal t) = entries (st_journal s)"
  shows "sd_wf c t = sd_wf c s" "lookup c a t = lookup c a s"
  using assms entry_ok_cong [of t s c] by (simp_all add: sd_wf_def lookup_def split: option.split)

lemma jstep_AddRefund: "jstep c s (sd_AddRefund gas s)"
  unfolding sd_AddRefund_def
proof (rule jstep_entry [where e = "RefundChange (refund s)"])
  let ?t = "(sd_append (RefundChange (refund s)) s)\<lparr>refund := refund s + gas\<rparr>"
  note w = wf_other [of ?t "sd_append (RefundChange (refund s)) s" c]
  show "sd_wf c ?t" if "sd_inv c s" using that w by (simp add: sd_inv_def wf_append entry_ok_def)
  show "v_undo c (st_db s) (RefundChange (refund s)) (abs_state c ?t) = Some (abs_state c s)"
    using w by (simp add: abs_state_def sd_GetLogs_def)
qed simp_all

lemma jstep_SubRefund: "sd_SubRefund gas s = Some t \<Longrightarrow> jstep c s t"
proof -
  assume "sd_SubRefund gas s = Some t"
  then have t: "t = (sd_append (RefundChange (refund s)) s)\<lparr>refund := refund s - gas\<rparr>"
    by (auto simp: sd_SubRefund_def split: if_splits)
  note w = wf_other [of t "sd_append (RefundChange (refund s)) s" c]
  show ?thesis
  proof (rule jstep_entry [where e = "RefundChange (refund s)"])
    show "sd_wf c t" if "sd_inv c s" using that w by (simp add: t sd_inv_def wf_append entry_ok_def)
    show "v_undo c (st_db s) (RefundChange (refund s)) (abs_state c t) = Some (abs_state c s)"
      using w by (simp add: t abs_state_def sd_GetLogs_def)
  qed (simp_all add: t)
qed

lemma jstep_AddLog: "jstep c s (sd_AddLog l s)"
proof (rule jstep_entry [where e = "AddLogChange (thash s)"])
  let ?t = "sd_AddLog l s"
  have w: "sd_wf c ?t = sd_wf c (sd_append (AddLogChange (thash s)) s)" "lookup c a ?t = lookup c a s" for a
    using wf_other [of ?t "sd_append (AddLogChange (thash s)) s" c] by (simp_all add: sd_AddLog_def Let_def)
  show "sd_wf c ?t" if "sd_inv c s" using that by (simp add: w sd_inv_def wf_append entry_ok_def)
  have lg: "(\<lambda>h. sd_GetLogs h ?t) = (\<lambda>h. sd_GetLogs h s)(thash s := sd_GetLogs (thash s) s @
      [l\<lparr>log_TxHash := thash s, log_BlockHash := bhash s, log_TxIndex := word_of_int (txIndex s), log_Index := ucast (logSize s)\<rparr>])"
    by (auto simp: sd_AddLog_def Let_def sd_GetLogs_def update_conv' fun_eq_iff)
  have "(\<lambda>h. sd_GetLogs h s)(thash s := sd_GetLogs (thash s) s) = (\<lambda>h. sd_GetLogs h s)" by auto
  then show "v_undo c (st_db s) (AddLogChange (thash s)) (abs_state c ?t) = Some (abs_state c s)"
    using w by (simp add: abs_state_def lg) (simp add: sd_AddLog_def Let_def)
qed (simp_all add: sd_AddLog_def Let_def)

lemma jstep_AddPreimage: "jstep c s (sd_AddPreimage h p s)"
proof (cases "map_of (preimages s) h")
  case None
  let ?t = "sd_AddPreimage h p s"
  have w: "sd_wf c ?t = sd_wf c (sd_append (AddPreimageChange h) s)" "lookup c a ?t = lookup c a s" for a
    using None wf_other [of ?t "sd_append (AddPreimageChange h) s" c] by (simp_all add: sd_AddPreimage_def)
  show ?thesis
  proof (rule jstep_entry [where e = "AddPreimageChange h"])
    show "sd_wf c ?t" if "sd_inv c s" using that by (simp add: w sd_inv_def wf_append entry_ok_def)
    have "(map_of (preimages s))(h := None) = map_of (preimages s)" using None by auto
    then show "v_undo c (st_db s) (AddPreimageChange h) (abs_state c ?t) = Some (abs_state c s)"
      using w None by (simp add: abs_state_def sd_GetLogs_def) (simp add: sd_AddPreimage_def update_conv')
  qed (simp_all add: sd_AddPreimage_def None)
qed (simp add: sd_AddPreimage_def)

lemma jstep_Snapshot: "jstep c s (snd (sd_Snapshot s))"
proof (unfold jstep_def, intro impI conjI)
  let ?t = "snd (sd_Snapshot s)"
  assume inv: "sd_inv c s"
  have w: "sd_wf c ?t = sd_wf c s" "lookup c a ?t = lookup c a s" for a
    using wf_other [of ?t s c] by (simp_all add: sd_Snapshot_def)
  have "revs_ok ?t" using inv by (fastforce simp: sd_inv_def revs_ok_def sd_Snapshot_def sorted_wrt_append)
  then show "sd_inv c ?t" using inv w by (simp add: sd_inv_def)
  have "abs_state c ?t = abs_state c s" using w by (intro abs_state_cong) (auto simp: sd_Snapshot_def)
  then show "undoable c s ?t" by (auto simp: undoable_def sd_Snapshot_def)
qed

text \<open>The reads.\<close>

lemma jstep_reads:
  "jstep c s (snd (sd_Exist c a s))" "jstep c s (snd (sd_Empty c a s))" "jstep c s (snd (sd_GetBalance c a s))"
  "jstep c s (snd (sd_GetNonce c a s))" "jstep c s (snd (sd_GetCodeHash c a s))" "jstep c s (snd (sd_HasSuicided c a s))"
  by (simp_all add: sd_Exist_def sd_Empty_def sd_GetBalance_def sd_GetNonce_def sd_GetCodeHash_def sd_HasSuicided_def
      split_beta jstep_getStateObject)

lemma jstep_cached_read:
  assumes "\<And>s' obj. obj_view c (st_db s') (snd (f s' obj)) = obj_view c (st_db s') obj \<and> so_address (snd (f s' obj)) = so_address obj
     \<and> so_deleted (snd (f s' obj)) = so_deleted obj \<and> so_data (snd (f s' obj)) = so_data obj"
  shows "jstep c s (snd (case getStateObject c a s of (so, s') \<Rightarrow>
     case so of None \<Rightarrow> (d, s') | Some obj \<Rightarrow> (let (v, obj') = f s' obj in (v, setStateObject obj' s'))))"
proof (rule jstepI)
  assume inv: "sd_inv c s"
  obtain r s' where g: "getStateObject c a s = (r, s')" by fastforce
  note s' = getStateObject_step [OF g]
  show ?thesis
  proof (cases r)
    case None
    then show ?thesis using g s'(2) by simp
  next
    case (Some obj)
    have l: "lookup c a s' = Some obj" using s'(1,4) inv Some by simp
    have "jstep c s' (setStateObject (snd (f s' obj)) s')"
      using lookup_cached(1) [OF s'(3) [OF inv] l] assms by blast
    then show ?thesis using g Some s'(2) jstep_trans by (auto simp: split_beta)
  qed
qed

lemma jstep_GetCode: "jstep c s (snd (sd_GetCode c a s))"
  using jstep_cached_read [of c "\<lambda>s' obj. so_Code c (st_db s') obj" s "[]" a] so_Code_same
  by (simp add: sd_GetCode_def Let_def)

lemma jstep_code_reads: "jstep c s (snd (sd_GetCodeSize c a s))" "jstep c s (snd (sd_IsContractAddr c a s))"
  using jstep_GetCode by (simp_all add: sd_GetCodeSize_def sd_IsContractAddr_def split_beta)

lemma jstep_GetState: "jstep c s (snd (sd_GetState c a k s))" "jstep c s (snd (sd_GetCommittedState c a k s))"
  using jstep_cached_read [of c "\<lambda>s' obj. so_GetState c (st_db s') k obj" s ZeroHash a] so_GetState_same
    jstep_cached_read [of c "\<lambda>s' obj. so_GetCommittedState c (st_db s') k obj" s ZeroHash a] so_GetCommittedState_same
  by (simp_all add: sd_GetState_def sd_GetCommittedState_def Let_def)

lemma jstep_setError: "jstep c s (sd_setError e s)"
  by (rule jstep_same) simp

lemmas jstep_ops = jstep_CreateAccount jstep_AddBalance jstep_SubBalance jstep_SetBalance jstep_SetNonce jstep_SetCode
  jstep_SetState jstep_Suicide jstep_AddRefund jstep_AddLog jstep_AddPreimage jstep_Snapshot jstep_reads jstep_GetCode
  jstep_code_reads jstep_GetState jstep_setError

section \<open>Reverting to a snapshot\<close>

definition same_frame :: "StateDB \<Rightarrow> StateDB \<Rightarrow> bool" where
  "same_frame s t \<longleftrightarrow>
     st_db t = st_db s \<and> st_trie t = st_trie s \<and> st_utxoTrie t = st_utxoTrie s \<and> thash t = thash s \<and> bhash t = bhash s \<and>
     txIndex t = txIndex s \<and> validRevisions t = validRevisions s \<and> nextRevisionID t = nextRevisionID s \<and>
     entries (st_journal t) = entries (st_journal s)"

lemma same_frame_trans: "same_frame s t \<Longrightarrow> same_frame t u \<Longrightarrow> same_frame s u"
  by (simp add: same_frame_def)

lemma same_frame_set [simp]: "same_frame s (setStateObject obj s)"
  by (simp add: same_frame_def)

lemma getStateObject_wf:
  assumes "sd_wf c s" "getStateObject c a s = (r, s')"
  shows "r = lookup c a s" "sd_wf c s'" "same_frame s s'" "abs_state c s' = abs_state c s" "lookup c a s' = lookup c a s"
proof -
  have sbc: "same_but_caches c s s'" using getStateObject_same [OF assms(1), of a] assms(2) by simp
  then show "sd_wf c s'" "same_frame s s'" "abs_state c s' = abs_state c s"
    using assms(1) by (simp_all add: same_but_caches_def same_frame_def)
  show "r = lookup c a s" using assms(2) getStateObject_lookup [of c a s] by simp
  show "lookup c a s' = lookup c a s"
    using assms(2) by (auto simp: getStateObject_def lookup_def trie_obj_def sd_setError_def setStateObject_def update_conv' Let_def
        split: option.splits sum.splits if_splits)
qed

text \<open>An undo that changes one account through its object.\<close>

lemma undo_object:
  assumes wf: "sd_wf c s"
    and undo: "acc_upd a f (abs_state c s) = Some A"
    and g: "\<And>obj. so_address (g obj) = so_address obj \<and> so_deleted (g obj) = so_deleted obj"
    and h: "\<And>obj. hash_wf (ac_CodeHash (so_data obj)) \<Longrightarrow> hash_wf (ac_CodeHash (so_data (g obj)))"
    and view: "\<And>obj. obj_view c (st_db s) (g obj) = f (obj_view c (st_db s) obj)"
  shows "\<exists>obj s'. getStateObject c a s = (Some obj, s') \<and> abs_state c (setStateObject (g obj) s') = A
    \<and> same_frame s (setStateObject (g obj) s') \<and> sd_wf c (setStateObject (g obj) s')"
proof -
  obtain r s' where get: "getStateObject c a s = (r, s')" by fastforce
  note s' = getStateObject_wf [OF wf get]
  obtain v where v: "as_acc (abs_state c s) a = Some v" "A = (abs_state c s)\<lparr>as_acc := (as_acc (abs_state c s))(a \<mapsto> f v)\<rparr>"
    using undo by (auto simp: acc_upd_def)
  then obtain obj where obj: "lookup c a s = Some obj" "v = obj_view c (st_db s) obj" by (auto simp: abs_state_def)
  note l = lookup_wf [OF wf obj(1)]
  have db: "st_db s' = st_db s" using s'(3) by (simp add: same_frame_def)
  have "abs_state c (setStateObject (g obj) s') = A"
    using g [of obj] l(1,3) view [of obj] v(2) obj(2) db s'(4) by (simp add: abs_setStateObject)
  moreover have "sd_wf c (setStateObject (g obj) s')"
    using wf_setStateObject [OF s'(2), of "g obj"] g [of obj] h [of obj] l by simp
  ultimately show ?thesis
    using get s'(1) obj(1) same_frame_trans [OF s'(3) same_frame_set] by (intro exI [of _ obj] exI [of _ s']) simp
qed

lemma je_revert_refines:
  assumes wf: "sd_wf c s" and ok: "entry_ok c s e" and undo: "v_undo c (st_db s) e (abs_state c s) = Some A"
  shows "\<exists>s'. je_revert c e s = Some s' \<and> abs_state c s' = A \<and> same_frame s s' \<and> sd_wf c s'"
proof (cases e)
  case (CreateObjectChange a)
  let ?t = "s\<lparr>stateObjects := AList.delete a (stateObjects s), stateObjectsDirty := removeAll a (stateObjectsDirty s)\<rparr>"
  have none: "trie_obj c (st_db s) (st_trie s) a = None" using ok CreateObjectChange by (simp add: entry_ok_def)
  have "lookup c b ?t = (if b = a then None else lookup c b s)" for b
    using none by (simp add: lookup_def delete_conv' split: option.split)
  then have "abs_state c ?t = A"
    using undo CreateObjectChange by (auto simp: abs_state_def sd_GetLogs_def fun_eq_iff)
  moreover have "sd_wf c ?t"
    using wf entry_ok_cong [of ?t s c] by (auto simp: sd_wf_def delete_conv')
  ultimately show ?thesis using CreateObjectChange by (simp add: same_frame_def)
next
  case (ResetObjectChange p)
  then show ?thesis
    using ok undo wf by (auto simp: entry_ok_def abs_setStateObject wf_setStateObject)
next
  case (SuicideChange a prev bal)
  show ?thesis
  proof (cases "acc_upd a (\<lambda>v. v\<lparr>av_suicided := prev, av_balance := bal\<rparr>) (abs_state c s)")
    case None
    obtain r s' where get: "getStateObject c a s = (r, s')" by fastforce
    note s' = getStateObject_wf [OF wf get]
    have "r = None" using None s'(1) by (simp add: acc_upd_def abs_state_def)
    then show ?thesis using get s' None undo SuicideChange by simp
  next
    case (Some A')
    from undo_object [OF wf Some, of "\<lambda>obj. so_setBalance bal (obj\<lparr>suicided := prev\<rparr>)"]
    show ?thesis using Some undo SuicideChange by (auto simp: obj_view_changes)
  qed
next
  case (BalanceChange a prev)
  from undo_object [OF wf _ , of a "\<lambda>v. v\<lparr>av_balance := prev\<rparr>" A "so_setBalance prev"]
  show ?thesis using undo BalanceChange by (auto simp: obj_view_changes)
next
  case (NonceChange a prev)
  from undo_object [OF wf _ , of a "\<lambda>v. v\<lparr>av_nonce := prev\<rparr>" A "so_setNonce prev"]
  show ?thesis using undo NonceChange by (auto simp: obj_view_changes)
next
  case (StorageChange a key prev)
  from undo_object [OF wf _ , of a "\<lambda>v. v\<lparr>av_store := (av_store v)(key := prev)\<rparr>" A "so_setState key prev"]
  show ?thesis using undo StorageChange by (auto simp: obj_view_changes)
next
  case (CodeChange a prevcode prevhash)
  have h: "hash_wf prevhash" "BytesToHash prevhash = prevhash" "prevcode = [] \<longrightarrow> code_at c (st_db s) prevhash = []"
    using ok CodeChange hash_SetBytes_full [of ZeroHash prevhash] by (auto simp: entry_ok_def BytesToHash_def)
  from undo_object [OF wf _ , of a "\<lambda>v. v\<lparr>av_code := prevcode, av_hash := prevhash\<rparr>" A "so_setCode prevhash prevcode"]
  show ?thesis using undo CodeChange h by (auto simp: obj_view_changes)
next
  case (RefundChange prev)
  then show ?thesis
    using undo wf wf_other [of "s\<lparr>refund := prev\<rparr>" s c] by (auto simp: abs_state_def sd_GetLogs_def same_frame_def)
next
  case (AddLogChange h)
  let ?ls = "sd_GetLogs h s"
  have ne: "?ls \<noteq> []" using undo AddLogChange by (auto simp: abs_state_def split: if_splits)
  obtain s' where s': "je_revert c e s = Some s'" "stateObjects s' = stateObjects s" "same_frame s s'" "refund s' = refund s"
    "preimages s' = preimages s" "logSize s' = logSize s - 1" "(\<lambda>k. sd_GetLogs k s') = (\<lambda>k. sd_GetLogs k s)(h := butlast ?ls)"
    using ne AddLogChange by (cases "length ?ls = 1")
      (auto simp: Let_def same_frame_def sd_GetLogs_def delete_conv' update_conv' fun_eq_iff length_Suc_conv)
  note w = wf_other [of s' s c]
  have "abs_state c s' = A"
    using undo AddLogChange ne s' w by (simp add: abs_state_def same_frame_def)
  then show ?thesis using s' w wf by (simp add: same_frame_def)
next
  case (AddPreimageChange h)
  then show ?thesis
    using undo wf wf_other [of "s\<lparr>preimages := AList.delete h (preimages s)\<rparr>" s c]
    by (auto simp: abs_state_def sd_GetLogs_def same_frame_def delete_conv')
next
  case (TouchChange a)
  then show ?thesis using undo wf by (simp add: same_frame_def)
qed

lemma undo_entry_refines:
  assumes "sd_wf c s" "entry_ok c s e" "v_undo c (st_db s) e (abs_state c s) = Some A"
  shows "\<exists>s'. undo_entry c e s = Some s' \<and> abs_state c s' = A \<and> same_frame s s' \<and> sd_wf c s'"
proof -
  obtain s1 where s1: "je_revert c e s = Some s1" "abs_state c s1 = A" "same_frame s s1" "sd_wf c s1"
    using je_revert_refines [OF assms] by blast
  let ?t = "\<lambda>a. s1\<lparr>st_journal := journal_undirty a (st_journal s1)\<rparr>"
  have e: "entries (st_journal (?t a)) = entries (st_journal s1)" for a by (simp add: journal_undirty_def Let_def)
  note w = wf_other [of "?t _" s1 c, simplified, OF e [simplified]]
  have "abs_state c (?t a) = abs_state c s1" for a using w by (intro abs_state_cong) auto
  then show ?thesis
    using s1 w e by (cases "dirtied e") (auto simp: undo_entry_def same_frame_def)
qed

lemma undo_entries_refines:
  assumes "sd_wf c s" "\<forall>e\<in>set es. entry_ok c s e" "v_undo_all c (st_db s) es (abs_state c s) = Some A"
  shows "\<exists>s'. undo_entries c es s = Some s' \<and> abs_state c s' = A \<and> same_frame s s' \<and> sd_wf c s'"
  using assms
proof (induction es arbitrary: s)
  case Nil
  then show ?case by (simp add: same_frame_def)
next
  case (Cons e es)
  from Cons.prems(3) obtain A1 where A1: "v_undo c (st_db s) e (abs_state c s) = Some A1" "v_undo_all c (st_db s) es A1 = Some A"
    by (auto split: Option.bind_splits)
  obtain s1 where s1: "undo_entry c e s = Some s1" "abs_state c s1 = A1" "same_frame s s1" "sd_wf c s1"
    using undo_entry_refines [OF Cons.prems(1) _ A1(1)] Cons.prems(2) by auto
  have db: "st_db s1 = st_db s" "st_trie s1 = st_trie s" using s1(3) by (simp_all add: same_frame_def)
  have "\<exists>s'. undo_entries c es s1 = Some s' \<and> abs_state c s' = A \<and> same_frame s1 s' \<and> sd_wf c s'"
    using Cons.IH [OF s1(4)] Cons.prems(2) entry_ok_cong [OF db] A1(2) s1(2) db(1) by simp
  then show ?case using s1(1) same_frame_trans [OF s1(3)] by auto
qed

lemma sort_Search_least:
  assumes "i \<le> k" "k \<le> j" "\<And>h. i \<le> h \<Longrightarrow> h < j \<Longrightarrow> f h \<longleftrightarrow> k \<le> h"
  shows "sort_Search f i j = k"
  using assms
proof (induction f i j rule: sort_Search.induct)
  case (1 f i j)
  show ?case
  proof (cases "i < j")
    case True
    let ?h = "(i + j) div 2"
    have h: "i \<le> ?h" "?h < j" using True by auto
    show ?thesis
    proof (cases "f ?h")
      case True': True
      then show ?thesis using 1(2) [OF True refl] 1(3-5) h True by (subst sort_Search.simps) auto
    next
      case False
      then show ?thesis using 1(1) [OF True refl] 1(3-5) h True by (subst sort_Search.simps) auto
    qed
  next
    case False
    then show ?thesis using 1(3,4) by (subst sort_Search.simps) auto
  qed
qed

lemma search_revision:
  assumes "sorted_wrt (<) (map fst (xs @ (r, n) # ys))"
  shows "sort_Search (\<lambda>i. fst ((xs @ (r, n) # ys) ! i) \<ge> (r :: int)) 0 (length (xs @ (r, n) # ys)) = length xs"
proof (rule sort_Search_least)
  let ?l = "xs @ (r, n) # ys"
  fix h assume h: "0 \<le> h" "h < length ?l"
  have less: "fst (?l ! i) < fst (?l ! j)" if "i < j" "j < length ?l" for i j
    using assms that unfolding sorted_wrt_map by (rule sorted_wrt_nth_less)
  show "fst (?l ! h) \<ge> r \<longleftrightarrow> length xs \<le> h"
    using less [of h "length xs"] less [of "length xs" h] h by (cases h "length xs" rule: linorder_cases) auto
qed auto

text \<open>After any undoable steps the snapshot is still valid, the revert succeeds, and it restores the
  abstract state, the journal and the list of revisions.\<close>

lemma revert_restores:
  assumes inv: "sd_inv c s" and snap: "sd_Snapshot s = (rev_id, s1)" and steps: "jstep c s1 t"
  shows "\<exists>u. sd_RevertToSnapshot c rev_id t = Some u \<and> abs_state c u = abs_state c s
    \<and> entries (st_journal u) = entries (st_journal s) \<and> validRevisions u = validRevisions s \<and> jstep c s u"
proof -
  let ?n = "length (entries (st_journal s))"
  have s1: "sd_inv c s1" "abs_state c s1 = abs_state c s" "entries (st_journal s1) = entries (st_journal s)" "st_db s1 = st_db s"
    "validRevisions s1 = validRevisions s @ [(rev_id, ?n)]" "nextRevisionID s \<le> nextRevisionID s1"
    using jstep_Snapshot [of c s] snap inv wf_other [of s1 s c]
    by (auto simp: jstep_def sd_Snapshot_def intro!: abs_state_cong)
  have t: "sd_inv c t" "undoable c s1 t" using steps s1(1) by (auto simp: jstep_def)
  then obtain es rs where es: "entries (st_journal t) = entries (st_journal s) @ es"
    "v_undo_all c (st_db t) (rev es) (abs_state c t) = Some (abs_state c s)"
    "validRevisions t = validRevisions s @ (rev_id, ?n) # rs"
    using s1 unfolding undoable_def by auto
  have wf: "sd_wf c t" using t(1) by (simp add: sd_inv_def)
  have ok: "\<forall>e\<in>set (rev es). entry_ok c t e" using wf es(1) by (simp add: sd_wf_def)
  obtain u where u: "undo_entries c (rev es) t = Some u" "abs_state c u = abs_state c s" "same_frame t u" "sd_wf c u"
    using undo_entries_refines [OF wf ok es(2)] by blast
  define w where "w = u\<lparr>st_journal := (st_journal u)\<lparr>entries := take ?n (entries (st_journal u))\<rparr>, validRevisions := validRevisions s\<rparr>"
  have "sorted_wrt (<) (map fst (validRevisions t))" using t(1) by (simp add: sd_inv_def revs_ok_def)
  from search_revision [OF this [unfolded es(3)]] have "sd_RevertToSnapshot c rev_id t = Some w"
    using u(1) es(1,3) by (simp add: sd_RevertToSnapshot_def journal_revert_def w_def)
  moreover have ent: "entries (st_journal w) = entries (st_journal s)"
    using u(3) es(1) by (simp add: w_def same_frame_def)
  moreover have rv: "validRevisions w = validRevisions s" by (simp add: w_def)
  moreover have l: "lookup c a w = lookup c a u" for a by (simp add: w_def lookup_def split: option.split)
  then have abs: "abs_state c w = abs_state c s"
    using u(2) abs_state_cong [of w u c] by (simp add: w_def)
  moreover have "sd_wf c w"
    using u(3,4) entry_ok_cong [of w u c] ent es(1) by (auto simp: sd_wf_def w_def same_frame_def)
  then have "jstep c s w"
    using inv ent rv abs u(3) t(2) s1 snap
    by (auto simp: jstep_def sd_inv_def revs_ok_def undoable_def w_def same_frame_def sd_Snapshot_def)
  ultimately show ?thesis by blast
qed

text \<open>
  The methods of the interface \<^verbatim>\<open>vm.StateDB\<close> that a contract run calls between a snapshot and its revert,
  \<^verbatim>\<open>SetBalance\<close>, and an inner attempt that is itself reverted. Not here: \<^verbatim>\<open>UpdateUtxo\<close>, which is not journaled and
  which only the block processing calls; and \<^verbatim>\<open>Error\<close>, \<^verbatim>\<open>GetRefund\<close>, \<^verbatim>\<open>GetLogs\<close>, \<^verbatim>\<open>THash\<close> and the empty
  \<^verbatim>\<open>ForEachStorage\<close>, which leave the state as it is.
\<close>

datatype sd_op =
  OpCreateAccount bytes | OpSubBalance bytes int | OpAddBalance bytes int | OpGetBalance bytes | OpGetNonce bytes
| OpSetNonce bytes u64 | OpGetCodeHash bytes | OpGetCode bytes | OpSetCode bytes bytes | OpGetCodeSize bytes
| OpIsContractAddr bytes | OpSetError "state_error option" | OpAddRefund u64 | OpSubRefund u64
| OpGetCommittedState bytes bytes | OpGetState bytes bytes | OpSetState bytes bytes bytes | OpSuicide bytes
| OpHasSuicided bytes | OpExist bytes | OpEmpty bytes | OpSnapshot | OpAddLog Log | OpAddPreimage bytes bytes
| OpSetBalance bytes int | OpAttempt "sd_op list"

fun sd_exec :: "state_codec \<Rightarrow> sd_op \<Rightarrow> StateDB \<Rightarrow> StateDB option"
  and sd_run :: "state_codec \<Rightarrow> sd_op list \<Rightarrow> StateDB \<Rightarrow> StateDB option"
where
  "sd_exec c (OpCreateAccount a) s = Some (sd_CreateAccount c a s)"
| "sd_exec c (OpSubBalance a n) s = Some (sd_SubBalance c a n s)"
| "sd_exec c (OpAddBalance a n) s = Some (sd_AddBalance c a n s)"
| "sd_exec c (OpGetBalance a) s = Some (snd (sd_GetBalance c a s))"
| "sd_exec c (OpGetNonce a) s = Some (snd (sd_GetNonce c a s))"
| "sd_exec c (OpSetNonce a n) s = Some (sd_SetNonce c a n s)"
| "sd_exec c (OpGetCodeHash a) s = Some (snd (sd_GetCodeHash c a s))"
| "sd_exec c (OpGetCode a) s = Some (snd (sd_GetCode c a s))"
| "sd_exec c (OpSetCode a code) s = Some (sd_SetCode c a code s)"
| "sd_exec c (OpGetCodeSize a) s = Some (snd (sd_GetCodeSize c a s))"
| "sd_exec c (OpIsContractAddr a) s = Some (snd (sd_IsContractAddr c a s))"
| "sd_exec c (OpSetError e) s = Some (sd_setError e s)"
| "sd_exec c (OpAddRefund g) s = Some (sd_AddRefund g s)"
| "sd_exec c (OpSubRefund g) s = sd_SubRefund g s"
| "sd_exec c (OpGetCommittedState a k) s = Some (snd (sd_GetCommittedState c a k s))"
| "sd_exec c (OpGetState a k) s = Some (snd (sd_GetState c a k s))"
| "sd_exec c (OpSetState a k v) s = Some (sd_SetState c a k v s)"
| "sd_exec c (OpSuicide a) s = Some (snd (sd_Suicide c a s))"
| "sd_exec c (OpHasSuicided a) s = Some (snd (sd_HasSuicided c a s))"
| "sd_exec c (OpExist a) s = Some (snd (sd_Exist c a s))"
| "sd_exec c (OpEmpty a) s = Some (snd (sd_Empty c a s))"
| "sd_exec c OpSnapshot s = Some (snd (sd_Snapshot s))"
| "sd_exec c (OpAddLog l) s = Some (sd_AddLog l s)"
| "sd_exec c (OpAddPreimage h p) s = Some (sd_AddPreimage h p s)"
| "sd_exec c (OpSetBalance a n) s = Some (sd_SetBalance c a n s)"
| "sd_exec c (OpAttempt ops) s =
     (let (rev_id, s1) = sd_Snapshot s
      in Option.bind (sd_run c ops s1) (\<lambda>t. sd_RevertToSnapshot c rev_id t))"
| "sd_run c [] s = Some s"
| "sd_run c (x # ops) s = Option.bind (sd_exec c x s) (sd_run c ops)"

text \<open>Does a run lower the refund counter, also in an inner attempt?\<close>

fun subs_refund :: "sd_op \<Rightarrow> bool" where
  "subs_refund (OpSubRefund _) = True"
| "subs_refund (OpAttempt ops) = list_ex subs_refund ops"
| "subs_refund _ = False"

lemma sd_run_jstep:
  "keccak_ok c \<Longrightarrow> sd_inv c s \<Longrightarrow> case sd_exec c x s of None \<Rightarrow> subs_refund x | Some t \<Rightarrow> jstep c s t"
  "keccak_ok c' \<Longrightarrow> sd_inv c' s' \<Longrightarrow> case sd_run c' ops s' of None \<Rightarrow> list_ex subs_refund ops | Some t \<Rightarrow> jstep c' s' t"
proof (induction c x s and c' ops s' rule: sd_exec_sd_run.induct)
  case (26 c ops s)
  obtain rev_id s1 where snap: "sd_Snapshot s = (rev_id, s1)" by fastforce
  have "sd_inv c s1" using jstep_Snapshot [of c s] snap 26(3) by (simp add: jstep_def)
  note run = 26(1) [OF snap [symmetric] refl 26(2) this]
  show ?case
  proof (cases "sd_run c ops s1")
    case None
    with run snap show ?thesis by simp
  next
    case (Some t)
    with run revert_restores [OF 26(3) snap, of t] snap show ?thesis by auto
  qed
next
  case (28 c x ops s)
  show ?case
  proof (cases "sd_exec c x s")
    case None
    with 28(1) [OF 28(3,4)] show ?thesis by simp
  next
    case (Some t)
    with 28(1) [OF 28(3,4)] have t: "jstep c s t" by simp
    then have "sd_inv c t" using 28(4) by (simp add: jstep_def)
    with 28(2) [OF Some 28(3)] t jstep_trans [OF t] Some show ?thesis by (auto split: option.splits)
  qed
qed (auto simp: jstep_ops jstep_SubRefund split: option.splits)

text \<open>A revert leaves the database and the trie of contract utxos alone, whatever was done to them.\<close>

lemma getStateObject_tries:
  "getStateObject c a s = (r, s') \<Longrightarrow> st_db s' = st_db s \<and> st_utxoTrie s' = st_utxoTrie s"
  by (auto simp: getStateObject_def sd_setError_def setStateObject_def Let_def split: option.splits sum.splits if_splits)

lemma undo_entry_tries: "undo_entry c e s = Some t \<Longrightarrow> st_db t = st_db s \<and> st_utxoTrie t = st_utxoTrie s"
  by (cases e) (auto simp: undo_entry_def setStateObject_def Let_def dest!: getStateObject_tries
      split: prod.splits option.splits if_splits)

lemma undo_entries_tries: "undo_entries c es s = Some t \<Longrightarrow> st_db t = st_db s \<and> st_utxoTrie t = st_utxoTrie s"
  by (induction es arbitrary: s) (auto dest: undo_entry_tries split: Option.bind_splits)

lemma revert_tries: "sd_RevertToSnapshot c revid s = Some t \<Longrightarrow> st_db t = st_db s \<and> st_utxoTrie t = st_utxoTrie s"
  by (auto simp: sd_RevertToSnapshot_def journal_revert_def Let_def dest: undo_entries_tries split: if_splits)

text \<open>What the reads return is a function of the abstract state.\<close>

lemma abs_reads:
  "fst (sd_Exist c a s) = (as_acc (abs_state c s) a \<noteq> None)"
  "fst (sd_GetBalance c a s) = (case as_acc (abs_state c s) a of None \<Rightarrow> 0 | Some v \<Rightarrow> av_balance v)"
  "fst (sd_GetNonce c a s) = (case as_acc (abs_state c s) a of None \<Rightarrow> 0 | Some v \<Rightarrow> av_nonce v)"
  "fst (sd_GetCode c a s) = (case as_acc (abs_state c s) a of None \<Rightarrow> [] | Some v \<Rightarrow> av_code v)"
  "fst (sd_GetCodeHash c a s) = (case as_acc (abs_state c s) a of None \<Rightarrow> ZeroHash | Some v \<Rightarrow> BytesToHash (av_hash v))"
  "fst (sd_GetState c a k s) = (case as_acc (abs_state c s) a of None \<Rightarrow> ZeroHash | Some v \<Rightarrow> av_store v k)"
  "fst (sd_HasSuicided c a s) = (case as_acc (abs_state c s) a of None \<Rightarrow> False | Some v \<Rightarrow> av_suicided v)"
proof -
  obtain s' where g: "getStateObject c a s = (lookup c a s, s')"
    using getStateObject_lookup [of c a s] by (metis snd_conv)
  note db = getStateObject_step(6) [OF g]
  show "fst (sd_Exist c a s) = (as_acc (abs_state c s) a \<noteq> None)"
    "fst (sd_GetBalance c a s) = (case as_acc (abs_state c s) a of None \<Rightarrow> 0 | Some v \<Rightarrow> av_balance v)"
    "fst (sd_GetNonce c a s) = (case as_acc (abs_state c s) a of None \<Rightarrow> 0 | Some v \<Rightarrow> av_nonce v)"
    "fst (sd_GetCode c a s) = (case as_acc (abs_state c s) a of None \<Rightarrow> [] | Some v \<Rightarrow> av_code v)"
    "fst (sd_GetCodeHash c a s) = (case as_acc (abs_state c s) a of None \<Rightarrow> ZeroHash | Some v \<Rightarrow> BytesToHash (av_hash v))"
    "fst (sd_GetState c a k s) = (case as_acc (abs_state c s) a of None \<Rightarrow> ZeroHash | Some v \<Rightarrow> av_store v k)"
    "fst (sd_HasSuicided c a s) = (case as_acc (abs_state c s) a of None \<Rightarrow> False | Some v \<Rightarrow> av_suicided v)"
    by (simp_all add: sd_Exist_def sd_GetBalance_def sd_GetNonce_def sd_GetCode_def sd_GetCodeHash_def sd_GetState_def
        sd_HasSuicided_def g db abs_state_def obj_view_def split_beta Let_def split: option.split)
qed

lemma sd_New_inv:
  assumes "sd_New None u db = Inr s"
  shows "sd_inv c s"
proof -
  have s: "stateObjects s = []" "st_trie s = None" "st_journal s = newJournal" "validRevisions s = []"
    using assms by (auto simp: sd_New_def trie_New_def Let_def split: sum.splits)
  have "trie_obj c d None a = None" for d a by (simp add: trie_obj_def trie_Get_def key_fuel_def)
  then show ?thesis using s by (simp add: sd_inv_def sd_wf_def revs_ok_def newJournal_def)
qed

text \<open>C21: A revert undoes a contract run. From any state whose journal is consistent, take a snapshot
  and run any sequence of the journaled methods of \<^verbatim>\<open>vm.StateDB\<close> (creating accounts, balances, nonces, code,
  storage, suicides, refunds, logs, preimages, every read, \<^verbatim>\<open>SetError\<close>, inner snapshots), of \<^verbatim>\<open>SetBalance\<close>, and of
  inner attempts that are reverted themselves. The only panic is a \<^verbatim>\<open>SubRefund\<close> below zero: without
  \<^verbatim>\<open>SubRefund\<close> the run ends. When it ends, the snapshot is still known, its revert does not panic, and the
  balance, nonce, code, storage and suicide mark of every account, the refund counter, the logs, the
  recorded preimages, the journal and the stack of revisions are those of the time of the snapshot.
  What is not journaled is not undone: a revert, from whatever state, leaves the trie of contract utxos
  that \<^verbatim>\<open>UpdateUtxo\<close> writes, and the database, as they are.\<close>

theorem snapshot_reverts:
  assumes "keccak_ok c" "sd_inv c s" "sd_Snapshot s = (rev_id, s1)"
  shows "(case sd_run c ops s1 of
      None \<Rightarrow> list_ex subs_refund ops
    | Some t \<Rightarrow> \<exists>u. sd_RevertToSnapshot c rev_id t = Some u \<and> abs_state c u = abs_state c s
        \<and> entries (st_journal u) = entries (st_journal s) \<and> validRevisions u = validRevisions s) \<and>
    (\<forall>t u. sd_RevertToSnapshot c rev_id t = Some u \<longrightarrow> st_utxoTrie u = st_utxoTrie t \<and> st_db u = st_db t)"
proof -
  have "sd_inv c s1" using jstep_Snapshot [of c s] assms by (simp add: jstep_def)
  from sd_run_jstep(2) [OF assms(1) this, of ops] revert_restores [OF assms(2,3)] revert_tries [of c rev_id] show ?thesis
    by (fastforce split: option.splits)
qed

definition sample_state_codec :: state_codec where
  "sample_state_codec =
     \<lparr>sc_node = sample_codec, keccak256 = sample_digest,
      rlp_account = (\<lambda>a. Some (le_put 8 (ac_Nonce a) @ le_put 8 (word_of_int (ac_Balance a) :: u64) @ ac_Root a @ ac_CodeHash a)),
      rlp_decode_account = (\<lambda>b. Some \<lparr>ac_Nonce = le_get (take 8 b), ac_Balance = uint (le_get (take 8 (drop 8 b)) :: u64),
                                      ac_Root = take 32 (drop 16 b), ac_CodeHash = drop 48 b\<rparr>),
      rlp_string = (\<lambda>b. 0 # b), rlp_Split = (\<lambda>b. Some (drop 1 b))\<rparr>"

lemma sample_keccak_ok: "keccak_ok sample_state_codec"
  by (simp add: keccak_ok_def sample_state_codec_def sample_digest_def hash_wf_def HashSize_def)

definition sample_sdb :: StateDB where
  "sample_sdb = sd_AddBalance sample_state_codec (replicate 20 7) 5 (case sd_New None None [] of Inr s \<Rightarrow> s)"

theorem snapshot_reverts_witness:
  "\<exists>t u. sd_run sample_state_codec
           [OpSubBalance (replicate 20 7) 3, OpSetState (replicate 20 7) (replicate 32 1) (replicate 32 2),
            OpAddRefund 9, OpSubRefund 4, OpAttempt [OpSetCode (replicate 20 9) [1, 2]], OpSuicide (replicate 20 7)]
           (snd (sd_Snapshot sample_sdb)) = Some t
     \<and> sd_RevertToSnapshot sample_state_codec 0 t = Some u \<and> fst (sd_GetBalance sample_state_codec (replicate 20 7) u) = 5"
proof -
  let ?c = sample_state_codec
  let ?ops = "[OpSubBalance (replicate 20 7) 3, OpSetState (replicate 20 7) (replicate 32 1) (replicate 32 2),
            OpAddRefund 9, OpSubRefund 4, OpAttempt [OpSetCode (replicate 20 9) [1, 2]], OpSuicide (replicate 20 7)]"
  obtain s where s: "sd_New None None [] = Inr s" by (simp add: sd_New_def trie_New_def)
  have inv: "sd_inv ?c sample_sdb"
    using jstep_AddBalance [OF sample_keccak_ok, of s "replicate 20 7" 5] sd_New_inv [OF s, of ?c] s
    by (simp add: jstep_def sample_sdb_def)
  have snap: "sd_Snapshot sample_sdb = (0, snd (sd_Snapshot sample_sdb))" by code_simp
  have bal: "fst (sd_GetBalance ?c (replicate 20 7) sample_sdb) = 5" by code_simp
  have "sd_run ?c ?ops (snd (sd_Snapshot sample_sdb)) \<noteq> None" by code_simp
  then obtain t where t: "sd_run ?c ?ops (snd (sd_Snapshot sample_sdb)) = Some t" by blast
  from snapshot_reverts [OF sample_keccak_ok inv snap, of ?ops] t bal show ?thesis
    by (auto simp: abs_reads(2) simp del: sd_exec.simps sd_run.simps)
qed

section \<open>Copies read the wrong trie\<close>

lemma copy_dirties_objects:
  "map_of (stateObjects (copy_dirties c s as cpy)) a =
     (if a \<in> set as \<and> map_of (stateObjects s) a \<noteq> None
      then map_option (deepCopy c (st_trie cpy)) (map_of (stateObjects s) a)
      else map_of (stateObjects cpy) a)"
  "st_trie (copy_dirties c s as cpy) = st_trie cpy" "st_db (copy_dirties c s as cpy) = st_db cpy"
  by (induction c s as cpy rule: copy_dirties.induct) (auto simp: update_conv' split: option.splits)

lemma copy_dirty_objects_keep:
  assumes "copy_dirty_objects c s as cpy = Some t" "map_of (stateObjects cpy) a = Some obj"
  shows "map_of (stateObjects t) a = Some obj"
  using assms
proof (induction c s as cpy rule: copy_dirty_objects.induct)
  case (2 c s addr rest cpy)
  then show ?case by (cases "a = addr") (auto simp: update_conv' split: option.splits)
qed simp

lemma copy_dirty_objects_frame:
  "copy_dirty_objects c s as cpy = Some t \<Longrightarrow> st_trie t = st_trie cpy \<and> st_db t = st_db cpy"
  by (induction c s as cpy rule: copy_dirty_objects.induct) (auto split: option.splits)

text \<open>C28: The copy of a state database, which is what the chain hands out as its tail state, does
  not read the storage of a changed account from that account's storage trie: for a live account that
  is in the dirty set, whose storage trie is open, a slot that is in neither of its caches is looked up
  in the trie of the \<^emph>\<open>accounts\<close>.\<close>

theorem copy_reads_account_trie:
  assumes "sd_Copy c s = Some t" "map_of (stateObjects s) a = Some obj" "\<not> so_deleted obj" "so_address obj = a"
    and "a \<in> set (map fst (dirties (st_journal s)))" "so_trie obj = Some r"
    and "map_of (dirtyStorage obj) k = None" "map_of (originStorage obj) k = None"
  shows "fst (sd_GetState c a k t) = stored_value c (st_db s) (st_trie s) k"
proof -
  obtain state where state: "st_trie state = st_trie s" "st_db state = st_db s"
    and run: "copy_dirty_objects c s (stateObjectsDirty s) (copy_dirties c s (map fst (dirties (st_journal s))) state) = Some t"
    using assms(1) unfolding sd_Copy_def Let_def by (metis StateDB.select_convs(1,2))
  have t: "map_of (stateObjects t) a = Some (deepCopy c (st_trie s) obj)"
    using assms(2,5) state by (intro copy_dirty_objects_keep [OF run]) (simp add: copy_dirties_objects)
  have db: "st_db t = st_db s" using copy_dirty_objects_frame [OF run] state by (simp add: copy_dirties_objects)
  have "getStateObject c a t = (Some (deepCopy c (st_trie s) obj), t)"
    using t assms(3) by (simp add: getStateObject_def deepCopy_def)
  then show ?thesis
    using assms(6-8) db by (simp add: sd_GetState_def split_beta Let_def fst_so_GetState slot_def storage_root_def deepCopy_def)
qed

text \<open>An account with two committed slots, reopened; one slot is read and the balance is changed.\<close>

definition sample_addr :: bytes where "sample_addr = replicate 20 7"

definition sample_committed :: "bytes option \<times> tdb" where
  "sample_committed =
     (let c = sample_state_codec;
          s = (case sd_New None None [] of Inr s \<Rightarrow> s);
          s = sd_AddBalance c sample_addr 9 s;
          s = sd_SetState c sample_addr (replicate 32 1) (replicate 32 11) s;
          s = sd_SetState c sample_addr (replicate 32 2) (replicate 32 22) s
      in case sd_Commit c True s of Some (Inr (root, _), s) \<Rightarrow> (root, st_db s))"

definition sample_reopened :: StateDB where
  "sample_reopened =
     (let c = sample_state_codec; (root, db) = sample_committed;
          s = (case sd_New root None db of Inr s \<Rightarrow> s)
      in sd_AddBalance c sample_addr 1 (snd (sd_GetState c sample_addr (replicate 32 1) s)))"


definition sample_copy_ok :: "StateDB \<Rightarrow> bool" where
  "sample_copy_ok s \<longleftrightarrow>
     (case map_of (stateObjects s) sample_addr of
       None \<Rightarrow> False
     | Some obj \<Rightarrow> \<not> so_deleted obj \<and> so_address obj = sample_addr \<and> so_trie obj \<noteq> None
         \<and> map_of (dirtyStorage obj) (replicate 32 2) = None \<and> map_of (originStorage obj) (replicate 32 2) = None)
     \<and> sample_addr \<in> set (map fst (dirties (st_journal s))) \<and> sd_Copy sample_state_codec s \<noteq> None
     \<and> stored_value sample_state_codec (st_db s) (st_trie s) (replicate 32 2) = ZeroHash
     \<and> fst (sd_GetState sample_state_codec sample_addr (replicate 32 2) s) = replicate 32 22"

theorem copy_reads_account_trie_witness:
  "fst (sd_GetState sample_state_codec sample_addr (replicate 32 2) sample_reopened) = replicate 32 22 \<and>
   fst (sd_GetState sample_state_codec sample_addr (replicate 32 2) (the (sd_Copy sample_state_codec sample_reopened))) = ZeroHash"
proof -
  let ?c = sample_state_codec and ?s = sample_reopened
  have s: "sample_copy_ok sample_reopened" by code_simp
  then obtain obj t r where "map_of (stateObjects ?s) sample_addr = Some obj" "sd_Copy ?c ?s = Some t" "so_trie obj = Some r"
    by (auto simp: sample_copy_ok_def split: option.splits)
  with s copy_reads_account_trie [of ?c ?s t sample_addr obj r "replicate 32 2"] show ?thesis by (simp add: sample_copy_ok_def)
qed

end
