(* ===== verification/Evm_Base.thy ===== *)
theory Evm_Base
  imports World_State
begin

text \<open>
  The data structures below the contract interpreter (\<^verbatim>\<open>src/vm\<close>): 256 bit arithmetic on big
  integers (\<^verbatim>\<open>common/math\<close>), byte slices with padding (\<^verbatim>\<open>common/bytes.go\<close>, \<^verbatim>\<open>common.go\<close>), the operand
  stack, the memory, the memory sizes of the operations (\<^verbatim>\<open>memory_table.go\<close>), the stack checks
  (\<^verbatim>\<open>stack_table.go\<close>) and the analysis of jump destinations (\<^verbatim>\<open>analysis.go\<close>).

  A \<^verbatim>\<open>*big.Int\<close> is an \<^typ>\<open>int\<close>. The pool of integers (\<^verbatim>\<open>intpool.go\<close>) only recycles allocated numbers
  whose value is overwritten before it is read, so it has no counterpart. The stack is a list with its
  top first. \<^term>\<open>None\<close> is a run time panic; a slice expression is taken to panic beyond the length,
  although Go only checks the capacity.
\<close>

section \<open>Big integers\<close>

fun nat_bitlen :: "nat \<Rightarrow> nat" where
  "nat_bitlen n = (if n = 0 then 0 else Suc (nat_bitlen (n div 2)))"

declare nat_bitlen.simps [simp del]

definition big_BitLen :: "int \<Rightarrow> nat" where
  "big_BitLen x = nat_bitlen (nat \<bar>x\<bar>)"

text \<open>\<^verbatim>\<open>Uint64\<close> and \<^verbatim>\<open>Int64\<close> keep the low 64 bits of the magnitude.\<close>

definition big_Uint64 :: "int \<Rightarrow> u64" where
  "big_Uint64 x = of_nat (nat \<bar>x\<bar>)"

definition big_Int64 :: "int \<Rightarrow> int" where
  "big_Int64 x = (let v = sint (of_nat (nat \<bar>x\<bar>) :: u64) in if x < 0 then wrap_int (- v) else v)"

definition big_SetBytes :: "bytes \<Rightarrow> int" where
  "big_SetBytes b = int (big_set_bytes b)"

text \<open>\<^verbatim>\<open>Bits\<close> is the magnitude as machine words, least significant first.\<close>

fun nat_words :: "nat \<Rightarrow> u64 list" where
  "nat_words n = (if n = 0 then [] else of_nat n # nat_words (n div 2 ^ 64))"

declare nat_words.simps [simp del]

definition big_Bits :: "int \<Rightarrow> u64 list" where
  "big_Bits x = nat_words (nat \<bar>x\<bar>)"

definition hash_Big :: "bytes \<Rightarrow> int" where
  "hash_Big h = big_SetBytes h"

definition BigToHash :: "int \<Rightarrow> bytes" where
  "BigToHash b =
     (let bb = big_bytes (nat \<bar>b\<bar>);
          bb = (if length bb > HashSize then drop (length bb - HashSize) bb else bb)
      in copy_at ZeroHash (HashSize - length bb) bb)"

definition BigToAddressHash :: "int \<Rightarrow> bytes" where
  "BigToAddressHash b = BytesToAddressHash (big_bytes (nat \<bar>b\<bar>))"

section \<open>Integer math (\<^verbatim>\<open>common/math\<close>)\<close>

definition MaxUint64 :: u64 where "MaxUint64 = - 1"

definition SafeSub :: "u64 \<Rightarrow> u64 \<Rightarrow> u64 \<times> bool" where
  "SafeSub x y = (x - y, x < y)"

definition SafeAdd :: "u64 \<Rightarrow> u64 \<Rightarrow> u64 \<times> bool" where
  "SafeAdd x y = (x + y, y > MaxUint64 - x)"

definition SafeMul :: "u64 \<Rightarrow> u64 \<Rightarrow> u64 \<times> bool" where
  "SafeMul x y = (if x = 0 \<or> y = 0 then (0, False) else (x * y, y > MaxUint64 div x))"

definition BigMax :: "int \<Rightarrow> int \<Rightarrow> int" where
  "BigMax x y = (if x < y then y else x)"

definition BigMin :: "int \<Rightarrow> int \<Rightarrow> int" where
  "BigMin x y = (if x > y then y else x)"

definition U256 :: "int \<Rightarrow> int" where
  "U256 x = x AND (2 ^ 256 - 1)"

definition S256 :: "int \<Rightarrow> int" where
  "S256 x = (if x < 2 ^ 255 then x else x - 2 ^ 256)"

text \<open>\<^verbatim>\<open>Exp\<close> squares the base once per bit of each word, leading zeros included.\<close>

fun exp_bits :: "nat \<Rightarrow> u64 \<Rightarrow> int \<Rightarrow> int \<Rightarrow> int \<times> int" where
  "exp_bits 0 w base res = (base, res)"
| "exp_bits (Suc i) w base res =
     exp_bits i (drop_bit 1 w) (U256 (base * base)) (if w AND 1 = 1 then U256 (res * base) else res)"

fun exp_words :: "u64 list \<Rightarrow> int \<Rightarrow> int \<Rightarrow> int \<times> int" where
  "exp_words [] base res = (base, res)"
| "exp_words (w # ws) base res = (case exp_bits 64 w base res of (base, res) \<Rightarrow> exp_words ws base res)"

definition Exp :: "int \<Rightarrow> int \<Rightarrow> int" where
  "Exp base exponent = snd (exp_words (big_Bits exponent) base 1)"

definition bigEndianByteAt :: "int \<Rightarrow> nat \<Rightarrow> byte" where
  "bigEndianByteAt bigint n =
     (let ws = big_Bits bigint; i = n div 8
      in if i \<ge> length ws then 0 else ucast (drop_bit (8 * (n mod 8)) (ws ! i)))"

definition big_Byte :: "int \<Rightarrow> nat \<Rightarrow> nat \<Rightarrow> byte" where
  "big_Byte bigint padlength n =
     (if n \<ge> padlength then 0 else bigEndianByteAt bigint (padlength - 1 - n))"

text \<open>\<^verbatim>\<open>ReadBits\<close> fills the buffer from its end and stops when it is full.\<close>

fun read_word :: "nat \<Rightarrow> u64 \<Rightarrow> nat \<Rightarrow> bytes \<Rightarrow> nat \<times> bytes" where
  "read_word 0 d i buf = (i, buf)"
| "read_word (Suc j) d i buf =
     (if i > 0 then read_word j (drop_bit 8 d) (i - 1) (buf[i - 1 := ucast d]) else (i, buf))"

fun read_words :: "u64 list \<Rightarrow> nat \<Rightarrow> bytes \<Rightarrow> bytes" where
  "read_words [] i buf = buf"
| "read_words (d # ds) i buf = (case read_word 8 d i buf of (i, buf) \<Rightarrow> read_words ds i buf)"

definition ReadBits :: "int \<Rightarrow> bytes \<Rightarrow> bytes" where
  "ReadBits bigint buf = read_words (big_Bits bigint) (length buf) buf"

definition PaddedBigBytes :: "int \<Rightarrow> nat \<Rightarrow> bytes" where
  "PaddedBigBytes bigint n =
     (if big_BitLen bigint div 8 \<ge> n then big_bytes (nat \<bar>bigint\<bar>) else ReadBits bigint (replicate n 0))"

section \<open>Byte slices\<close>

text \<open>\<^verbatim>\<open>make([]byte, l)\<close> panics on a negative length and on one beyond the address space.\<close>

definition make_bytes :: "int \<Rightarrow> bytes option" where
  "make_bytes l = (if l < 0 \<or> l \<ge> 2 ^ 48 then None else Some (replicate (nat l) 0))"

text \<open>The slice expression \<^verbatim>\<open>b[i:j]\<close>.\<close>

definition slice_of :: "int \<Rightarrow> int \<Rightarrow> bytes \<Rightarrow> bytes option" where
  "slice_of i j b = (if 0 \<le> i \<and> i \<le> j \<and> j \<le> int (length b) then Some (take (nat (j - i)) (drop (nat i) b)) else None)"

definition RightPadBytes :: "bytes \<Rightarrow> int \<Rightarrow> bytes option" where
  "RightPadBytes bs l =
     (if l \<le> int (length bs) then Some bs else map_option (\<lambda>padded. copy_at padded 0 bs) (make_bytes l))"

definition LeftPadBytes :: "bytes \<Rightarrow> int \<Rightarrow> bytes option" where
  "LeftPadBytes bs l =
     (if l \<le> int (length bs) then Some bs
      else map_option (\<lambda>padded. copy_at padded (nat l - length bs) bs) (make_bytes l))"

definition calcMemSize :: "int \<Rightarrow> int \<Rightarrow> int" where
  "calcMemSize off l = (if l = 0 then 0 else off + l)"

definition getData :: "bytes \<Rightarrow> u64 \<Rightarrow> u64 \<Rightarrow> bytes option" where
  "getData data start sz =
     (let len = of_nat (length data);
          start = (if start > len then len else start);
          e = start + sz;
          e = (if e > len then len else e)
      in Option.bind (slice_of (uint start) (uint e) data) (\<lambda>d. RightPadBytes d (sint sz)))"

definition getDataBig :: "bytes \<Rightarrow> int \<Rightarrow> int \<Rightarrow> bytes option" where
  "getDataBig data start sz =
     (let dlen = int (length data);
          s = BigMin start dlen;
          e = BigMin (s + sz) dlen
      in Option.bind (slice_of (uint (big_Uint64 s)) (uint (big_Uint64 e)) data)
           (\<lambda>d. RightPadBytes d (sint (big_Uint64 sz))))"

definition bigUint64 :: "int \<Rightarrow> u64 \<times> bool" where
  "bigUint64 v = (big_Uint64 v, big_BitLen v > 64)"

definition toWordSize :: "u64 \<Rightarrow> u64" where
  "toWordSize sz = (if sz > MaxUint64 - 31 then MaxUint64 div 32 + 1 else (sz + 31) div 32)"

definition allZero :: "bytes \<Rightarrow> bool" where
  "allZero b \<longleftrightarrow> list_all (\<lambda>x. x = 0) b"


section \<open>The operand stack (\<^verbatim>\<open>stack.go\<close>, \<^verbatim>\<open>stack_table.go\<close>)\<close>

datatype vm_error =
  ErrOutOfGas | ErrCodeStoreOutOfGas | ErrDepth | ErrInsufficientBalance | ErrContractAddressCollision
| ErrNoCompatibleInterpreter | errWriteProtection | errReturnDataOutOfBounds | errExecutionReverted
| errMaxCodeSizeExceeded | errGasUintOverflow | errStackUnderflow | errStackLimit | errInvalidOpcode byte
| errInvalidJump | errPrecompile | errBadPairingInput

definition st_swap :: "nat \<Rightarrow> int list \<Rightarrow> int list option" where
  "st_swap n st = (if 0 < n \<and> n \<le> length st then Some (st[n - 1 := st ! 0, 0 := st ! (n - 1)]) else None)"

definition st_dup :: "nat \<Rightarrow> int list \<Rightarrow> int list option" where
  "st_dup n st = (if 0 < n \<and> n \<le> length st then Some (st ! (n - 1) # st) else None)"

definition st_Back :: "nat \<Rightarrow> int list \<Rightarrow> int option" where
  "st_Back n st = (if n < length st then Some (st ! n) else None)"

definition st_require :: "nat \<Rightarrow> int list \<Rightarrow> vm_error option" where
  "st_require n st = (if length st < n then Some errStackUnderflow else None)"

definition StackLimit :: nat where "StackLimit = 1024"

definition makeStackFunc :: "nat \<Rightarrow> nat \<Rightarrow> int list \<Rightarrow> vm_error option" where
  "makeStackFunc pop push st =
     (case st_require pop st of
        Some e \<Rightarrow> Some e
      | None \<Rightarrow> if int (length st) + int push - int pop > int StackLimit then Some errStackLimit else None)"

definition makeDupStackFunc :: "nat \<Rightarrow> int list \<Rightarrow> vm_error option" where
  "makeDupStackFunc n = makeStackFunc n (n + 1)"

definition makeSwapStackFunc :: "nat \<Rightarrow> int list \<Rightarrow> vm_error option" where
  "makeSwapStackFunc n = makeStackFunc n n"

section \<open>Memory (\<^verbatim>\<open>memory.go\<close>)\<close>

record Memory =
  mem_store :: bytes
  lastGasCost :: u64

definition NewMemory :: Memory where
  "NewMemory = \<lparr>mem_store = [], lastGasCost = 0\<rparr>"

definition mem_Set :: "u64 \<Rightarrow> u64 \<Rightarrow> bytes \<Rightarrow> Memory \<Rightarrow> Memory option" where
  "mem_Set offset sz v m =
     (if sz > 0
      then if offset + sz > of_nat (length (mem_store m)) \<or> offset > offset + sz then None
           else Some (m\<lparr>mem_store := copy_at (mem_store m) (unat offset) (take (unat sz) v)\<rparr>)
      else Some m)"

definition mem_Set32 :: "u64 \<Rightarrow> int \<Rightarrow> Memory \<Rightarrow> Memory option" where
  "mem_Set32 offset val m =
     (if offset + 32 > of_nat (length (mem_store m)) \<or> offset > offset + 32 then None
      else Some (m\<lparr>mem_store := copy_at (mem_store m) (unat offset) (ReadBits val (replicate 32 0))\<rparr>))"

definition mem_Resize :: "u64 \<Rightarrow> Memory \<Rightarrow> Memory" where
  "mem_Resize sz m =
     (if length (mem_store m) < unat sz
      then m\<lparr>mem_store := mem_store m @ replicate (unat sz - length (mem_store m)) 0\<rparr> else m)"

definition mem_Get :: "int \<Rightarrow> int \<Rightarrow> Memory \<Rightarrow> bytes option" where
  "mem_Get offset sz m =
     (if sz = 0 then Some []
      else if int (length (mem_store m)) > offset
      then Option.bind (make_bytes sz)
             (\<lambda>cpy. Option.bind (slice_of offset (wrap_int (offset + sz)) (mem_store m)) (\<lambda>d. Some (copy_at cpy 0 d)))
      else Some [])"

definition mem_GetPtr :: "int \<Rightarrow> int \<Rightarrow> Memory \<Rightarrow> bytes option" where
  "mem_GetPtr offset sz m =
     (if sz = 0 then Some []
      else if int (length (mem_store m)) > offset
      then slice_of offset (wrap_int (offset + sz)) (mem_store m)
      else Some [])"

definition mem_Len :: "Memory \<Rightarrow> nat" where "mem_Len m = length (mem_store m)"

subsection \<open>Memory sizes of the operations (\<^verbatim>\<open>memory_table.go\<close>)\<close>

text \<open>The size up to which an operation uses the memory, from two positions of the stack: offset and
  length.\<close>

definition mem_range :: "nat \<Rightarrow> nat \<Rightarrow> int list \<Rightarrow> int option" where
  "mem_range i j st =
     Option.bind (st_Back i st) (\<lambda>off. Option.bind (st_Back j st) (\<lambda>l. Some (calcMemSize off l)))"

definition mem_fixed :: "nat \<Rightarrow> int \<Rightarrow> int list \<Rightarrow> int option" where
  "mem_fixed i l st = Option.bind (st_Back i st) (\<lambda>off. Some (calcMemSize off l))"

definition mem_max :: "(int list \<Rightarrow> int option) \<Rightarrow> (int list \<Rightarrow> int option) \<Rightarrow> int list \<Rightarrow> int option" where
  "mem_max f g st = Option.bind (f st) (\<lambda>x. Option.bind (g st) (\<lambda>y. Some (BigMax x y)))"

definition memorySha3 :: "int list \<Rightarrow> int option" where "memorySha3 = mem_range 0 1"
definition memoryCallDataCopy :: "int list \<Rightarrow> int option" where "memoryCallDataCopy = mem_range 0 2"
definition memoryReturnDataCopy :: "int list \<Rightarrow> int option" where "memoryReturnDataCopy = mem_range 0 2"
definition memoryCodeCopy :: "int list \<Rightarrow> int option" where "memoryCodeCopy = mem_range 0 2"
definition memoryExtCodeCopy :: "int list \<Rightarrow> int option" where "memoryExtCodeCopy = mem_range 1 3"
definition memoryMLoad :: "int list \<Rightarrow> int option" where "memoryMLoad = mem_fixed 0 32"
definition memoryMStore8 :: "int list \<Rightarrow> int option" where "memoryMStore8 = mem_fixed 0 1"
definition memoryMStore :: "int list \<Rightarrow> int option" where "memoryMStore = mem_fixed 0 32"
definition memoryCreate :: "int list \<Rightarrow> int option" where "memoryCreate = mem_range 1 2"
definition memoryCreate2 :: "int list \<Rightarrow> int option" where "memoryCreate2 = mem_range 1 2"
definition memoryCall :: "int list \<Rightarrow> int option" where
  "memoryCall = mem_max (mem_range 5 6) (mem_range 3 4)"
definition memoryDelegateCall :: "int list \<Rightarrow> int option" where
  "memoryDelegateCall = mem_max (mem_range 4 5) (mem_range 2 3)"
definition memoryStaticCall :: "int list \<Rightarrow> int option" where
  "memoryStaticCall = mem_max (mem_range 4 5) (mem_range 2 3)"
definition memoryReturn :: "int list \<Rightarrow> int option" where "memoryReturn = mem_range 0 1"
definition memoryRevert :: "int list \<Rightarrow> int option" where "memoryRevert = mem_range 0 1"
definition memoryLog :: "int list \<Rightarrow> int option" where "memoryLog = mem_range 0 1"

section \<open>Jump destinations (\<^verbatim>\<open>analysis.go\<close>)\<close>

definition OP_PUSH1 :: byte where "OP_PUSH1 = 0x60"
definition OP_PUSH32 :: byte where "OP_PUSH32 = 0x7f"
definition OP_JUMPDEST :: byte where "OP_JUMPDEST = 0x5b"

definition bits_or :: "nat \<Rightarrow> byte \<Rightarrow> bytes \<Rightarrow> bytes option" where
  "bits_or i b bits = (if i < length bits then Some (bits[i := (bits ! i) OR b]) else None)"

definition bv_set :: "nat \<Rightarrow> bytes \<Rightarrow> bytes option" where
  "bv_set pos bits = bits_or (pos div 8) (drop_bit (pos mod 8) 0x80) bits"

definition bv_set8 :: "nat \<Rightarrow> bytes \<Rightarrow> bytes option" where
  "bv_set8 pos bits =
     Option.bind (bits_or (pos div 8) (drop_bit (pos mod 8) 0xFF) bits)
       (bits_or (pos div 8 + 1) (NOT (drop_bit (pos mod 8) 0xFF)))"

definition codeSegment :: "bytes \<Rightarrow> nat \<Rightarrow> bool option" where
  "codeSegment bits pos =
     (if pos div 8 < length bits then Some ((bits ! (pos div 8)) AND (drop_bit (pos mod 8) 0x80) = 0) else None)"

fun mark8 :: "nat \<Rightarrow> nat \<Rightarrow> bytes \<Rightarrow> (nat \<times> nat \<times> bytes) option" where
  "mark8 numbits pc bits =
     (if numbits \<ge> 8 then Option.bind (bv_set8 pc bits) (mark8 (numbits - 8) (pc + 8)) else Some (numbits, pc, bits))"

fun mark1 :: "nat \<Rightarrow> nat \<Rightarrow> bytes \<Rightarrow> (nat \<times> bytes) option" where
  "mark1 0 pc bits = Some (pc, bits)"
| "mark1 (Suc n) pc bits = Option.bind (bv_set pc bits) (mark1 n (pc + 1))"

declare mark8.simps [simp del]

definition is_push :: "byte \<Rightarrow> bool" where
  "is_push b \<longleftrightarrow> b \<ge> OP_PUSH1 \<and> b \<le> OP_PUSH32"

definition push_len :: "byte \<Rightarrow> nat" where
  "push_len b = (if is_push b then unat (b - OP_PUSH1 + 1) else 0)"

definition mark_push :: "nat \<Rightarrow> nat \<Rightarrow> bytes \<Rightarrow> (nat \<times> bytes) option" where
  "mark_push numbits pc bits = Option.bind (mark8 numbits pc bits) (\<lambda>(n, pc, bits). mark1 n pc bits)"

text \<open>The loop over the code. Every round moves \<^verbatim>\<open>pc\<close> forward, so as many rounds as the code has
  bytes are enough.\<close>

fun bitmap_loop :: "nat \<Rightarrow> bytes \<Rightarrow> nat \<Rightarrow> bytes \<Rightarrow> bytes option" where
  "bitmap_loop 0 code pc bits = Some bits"
| "bitmap_loop (Suc n) code pc bits =
     (if pc < length code
      then let b = code ! pc
           in if is_push b then Option.bind (mark_push (push_len b) (pc + 1) bits) (\<lambda>(pc, bits). bitmap_loop n code pc bits)
              else bitmap_loop n code (pc + 1) bits
      else Some bits)"

definition codeBitmap :: "bytes \<Rightarrow> bytes option" where
  "codeBitmap code = bitmap_loop (length code) code 0 (replicate (length code div 8 + 1 + 4) 0)"

section \<open>Facts on the arithmetic\<close>

lemma U256_mod: "U256 x = x mod 2 ^ 256"
  by (simp only: U256_def mask_eq_exp_minus_1 [symmetric] take_bit_eq_mask [symmetric] take_bit_eq_mod)

lemma U256_range [simp]: "0 \<le> U256 x" "U256 x < 2 ^ 256"
  by (simp_all add: U256_mod)

lemma nat_bitlen_le_iff: "nat_bitlen n \<le> k \<longleftrightarrow> n < 2 ^ k"
proof (induction k arbitrary: n)
  case 0
  show ?case by (subst nat_bitlen.simps) simp
next
  case (Suc k)
  have "n div 2 < 2 ^ k \<longleftrightarrow> n < 2 ^ Suc k" by (simp add: div_less_iff_less_mult mult.commute)
  with Suc.IH [of "n div 2"] show ?case by (subst nat_bitlen.simps) simp
qed

lemma big_BitLen_le_iff: "big_BitLen x \<le> k \<longleftrightarrow> \<bar>x\<bar> < 2 ^ k"
proof -
  have "nat \<bar>x\<bar> < 2 ^ k \<longleftrightarrow> \<bar>x\<bar> < 2 ^ k" by (simp add: nat_less_iff)
  then show ?thesis by (simp add: big_BitLen_def nat_bitlen_le_iff)
qed

lemma big_BitLen_0_iff [simp]: "big_BitLen x = 0 \<longleftrightarrow> x = 0"
  using big_BitLen_le_iff [of x 0] by auto

lemma bigUint64_ok: "bigUint64 x = (v, False) \<Longrightarrow> 0 \<le> x \<Longrightarrow> x < 2 ^ 64 \<and> uint v = x \<and> v = word_of_int x"
  by (auto simp: bigUint64_def big_Uint64_def not_less big_BitLen_le_iff of_nat_nat uint_word_of_int)

lemma big_Uint64_id: "0 \<le> x \<Longrightarrow> x < 2 ^ 64 \<Longrightarrow> uint (big_Uint64 x) = x"
  by (simp add: big_Uint64_def of_nat_nat uint_word_of_int)

lemma big_Int64_id: "0 \<le> x \<Longrightarrow> x < 2 ^ 63 \<Longrightarrow> big_Int64 x = x"
  using sint_of_nat_u64 [of "nat x"] by (simp add: big_Int64_def of_nat_nat nat_less_iff del: of_nat_nat)

section \<open>The analysis marks exactly the operands of the push operations\<close>

text \<open>The reference: the code read from its start, an operation after the other.\<close>

function data_flags :: "bytes \<Rightarrow> bool list" where
  "data_flags [] = []"
| "data_flags (b # bs) = False # replicate (min (push_len b) (length bs)) True @ data_flags (drop (push_len b) bs)"
  by pat_completeness auto
termination by (relation "measure length") auto

lemma length_data_flags [simp]: "length (data_flags code) = length code"
  by (induction code rule: data_flags.induct) auto

definition bvb :: "bytes \<Rightarrow> nat \<Rightarrow> bool" where
  "bvb bits q = bit (bits ! (q div 8)) (7 - q mod 8)"

lemma bit_drop_0x80: "bit (drop_bit k (0x80 :: byte)) j \<longleftrightarrow> k + j = 7"
proof -
  have e: "(0x80 :: byte) = 2 ^ 7" by simp
  show ?thesis unfolding bit_drop_bit_eq comp_def e bit_exp_iff by auto
qed

lemma bit_0xFF: "bit (drop_bit k (0xFF :: byte)) j \<longleftrightarrow> k + j < 8"
proof -
  have e: "(0xFF :: byte) = mask 8" by (simp add: mask_eq_exp_minus_1)
  show ?thesis unfolding bit_drop_bit_eq comp_def e bit_mask_iff by auto
qed

lemma bits_or_Some:
  assumes "i < length bits"
  shows "\<exists>bits'. bits_or i b bits = Some bits' \<and> length bits' = length bits \<and>
     (\<forall>q < 8 * length bits. bvb bits' q \<longleftrightarrow> bvb bits q \<or> q div 8 = i \<and> bit b (7 - q mod 8))"
  using assms unfolding bits_or_def bvb_def by (simp add: nth_list_update) (simp only: bit_or_iff if_split, blast)

lemma bv_set_Some:
  assumes "pos div 8 < length bits"
  shows "\<exists>bits'. bv_set pos bits = Some bits' \<and> length bits' = length bits \<and>
     (\<forall>q < 8 * length bits. bvb bits' q \<longleftrightarrow> bvb bits q \<or> q = pos)"
proof -
  have "q = pos \<longleftrightarrow> q div 8 = pos div 8 \<and> pos mod 8 + (7 - q mod 8) = 7" for q
  proof -
    have "q mod 8 < 8" "pos mod 8 < 8" by simp_all
    then have "pos mod 8 + (7 - q mod 8) = 7 \<longleftrightarrow> q mod 8 = pos mod 8" by arith
    then show ?thesis by (metis div_mult_mod_eq)
  qed
  then show ?thesis
    using bits_or_Some [OF assms, of "drop_bit (pos mod 8) 0x80"] unfolding bv_set_def bit_drop_0x80 by simp
qed

lemma range8_aux:
  "r < 8 \<Longrightarrow> s < 8 \<Longrightarrow> b * 8 + s \<le> a * 8 + r \<and> a * 8 + r < b * 8 + s + 8 \<longleftrightarrow>
     a = b \<and> s + (7 - r) < 8 \<or> a = b + 1 \<and> \<not> s + (7 - r) < (8 :: nat)"
  by presburger

lemma range8:
  "pos \<le> q \<and> q < pos + 8 \<longleftrightarrow>
     q div 8 = pos div 8 \<and> pos mod 8 + (7 - q mod 8) < 8 \<or> q div 8 = pos div 8 + 1 \<and> \<not> pos mod 8 + (7 - q mod 8) < (8 :: nat)"
  using range8_aux [of "q mod 8" "pos mod 8" "pos div 8" "q div 8"]
  by (simp only: div_mult_mod_eq mod_less_divisor zero_less_numeral simp_thms)

lemma bv_set8_Some:
  assumes "pos div 8 + 1 < length bits"
  shows "\<exists>bits'. bv_set8 pos bits = Some bits' \<and> length bits' = length bits \<and>
     (\<forall>q < 8 * length bits. bvb bits' q \<longleftrightarrow> bvb bits q \<or> pos \<le> q \<and> q < pos + 8)"
proof -
  let ?m = "drop_bit (pos mod 8) (0xFF :: byte)"
  have i: "pos div 8 < length bits" using assms by simp
  obtain b1 where b1: "bits_or (pos div 8) ?m bits = Some b1" "length b1 = length bits"
    "\<forall>q < 8 * length bits. bvb b1 q \<longleftrightarrow> bvb bits q \<or> q div 8 = pos div 8 \<and> bit ?m (7 - q mod 8)"
    using bits_or_Some [OF i, of ?m] by blast
  have i2: "pos div 8 + 1 < length b1" using assms b1(2) by simp
  obtain b2 where b2: "bits_or (pos div 8 + 1) (NOT ?m) b1 = Some b2" "length b2 = length b1"
    "\<forall>q < 8 * length b1. bvb b2 q \<longleftrightarrow> bvb b1 q \<or> q div 8 = pos div 8 + 1 \<and> bit (NOT ?m) (7 - q mod 8)"
    using bits_or_Some [OF i2, of "NOT ?m"] by blast
  have lt: "7 - q mod 8 < (8 :: nat)" for q :: nat by (rule le_less_trans [OF diff_le_self]) simp
  have "bit (NOT ?m) (7 - q mod 8) \<longleftrightarrow> \<not> pos mod 8 + (7 - q mod 8) < 8" for q :: nat
    using lt [of q] unfolding bit_not_iff bit_0xFF by simp
  then have "bvb b2 q \<longleftrightarrow> bvb bits q \<or> pos \<le> q \<and> q < pos + 8" if "q < 8 * length bits" for q
    using that b1(3) b2(3) b1(2) unfolding range8 bit_0xFF by metis
  with b1(1,2) b2(1,2) show ?thesis unfolding bv_set8_def by simp
qed


text \<open>\<open>marked\<close>: the step from one bit vector to the next sets the bits of a range and no others.\<close>

definition marked :: "nat \<Rightarrow> nat \<Rightarrow> bytes \<Rightarrow> bytes \<Rightarrow> bool" where
  "marked a b bits bits' \<longleftrightarrow> length bits' = length bits \<and>
     (\<forall>q < 8 * length bits. bvb bits' q \<longleftrightarrow> bvb bits q \<or> a \<le> q \<and> q < b)"

lemma marked_trans: "marked a b x y \<Longrightarrow> marked b c y z \<Longrightarrow> a \<le> b \<Longrightarrow> b \<le> c \<Longrightarrow> marked a c x z"
  unfolding marked_def by (auto simp: not_le)

lemma marked_refl: "marked a a x x" by (auto simp: marked_def)

lemma mark8_marked:
  "pc div 8 + n div 8 < length bits \<Longrightarrow>
   \<exists>bits'. mark8 n pc bits = Some (n mod 8, pc + 8 * (n div 8), bits') \<and> marked pc (pc + 8 * (n div 8)) bits bits'"
proof (induction n pc bits rule: mark8.induct)
  case (1 n pc bits)
  show ?case
  proof (cases "8 \<le> n")
    case True
    then have n: "n div 8 = Suc ((n - 8) div 8)" "n mod 8 = (n - 8) mod 8" by (simp_all add: le_div_geq le_mod_geq)
    obtain b1 where b1: "bv_set8 pc bits = Some b1" "marked pc (pc + 8) bits b1"
      using bv_set8_Some [of pc bits] 1(2) n by (auto simp: marked_def)
    moreover have "(pc + 8) div 8 + (n - 8) div 8 < length b1" using 1(2) n b1(2) by (simp add: marked_def div_add_self2)
    ultimately obtain b2 where
      "mark8 (n - 8) (pc + 8) b1 = Some ((n - 8) mod 8, pc + 8 + 8 * ((n - 8) div 8), b2)"
      "marked (pc + 8) (pc + 8 + 8 * ((n - 8) div 8)) b1 b2"
      using 1(1) [OF True] by blast
    with True b1 n show ?thesis by (subst mark8.simps) (auto intro: marked_trans simp: add.assoc)
  next
    case False
    then show ?thesis by (subst mark8.simps) (simp add: marked_refl)
  qed
qed

lemma mark1_marked:
  "(pc + n - 1) div 8 < length bits \<Longrightarrow> \<exists>bits'. mark1 n pc bits = Some (pc + n, bits') \<and> marked pc (pc + n) bits bits'"
proof (induction n arbitrary: pc bits)
  case 0
  then show ?case by (simp add: marked_refl)
next
  case (Suc n)
  have "pc div 8 \<le> (pc + Suc n - 1) div 8" by (rule div_le_mono) simp
  with Suc.prems have "pc div 8 < length bits" by simp
  then obtain b1 where b1: "bv_set pc bits = Some b1" "marked pc (pc + 1) bits b1"
    using bv_set_Some [of pc bits] by (force simp: marked_def)
  moreover have "(pc + 1 + n - 1) div 8 < length b1" using Suc.prems b1(2) by (simp add: marked_def)
  ultimately obtain b2 where "mark1 n (pc + 1) b1 = Some (pc + 1 + n, b2)" "marked (pc + 1) (pc + 1 + n) b1 b2"
    using Suc.IH [of "pc + 1" b1] by blast
  with b1 show ?case by (auto intro: marked_trans)
qed

lemma mark_push_marked:
  assumes "pc div 8 + 4 < length bits" "n \<le> 32"
  shows "\<exists>bits'. mark_push n pc bits = Some (pc + n, bits') \<and> marked pc (pc + n) bits bits'"
proof -
  have "n div 8 \<le> 4" using assms(2) div_le_mono [of n 32 8] by simp
  with assms obtain b1 where b1: "mark8 n pc bits = Some (n mod 8, pc + 8 * (n div 8), b1)"
    "marked pc (pc + 8 * (n div 8)) bits b1" using mark8_marked [of pc n bits] by auto
  have n: "8 * (n div 8) + n mod 8 = n" by simp
  have "(pc + n - 1) div 8 \<le> pc div 8 + 4"
    using div_le_mono [of "pc + n - 1" "pc + 31" 8] assms(2) by (simp add: div_add1_eq [of pc 31 8])
  then have "(pc + 8 * (n div 8) + n mod 8 - 1) div 8 < length b1"
    using assms(1) b1(2) n by (simp add: marked_def add.assoc)
  then obtain b2 where "mark1 (n mod 8) (pc + 8 * (n div 8)) b1 = Some (pc + 8 * (n div 8) + n mod 8, b2)"
    "marked (pc + 8 * (n div 8)) (pc + 8 * (n div 8) + n mod 8) b1 b2" using mark1_marked by blast
  with b1 n show ?thesis by (auto simp: mark_push_def add.assoc intro: marked_trans)
qed

lemma push_len_le: "push_len b \<le> 32"
proof -
  have "b - OP_PUSH1 + 1 \<le> 32" if "OP_PUSH1 \<le> b" "b \<le> OP_PUSH32"
  proof -
    have "uint (b - OP_PUSH1 + 1) = uint b - 0x60 + 1"
      using that by (auto simp: OP_PUSH1_def OP_PUSH32_def word_le_def uint_word_ariths)
    with that show ?thesis by (simp add: OP_PUSH1_def OP_PUSH32_def word_le_def)
  qed
  then show ?thesis by (auto simp: push_len_def is_push_def word_le_nat_alt)
qed

lemma push_len_pos: "is_push b \<Longrightarrow> b \<noteq> 0" by (auto simp: is_push_def OP_PUSH1_def)

lemma data_flags_drop:
  assumes "pc < length code" "q < length code"
  shows "pc \<le> q \<and> data_flags (drop pc code) ! (q - pc) \<longleftrightarrow>
     pc + 1 \<le> q \<and> q < pc + 1 + push_len (code ! pc) \<or>
     pc + 1 + push_len (code ! pc) \<le> q \<and> data_flags (drop (pc + 1 + push_len (code ! pc)) code) ! (q - (pc + 1 + push_len (code ! pc)))"
  (is "?l \<longleftrightarrow> ?r")
proof -
  let ?n = "push_len (code ! pc)"
  have e: "data_flags (drop pc code) =
     False # replicate (min ?n (length code - pc - 1)) True @ data_flags (drop (pc + 1 + ?n) code)"
    using assms(1) by (simp add: Cons_nth_drop_Suc [symmetric] add.commute add.assoc)
  show ?thesis unfolding e using assms by (auto simp: nth_Cons' nth_append min_def)
qed

lemma bitmap_loop_flags:
  assumes "length code - pc \<le> n" "length bits = length code div 8 + 5"
  shows "\<exists>bits'. bitmap_loop n code pc bits = Some bits' \<and> length bits' = length bits \<and>
     (\<forall>q < length code. bvb bits' q \<longleftrightarrow> bvb bits q \<or> pc \<le> q \<and> data_flags (drop pc code) ! (q - pc))"
  using assms
proof (induction n arbitrary: pc bits)
  case 0
  then show ?case by simp
next
  case (Suc n)
  show ?case
  proof (cases "pc < length code")
    case True
    let ?p = "push_len (code ! pc)"
    have dv: "(pc + 1) div 8 + 4 < length bits"
      using True Suc.prems(2) div_le_mono [of "pc + 1" "length code" 8] by simp
    obtain b1 where b1: "mark_push ?p (pc + 1) bits = Some (pc + 1 + ?p, b1)" "marked (pc + 1) (pc + 1 + ?p) bits b1"
      using mark_push_marked [OF dv push_len_le] by blast
    have "length code - (pc + 1 + ?p) \<le> n" "length b1 = length code div 8 + 5"
      using Suc.prems b1(2) by (auto simp: marked_def)
    from Suc.IH [OF this] obtain b2 where b2: "bitmap_loop n code (pc + 1 + ?p) b1 = Some b2" "length b2 = length b1"
      "\<forall>q < length code. bvb b2 q \<longleftrightarrow> bvb b1 q \<or> pc + 1 + ?p \<le> q \<and> data_flags (drop (pc + 1 + ?p) code) ! (q - (pc + 1 + ?p))"
      by blast
    have ex: "bitmap_loop (Suc n) code pc bits = Some b2"
    proof (cases "is_push (code ! pc)")
      case False
      then have "?p = 0" by (simp add: push_len_def)
      moreover from this b1(1) have "b1 = bits" by (simp add: mark_push_def mark8.simps)
      ultimately show ?thesis using True False b2(1) by (simp add: Let_def)
    qed (use True b1(1) b2(1) in \<open>simp add: Let_def\<close>)
    have "q < 8 * length bits" if "q < length code" for q
      using that Suc.prems(2) by linarith
    with b1(2) b2(3) data_flags_drop [OF True]
    have "\<forall>q < length code. bvb b2 q \<longleftrightarrow> bvb bits q \<or> pc \<le> q \<and> data_flags (drop pc code) ! (q - pc)"
      unfolding marked_def by blast
    with ex b1(2) b2(2) show ?thesis by (auto simp: marked_def)
  qed simp
qed

lemma codeSegment_bvb: "pos div 8 < length bits \<Longrightarrow> codeSegment bits pos = Some (\<not> bvb bits pos)"
proof -
  have "x AND drop_bit (pos mod 8) 0x80 = 0 \<longleftrightarrow> \<not> bit x (7 - pos mod 8)" for x :: byte
  proof -
    have m: "pos mod 8 \<le> 7" using mod_less_divisor [of 8 pos] by linarith
    have j: "pos mod 8 + j = 7 \<longleftrightarrow> j = 7 - pos mod 8" for j using m by linarith
    have "bit (x AND drop_bit (pos mod 8) 0x80) j \<longleftrightarrow> bit x j \<and> j = 7 - pos mod 8" for j
      unfolding bit_and_iff bit_drop_0x80 j ..
    then have "(\<forall>j. \<not> bit (x AND drop_bit (pos mod 8) 0x80) j) \<longleftrightarrow> \<not> bit x (7 - pos mod 8)" by metis
    moreover have "y = 0 \<longleftrightarrow> (\<forall>j. \<not> bit y j)" for y :: byte by (metis bit_0_eq bot_apply bot_bool_def bit_eqI)
    ultimately show ?thesis by blast
  qed
  then show "pos div 8 < length bits \<Longrightarrow> ?thesis" by (simp add: codeSegment_def bvb_def)
qed

lemma codeBitmap_Some:
  "\<exists>bits. codeBitmap code = Some bits \<and>
     (\<forall>pos < length code. codeSegment bits pos = Some (\<not> data_flags code ! pos))"
proof -
  let ?z = "replicate (length code div 8 + 1 + 4) 0 :: bytes"
  obtain bits where bits: "codeBitmap code = Some bits" "length bits = length code div 8 + 5"
    "\<forall>q < length code. bvb bits q \<longleftrightarrow> bvb ?z q \<or> data_flags code ! q"
    using bitmap_loop_flags [of code 0 "length code" ?z] by (auto simp: codeBitmap_def)
  have "pos div 8 < length code div 8 + 5" if "pos < length code" for pos
    using that div_le_mono [of pos "length code" 8] by simp
  moreover from this have "\<not> bvb ?z pos" if "pos < length code" for pos
    using that by (simp add: bvb_def)
  ultimately show ?thesis using bits by (simp add: codeSegment_bvb)
qed

text \<open>C23: The analysis of jump destinations is exact. For every code it returns without an index
  panic, also when the last push operation lacks its operand, and its bit at a position of the code is
  set precisely when reading the code from its start takes that byte as the operand of a push
  operation.\<close>

theorem codeBitmap_exact:
  "\<exists>bits. codeBitmap code = Some bits \<and>
     (\<forall>pos. pos < length code \<longrightarrow> codeSegment bits pos = Some (\<not> data_flags code ! pos))"
  using codeBitmap_Some by simp

theorem codeBitmap_exact_witness:
  "\<exists>bits. codeBitmap [0x60, 0x5b, 0x5b] = Some bits \<and> codeSegment bits 1 = Some False \<and> codeSegment bits 2 = Some True"
proof -
  obtain bits where b: "codeBitmap [0x60, 0x5b, 0x5b] = Some bits"
    "\<forall>pos. pos < length [0x60, 0x5b, 0x5b :: byte] \<longrightarrow> codeSegment bits pos = Some (\<not> data_flags [0x60, 0x5b, 0x5b] ! pos)"
    using codeBitmap_exact [of "[0x60, 0x5b, 0x5b]"] by blast
  have "data_flags [0x60, 0x5b, 0x5b] = [False, True, False]"
    by (simp add: push_len_def is_push_def OP_PUSH1_def OP_PUSH32_def)
  with b(2) [rule_format, of 1] b(2) [rule_format, of 2] b(1) show ?thesis by simp
qed

end
