(* ===== verification/Evm_Ops.thy ===== *)
theory Evm_Ops
  imports Evm_Base
begin

text \<open>
  The operations of the contract interpreter (\<^verbatim>\<open>src/vm/instructions.go\<close>) without the calls, on the
  state of one run of a contract: program counter, contract, memory, stack and the virtual machine
  (\<^verbatim>\<open>contract.go\<close>, \<^verbatim>\<open>evm.go\<close>, \<^verbatim>\<open>interpreter.go\<close>). The state database is the one of \<^verbatim>\<open>World_State\<close>.

  What never changes during a run (the context, the configuration, and code outside the repository) is the
  record \<^verbatim>\<open>vm_env\<close>. The table of analysed code is shared by a contract and all it calls, so it is a
  field of the machine. A result is what Go returns, a run time panic, or running out of fuel.
\<close>

datatype 'a outcome = Returns 'a | Panics | OutOfFuel

definition obind :: "'a outcome \<Rightarrow> ('a \<Rightarrow> 'b outcome) \<Rightarrow> 'b outcome" where
  "obind m g = (case m of Returns x \<Rightarrow> g x | Panics \<Rightarrow> Panics | OutOfFuel \<Rightarrow> OutOfFuel)"

definition of_opt :: "'a option \<Rightarrow> 'a outcome" where
  "of_opt x = (case x of None \<Rightarrow> Panics | Some v \<Rightarrow> Returns v)"

section \<open>The state of a run\<close>

record Contract =
  ct_CallerAddress :: bytes
  ct_self :: bytes
  ct_analysis :: "bytes option"
  ct_Code :: bytes
  ct_CodeHash :: bytes
  ct_CodeAddr :: "bytes option"
  ct_Input :: bytes
  ct_Gas :: u64
  ct_value :: int

record TransferInfo =
  ti_From :: bytes
  ti_To :: bytes
  ti_Value :: u64

record ContractCreatedItem =
  cc_Caller :: bytes
  cc_Address :: bytes
  cc_Nonce :: u64
  cc_Value :: u64

record EVM =
  ev_StateDB :: StateDB
  ev_depth :: nat
  callGasTemp :: u64
  ev_abort :: bool
  ev_readOnly :: bool
  ev_returnData :: bytes
  ev_jumpdests :: "(bytes \<times> bytes) list"
  ev_Transfers :: "(bytes \<times> TransferInfo list) list"
  ev_ContractCreatedItems :: "ContractCreatedItem list"

record vm_env =
  ve_codec :: state_codec
  ve_GetHash :: "u64 \<Rightarrow> bytes option"
  ve_Origin :: bytes
  ve_GasPrice :: int
  ve_Coinbase :: bytes
  ve_GasLimit :: u64
  ve_BlockNumber :: int
  ve_Time :: int
  ve_NoRecursion :: bool
  ve_EnablePreimageRecording :: bool
  ve_rlp_address_nonce :: "bytes \<Rightarrow> u64 \<Rightarrow> bytes"
  ve_sha256 :: "bytes \<Rightarrow> bytes"
  ve_ripemd160 :: "bytes \<Rightarrow> bytes"
  ve_Ecrecover :: "bytes \<Rightarrow> bytes \<Rightarrow> bytes option"
  ve_G1_Unmarshal :: "bytes \<Rightarrow> bytes option"
  ve_G2_Unmarshal :: "bytes \<Rightarrow> bytes option"
  ve_G1_Add :: "bytes \<Rightarrow> bytes \<Rightarrow> bytes"
  ve_G1_ScalarMult :: "bytes \<Rightarrow> int \<Rightarrow> bytes"
  ve_PairingCheck :: "bytes list \<Rightarrow> bytes list \<Rightarrow> bool"

record frame =
  fr_pc :: u64
  fr_contract :: Contract
  fr_mem :: Memory
  fr_stack :: "int list"
  fr_evm :: EVM

type_synonym runner = "EVM \<Rightarrow> Contract \<Rightarrow> bytes \<Rightarrow> bool \<Rightarrow> (bytes \<times> vm_error option \<times> Contract \<times> EVM) outcome"

type_synonym executionFunc = "vm_env \<Rightarrow> runner \<Rightarrow> frame \<Rightarrow> (bytes \<times> vm_error option \<times> frame) outcome"

subsection \<open>Stack and state database\<close>

definition ok :: "frame \<Rightarrow> (bytes \<times> vm_error option \<times> frame) outcome" where
  "ok f = Returns ([], None, f)"

definition push :: "int \<Rightarrow> frame \<Rightarrow> frame" where
  "push v f = f\<lparr>fr_stack := v # fr_stack f\<rparr>"

definition pop1 :: "(int \<Rightarrow> frame \<Rightarrow> 'a outcome) \<Rightarrow> frame \<Rightarrow> 'a outcome" where
  "pop1 g f = (case fr_stack f of x # st \<Rightarrow> g x (f\<lparr>fr_stack := st\<rparr>) | [] \<Rightarrow> Panics)"

definition pop2 :: "(int \<Rightarrow> int \<Rightarrow> frame \<Rightarrow> 'a outcome) \<Rightarrow> frame \<Rightarrow> 'a outcome" where
  "pop2 g = pop1 (\<lambda>x. pop1 (g x))"

definition pop3 :: "(int \<Rightarrow> int \<Rightarrow> int \<Rightarrow> frame \<Rightarrow> 'a outcome) \<Rightarrow> frame \<Rightarrow> 'a outcome" where
  "pop3 g = pop1 (\<lambda>x. pop2 (g x))"

text \<open>A read of the state database fills its caches, so it changes the frame too.\<close>

definition sread :: "(StateDB \<Rightarrow> 'a \<times> StateDB) \<Rightarrow> frame \<Rightarrow> 'a \<times> frame" where
  "sread g f =
     (let (v, s) = g (ev_StateDB (fr_evm f)) in (v, f\<lparr>fr_evm := (fr_evm f)\<lparr>ev_StateDB := s\<rparr>\<rparr>))"

definition swrite :: "(StateDB \<Rightarrow> StateDB) \<Rightarrow> frame \<Rightarrow> frame" where
  "swrite g f = f\<lparr>fr_evm := (fr_evm f)\<lparr>ev_StateDB := g (ev_StateDB (fr_evm f))\<rparr>\<rparr>"

section \<open>Contracts (\<^verbatim>\<open>contract.go\<close>)\<close>

text \<open>The caller is an account or a contract; only for an account the table of analysed code starts
  empty.\<close>

datatype ContractRef = AccountRef bytes | CallerContract Contract

fun ref_Address :: "ContractRef \<Rightarrow> bytes" where
  "ref_Address (AccountRef a) = a"
| "ref_Address (CallerContract c) = ct_self c"

definition NewContract :: "ContractRef \<Rightarrow> bytes \<Rightarrow> int \<Rightarrow> u64 \<Rightarrow> EVM \<Rightarrow> Contract \<times> EVM" where
  "NewContract caller object v gas ev =
     (\<lparr>ct_CallerAddress = ref_Address caller, ct_self = object, ct_analysis = None, ct_Code = [],
       ct_CodeHash = ZeroHash, ct_CodeAddr = None, ct_Input = [], ct_Gas = gas, ct_value = v\<rparr>,
      case caller of CallerContract _ \<Rightarrow> ev | AccountRef _ \<Rightarrow> ev\<lparr>ev_jumpdests := []\<rparr>)"

definition GetByte :: "Contract \<Rightarrow> u64 \<Rightarrow> byte" where
  "GetByte c n = (if n < of_nat (length (ct_Code c)) then ct_Code c ! unat n else 0)"

definition GetOp :: "Contract \<Rightarrow> u64 \<Rightarrow> byte" where
  "GetOp c n = GetByte c n"

definition validJumpdest :: "int \<Rightarrow> Contract \<Rightarrow> EVM \<Rightarrow> (bool \<times> Contract \<times> EVM) outcome" where
  "validJumpdest dest c ev =
     (let udest = big_Uint64 dest
      in if big_BitLen dest \<ge> 63 \<or> udest \<ge> of_nat (length (ct_Code c)) then Returns (False, c, ev)
         else if ct_Code c ! unat udest \<noteq> OP_JUMPDEST then Returns (False, c, ev)
         else if ct_CodeHash c \<noteq> ZeroHash
         then (case map_of (ev_jumpdests ev) (ct_CodeHash c) of
                 Some analysis \<Rightarrow> obind (of_opt (codeSegment analysis (unat udest))) (\<lambda>b. Returns (b, c, ev))
               | None \<Rightarrow>
                   obind (of_opt (codeBitmap (ct_Code c))) (\<lambda>analysis.
                     let ev = ev\<lparr>ev_jumpdests := AList.update (ct_CodeHash c) analysis (ev_jumpdests ev)\<rparr>
                     in obind (of_opt (codeSegment analysis (unat udest))) (\<lambda>b. Returns (b, c, ev))))
         else obind (case ct_analysis c of
                       Some analysis \<Rightarrow> Returns analysis
                     | None \<Rightarrow> of_opt (codeBitmap (ct_Code c))) (\<lambda>analysis.
                obind (of_opt (codeSegment analysis (unat udest))) (\<lambda>b.
                  Returns (b, c\<lparr>ct_analysis := Some analysis\<rparr>, ev))))"

definition AsDelegate :: "Contract \<Rightarrow> Contract \<Rightarrow> Contract" where
  "AsDelegate parent c = c\<lparr>ct_CallerAddress := ct_CallerAddress parent, ct_value := ct_value parent\<rparr>"

definition UseGas :: "u64 \<Rightarrow> Contract \<Rightarrow> bool \<times> Contract" where
  "UseGas gas c = (if ct_Gas c < gas then (False, c) else (True, c\<lparr>ct_Gas := ct_Gas c - gas\<rparr>))"

definition SetCallCode :: "bytes \<Rightarrow> bytes \<Rightarrow> bytes \<Rightarrow> Contract \<Rightarrow> Contract" where
  "SetCallCode addr hash code c = c\<lparr>ct_Code := code, ct_CodeHash := hash, ct_CodeAddr := Some addr\<rparr>"

definition SetCodeOptionalHash :: "bytes \<Rightarrow> bytes \<Rightarrow> bytes \<Rightarrow> Contract \<Rightarrow> Contract" where
  "SetCodeOptionalHash addr code hash c = c\<lparr>ct_Code := code, ct_CodeHash := hash, ct_CodeAddr := Some addr\<rparr>"

section \<open>Arithmetic operations\<close>

definition big_bool :: "bool \<Rightarrow> int" where
  "big_bool b = (if b then 1 else 0)"

definition opAdd :: executionFunc where
  "opAdd E r = pop2 (\<lambda>x y f. ok (push (U256 (x + y)) f))"

definition opSub :: executionFunc where
  "opSub E r = pop2 (\<lambda>x y f. ok (push (U256 (x - y)) f))"

definition opMul :: executionFunc where
  "opMul E r = pop2 (\<lambda>x y f. ok (push (U256 (x * y)) f))"

definition opDiv :: executionFunc where
  "opDiv E r = pop2 (\<lambda>x y f. ok (push (if y \<noteq> 0 then U256 (x div y) else 0) f))"

definition opSdiv :: executionFunc where
  "opSdiv E r = pop2 (\<lambda>x y f.
     let x = S256 x; y = S256 y
     in ok (push (if y = 0 \<or> x = 0 then 0
                  else if sgn x \<noteq> sgn y then U256 (- (\<bar>x\<bar> div \<bar>y\<bar>)) else U256 (\<bar>x\<bar> div \<bar>y\<bar>)) f))"

definition opMod :: executionFunc where
  "opMod E r = pop2 (\<lambda>x y f. ok (push (if y = 0 then 0 else U256 (x mod y)) f))"

definition opSmod :: executionFunc where
  "opSmod E r = pop2 (\<lambda>x y f.
     let x = S256 x; y = S256 y
     in ok (push (if y = 0 then 0 else if x < 0 then U256 (- (\<bar>x\<bar> mod \<bar>y\<bar>)) else U256 (\<bar>x\<bar> mod \<bar>y\<bar>)) f))"

definition opExp :: executionFunc where
  "opExp E r = pop2 (\<lambda>base exponent f.
     ok (push (if exponent < 1 then 1 else if base = 0 then 0 else if exponent = 1 then base
               else Exp base exponent) f))"

definition opSignExtend :: executionFunc where
  "opSignExtend E r = pop1 (\<lambda>k f.
     if k < 31
     then let b = unat (big_Uint64 k * 8 + 7); msk = push_bit b 1 - 1
          in pop1 (\<lambda>num f. ok (push (U256 (if bit num b then num OR (NOT msk) else num AND msk)) f)) f
     else ok f)"

definition opNot :: executionFunc where
  "opNot E r = pop1 (\<lambda>x f. ok (push (U256 (NOT x)) f))"

definition opLt :: executionFunc where
  "opLt E r = pop2 (\<lambda>x y f. ok (push (big_bool (x < y)) f))"

definition opGt :: executionFunc where
  "opGt E r = pop2 (\<lambda>x y f. ok (push (big_bool (x > y)) f))"

definition opSlt :: executionFunc where
  "opSlt E r = pop2 (\<lambda>x y f.
     ok (push (if x \<ge> 2 ^ 255 \<and> y < 2 ^ 255 then 1
               else if x < 2 ^ 255 \<and> y \<ge> 2 ^ 255 then 0
               else big_bool (x < y)) f))"

definition opSgt :: executionFunc where
  "opSgt E r = pop2 (\<lambda>x y f.
     ok (push (if x \<ge> 2 ^ 255 \<and> y < 2 ^ 255 then 0
               else if x < 2 ^ 255 \<and> y \<ge> 2 ^ 255 then 1
               else big_bool (x > y)) f))"

definition opEq :: executionFunc where
  "opEq E r = pop2 (\<lambda>x y f. ok (push (big_bool (x = y)) f))"

definition opIszero :: executionFunc where
  "opIszero E r = pop1 (\<lambda>x f. ok (push (if x > 0 then 0 else 1) f))"

definition opAnd :: executionFunc where
  "opAnd E r = pop2 (\<lambda>x y f. ok (push (x AND y) f))"

definition opOr :: executionFunc where
  "opOr E r = pop2 (\<lambda>x y f. ok (push (x OR y) f))"

definition opXor :: executionFunc where
  "opXor E r = pop2 (\<lambda>x y f. ok (push (x XOR y) f))"

definition opByte :: executionFunc where
  "opByte E r = pop2 (\<lambda>th val f.
     ok (push (if th < 32 then uint (big_Byte val 32 (nat (big_Int64 th))) else 0) f))"

definition opAddmod :: executionFunc where
  "opAddmod E r = pop3 (\<lambda>x y z f. ok (push (if z > 0 then U256 ((x + y) mod z) else 0) f))"

definition opMulmod :: executionFunc where
  "opMulmod E r = pop3 (\<lambda>x y z f. ok (push (if z > 0 then U256 ((x * y) mod z) else 0) f))"

definition opSHL :: executionFunc where
  "opSHL E r = pop2 (\<lambda>shift v f.
     let shift = U256 shift; v = U256 v
     in ok (push (if shift \<ge> 256 then 0 else U256 (push_bit (unat (big_Uint64 shift)) v)) f))"

definition opSHR :: executionFunc where
  "opSHR E r = pop2 (\<lambda>shift v f.
     let shift = U256 shift; v = U256 v
     in ok (push (if shift \<ge> 256 then 0 else U256 (drop_bit (unat (big_Uint64 shift)) v)) f))"

definition opSAR :: executionFunc where
  "opSAR E r = pop2 (\<lambda>shift v f.
     let shift = U256 shift; v = S256 v
     in ok (push (if shift \<ge> 256 then U256 (if v \<ge> 0 then 0 else - 1)
                  else U256 (drop_bit (unat (big_Uint64 shift)) v)) f))"

section \<open>Environment\<close>

definition opSha3 :: executionFunc where
  "opSha3 E r = pop2 (\<lambda>offset sz f.
     obind (of_opt (mem_Get (big_Int64 offset) (big_Int64 sz) (fr_mem f))) (\<lambda>data.
       let h = keccak256 (ve_codec E) data;
           f = (if ve_EnablePreimageRecording E then swrite (sd_AddPreimage h data) f else f)
       in ok (push (big_SetBytes h) f)))"

definition opAddress :: executionFunc where
  "opAddress E r f = ok (push (hash_Big (ct_self (fr_contract f))) f)"

definition opBalance :: executionFunc where
  "opBalance E r = pop1 (\<lambda>slot f.
     let (b, f) = sread (sd_GetBalance (ve_codec E) (BigToAddressHash slot)) f in ok (push b f))"

definition opOrigin :: executionFunc where
  "opOrigin E r f = ok (push (hash_Big (ve_Origin E)) f)"

definition opCaller :: executionFunc where
  "opCaller E r f = ok (push (hash_Big (ct_CallerAddress (fr_contract f))) f)"

definition opCallValue :: executionFunc where
  "opCallValue E r f = ok (push (ct_value (fr_contract f)) f)"

definition opCallDataLoad :: executionFunc where
  "opCallDataLoad E r = pop1 (\<lambda>x f.
     obind (of_opt (getDataBig (ct_Input (fr_contract f)) x 32)) (\<lambda>d. ok (push (big_SetBytes d) f)))"

definition opCallDataSize :: executionFunc where
  "opCallDataSize E r f = ok (push (int (length (ct_Input (fr_contract f)))) f)"

text \<open>The copy of a piece of data into the memory, padded with zeros.\<close>

definition copy_data :: "int \<Rightarrow> int \<Rightarrow> int \<Rightarrow> bytes \<Rightarrow> frame \<Rightarrow> (bytes \<times> vm_error option \<times> frame) outcome" where
  "copy_data memOffset dataOffset len data f =
     obind (of_opt (getDataBig data dataOffset len)) (\<lambda>d.
       obind (of_opt (mem_Set (big_Uint64 memOffset) (big_Uint64 len) d (fr_mem f))) (\<lambda>m.
         ok (f\<lparr>fr_mem := m\<rparr>)))"

definition opCallDataCopy :: executionFunc where
  "opCallDataCopy E r = pop3 (\<lambda>memOffset dataOffset len f.
     copy_data memOffset dataOffset len (ct_Input (fr_contract f)) f)"

definition opReturnDataSize :: executionFunc where
  "opReturnDataSize E r f = ok (push (int (length (ev_returnData (fr_evm f)))) f)"

definition opReturnDataCopy :: executionFunc where
  "opReturnDataCopy E r = pop3 (\<lambda>memOffset dataOffset len f.
     let e = dataOffset + len; rd = ev_returnData (fr_evm f)
     in if big_BitLen e > 64 \<or> of_nat (length rd) < big_Uint64 e then Returns ([], Some errReturnDataOutOfBounds, f)
        else obind (of_opt (slice_of (uint (big_Uint64 dataOffset)) (uint (big_Uint64 e)) rd)) (\<lambda>d.
               obind (of_opt (mem_Set (big_Uint64 memOffset) (big_Uint64 len) d (fr_mem f))) (\<lambda>m.
                 ok (f\<lparr>fr_mem := m\<rparr>))))"

definition opExtCodeSize :: executionFunc where
  "opExtCodeSize E r = pop1 (\<lambda>slot f.
     let (n, f) = sread (sd_GetCodeSize (ve_codec E) (BigToAddressHash slot)) f in ok (push (int n) f))"

definition opCodeSize :: executionFunc where
  "opCodeSize E r f = ok (push (int (length (ct_Code (fr_contract f)))) f)"

definition opCodeCopy :: executionFunc where
  "opCodeCopy E r = pop3 (\<lambda>memOffset codeOffset len f.
     copy_data memOffset codeOffset len (ct_Code (fr_contract f)) f)"

definition opExtCodeCopy :: executionFunc where
  "opExtCodeCopy E r = pop1 (\<lambda>addr. pop3 (\<lambda>memOffset codeOffset len f.
     let (code, f) = sread (sd_GetCode (ve_codec E) (BigToAddressHash addr)) f
     in copy_data memOffset codeOffset len code f))"

definition opExtCodeHash :: executionFunc where
  "opExtCodeHash E r = pop1 (\<lambda>slot f.
     let address = BigToAddressHash slot; (e, f) = sread (sd_Empty (ve_codec E) address) f
     in if e then ok (push 0 f)
        else let (h, f) = sread (sd_GetCodeHash (ve_codec E) address) f in ok (push (big_SetBytes h) f))"

definition opGasprice :: executionFunc where
  "opGasprice E r f = ok (push (ve_GasPrice E) f)"

text \<open>A hash the chain does not know is a nil pointer.\<close>

definition opBlockhash :: executionFunc where
  "opBlockhash E r = pop1 (\<lambda>num f.
     if num > ve_BlockNumber E - 257 \<and> num < ve_BlockNumber E
     then obind (of_opt (ve_GetHash E (big_Uint64 num))) (\<lambda>h. ok (push (hash_Big h) f))
     else ok (push 0 f))"

definition opCoinbase :: executionFunc where
  "opCoinbase E r f = ok (push (hash_Big (ve_Coinbase E)) f)"

definition opTimestamp :: executionFunc where
  "opTimestamp E r f = ok (push (U256 (ve_Time E)) f)"

definition opNumber :: executionFunc where
  "opNumber E r f = ok (push (U256 (ve_BlockNumber E)) f)"

definition opGasLimit :: executionFunc where
  "opGasLimit E r f = ok (push (U256 (uint (ve_GasLimit E))) f)"

section \<open>Memory, storage and control flow\<close>

definition opPop :: executionFunc where
  "opPop E r = pop1 (\<lambda>_ f. ok f)"

definition opMload :: executionFunc where
  "opMload E r = pop1 (\<lambda>offset f.
     obind (of_opt (mem_Get (big_Int64 offset) 32 (fr_mem f))) (\<lambda>d. ok (push (big_SetBytes d) f)))"

definition opMstore :: executionFunc where
  "opMstore E r = pop2 (\<lambda>mStart val f.
     obind (of_opt (mem_Set32 (big_Uint64 mStart) val (fr_mem f))) (\<lambda>m. ok (f\<lparr>fr_mem := m\<rparr>)))"

definition opMstore8 :: executionFunc where
  "opMstore8 E r = pop2 (\<lambda>off val f.
     let off = big_Int64 off; val = big_Int64 val; st = mem_store (fr_mem f)
     in if 0 \<le> off \<and> off < int (length st)
        then ok (f\<lparr>fr_mem := (fr_mem f)\<lparr>mem_store := st[nat off := word_of_int val]\<rparr>\<rparr>)
        else Panics)"

definition opSload :: executionFunc where
  "opSload E r = pop1 (\<lambda>loc f.
     let (v, f) = sread (sd_GetState (ve_codec E) (ct_self (fr_contract f)) (BigToHash loc)) f
     in ok (push (big_SetBytes v) f))"

definition opSstore :: executionFunc where
  "opSstore E r = pop2 (\<lambda>loc val f.
     ok (swrite (sd_SetState (ve_codec E) (ct_self (fr_contract f)) (BigToHash loc) (BigToHash val)) f))"

definition jump_to :: "int \<Rightarrow> frame \<Rightarrow> (bytes \<times> vm_error option \<times> frame) outcome" where
  "jump_to pos f =
     obind (validJumpdest pos (fr_contract f) (fr_evm f)) (\<lambda>(valid, c, ev).
       let f = f\<lparr>fr_contract := c, fr_evm := ev\<rparr>
       in if valid then ok (f\<lparr>fr_pc := big_Uint64 pos\<rparr>) else Returns ([], Some errInvalidJump, f))"

definition opJump :: executionFunc where
  "opJump E r = pop1 jump_to"

definition opJumpi :: executionFunc where
  "opJumpi E r = pop2 (\<lambda>pos cond f. if cond \<noteq> 0 then jump_to pos f else ok (f\<lparr>fr_pc := fr_pc f + 1\<rparr>))"

definition opJumpdest :: executionFunc where
  "opJumpdest E r = ok"

definition opPc :: executionFunc where
  "opPc E r f = ok (push (uint (fr_pc f)) f)"

definition opMsize :: executionFunc where
  "opMsize E r f = ok (push (int (mem_Len (fr_mem f))) f)"

definition opGas :: executionFunc where
  "opGas E r f = ok (push (uint (ct_Gas (fr_contract f))) f)"

definition opReturn :: executionFunc where
  "opReturn E r = pop2 (\<lambda>offset sz f.
     obind (of_opt (mem_GetPtr (big_Int64 offset) (big_Int64 sz) (fr_mem f))) (\<lambda>d. Returns (d, None, f)))"

definition opRevert :: executionFunc where
  "opRevert E r = pop2 (\<lambda>offset sz f.
     obind (of_opt (mem_GetPtr (big_Int64 offset) (big_Int64 sz) (fr_mem f))) (\<lambda>d. Returns (d, None, f)))"

definition opStop :: executionFunc where
  "opStop E r = ok"

definition opSuicide :: executionFunc where
  "opSuicide E r f =
     (let self = ct_self (fr_contract f);
          (balance, f) = sread (sd_GetBalance (ve_codec E) self) f
      in pop1 (\<lambda>x f.
           let f = swrite (sd_AddBalance (ve_codec E) (BigToAddressHash x) balance) f;
               (_, f) = sread (sd_Suicide (ve_codec E) self) f
           in ok f) f)"

fun pop_topics :: "nat \<Rightarrow> int list \<Rightarrow> (bytes list \<times> int list) option" where
  "pop_topics 0 st = Some ([], st)"
| "pop_topics (Suc n) [] = None"
| "pop_topics (Suc n) (x # st) = map_option (\<lambda>(ts, st). (BigToHash x # ts, st)) (pop_topics n st)"

definition makeLog :: "nat \<Rightarrow> executionFunc" where
  "makeLog n E r = pop2 (\<lambda>mStart mSize f.
     obind (of_opt (pop_topics n (fr_stack f))) (\<lambda>(ts, st).
       obind (of_opt (mem_Get (big_Int64 mStart) (big_Int64 mSize) (fr_mem f))) (\<lambda>d.
         ok (swrite (sd_AddLog \<lparr>log_Address = ct_self (fr_contract f), Topics = ts, log_Data = d,
                                BlockNumber = big_Uint64 (ve_BlockNumber E), log_TxHash = ZeroHash, log_TxIndex = 0,
                                log_BlockHash = ZeroHash, log_Index = 0, Removed = False\<rparr>)
                (f\<lparr>fr_stack := st\<rparr>)))))"

definition makePush :: "u64 \<Rightarrow> nat \<Rightarrow> executionFunc" where
  "makePush sz pushByteSize E r f =
     (let code = ct_Code (fr_contract f); codeLen = int (length code);
          startMin = (if sint (fr_pc f + 1) < codeLen then sint (fr_pc f + 1) else codeLen);
          endMin = (if startMin + int pushByteSize < codeLen then startMin + int pushByteSize else codeLen)
      in obind (of_opt (Option.bind (slice_of startMin endMin code) (\<lambda>d. RightPadBytes d (int pushByteSize)))) (\<lambda>d.
           ok ((push (big_SetBytes d) f)\<lparr>fr_pc := fr_pc f + sz\<rparr>)))"

definition makeDup :: "nat \<Rightarrow> executionFunc" where
  "makeDup n E r f = obind (of_opt (st_dup n (fr_stack f))) (\<lambda>st. ok (f\<lparr>fr_stack := st\<rparr>))"

definition makeSwap :: "nat \<Rightarrow> executionFunc" where
  "makeSwap n E r f = obind (of_opt (st_swap (n + 1) (fr_stack f))) (\<lambda>st. ok (f\<lparr>fr_stack := st\<rparr>))"

end
