(* ===== verification/Evm_Gas.thy ===== *)
theory Evm_Gas
  imports Evm_Ops
begin

text \<open>
  The price of the operations (\<^verbatim>\<open>src/vm/gas.go\<close>, \<^verbatim>\<open>gas_table.go\<close>, \<^verbatim>\<open>common/types\<close>). A gas function
  may change the frame: it remembers the cost of the memory, the gas handed to a call, and the refund
  of a storage slot or of a contract that is destroyed.
\<close>

section \<open>Prices (\<^verbatim>\<open>common/types/protocol_params.go\<close>)\<close>

named_theorems gas_prices \<open>prices of the operations\<close>

definition GasQuickStep :: u64 where [gas_prices]: "GasQuickStep = 2"
definition GasFastestStep :: u64 where [gas_prices]: "GasFastestStep = 3"
definition GasFastStep :: u64 where [gas_prices]: "GasFastStep = 5"
definition GasMidStep :: u64 where [gas_prices]: "GasMidStep = 8"
definition GasSlowStep :: u64 where [gas_prices]: "GasSlowStep = 10"
definition GasExtStep :: u64 where [gas_prices]: "GasExtStep = 20"
definition CallValueTransferGas :: u64 where [gas_prices]: "CallValueTransferGas = 9000"
definition CallNewAccountGas :: u64 where [gas_prices]: "CallNewAccountGas = 25000"
definition QuadCoeffDiv :: u64 where [gas_prices]: "QuadCoeffDiv = 512"
definition LogDataGas :: u64 where [gas_prices]: "LogDataGas = 8"
definition CallStipend :: u64 where [gas_prices]: "CallStipend = 2300"
definition Sha3Gas :: u64 where [gas_prices]: "Sha3Gas = 30"
definition Sha3WordGas :: u64 where [gas_prices]: "Sha3WordGas = 6"
definition SstoreSetGas :: u64 where [gas_prices]: "SstoreSetGas = 20000"
definition SstoreResetGas :: u64 where [gas_prices]: "SstoreResetGas = 5000"
definition SstoreClearGas :: u64 where [gas_prices]: "SstoreClearGas = 5000"
definition SstoreRefundGas :: u64 where [gas_prices]: "SstoreRefundGas = 15000"
definition JumpdestGas :: u64 where [gas_prices]: "JumpdestGas = 1"
definition CreateDataGas :: u64 where [gas_prices]: "CreateDataGas = 200"
definition LogGas :: u64 where [gas_prices]: "LogGas = 375"
definition CopyGas :: u64 where [gas_prices]: "CopyGas = 3"
definition LogTopicGas :: u64 where [gas_prices]: "LogTopicGas = 375"
definition CreateGas :: u64 where [gas_prices]: "CreateGas = 32000"
definition Create2Gas :: u64 where [gas_prices]: "Create2Gas = 32000"
definition SuicideRefundGas :: u64 where [gas_prices]: "SuicideRefundGas = 24000"
definition MemoryGas :: u64 where [gas_prices]: "MemoryGas = 3"

record GasTable =
  gt_ExtcodeSize :: u64
  gt_ExtcodeCopy :: u64
  gt_ExtcodeHash :: u64
  gt_Balance :: u64
  gt_SLoad :: u64
  gt_Calls :: u64
  gt_Suicide :: u64
  gt_ExpByte :: u64
  gt_CreateBySuicide :: u64

definition DefaultGasTable :: GasTable where
  "DefaultGasTable =
     \<lparr>gt_ExtcodeSize = 700, gt_ExtcodeCopy = 700, gt_ExtcodeHash = 400, gt_Balance = 400, gt_SLoad = 200,
      gt_Calls = 700, gt_Suicide = 5000, gt_ExpByte = 50, gt_CreateBySuicide = 25000\<rparr>"

text \<open>The gas for a call is all but a 64th of what is left after the base price, or less if less is
  asked for.\<close>

definition callGas :: "GasTable \<Rightarrow> u64 \<Rightarrow> u64 \<Rightarrow> int \<Rightarrow> vm_error + u64" where
  "callGas gt availableGas base callCost =
     (let gas = (availableGas - base) - (availableGas - base) div 64
      in if gt_CreateBySuicide gt > 0 \<and> (big_BitLen callCost > 64 \<or> gas < big_Uint64 callCost) then Inr gas
         else if big_BitLen callCost > 64 then Inl errGasUintOverflow
         else Inr (big_Uint64 callCost))"

section \<open>Gas functions (\<^verbatim>\<open>gas_table.go\<close>)\<close>

type_synonym gasFunc = "GasTable \<Rightarrow> vm_env \<Rightarrow> frame \<Rightarrow> u64 \<Rightarrow> ((vm_error + u64) \<times> frame) outcome"

definition memoryGasCost :: "Memory \<Rightarrow> u64 \<Rightarrow> (vm_error + u64) \<times> Memory" where
  "memoryGasCost mem newMemSize =
     (if newMemSize = 0 then (Inr 0, mem)
      else if newMemSize > 0xffffffffe0 then (Inl errGasUintOverflow, mem)
      else let newMemSizeWords = toWordSize newMemSize; newMemSize = newMemSizeWords * 32
           in if newMemSize > of_nat (mem_Len mem)
              then let square = newMemSizeWords * newMemSizeWords;
                       linCoef = newMemSizeWords * MemoryGas;
                       quadCoef = square div QuadCoeffDiv;
                       newTotalFee = linCoef + quadCoef
                   in (Inr (newTotalFee - lastGasCost mem), mem\<lparr>lastGasCost := newTotalFee\<rparr>)
              else (Inr 0, mem))"

definition constGasFunc :: "u64 \<Rightarrow> gasFunc" where
  "constGasFunc gas gt E f memorySize = Returns (Inr gas, f)"

text \<open>The pieces the gas functions are made of: a checked sum, a price per word of a length on the
  stack, and the cost of the memory. The first overflow ends the computation.\<close>

definition gas_add :: "u64 \<Rightarrow> vm_error + u64 \<Rightarrow> vm_error + u64" where
  "gas_add x g =
     (case g of Inl e \<Rightarrow> Inl e
      | Inr gas \<Rightarrow> (case SafeAdd gas x of (s, overflow) \<Rightarrow> if overflow then Inl errGasUintOverflow else Inr s))"

definition word_gas :: "int \<Rightarrow> u64 \<Rightarrow> vm_error + u64 \<Rightarrow> vm_error + u64" where
  "word_gas len price g =
     (case g of Inl e \<Rightarrow> Inl e
      | Inr gas \<Rightarrow>
          (case bigUint64 len of (words, overflow) \<Rightarrow>
             if overflow then Inl errGasUintOverflow
             else case SafeMul (toWordSize words) price of (words, overflow) \<Rightarrow>
                    if overflow then Inl errGasUintOverflow else gas_add words (Inr gas)))"

definition mem_gas :: "(vm_error + u64 \<Rightarrow> vm_error + u64) \<Rightarrow> frame \<Rightarrow> u64 \<Rightarrow> ((vm_error + u64) \<times> frame) outcome" where
  "mem_gas g f memorySize =
     (case memoryGasCost (fr_mem f) memorySize of (r, m) \<Rightarrow> Returns (g r, f\<lparr>fr_mem := m\<rparr>))"

definition peek :: "nat \<Rightarrow> frame \<Rightarrow> (int \<Rightarrow> 'a outcome) \<Rightarrow> 'a outcome" where
  "peek n f g = obind (of_opt (st_Back n (fr_stack f))) g"

definition gasCallDataCopy :: gasFunc where
  "gasCallDataCopy gt E f memorySize =
     peek 2 f (\<lambda>len. mem_gas (\<lambda>g. word_gas len CopyGas (gas_add GasFastestStep g)) f memorySize)"

definition gasReturnDataCopy :: gasFunc where
  "gasReturnDataCopy gt E f memorySize =
     peek 2 f (\<lambda>len. mem_gas (\<lambda>g. word_gas len CopyGas (gas_add GasFastestStep g)) f memorySize)"

definition gasSStore :: gasFunc where
  "gasSStore gt E f memorySize =
     peek 1 f (\<lambda>y. peek 0 f (\<lambda>x.
       let (current, f) = sread (sd_GetState (ve_codec E) (ct_self (fr_contract f)) (BigToHash x)) f
       in if current = ZeroHash \<and> y \<noteq> 0 then Returns (Inr SstoreSetGas, f)
          else if current \<noteq> ZeroHash \<and> y = 0 then Returns (Inr SstoreClearGas, swrite (sd_AddRefund SstoreRefundGas) f)
          else Returns (Inr SstoreResetGas, f)))"

definition log_gas :: "u64 \<Rightarrow> u64 \<Rightarrow> vm_error + u64 \<Rightarrow> vm_error + u64" where
  "log_gas n requestedSize g =
     (case gas_add (n * LogTopicGas) (gas_add LogGas g) of
        Inl e \<Rightarrow> Inl e
      | Inr gas \<Rightarrow>
          (case SafeMul requestedSize LogDataGas of (memorySizeGas, overflow) \<Rightarrow>
             if overflow then Inl errGasUintOverflow else gas_add memorySizeGas (Inr gas)))"

definition makeGasLog :: "u64 \<Rightarrow> gasFunc" where
  "makeGasLog n gt E f memorySize =
     peek 1 f (\<lambda>len.
       case bigUint64 len of (requestedSize, overflow) \<Rightarrow>
         if overflow then Returns (Inl errGasUintOverflow, f)
         else mem_gas (log_gas n requestedSize) f memorySize)"

definition gasSha3 :: gasFunc where
  "gasSha3 gt E f memorySize =
     peek 1 f (\<lambda>len. mem_gas (\<lambda>g. word_gas len Sha3WordGas (gas_add Sha3Gas g)) f memorySize)"

definition gasCodeCopy :: gasFunc where
  "gasCodeCopy gt E f memorySize =
     peek 2 f (\<lambda>len. mem_gas (\<lambda>g. word_gas len CopyGas (gas_add GasFastestStep g)) f memorySize)"

definition gasExtCodeCopy :: gasFunc where
  "gasExtCodeCopy gt E f memorySize =
     peek 3 f (\<lambda>len. mem_gas (\<lambda>g. word_gas len CopyGas (gas_add (gt_ExtcodeCopy gt) g)) f memorySize)"

definition gasExtCodeHash :: gasFunc where
  "gasExtCodeHash gt E f memorySize = Returns (Inr (gt_ExtcodeHash gt), f)"

definition gasMLoad :: gasFunc where
  "gasMLoad gt E f memorySize = mem_gas (gas_add GasFastestStep) f memorySize"

definition gasMStore8 :: gasFunc where
  "gasMStore8 gt E f memorySize = mem_gas (gas_add GasFastestStep) f memorySize"

definition gasMStore :: gasFunc where
  "gasMStore gt E f memorySize = mem_gas (gas_add GasFastestStep) f memorySize"

definition gasCreate :: gasFunc where
  "gasCreate gt E f memorySize = mem_gas (gas_add CreateGas) f memorySize"

definition gasCreate2 :: gasFunc where
  "gasCreate2 gt E f memorySize =
     peek 2 f (\<lambda>len. mem_gas (\<lambda>g. word_gas len Sha3WordGas (gas_add Create2Gas g)) f memorySize)"

definition gasBalance :: gasFunc where
  "gasBalance gt E f memorySize = Returns (Inr (gt_Balance gt), f)"

definition gasExtCodeSize :: gasFunc where
  "gasExtCodeSize gt E f memorySize = Returns (Inr (gt_ExtcodeSize gt), f)"

definition gasSLoad :: gasFunc where
  "gasSLoad gt E f memorySize = Returns (Inr (gt_SLoad gt), f)"

definition gasExp :: gasFunc where
  "gasExp gt E f memorySize =
     peek 1 f (\<lambda>x.
       let expByteLen = of_nat ((big_BitLen x + 7) div 8)
       in Returns (gas_add GasSlowStep (Inr (expByteLen * gt_ExpByte gt)), f))"

text \<open>The tail the four kinds of call share: the gas the called contract gets, which is charged on top
  of the base price and remembered for the operation.\<close>

definition call_gas :: "GasTable \<Rightarrow> frame \<Rightarrow> vm_error + u64 \<Rightarrow> ((vm_error + u64) \<times> frame) outcome" where
  "call_gas gt f g =
     (case g of
        Inl e \<Rightarrow> Returns (Inl e, f)
      | Inr gas \<Rightarrow>
          peek 0 f (\<lambda>callCost.
            case callGas gt (ct_Gas (fr_contract f)) gas callCost of
              Inl e \<Rightarrow> Returns (Inl e, f\<lparr>fr_evm := (fr_evm f)\<lparr>callGasTemp := 0\<rparr>\<rparr>)
            | Inr t \<Rightarrow> Returns (gas_add t (Inr gas), f\<lparr>fr_evm := (fr_evm f)\<lparr>callGasTemp := t\<rparr>\<rparr>)))"

definition gasCall :: gasFunc where
  "gasCall gt E f memorySize =
     peek 2 f (\<lambda>v. peek 1 f (\<lambda>a.
       let transfersValue = (v \<noteq> 0);
           (e, f) = (if transfersValue then sread (sd_Empty (ve_codec E) (BigToAddressHash a)) f else (False, f));
           gas = gt_Calls gt;
           gas = (if transfersValue \<and> e then gas + CallNewAccountGas else gas);
           gas = (if transfersValue then gas + CallValueTransferGas else gas)
       in case memoryGasCost (fr_mem f) memorySize of (r, m) \<Rightarrow>
            (let f = f\<lparr>fr_mem := m\<rparr>
             in case r of Inl e \<Rightarrow> Returns (Inl e, f) | Inr memoryGas \<Rightarrow> call_gas gt f (gas_add memoryGas (Inr gas)))))"

definition gasCallCode :: gasFunc where
  "gasCallCode gt E f memorySize =
     peek 2 f (\<lambda>v.
       let gas = gt_Calls gt; gas = (if v \<noteq> 0 then gas + CallValueTransferGas else gas)
       in case memoryGasCost (fr_mem f) memorySize of (r, m) \<Rightarrow>
            (let f = f\<lparr>fr_mem := m\<rparr>
             in case r of Inl e \<Rightarrow> Returns (Inl e, f) | Inr memoryGas \<Rightarrow> call_gas gt f (gas_add memoryGas (Inr gas))))"

definition gasReturn :: gasFunc where
  "gasReturn gt E f memorySize = mem_gas (\<lambda>g. g) f memorySize"

definition gasRevert :: gasFunc where
  "gasRevert gt E f memorySize = mem_gas (\<lambda>g. g) f memorySize"

definition gasSuicide :: gasFunc where
  "gasSuicide gt E f memorySize =
     peek 0 f (\<lambda>x.
       let self = ct_self (fr_contract f);
           (e, f) = sread (sd_Empty (ve_codec E) (BigToAddressHash x)) f;
           (b, f) = (if e then sread (sd_GetBalance (ve_codec E) self) f else (0, f));
           gas = (if e \<and> b \<noteq> 0 then gt_Suicide gt + gt_CreateBySuicide gt else gt_Suicide gt);
           (h, f) = sread (sd_HasSuicided (ve_codec E) self) f
       in Returns (Inr gas, if h then f else swrite (sd_AddRefund SuicideRefundGas) f))"

definition gasDelegateCall :: gasFunc where
  "gasDelegateCall gt E f memorySize =
     (case memoryGasCost (fr_mem f) memorySize of (r, m) \<Rightarrow> call_gas gt (f\<lparr>fr_mem := m\<rparr>) (gas_add (gt_Calls gt) r))"

definition gasStaticCall :: gasFunc where
  "gasStaticCall gt E f memorySize =
     (case memoryGasCost (fr_mem f) memorySize of (r, m) \<Rightarrow> call_gas gt (f\<lparr>fr_mem := m\<rparr>) (gas_add (gt_Calls gt) r))"

definition gasPush :: gasFunc where "gasPush gt E f memorySize = Returns (Inr GasFastestStep, f)"
definition gasSwap :: gasFunc where "gasSwap gt E f memorySize = Returns (Inr GasFastestStep, f)"
definition gasDup :: gasFunc where "gasDup gt E f memorySize = Returns (Inr GasFastestStep, f)"

end
