(* ===== verification/Evm_Run.thy ===== *)
theory Evm_Run
  imports Evm_Gas
begin

text \<open>
  Running contracts: the precompiled contracts (\<^verbatim>\<open>src/vm/contracts.go\<close>), calls and creations
  (\<^verbatim>\<open>evm.go\<close>), the transfers of the chain (\<^verbatim>\<open>src/core/chain/evm.go\<close>), the operations that call, the table
  of operations (\<^verbatim>\<open>jump_table.go\<close>) and the loop of the interpreter (\<^verbatim>\<open>interpreter.go\<close>).

  A call runs the interpreter inside the interpreter. The definitions take the inner run as an argument
  (\<^verbatim>\<open>runner\<close>), and \<open>Run_at\<close> ties the knot with one unit of fuel per level of nesting; the loop of one run
  has a unit of fuel per unit of gas. \<^verbatim>\<open>Evm_Safety\<close> shows that this is always enough.
\<close>

section \<open>Precompiled contracts (\<^verbatim>\<open>contracts.go\<close>)\<close>

datatype PrecompiledContract =
  ecrecover | sha256hash | ripemd160hash | dataCopy | bigModExp | bn256Add | bn256ScalarMul | bn256Pairing

definition PrecompiledContracts :: "(bytes \<times> PrecompiledContract) list" where
  "PrecompiledContracts =
     [(BytesToAddressHash [1], ecrecover), (BytesToAddressHash [2], sha256hash), (BytesToAddressHash [3], ripemd160hash),
      (BytesToAddressHash [4], dataCopy), (BytesToAddressHash [5], bigModExp), (BytesToAddressHash [6], bn256Add),
      (BytesToAddressHash [7], bn256ScalarMul), (BytesToAddressHash [8], bn256Pairing)]"

definition words_price :: "bytes \<Rightarrow> u64 \<Rightarrow> u64 \<Rightarrow> u64" where
  "words_price input perWord base = of_nat (length input + 31) div 32 * perWord + base"

text \<open>The price of a modular exponentiation, by the lengths announced in the first three words.\<close>

definition modexp_complexity :: "int \<Rightarrow> int" where
  "modexp_complexity x =
     (if x \<le> 64 then x * x
      else if x \<le> 1024 then x * x div 4 + (96 * x - 3072)
      else x * x div 16 + (480 * x - 199680))"

definition modexp_lengths :: "bytes \<Rightarrow> (int \<times> int \<times> int) option" where
  "modexp_lengths input =
     Option.bind (getData input 0 32) (\<lambda>b. Option.bind (getData input 32 32) (\<lambda>e.
       Option.bind (getData input 64 32) (\<lambda>m. Some (big_SetBytes b, big_SetBytes e, big_SetBytes m))))"

definition bigModExp_RequiredGas :: "bytes \<Rightarrow> u64 option" where
  "bigModExp_RequiredGas input =
     Option.bind (modexp_lengths input) (\<lambda>(baseLen, expLen, modLen).
       let input = drop 96 input
       in Option.bind
            (if int (length input) \<le> baseLen then Some 0
             else map_option big_SetBytes (getData input (big_Uint64 baseLen) (if expLen > 32 then 32 else big_Uint64 expLen)))
            (\<lambda>expHead.
               let bitlen = big_BitLen expHead;
                   msb = (if bitlen > 0 then int bitlen - 1 else 0);
                   adjExpLen = (if expLen > 32 then 8 * (expLen - 32) else 0) + msb;
                   gas = modexp_complexity (BigMax modLen baseLen) * BigMax adjExpLen 1 div 20
               in Some (if big_BitLen gas > 64 then MaxUint64 else big_Uint64 gas)))"

definition bigModExp_Run :: "bytes \<Rightarrow> bytes option" where
  "bigModExp_Run input =
     Option.bind (modexp_lengths input) (\<lambda>(b, e, m).
       let baseLen = big_Uint64 b; expLen = big_Uint64 e; modLen = big_Uint64 m; input = drop 96 input
       in if baseLen = 0 \<and> modLen = 0 then Some []
          else Option.bind (getData input 0 baseLen) (\<lambda>base. Option.bind (getData input baseLen expLen) (\<lambda>ex.
                 Option.bind (getData input (baseLen + expLen) modLen) (\<lambda>md.
                   let md = big_SetBytes md
                   in if md = 0 then LeftPadBytes [] (sint modLen)
                      else LeftPadBytes (big_bytes (nat (big_SetBytes base ^ nat (big_SetBytes ex) mod md))) (sint modLen)))))"

definition secp256k1N :: int where
  "secp256k1N = 0xfffffffffffffffffffffffffffffffebaaedce6af48a03bbfd25e8cd0364141"

definition ValidateSignatureValues :: "byte \<Rightarrow> int \<Rightarrow> int \<Rightarrow> bool \<Rightarrow> bool" where
  "ValidateSignatureValues v r s homestead =
     (if r < 1 \<or> s < 1 then False
      else if homestead \<and> s > secp256k1N div 2 then False
      else r < secp256k1N \<and> s < secp256k1N \<and> (v = 0 \<or> v = 1))"

definition ecrecover_Run :: "vm_env \<Rightarrow> bytes \<Rightarrow> bytes option" where
  "ecrecover_Run E input =
     Option.bind (RightPadBytes input 128) (\<lambda>input.
       let r = big_SetBytes (take 32 (drop 64 input)); s = big_SetBytes (take 32 (drop 96 input)); v = input ! 63 - 27
       in if \<not> allZero (take 31 (drop 32 input)) \<or> \<not> ValidateSignatureValues v r s False then Some []
          else case ve_Ecrecover E (take 32 input) (take 64 (drop 64 input) @ [v]) of
                 None \<Rightarrow> Some []
               | Some pubKey \<Rightarrow> LeftPadBytes (drop 12 (keccak256 (ve_codec E) (drop 1 pubKey))) 32)"

definition bn256Add_Run :: "vm_env \<Rightarrow> bytes \<Rightarrow> (bytes \<times> vm_error option) option" where
  "bn256Add_Run E input =
     Option.bind (getData input 0 64) (\<lambda>a. case ve_G1_Unmarshal E a of
        None \<Rightarrow> Some ([], Some errPrecompile)
      | Some x \<Rightarrow> Option.bind (getData input 64 64) (\<lambda>b. case ve_G1_Unmarshal E b of
           None \<Rightarrow> Some ([], Some errPrecompile)
         | Some y \<Rightarrow> Some (ve_G1_Add E x y, None)))"

definition bn256ScalarMul_Run :: "vm_env \<Rightarrow> bytes \<Rightarrow> (bytes \<times> vm_error option) option" where
  "bn256ScalarMul_Run E input =
     Option.bind (getData input 0 64) (\<lambda>a. case ve_G1_Unmarshal E a of
        None \<Rightarrow> Some ([], Some errPrecompile)
      | Some p \<Rightarrow> Option.bind (getData input 64 32) (\<lambda>k. Some (ve_G1_ScalarMult E p (big_SetBytes k), None)))"

text \<open>The points of a pairing check; the length of the input is a multiple of 192.\<close>

fun pairing_points :: "vm_env \<Rightarrow> nat \<Rightarrow> bytes \<Rightarrow> (bytes list \<times> bytes list) option" where
  "pairing_points E 0 input = Some ([], [])"
| "pairing_points E (Suc n) input =
     (case ve_G1_Unmarshal E (take 64 input) of
        None \<Rightarrow> None
      | Some c \<Rightarrow> (case ve_G2_Unmarshal E (take 128 (drop 64 input)) of
           None \<Rightarrow> None
         | Some t \<Rightarrow> map_option (\<lambda>(cs, ts). (c # cs, t # ts)) (pairing_points E n (drop 192 input))))"

definition bn256Pairing_Run :: "vm_env \<Rightarrow> bytes \<Rightarrow> bytes \<times> vm_error option" where
  "bn256Pairing_Run E input =
     (if length input mod 192 > 0 then ([], Some errBadPairingInput)
      else case pairing_points E (length input div 192) input of
             None \<Rightarrow> ([], Some errPrecompile)
           | Some (cs, ts) \<Rightarrow> (replicate 31 0 @ [if ve_PairingCheck E cs ts then 1 else 0], None))"

fun RequiredGas :: "PrecompiledContract \<Rightarrow> bytes \<Rightarrow> u64 option" where
  "RequiredGas ecrecover input = Some 3000"
| "RequiredGas sha256hash input = Some (words_price input 12 60)"
| "RequiredGas ripemd160hash input = Some (words_price input 120 600)"
| "RequiredGas dataCopy input = Some (words_price input 3 15)"
| "RequiredGas bigModExp input = bigModExp_RequiredGas input"
| "RequiredGas bn256Add input = Some 500"
| "RequiredGas bn256ScalarMul input = Some 40000"
| "RequiredGas bn256Pairing input = Some (100000 + of_nat (length input div 192) * 80000)"

fun precompile_Run :: "vm_env \<Rightarrow> PrecompiledContract \<Rightarrow> bytes \<Rightarrow> (bytes \<times> vm_error option) option" where
  "precompile_Run E ecrecover input = map_option (\<lambda>b. (b, None)) (ecrecover_Run E input)"
| "precompile_Run E sha256hash input = Some (ve_sha256 E input, None)"
| "precompile_Run E ripemd160hash input = map_option (\<lambda>b. (b, None)) (LeftPadBytes (ve_ripemd160 E input) 32)"
| "precompile_Run E dataCopy input = Some (input, None)"
| "precompile_Run E bigModExp input = map_option (\<lambda>b. (b, None)) (bigModExp_Run input)"
| "precompile_Run E bn256Add input = bn256Add_Run E input"
| "precompile_Run E bn256ScalarMul input = bn256ScalarMul_Run E input"
| "precompile_Run E bn256Pairing input = Some (bn256Pairing_Run E input)"

definition RunPrecompiledContract ::
  "vm_env \<Rightarrow> PrecompiledContract \<Rightarrow> bytes \<Rightarrow> Contract \<Rightarrow> (bytes \<times> vm_error option \<times> Contract) outcome" where
  "RunPrecompiledContract E p input contract =
     obind (of_opt (RequiredGas p input)) (\<lambda>gas.
       case UseGas gas contract of (paid, contract) \<Rightarrow>
         if paid then obind (of_opt (precompile_Run E p input)) (\<lambda>(ret, err). Returns (ret, err, contract))
         else Returns ([], Some ErrOutOfGas, contract))"

section \<open>Transfers (\<^verbatim>\<open>core/chain/evm.go\<close>)\<close>

definition CanTransfer :: "state_codec \<Rightarrow> bytes \<Rightarrow> int \<Rightarrow> StateDB \<Rightarrow> bool \<times> StateDB" where
  "CanTransfer c addr amount s = (let (b, s) = sd_GetBalance c addr s in (b \<ge> amount, s))"

fun add_transfer :: "bytes \<Rightarrow> u64 \<Rightarrow> TransferInfo list \<Rightarrow> TransferInfo list option" where
  "add_transfer recipient amount [] = None"
| "add_transfer recipient amount (w # ws) =
     (if ti_To w = recipient then Some (w\<lparr>ti_Value := ti_Value w + amount\<rparr> # ws)
      else map_option ((#) w) (add_transfer recipient amount ws))"

definition record_transfer :: "bytes \<Rightarrow> bytes \<Rightarrow> u64 \<Rightarrow> (bytes \<times> TransferInfo list) list \<Rightarrow> (bytes \<times> TransferInfo list) list" where
  "record_transfer sender recipient amount tr =
     (let v = (case map_of tr sender of None \<Rightarrow> [] | Some v \<Rightarrow> v)
      in case add_transfer recipient amount v of
           Some v \<Rightarrow> AList.update sender v tr
         | None \<Rightarrow> AList.update sender (v @ [\<lparr>ti_From = sender, ti_To = recipient, ti_Value = amount\<rparr>]) tr)"

definition Transfer :: "state_codec \<Rightarrow> bytes \<Rightarrow> bytes \<Rightarrow> int \<Rightarrow> EVM \<Rightarrow> EVM" where
  "Transfer c sender recipient amount ev =
     (let s = sd_AddBalance c recipient amount (sd_SubBalance c sender amount (ev_StateDB ev));
          (isContract, s) = sd_IsContractAddr c sender s;
          ev = ev\<lparr>ev_StateDB := s\<rparr>
      in if isContract \<and> big_Uint64 amount > 0
         then ev\<lparr>ev_Transfers := record_transfer sender recipient (big_Uint64 amount) (ev_Transfers ev)\<rparr>
         else ev)"

definition ContractCreated :: "bytes \<Rightarrow> bytes \<Rightarrow> u64 \<Rightarrow> u64 \<Rightarrow> EVM \<Rightarrow> EVM" where
  "ContractCreated caller addr v nonce ev =
     ev\<lparr>ev_ContractCreatedItems := ev_ContractCreatedItems ev @
          [\<lparr>cc_Caller = caller, cc_Address = addr, cc_Nonce = nonce, cc_Value = v\<rparr>]\<rparr>"

section \<open>Calls and creations (\<^verbatim>\<open>evm.go\<close>)\<close>

definition CallCreateDepth :: nat where "CallCreateDepth = 1024"
definition MaxCodeSize :: nat where "MaxCodeSize = 24576"

text \<open>\<^verbatim>\<open>run\<close>: a precompiled contract at the address of the code, or the interpreter.\<close>

definition run :: "vm_env \<Rightarrow> runner \<Rightarrow> runner" where
  "run E interp ev contract input readOnly =
     (case Option.bind (ct_CodeAddr contract) (map_of PrecompiledContracts) of
        Some p \<Rightarrow> obind (RunPrecompiledContract E p input contract) (\<lambda>(ret, err, contract). Returns (ret, err, contract, ev))
      | None \<Rightarrow> interp ev contract input readOnly)"

text \<open>Reads and writes of the state database of the machine.\<close>

definition ev_read :: "(StateDB \<Rightarrow> 'a \<times> StateDB) \<Rightarrow> EVM \<Rightarrow> 'a \<times> EVM" where
  "ev_read g ev = (let (v, s) = g (ev_StateDB ev) in (v, ev\<lparr>ev_StateDB := s\<rparr>))"

definition ev_write :: "(StateDB \<Rightarrow> StateDB) \<Rightarrow> EVM \<Rightarrow> EVM" where
  "ev_write g ev = ev\<lparr>ev_StateDB := g (ev_StateDB ev)\<rparr>"

text \<open>What every call does with the result of the run: an error reverts the state to the snapshot and,
  unless the contract asked for the revert, takes the gas that is left.\<close>

definition finish_call ::
  "vm_env \<Rightarrow> int \<Rightarrow> bytes \<times> vm_error option \<times> Contract \<times> EVM \<Rightarrow> (bytes \<times> u64 \<times> vm_error option \<times> EVM) outcome" where
  "finish_call E snapshot =
     (\<lambda>(ret, err, contract, ev).
        case err of
          None \<Rightarrow> Returns (ret, ct_Gas contract, None, ev)
        | Some e \<Rightarrow>
            obind (of_opt (sd_RevertToSnapshot (ve_codec E) snapshot (ev_StateDB ev))) (\<lambda>s.
              let contract = (if e \<noteq> errExecutionReverted then snd (UseGas (ct_Gas contract) contract) else contract)
              in Returns (ret, ct_Gas contract, Some e, ev\<lparr>ev_StateDB := s\<rparr>)))"

text \<open>Loading the code at an address into a new contract.\<close>

definition load_code :: "vm_env \<Rightarrow> bytes \<Rightarrow> Contract \<Rightarrow> EVM \<Rightarrow> Contract \<times> EVM" where
  "load_code E addr contract ev =
     (let (hash, ev) = ev_read (sd_GetCodeHash (ve_codec E) addr) ev;
          (code, ev) = ev_read (sd_GetCode (ve_codec E) addr) ev
      in (SetCallCode addr hash code contract, ev))"

definition evm_Call ::
  "vm_env \<Rightarrow> runner \<Rightarrow> EVM \<Rightarrow> ContractRef \<Rightarrow> bytes \<Rightarrow> bytes \<Rightarrow> u64 \<Rightarrow> int \<Rightarrow> (bytes \<times> u64 \<times> vm_error option \<times> EVM) outcome" where
  "evm_Call E r ev caller addr input gas v =
     (if ve_NoRecursion E \<and> ev_depth ev > 0 then Returns ([], gas, None, ev)
      else if ev_depth ev > CallCreateDepth then Returns ([], gas, Some ErrDepth, ev)
      else let (can, ev) = ev_read (CanTransfer (ve_codec E) (ref_Address caller) v) ev
           in if \<not> can then Returns ([], gas, Some ErrInsufficientBalance, ev)
              else let (snapshot, ev) = ev_read sd_Snapshot ev;
                       (ex, ev) = ev_read (sd_Exist (ve_codec E) addr) ev
                   in if \<not> ex \<and> map_of PrecompiledContracts addr = None \<and> v = 0 then Returns ([], gas, None, ev)
                      else let ev = (if ex then ev else ev_write (sd_CreateAccount (ve_codec E) addr) ev);
                               ev = Transfer (ve_codec E) (ref_Address caller) addr v ev;
                               (contract, ev) = NewContract caller addr v gas ev;
                               (contract, ev) = load_code E addr contract ev
                           in obind (run E r ev contract input False) (finish_call E snapshot))"

definition evm_CallCode ::
  "vm_env \<Rightarrow> runner \<Rightarrow> EVM \<Rightarrow> ContractRef \<Rightarrow> bytes \<Rightarrow> bytes \<Rightarrow> u64 \<Rightarrow> int \<Rightarrow> (bytes \<times> u64 \<times> vm_error option \<times> EVM) outcome" where
  "evm_CallCode E r ev caller addr input gas v =
     (if ve_NoRecursion E \<and> ev_depth ev > 0 then Returns ([], gas, None, ev)
      else if ev_depth ev > CallCreateDepth then Returns ([], gas, Some ErrDepth, ev)
      else let (can, ev) = ev_read (CanTransfer (ve_codec E) (ref_Address caller) v) ev
           in if \<not> can then Returns ([], gas, Some ErrInsufficientBalance, ev)
              else let (snapshot, ev) = ev_read sd_Snapshot ev;
                       (contract, ev) = NewContract caller (ref_Address caller) v gas ev;
                       (contract, ev) = load_code E addr contract ev
                   in obind (run E r ev contract input False) (finish_call E snapshot))"

text \<open>A delegate call needs a contract as its caller; the conversion panics otherwise.\<close>

definition evm_DelegateCall ::
  "vm_env \<Rightarrow> runner \<Rightarrow> EVM \<Rightarrow> ContractRef \<Rightarrow> bytes \<Rightarrow> bytes \<Rightarrow> u64 \<Rightarrow> (bytes \<times> u64 \<times> vm_error option \<times> EVM) outcome" where
  "evm_DelegateCall E r ev caller addr input gas =
     (if ve_NoRecursion E \<and> ev_depth ev > 0 then Returns ([], gas, None, ev)
      else if ev_depth ev > CallCreateDepth then Returns ([], gas, Some ErrDepth, ev)
      else case caller of
             AccountRef _ \<Rightarrow> Panics
           | CallerContract parent \<Rightarrow>
               let (snapshot, ev) = ev_read sd_Snapshot ev;
                   (contract, ev) = NewContract caller (ref_Address caller) 0 gas ev;
                   (contract, ev) = load_code E addr (AsDelegate parent contract) ev
               in obind (run E r ev contract input False) (finish_call E snapshot))"

definition evm_StaticCall ::
  "vm_env \<Rightarrow> runner \<Rightarrow> EVM \<Rightarrow> ContractRef \<Rightarrow> bytes \<Rightarrow> bytes \<Rightarrow> u64 \<Rightarrow> (bytes \<times> u64 \<times> vm_error option \<times> EVM) outcome" where
  "evm_StaticCall E r ev caller addr input gas =
     (if ve_NoRecursion E \<and> ev_depth ev > 0 then Returns ([], gas, None, ev)
      else if ev_depth ev > CallCreateDepth then Returns ([], gas, Some ErrDepth, ev)
      else let (snapshot, ev) = ev_read sd_Snapshot ev;
               (contract, ev) = NewContract caller addr 0 gas ev;
               (contract, ev) = load_code E addr contract ev;
               ev = ev_write (sd_AddBalance (ve_codec E) addr 0) ev
           in obind (run E r ev contract input True) (finish_call E snapshot))"

definition CreateAddress :: "vm_env \<Rightarrow> bytes \<Rightarrow> u64 \<Rightarrow> bytes" where
  "CreateAddress E b nonce = BytesToAddressHash (drop 12 (keccak256 (ve_codec E) (ve_rlp_address_nonce E b nonce)))"

definition CreateAddress2 :: "vm_env \<Rightarrow> bytes \<Rightarrow> bytes \<Rightarrow> bytes \<Rightarrow> bytes" where
  "CreateAddress2 E b salt inithash =
     BytesToAddressHash (drop 12 (keccak256 (ve_codec E) ([0xff] @ b @ salt @ inithash)))"

text \<open>The end of a creation: the returned code is stored if it is short enough and paid for, otherwise
  the state is reverted.\<close>

definition finish_create ::
  "vm_env \<Rightarrow> int \<Rightarrow> bytes \<Rightarrow> bytes \<times> vm_error option \<times> Contract \<times> EVM \<Rightarrow>
   (bytes \<times> bytes \<times> u64 \<times> vm_error option \<times> EVM) outcome" where
  "finish_create E snapshot address =
     (\<lambda>(ret, err, contract, ev).
        let maxCodeSizeExceeded = (length ret > MaxCodeSize);
            (err, contract, ev) =
              (if err = None \<and> \<not> maxCodeSizeExceeded
               then case UseGas (of_nat (length ret) * CreateDataGas) contract of (paid, contract) \<Rightarrow>
                      if paid then (None, contract, ev_write (sd_SetCode (ve_codec E) address ret) ev)
                      else (Some ErrCodeStoreOutOfGas, contract, ev)
               else (err, contract, ev))
        in if maxCodeSizeExceeded \<or> err \<noteq> None
           then obind (of_opt (sd_RevertToSnapshot (ve_codec E) snapshot (ev_StateDB ev))) (\<lambda>s.
                  let contract = (if err \<noteq> Some errExecutionReverted then snd (UseGas (ct_Gas contract) contract) else contract);
                      err = (if maxCodeSizeExceeded \<and> err = None then Some errMaxCodeSizeExceeded else err)
                  in Returns (ret, address, ct_Gas contract, err, ev\<lparr>ev_StateDB := s\<rparr>))
           else Returns (ret, address, ct_Gas contract, None, ev))"

definition evm_create ::
  "vm_env \<Rightarrow> runner \<Rightarrow> EVM \<Rightarrow> ContractRef \<Rightarrow> bytes \<Rightarrow> bytes \<Rightarrow> u64 \<Rightarrow> int \<Rightarrow> bytes \<Rightarrow>
   (bytes \<times> bytes \<times> u64 \<times> vm_error option \<times> EVM) outcome" where
  "evm_create E r ev caller code hash gas v address =
     (let c = ve_codec E; self = ref_Address caller
      in if ev_depth ev > CallCreateDepth then Returns ([], ZeroAddressHash, gas, Some ErrDepth, ev)
         else let (can, ev) = ev_read (CanTransfer c self v) ev
              in if \<not> can then Returns ([], ZeroAddressHash, gas, Some ErrInsufficientBalance, ev)
                 else let (nonce, ev) = ev_read (sd_GetNonce c self) ev;
                          ev = ev_write (sd_SetNonce c self (nonce + 1)) ev;
                          (contractHash, ev) = ev_read (sd_GetCodeHash c address) ev;
                          (n, ev) = ev_read (sd_GetNonce c address) ev
                      in if n \<noteq> 0 \<or> contractHash \<noteq> ZeroHash \<and> contractHash \<noteq> BytesToHash (emptyCodeHash c)
                         then Returns ([], ZeroAddressHash, 0, Some ErrContractAddressCollision, ev)
                         else let (snapshot, ev) = ev_read sd_Snapshot ev;
                                  ev = ev_write (sd_CreateAccount c address) ev;
                                  ev = ev_write (sd_SetNonce c address 1) ev;
                                  ev = Transfer c self address v ev;
                                  ev = ContractCreated self address (big_Uint64 v) (nonce + 1) ev;
                                  (contract, ev) = NewContract caller address v gas ev;
                                  contract = SetCodeOptionalHash address code hash contract
                              in if ve_NoRecursion E \<and> ev_depth ev > 0 then Returns ([], address, gas, None, ev)
                                 else obind (run E r ev contract [] False) (finish_create E snapshot address))"

definition evm_Create ::
  "vm_env \<Rightarrow> runner \<Rightarrow> EVM \<Rightarrow> ContractRef \<Rightarrow> bytes \<Rightarrow> u64 \<Rightarrow> int \<Rightarrow>
   (bytes \<times> bytes \<times> u64 \<times> vm_error option \<times> EVM) outcome" where
  "evm_Create E r ev caller code gas v =
     (let (nonce, ev) = ev_read (sd_GetNonce (ve_codec E) (ref_Address caller)) ev
      in evm_create E r ev caller code ZeroHash gas v (CreateAddress E (ref_Address caller) (nonce + 1)))"

definition evm_Create2 ::
  "vm_env \<Rightarrow> runner \<Rightarrow> EVM \<Rightarrow> ContractRef \<Rightarrow> bytes \<Rightarrow> u64 \<Rightarrow> int \<Rightarrow> int \<Rightarrow>
   (bytes \<times> bytes \<times> u64 \<times> vm_error option \<times> EVM) outcome" where
  "evm_Create2 E r ev caller code gas endowment salt =
     (let hash = keccak256 (ve_codec E) code
      in evm_create E r ev caller code hash gas endowment
           (CreateAddress2 E (ref_Address caller) (BigToHash salt) hash))"

section \<open>The operations that call (\<^verbatim>\<open>instructions.go\<close>)\<close>

definition finish_create_op ::
  "frame \<Rightarrow> bytes \<times> bytes \<times> u64 \<times> vm_error option \<times> EVM \<Rightarrow> (bytes \<times> vm_error option \<times> frame) outcome" where
  "finish_create_op f =
     (\<lambda>(res, addr, returnGas, suberr, ev).
        let f = push (if suberr \<noteq> None then 0 else hash_Big addr) (f\<lparr>fr_evm := ev\<rparr>);
            f = f\<lparr>fr_contract := (fr_contract f)\<lparr>ct_Gas := ct_Gas (fr_contract f) + returnGas\<rparr>\<rparr>
        in Returns (if suberr = Some errExecutionReverted then res else [], None, f))"

text \<open>The gas for a creation, all but a 64th, is taken from the contract first.\<close>

definition take_gas :: "frame \<Rightarrow> u64 \<times> frame" where
  "take_gas f =
     (let gas = ct_Gas (fr_contract f) - ct_Gas (fr_contract f) div 64
      in (gas, f\<lparr>fr_contract := snd (UseGas gas (fr_contract f))\<rparr>))"

definition opCreate :: executionFunc where
  "opCreate E r = pop3 (\<lambda>v offset sz f.
     obind (of_opt (mem_Get (big_Int64 offset) (big_Int64 sz) (fr_mem f))) (\<lambda>input.
       let (gas, f) = take_gas f
       in obind (evm_Create E r (fr_evm f) (CallerContract (fr_contract f)) input gas v) (finish_create_op f)))"

definition opCreate2 :: executionFunc where
  "opCreate2 E r = pop3 (\<lambda>endowment offset sz. pop1 (\<lambda>salt f.
     obind (of_opt (mem_Get (big_Int64 offset) (big_Int64 sz) (fr_mem f))) (\<lambda>input.
       let (gas, f) = take_gas f
       in obind (evm_Create2 E r (fr_evm f) (CallerContract (fr_contract f)) input gas endowment salt) (finish_create_op f))))"

definition finish_call_op ::
  "int \<Rightarrow> int \<Rightarrow> frame \<Rightarrow> bytes \<times> u64 \<times> vm_error option \<times> EVM \<Rightarrow> (bytes \<times> vm_error option \<times> frame) outcome" where
  "finish_call_op retOffset retSize f =
     (\<lambda>(ret, returnGas, err, ev).
        let f = push (if err \<noteq> None then 0 else 1) (f\<lparr>fr_evm := ev\<rparr>)
        in obind (if err = None \<or> err = Some errExecutionReverted
                  then of_opt (mem_Set (big_Uint64 retOffset) (big_Uint64 retSize) ret (fr_mem f))
                  else Returns (fr_mem f)) (\<lambda>m.
             let f = f\<lparr>fr_mem := m, fr_contract := (fr_contract f)\<lparr>ct_Gas := ct_Gas (fr_contract f) + returnGas\<rparr>\<rparr>
             in Returns (ret, None, f)))"

definition opCall :: executionFunc where
  "opCall E r = pop1 (\<lambda>_. pop3 (\<lambda>addr v inOffset. pop3 (\<lambda>inSize retOffset retSize f.
     let gas = callGasTemp (fr_evm f); toAddr = BigToAddressHash addr; v = U256 v
     in obind (of_opt (mem_Get (big_Int64 inOffset) (big_Int64 inSize) (fr_mem f))) (\<lambda>args.
          let gas = (if v \<noteq> 0 then gas + CallStipend else gas)
          in obind (evm_Call E r (fr_evm f) (CallerContract (fr_contract f)) toAddr args gas v)
               (finish_call_op retOffset retSize f)))))"

definition opCallCode :: executionFunc where
  "opCallCode E r = pop1 (\<lambda>_. pop3 (\<lambda>addr v inOffset. pop3 (\<lambda>inSize retOffset retSize f.
     let gas = callGasTemp (fr_evm f); toAddr = BigToAddressHash addr; v = U256 v
     in obind (of_opt (mem_Get (big_Int64 inOffset) (big_Int64 inSize) (fr_mem f))) (\<lambda>args.
          let gas = (if v \<noteq> 0 then gas + CallStipend else gas)
          in obind (evm_CallCode E r (fr_evm f) (CallerContract (fr_contract f)) toAddr args gas v)
               (finish_call_op retOffset retSize f)))))"

definition opDelegateCall :: executionFunc where
  "opDelegateCall E r = pop1 (\<lambda>_. pop2 (\<lambda>addr inOffset. pop3 (\<lambda>inSize retOffset retSize f.
     obind (of_opt (mem_Get (big_Int64 inOffset) (big_Int64 inSize) (fr_mem f))) (\<lambda>args.
       obind (evm_DelegateCall E r (fr_evm f) (CallerContract (fr_contract f)) (BigToAddressHash addr) args
                (callGasTemp (fr_evm f)))
         (finish_call_op retOffset retSize f)))))"

definition opStaticCall :: executionFunc where
  "opStaticCall E r = pop1 (\<lambda>_. pop2 (\<lambda>addr inOffset. pop3 (\<lambda>inSize retOffset retSize f.
     obind (of_opt (mem_Get (big_Int64 inOffset) (big_Int64 inSize) (fr_mem f))) (\<lambda>args.
       obind (evm_StaticCall E r (fr_evm f) (CallerContract (fr_contract f)) (BigToAddressHash addr) args
                (callGasTemp (fr_evm f)))
         (finish_call_op retOffset retSize f)))))"

section \<open>The table of operations (\<^verbatim>\<open>jump_table.go\<close>)\<close>

record operation =
  op_execute :: executionFunc
  op_gasCost :: gasFunc
  op_validateStack :: "int list \<Rightarrow> vm_error option"
  op_memorySize :: "(int list \<Rightarrow> int option) option"
  op_halts :: bool
  op_jumps :: bool
  op_writes :: bool
  op_reverts :: bool
  op_returns :: bool

definition oper :: "executionFunc \<Rightarrow> gasFunc \<Rightarrow> (int list \<Rightarrow> vm_error option) \<Rightarrow> operation" where
  "oper ex g val =
     \<lparr>op_execute = ex, op_gasCost = g, op_validateStack = val, op_memorySize = None, op_halts = False,
      op_jumps = False, op_writes = False, op_reverts = False, op_returns = False\<rparr>"

named_theorems vm_opcodes \<open>byte values of the operations\<close>

definition OP_STOP :: byte where [vm_opcodes]: "OP_STOP = 0x00"
definition OP_ADD :: byte where [vm_opcodes]: "OP_ADD = 0x01"
definition OP_MUL :: byte where [vm_opcodes]: "OP_MUL = 0x02"
definition OP_SUB :: byte where [vm_opcodes]: "OP_SUB = 0x03"
definition OP_DIV :: byte where [vm_opcodes]: "OP_DIV = 0x04"
definition OP_SDIV :: byte where [vm_opcodes]: "OP_SDIV = 0x05"
definition OP_MOD :: byte where [vm_opcodes]: "OP_MOD = 0x06"
definition OP_SMOD :: byte where [vm_opcodes]: "OP_SMOD = 0x07"
definition OP_ADDMOD :: byte where [vm_opcodes]: "OP_ADDMOD = 0x08"
definition OP_MULMOD :: byte where [vm_opcodes]: "OP_MULMOD = 0x09"
definition OP_EXP :: byte where [vm_opcodes]: "OP_EXP = 0x0a"
definition OP_SIGNEXTEND :: byte where [vm_opcodes]: "OP_SIGNEXTEND = 0x0b"
definition OP_LT :: byte where [vm_opcodes]: "OP_LT = 0x10"
definition OP_GT :: byte where [vm_opcodes]: "OP_GT = 0x11"
definition OP_SLT :: byte where [vm_opcodes]: "OP_SLT = 0x12"
definition OP_SGT :: byte where [vm_opcodes]: "OP_SGT = 0x13"
definition OP_EQ :: byte where [vm_opcodes]: "OP_EQ = 0x14"
definition OP_ISZERO :: byte where [vm_opcodes]: "OP_ISZERO = 0x15"
definition OP_AND :: byte where [vm_opcodes]: "OP_AND = 0x16"
definition OP_OR :: byte where [vm_opcodes]: "OP_OR = 0x17"
definition OP_XOR :: byte where [vm_opcodes]: "OP_XOR = 0x18"
definition OP_NOT :: byte where [vm_opcodes]: "OP_NOT = 0x19"
definition OP_BYTE :: byte where [vm_opcodes]: "OP_BYTE = 0x1a"
definition OP_SHL :: byte where [vm_opcodes]: "OP_SHL = 0x1b"
definition OP_SHR :: byte where [vm_opcodes]: "OP_SHR = 0x1c"
definition OP_SAR :: byte where [vm_opcodes]: "OP_SAR = 0x1d"
definition OP_SHA3 :: byte where [vm_opcodes]: "OP_SHA3 = 0x20"
definition OP_ADDRESS :: byte where [vm_opcodes]: "OP_ADDRESS = 0x30"
definition OP_BALANCE :: byte where [vm_opcodes]: "OP_BALANCE = 0x31"
definition OP_ORIGIN :: byte where [vm_opcodes]: "OP_ORIGIN = 0x32"
definition OP_CALLER :: byte where [vm_opcodes]: "OP_CALLER = 0x33"
definition OP_CALLVALUE :: byte where [vm_opcodes]: "OP_CALLVALUE = 0x34"
definition OP_CALLDATALOAD :: byte where [vm_opcodes]: "OP_CALLDATALOAD = 0x35"
definition OP_CALLDATASIZE :: byte where [vm_opcodes]: "OP_CALLDATASIZE = 0x36"
definition OP_CALLDATACOPY :: byte where [vm_opcodes]: "OP_CALLDATACOPY = 0x37"
definition OP_CODESIZE :: byte where [vm_opcodes]: "OP_CODESIZE = 0x38"
definition OP_CODECOPY :: byte where [vm_opcodes]: "OP_CODECOPY = 0x39"
definition OP_GASPRICE :: byte where [vm_opcodes]: "OP_GASPRICE = 0x3a"
definition OP_EXTCODESIZE :: byte where [vm_opcodes]: "OP_EXTCODESIZE = 0x3b"
definition OP_EXTCODECOPY :: byte where [vm_opcodes]: "OP_EXTCODECOPY = 0x3c"
definition OP_RETURNDATASIZE :: byte where [vm_opcodes]: "OP_RETURNDATASIZE = 0x3d"
definition OP_RETURNDATACOPY :: byte where [vm_opcodes]: "OP_RETURNDATACOPY = 0x3e"
definition OP_EXTCODEHASH :: byte where [vm_opcodes]: "OP_EXTCODEHASH = 0x3f"
definition OP_BLOCKHASH :: byte where [vm_opcodes]: "OP_BLOCKHASH = 0x40"
definition OP_COINBASE :: byte where [vm_opcodes]: "OP_COINBASE = 0x41"
definition OP_TIMESTAMP :: byte where [vm_opcodes]: "OP_TIMESTAMP = 0x42"
definition OP_NUMBER :: byte where [vm_opcodes]: "OP_NUMBER = 0x43"
definition OP_GASLIMIT :: byte where [vm_opcodes]: "OP_GASLIMIT = 0x45"
definition OP_POP :: byte where [vm_opcodes]: "OP_POP = 0x50"
definition OP_MLOAD :: byte where [vm_opcodes]: "OP_MLOAD = 0x51"
definition OP_MSTORE :: byte where [vm_opcodes]: "OP_MSTORE = 0x52"
definition OP_MSTORE8 :: byte where [vm_opcodes]: "OP_MSTORE8 = 0x53"
definition OP_SLOAD :: byte where [vm_opcodes]: "OP_SLOAD = 0x54"
definition OP_SSTORE :: byte where [vm_opcodes]: "OP_SSTORE = 0x55"
definition OP_JUMP :: byte where [vm_opcodes]: "OP_JUMP = 0x56"
definition OP_JUMPI :: byte where [vm_opcodes]: "OP_JUMPI = 0x57"
definition OP_PC :: byte where [vm_opcodes]: "OP_PC = 0x58"
definition OP_MSIZE :: byte where [vm_opcodes]: "OP_MSIZE = 0x59"
definition OP_GAS :: byte where [vm_opcodes]: "OP_GAS = 0x5a"
definition OP_DUP1 :: byte where [vm_opcodes]: "OP_DUP1 = 0x80"
definition OP_SWAP1 :: byte where [vm_opcodes]: "OP_SWAP1 = 0x90"
definition OP_LOG0 :: byte where [vm_opcodes]: "OP_LOG0 = 0xa0"
definition OP_CREATE :: byte where [vm_opcodes]: "OP_CREATE = 0xf0"
definition OP_CALL :: byte where [vm_opcodes]: "OP_CALL = 0xf1"
definition OP_CALLCODE :: byte where [vm_opcodes]: "OP_CALLCODE = 0xf2"
definition OP_RETURN :: byte where [vm_opcodes]: "OP_RETURN = 0xf3"
definition OP_DELEGATECALL :: byte where [vm_opcodes]: "OP_DELEGATECALL = 0xf4"
definition OP_CREATE2 :: byte where [vm_opcodes]: "OP_CREATE2 = 0xf5"
definition OP_STATICCALL :: byte where [vm_opcodes]: "OP_STATICCALL = 0xfa"
definition OP_REVERT :: byte where [vm_opcodes]: "OP_REVERT = 0xfd"
definition OP_SELFDESTRUCT :: byte where [vm_opcodes]: "OP_SELFDESTRUCT = 0xff"

definition arith_table :: "(byte \<times> operation) list" where
  "arith_table =
     [(OP_STOP, (oper opStop (constGasFunc 0) (makeStackFunc 0 0))\<lparr>op_halts := True\<rparr>),
      (OP_ADD, oper opAdd (constGasFunc GasFastestStep) (makeStackFunc 2 1)),
      (OP_MUL, oper opMul (constGasFunc GasFastStep) (makeStackFunc 2 1)),
      (OP_SUB, oper opSub (constGasFunc GasFastestStep) (makeStackFunc 2 1)),
      (OP_DIV, oper opDiv (constGasFunc GasFastStep) (makeStackFunc 2 1)),
      (OP_SDIV, oper opSdiv (constGasFunc GasFastStep) (makeStackFunc 2 1)),
      (OP_MOD, oper opMod (constGasFunc GasFastStep) (makeStackFunc 2 1)),
      (OP_SMOD, oper opSmod (constGasFunc GasFastStep) (makeStackFunc 2 1)),
      (OP_ADDMOD, oper opAddmod (constGasFunc GasMidStep) (makeStackFunc 3 1)),
      (OP_MULMOD, oper opMulmod (constGasFunc GasMidStep) (makeStackFunc 3 1)),
      (OP_EXP, oper opExp gasExp (makeStackFunc 2 1)),
      (OP_SIGNEXTEND, oper opSignExtend (constGasFunc GasFastStep) (makeStackFunc 2 1)),
      (OP_LT, oper opLt (constGasFunc GasFastestStep) (makeStackFunc 2 1)),
      (OP_GT, oper opGt (constGasFunc GasFastestStep) (makeStackFunc 2 1)),
      (OP_SLT, oper opSlt (constGasFunc GasFastestStep) (makeStackFunc 2 1)),
      (OP_SGT, oper opSgt (constGasFunc GasFastestStep) (makeStackFunc 2 1)),
      (OP_EQ, oper opEq (constGasFunc GasFastestStep) (makeStackFunc 2 1)),
      (OP_ISZERO, oper opIszero (constGasFunc GasFastestStep) (makeStackFunc 1 1)),
      (OP_AND, oper opAnd (constGasFunc GasFastestStep) (makeStackFunc 2 1)),
      (OP_XOR, oper opXor (constGasFunc GasFastestStep) (makeStackFunc 2 1)),
      (OP_OR, oper opOr (constGasFunc GasFastestStep) (makeStackFunc 2 1)),
      (OP_NOT, oper opNot (constGasFunc GasFastestStep) (makeStackFunc 1 1)),
      (OP_BYTE, oper opByte (constGasFunc GasFastestStep) (makeStackFunc 2 1))]"

definition env_table :: "(byte \<times> operation) list" where
  "env_table =
     [(OP_SHA3, (oper opSha3 gasSha3 (makeStackFunc 2 1))\<lparr>op_memorySize := Some memorySha3\<rparr>),
      (OP_ADDRESS, oper opAddress (constGasFunc GasQuickStep) (makeStackFunc 0 1)),
      (OP_BALANCE, oper opBalance gasBalance (makeStackFunc 1 1)),
      (OP_ORIGIN, oper opOrigin (constGasFunc GasQuickStep) (makeStackFunc 0 1)),
      (OP_CALLER, oper opCaller (constGasFunc GasQuickStep) (makeStackFunc 0 1)),
      (OP_CALLVALUE, oper opCallValue (constGasFunc GasQuickStep) (makeStackFunc 0 1)),
      (OP_CALLDATALOAD, oper opCallDataLoad (constGasFunc GasFastestStep) (makeStackFunc 1 1)),
      (OP_CALLDATASIZE, oper opCallDataSize (constGasFunc GasQuickStep) (makeStackFunc 0 1)),
      (OP_CALLDATACOPY, (oper opCallDataCopy gasCallDataCopy (makeStackFunc 3 0))\<lparr>op_memorySize := Some memoryCallDataCopy\<rparr>),
      (OP_CODESIZE, oper opCodeSize (constGasFunc GasQuickStep) (makeStackFunc 0 1)),
      (OP_CODECOPY, (oper opCodeCopy gasCodeCopy (makeStackFunc 3 0))\<lparr>op_memorySize := Some memoryCodeCopy\<rparr>),
      (OP_GASPRICE, oper opGasprice (constGasFunc GasQuickStep) (makeStackFunc 0 1)),
      (OP_EXTCODESIZE, oper opExtCodeSize gasExtCodeSize (makeStackFunc 1 1)),
      (OP_EXTCODECOPY, (oper opExtCodeCopy gasExtCodeCopy (makeStackFunc 4 0))\<lparr>op_memorySize := Some memoryExtCodeCopy\<rparr>),
      (OP_BLOCKHASH, oper opBlockhash (constGasFunc GasExtStep) (makeStackFunc 1 1)),
      (OP_COINBASE, oper opCoinbase (constGasFunc GasQuickStep) (makeStackFunc 0 1)),
      (OP_TIMESTAMP, oper opTimestamp (constGasFunc GasQuickStep) (makeStackFunc 0 1)),
      (OP_NUMBER, oper opNumber (constGasFunc GasQuickStep) (makeStackFunc 0 1)),
      (OP_GASLIMIT, oper opGasLimit (constGasFunc GasQuickStep) (makeStackFunc 0 1))]"

definition flow_table :: "(byte \<times> operation) list" where
  "flow_table =
     [(OP_POP, oper opPop (constGasFunc GasQuickStep) (makeStackFunc 1 0)),
      (OP_MLOAD, (oper opMload gasMLoad (makeStackFunc 1 1))\<lparr>op_memorySize := Some memoryMLoad\<rparr>),
      (OP_MSTORE, (oper opMstore gasMStore (makeStackFunc 2 0))\<lparr>op_memorySize := Some memoryMStore\<rparr>),
      (OP_MSTORE8, (oper opMstore8 gasMStore8 (makeStackFunc 2 0))\<lparr>op_memorySize := Some memoryMStore8\<rparr>),
      (OP_SLOAD, oper opSload gasSLoad (makeStackFunc 1 1)),
      (OP_SSTORE, (oper opSstore gasSStore (makeStackFunc 2 0))\<lparr>op_writes := True\<rparr>),
      (OP_JUMP, (oper opJump (constGasFunc GasMidStep) (makeStackFunc 1 0))\<lparr>op_jumps := True\<rparr>),
      (OP_JUMPI, (oper opJumpi (constGasFunc GasSlowStep) (makeStackFunc 2 0))\<lparr>op_jumps := True\<rparr>),
      (OP_PC, oper opPc (constGasFunc GasQuickStep) (makeStackFunc 0 1)),
      (OP_MSIZE, oper opMsize (constGasFunc GasQuickStep) (makeStackFunc 0 1)),
      (OP_GAS, oper opGas (constGasFunc GasQuickStep) (makeStackFunc 0 1)),
      (OP_JUMPDEST, oper opJumpdest (constGasFunc JumpdestGas) (makeStackFunc 0 0))]"

definition push_table :: "(byte \<times> operation) list" where
  "push_table =
     map (\<lambda>n. (OP_PUSH1 + of_nat (n - 1), oper (makePush (of_nat n) n) gasPush (makeStackFunc 0 1))) [1..<33]"

definition dup_table :: "(byte \<times> operation) list" where
  "dup_table = map (\<lambda>n. (OP_DUP1 + of_nat (n - 1), oper (makeDup n) gasDup (makeDupStackFunc n))) [1..<17]"

definition swap_table :: "(byte \<times> operation) list" where
  "swap_table = map (\<lambda>n. (OP_SWAP1 + of_nat (n - 1), oper (makeSwap n) gasSwap (makeSwapStackFunc (n + 1)))) [1..<17]"

definition log_table :: "(byte \<times> operation) list" where
  "log_table =
     map (\<lambda>n. (OP_LOG0 + of_nat n,
                (oper (makeLog n) (makeGasLog (of_nat n)) (makeStackFunc (n + 2) 0))
                  \<lparr>op_memorySize := Some memoryLog, op_writes := True\<rparr>)) [0..<5]"

definition call_table :: "(byte \<times> operation) list" where
  "call_table =
     [(OP_CREATE, (oper opCreate gasCreate (makeStackFunc 3 1))\<lparr>op_memorySize := Some memoryCreate, op_writes := True, op_returns := True\<rparr>),
      (OP_CALL, (oper opCall gasCall (makeStackFunc 7 1))\<lparr>op_memorySize := Some memoryCall, op_returns := True\<rparr>),
      (OP_CALLCODE, (oper opCallCode gasCallCode (makeStackFunc 7 1))\<lparr>op_memorySize := Some memoryCall, op_returns := True\<rparr>),
      (OP_RETURN, (oper opReturn gasReturn (makeStackFunc 2 0))\<lparr>op_memorySize := Some memoryReturn, op_halts := True\<rparr>),
      (OP_SELFDESTRUCT, (oper opSuicide gasSuicide (makeStackFunc 1 0))\<lparr>op_halts := True, op_writes := True\<rparr>)]"

definition late_table :: "(byte \<times> operation) list" where
  "late_table =
     [(OP_DELEGATECALL, (oper opDelegateCall gasDelegateCall (makeStackFunc 6 1))\<lparr>op_memorySize := Some memoryDelegateCall, op_returns := True\<rparr>),
      (OP_STATICCALL, (oper opStaticCall gasStaticCall (makeStackFunc 6 1))\<lparr>op_memorySize := Some memoryStaticCall, op_returns := True\<rparr>),
      (OP_RETURNDATASIZE, oper opReturnDataSize (constGasFunc GasQuickStep) (makeStackFunc 0 1)),
      (OP_RETURNDATACOPY, (oper opReturnDataCopy gasReturnDataCopy (makeStackFunc 3 0))\<lparr>op_memorySize := Some memoryReturnDataCopy\<rparr>),
      (OP_REVERT, (oper opRevert gasRevert (makeStackFunc 2 0))\<lparr>op_memorySize := Some memoryRevert, op_reverts := True, op_returns := True\<rparr>)]"

definition shift_table :: "(byte \<times> operation) list" where
  "shift_table =
     [(OP_SHL, oper opSHL (constGasFunc GasFastestStep) (makeStackFunc 2 1)),
      (OP_SHR, oper opSHR (constGasFunc GasFastestStep) (makeStackFunc 2 1)),
      (OP_SAR, oper opSAR (constGasFunc GasFastestStep) (makeStackFunc 2 1))]"

definition last_table :: "(byte \<times> operation) list" where
  "last_table =
     [(OP_EXTCODEHASH, oper opExtCodeHash gasExtCodeHash (makeStackFunc 1 1)),
      (OP_CREATE2, (oper opCreate2 gasCreate2 (makeStackFunc 4 1))\<lparr>op_memorySize := Some memoryCreate2, op_writes := True, op_returns := True\<rparr>)]"

definition newInstructionSet :: "(byte \<times> operation) list" where
  "newInstructionSet =
     arith_table @ env_table @ flow_table @ push_table @ dup_table @ swap_table @ log_table @ call_table @
     late_table @ shift_table @ last_table"

section \<open>The interpreter (\<^verbatim>\<open>interpreter.go\<close>)\<close>

definition enforceRestrictions :: "byte \<Rightarrow> operation \<Rightarrow> frame \<Rightarrow> vm_error option outcome" where
  "enforceRestrictions code opn f =
     (if ev_readOnly (fr_evm f)
      then if op_writes opn then Returns (Some errWriteProtection)
           else if code = OP_CALL
           then peek 2 f (\<lambda>v. Returns (if big_BitLen v > 0 then Some errWriteProtection else None))
           else Returns None
      else Returns None)"

text \<open>The size the memory must have for the operation, in whole words.\<close>

definition step_memory :: "operation \<Rightarrow> frame \<Rightarrow> (vm_error + u64) outcome" where
  "step_memory opn f =
     (case op_memorySize opn of
        None \<Rightarrow> Returns (Inr 0)
      | Some ms \<Rightarrow>
          obind (of_opt (ms (fr_stack f))) (\<lambda>sz.
            case bigUint64 sz of (memSize, overflow) \<Rightarrow>
              if overflow then Returns (Inl errGasUintOverflow)
              else case SafeMul (toWordSize memSize) 32 of (memorySize, overflow) \<Rightarrow>
                     Returns (if overflow then Inl errGasUintOverflow else Inr memorySize)))"

datatype step = Next frame | Halt bytes "vm_error option" frame

text \<open>After the operation: an error, a revert or a halt ends the run, otherwise the program counter
  moves unless the operation has set it.\<close>

definition step_result :: "operation \<Rightarrow> bytes \<times> vm_error option \<times> frame \<Rightarrow> step outcome" where
  "step_result opn =
     (\<lambda>(res, err, f).
        let f = (if op_returns opn then f\<lparr>fr_evm := (fr_evm f)\<lparr>ev_returnData := res\<rparr>\<rparr> else f)
        in Returns (if err \<noteq> None then Halt [] err f
                    else if op_reverts opn then Halt res (Some errExecutionReverted) f
                    else if op_halts opn then Halt res None f
                    else if \<not> op_jumps opn then Next (f\<lparr>fr_pc := fr_pc f + 1\<rparr>)
                    else Next f))"

definition run_op :: "vm_env \<Rightarrow> runner \<Rightarrow> operation \<Rightarrow> u64 \<Rightarrow> frame \<Rightarrow> step outcome" where
  "run_op E r opn memorySize f =
     obind (op_gasCost opn DefaultGasTable E f memorySize) (\<lambda>(cost, f).
       case cost of
         Inl _ \<Rightarrow> Returns (Halt [] (Some ErrOutOfGas) f)
       | Inr cost \<Rightarrow>
           (case UseGas cost (fr_contract f) of (paid, contract) \<Rightarrow>
              let f = f\<lparr>fr_contract := contract\<rparr>
              in if \<not> paid then Returns (Halt [] (Some ErrOutOfGas) f)
                 else let f = (if memorySize > 0 then f\<lparr>fr_mem := mem_Resize memorySize (fr_mem f)\<rparr> else f)
                      in obind (op_execute opn E r f) (step_result opn)))"

definition run_step :: "vm_env \<Rightarrow> runner \<Rightarrow> frame \<Rightarrow> step outcome" where
  "run_step E r f =
     (let code = GetOp (fr_contract f) (fr_pc f)
      in case map_of newInstructionSet code of
           None \<Rightarrow> Returns (Halt [] (Some (errInvalidOpcode code)) f)
         | Some opn \<Rightarrow>
             (case op_validateStack opn (fr_stack f) of
                Some e \<Rightarrow> Returns (Halt [] (Some e) f)
              | None \<Rightarrow>
                  obind (enforceRestrictions code opn f) (\<lambda>restr.
                    case restr of
                      Some e \<Rightarrow> Returns (Halt [] (Some e) f)
                    | None \<Rightarrow>
                        obind (step_memory opn f) (\<lambda>ms.
                          case ms of
                            Inl e \<Rightarrow> Returns (Halt [] (Some e) f)
                          | Inr memorySize \<Rightarrow> run_op E r opn memorySize f))))"

fun run_loop :: "vm_env \<Rightarrow> runner \<Rightarrow> nat \<Rightarrow> frame \<Rightarrow> (bytes \<times> vm_error option \<times> frame) outcome" where
  "run_loop E r 0 f = OutOfFuel"
| "run_loop E r (Suc n) f =
     (if ev_abort (fr_evm f) then Returns ([], None, f)
      else obind (run_step E r f) (\<lambda>s.
             case s of Next f \<Rightarrow> run_loop E r n f | Halt ret err f \<Rightarrow> Returns (ret, err, f)))"

definition interpreter_Run :: "vm_env \<Rightarrow> runner \<Rightarrow> runner" where
  "interpreter_Run E r ev contract input readOnly =
     (let sets = (readOnly \<and> \<not> ev_readOnly ev);
          ev = ev\<lparr>ev_depth := ev_depth ev + 1, ev_readOnly := (ev_readOnly ev \<or> sets), ev_returnData := []\<rparr>;
          leave = (\<lambda>ev. ev\<lparr>ev_depth := ev_depth ev - 1, ev_readOnly := (if sets then False else ev_readOnly ev)\<rparr>)
      in if ct_Code contract = [] then Returns ([], None, contract, leave ev)
         else obind (run_loop E r (unat (ct_Gas contract) + 1)
                       \<lparr>fr_pc = 0, fr_contract = contract\<lparr>ct_Input := input\<rparr>, fr_mem = NewMemory, fr_stack = [],
                        fr_evm = ev\<rparr>)
                (\<lambda>(ret, err, f). Returns (ret, err, fr_contract f, leave (fr_evm f))))"

text \<open>The interpreter with so many levels of calls.\<close>

fun Run_at :: "vm_env \<Rightarrow> nat \<Rightarrow> runner" where
  "Run_at E 0 ev contract input readOnly = OutOfFuel"
| "Run_at E (Suc d) ev contract input readOnly = interpreter_Run E (Run_at E d) ev contract input readOnly"

definition call_levels :: nat where "call_levels = CallCreateDepth + 2"

definition NewEVM :: "StateDB \<Rightarrow> EVM" where
  "NewEVM statedb =
     \<lparr>ev_StateDB = statedb, ev_depth = 0, callGasTemp = 0, ev_abort = False, ev_readOnly = False, ev_returnData = [],
      ev_jumpdests = [], ev_Transfers = [], ev_ContractCreatedItems = []\<rparr>"

definition Cancel :: "EVM \<Rightarrow> EVM" where
  "Cancel ev = ev\<lparr>ev_abort := True\<rparr>"

end
