(* ===== verification/Evm_Safety.thy ===== *)
theory Evm_Safety
  imports Evm_Run
begin

text \<open>
  What running a contract guarantees whatever its code: it ends, it gives back at most the gas it got,
  every change of the state database is recorded in the journal, and a call that fails leaves the state as
  it was. The state database enters through the locale \<open>journaled\<close>, the contract of the snapshots of
  \<^verbatim>\<open>vm.StateDB\<close>.
\<close>

section \<open>The contract of a journaled state\<close>

locale journaled =
  fixes inv :: "'s \<Rightarrow> bool"
    and step :: "'s \<Rightarrow> 's \<Rightarrow> bool"
    and snapshot :: "'s \<Rightarrow> 'i \<times> 's"
    and revert :: "'i \<Rightarrow> 's \<Rightarrow> 's option"
    and view :: "'s \<Rightarrow> 'v"
  assumes step_trans: "step s t \<Longrightarrow> step t u \<Longrightarrow> step s u"
    and step_inv: "step s t \<Longrightarrow> inv s \<Longrightarrow> inv t"
    and step_cond: "(inv s \<Longrightarrow> step s t) \<Longrightarrow> step s t"
    and snapshot_step: "step s (snd (snapshot s))"
    and revert_back: "inv s \<Longrightarrow> snapshot s = (i, s1) \<Longrightarrow> step s1 t \<Longrightarrow>
      \<exists>u. revert i t = Some u \<and> view u = view s \<and> step s u"
begin

text \<open>Work done after a snapshot and reverted is one step that leaves the view alone.\<close>

lemma attempt:
  assumes "snapshot s = (i, s1)" "step s1 t" "revert i t = Some u"
  shows "step s u" "inv s \<Longrightarrow> view u = view s"
  using revert_back [OF _ assms(1,2)] assms(3) step_cond [of s u] by auto

text \<open>Work that is kept.\<close>

lemma kept:
  assumes "snapshot s = (i, s1)" "step s1 t"
  shows "step s t"
  using snapshot_step [of s] assms step_trans by (metis snd_conv)

lemma revert_succeeds:
  assumes "snapshot s = (i, s1)" "step s1 t" "inv s"
  shows "revert i t \<noteq> None"
  using revert_back [OF assms(3,1,2)] by auto

end

interpretation ws: journaled "sd_inv c" "jstep c" sd_Snapshot "sd_RevertToSnapshot c" "abs_state c" for c
proof unfold_locales
  fix s t u i s1
  show "jstep c s t \<Longrightarrow> jstep c t u \<Longrightarrow> jstep c s u" by (rule jstep_trans)
  show "jstep c s t \<Longrightarrow> sd_inv c s \<Longrightarrow> sd_inv c t" by (simp add: jstep_def)
  show "(sd_inv c s \<Longrightarrow> jstep c s t) \<Longrightarrow> jstep c s t" by (rule jstepI)
  show "jstep c s (snd (sd_Snapshot s))" by (rule jstep_Snapshot)
  show "sd_inv c s \<Longrightarrow> sd_Snapshot s = (i, s1) \<Longrightarrow> jstep c s1 t \<Longrightarrow>
    \<exists>u. sd_RevertToSnapshot c i t = Some u \<and> abs_state c u = abs_state c s \<and> jstep c s u"
    using revert_restores by blast
qed

section \<open>Reasoning on results\<close>

text \<open>\<open>wp m P\<close>: the computation ends, and unless it panics its result satisfies \<open>P\<close>.\<close>

definition wp :: "'a outcome \<Rightarrow> ('a \<Rightarrow> bool) \<Rightarrow> bool" where
  "wp m P = (case m of Returns x \<Rightarrow> P x | Panics \<Rightarrow> True | OutOfFuel \<Rightarrow> False)"

lemma wp_simps [simp]:
  "wp (Returns x) P = P x" "wp Panics P" "\<not> wp OutOfFuel P"
  "wp (obind m g) Q = wp m (\<lambda>x. wp (g x) Q)" "wp (of_opt a) R = (\<forall>v. a = Some v \<longrightarrow> R v)"
  by (simp_all add: wp_def obind_def of_opt_def split: outcome.split option.split)

lemma wp_mono: "wp m P \<Longrightarrow> (\<And>x. P x \<Longrightarrow> Q x) \<Longrightarrow> wp m Q"
  by (auto simp: wp_def split: outcome.splits)

lemma wp_if [simp]: "wp (if b then m else m') P = (if b then wp m P else wp m' P)" by simp

lemma wp_pop1 [simp]: "wp (pop1 g f) P = (\<forall>x st. fr_stack f = x # st \<longrightarrow> wp (g x (f\<lparr>fr_stack := st\<rparr>)) P)"
  by (simp add: pop1_def split: list.split)

lemma wp_ok [simp]: "wp (ok f) P = P ([], None, f)" by (simp add: ok_def)

lemma wp_peek [simp]: "wp (peek n f g) P = (\<forall>v. st_Back n (fr_stack f) = Some v \<longrightarrow> wp (g v) P)"
  by (simp add: peek_def)

lemma push_sel [simp]:
  "fr_evm (push v f) = fr_evm f" "fr_contract (push v f) = fr_contract f" "fr_mem (push v f) = fr_mem f"
  "fr_pc (push v f) = fr_pc f" "fr_stack (push v f) = v # fr_stack f"
  by (simp_all add: push_def)

section \<open>Steps of the machine\<close>

definition est :: "vm_env \<Rightarrow> EVM \<Rightarrow> EVM \<Rightarrow> bool" where
  "est E ev ev' \<longleftrightarrow>
     jstep (ve_codec E) (ev_StateDB ev) (ev_StateDB ev') \<and> ev_depth ev' = ev_depth ev \<and>
     ev_readOnly ev' = ev_readOnly ev \<and> ev_abort ev' = ev_abort ev"

lemma est_refl [simp]: "est E ev ev" by (simp add: est_def)

lemma est_trans [trans]: "est E a b \<Longrightarrow> est E b c \<Longrightarrow> est E a c"
  using jstep_trans by (auto simp: est_def)

lemma est_fields [simp]:
  "est E ev (ev'\<lparr>ev_returnData := x\<rparr>) = est E ev ev'" "est E ev (ev'\<lparr>callGasTemp := g\<rparr>) = est E ev ev'"
  "est E ev (ev'\<lparr>ev_jumpdests := j\<rparr>) = est E ev ev'" "est E ev (ev'\<lparr>ev_Transfers := t\<rparr>) = est E ev ev'"
  "est E ev (ev'\<lparr>ev_ContractCreatedItems := i\<rparr>) = est E ev ev'"
  by (simp_all add: est_def)

lemma est_db: "jstep (ve_codec E) (ev_StateDB ev) s \<Longrightarrow> est E ev (ev\<lparr>ev_StateDB := s\<rparr>)"
  by (simp add: est_def)

lemma est_write: "(\<And>s. jstep (ve_codec E) s (g s)) \<Longrightarrow> est E ev (ev_write g ev)"
  by (simp add: ev_write_def est_db)

lemma est_read: "(\<And>s. jstep (ve_codec E) s (snd (g s))) \<Longrightarrow> est E ev (snd (ev_read g ev))"
  by (simp add: ev_read_def est_db split_beta)

text \<open>\<open>fstep n\<close>: a step of a frame that gives the contract at most \<open>n\<close> units of gas.\<close>

definition fstep :: "vm_env \<Rightarrow> nat \<Rightarrow> frame \<Rightarrow> frame \<Rightarrow> bool" where
  "fstep E n f f' \<longleftrightarrow> est E (fr_evm f) (fr_evm f') \<and>
     unat (ct_Gas (fr_contract f')) \<le> unat (ct_Gas (fr_contract f)) + n"

lemma fstep_refl [simp]: "fstep E n f f" by (simp add: fstep_def)

lemma fstep_trans: "fstep E n f g \<Longrightarrow> fstep E m g h \<Longrightarrow> fstep E (n + m) f h"
  using est_trans by (fastforce simp: fstep_def)

lemma fstep_upd [simp]:
  "fstep E n f (f'\<lparr>fr_stack := st\<rparr>) = fstep E n f f'" "fstep E n f (f'\<lparr>fr_pc := p\<rparr>) = fstep E n f f'"
  "fstep E n f (f'\<lparr>fr_mem := m\<rparr>) = fstep E n f f'" "fstep E n f (push v f') = fstep E n f f'"
  "fstep E n (f\<lparr>fr_stack := st\<rparr>) f' = fstep E n f f'" "fstep E n (f\<lparr>fr_mem := m\<rparr>) f' = fstep E n f f'"
  by (simp_all add: fstep_def)

lemma fstep_write: "(\<And>s. jstep (ve_codec E) s (g s)) \<Longrightarrow> fstep E n f f' \<Longrightarrow> fstep E n f (swrite g f')"
  using jstep_trans by (auto simp: fstep_def swrite_def est_def)

lemma fstep_read: "(\<And>s. jstep (ve_codec E) s (snd (g s))) \<Longrightarrow> fstep E n f f' \<Longrightarrow> fstep E n f (snd (sread g f'))"
  using jstep_trans by (auto simp: fstep_def sread_def est_def split_beta)

lemma sread_swrite_sel [simp]:
  "fr_contract (snd (sread g f)) = fr_contract f" "fr_stack (snd (sread g f)) = fr_stack f" "fr_mem (snd (sread g f)) = fr_mem f"
  "fr_pc (snd (sread g f)) = fr_pc f"
  "fr_contract (swrite h f) = fr_contract f" "fr_stack (swrite h f) = fr_stack f" "fr_mem (swrite h f) = fr_mem f"
  by (simp_all add: sread_def swrite_def split_beta)

section \<open>The operations\<close>

abbreviation fsafe :: "vm_env \<Rightarrow> nat \<Rightarrow> frame \<Rightarrow> (bytes \<times> vm_error option \<times> frame) outcome \<Rightarrow> bool" where
  "fsafe E n f m \<equiv> wp m (\<lambda>(ret, err, f'). fstep E n f f')"

lemmas arith_defs = opAdd_def opSub_def opMul_def opDiv_def opSdiv_def opMod_def opSmod_def opExp_def opSignExtend_def
  opNot_def opLt_def opGt_def opSlt_def opSgt_def opEq_def opIszero_def opAnd_def opOr_def opXor_def opByte_def
  opAddmod_def opMulmod_def opSHL_def opSHR_def opSAR_def

lemmas env_defs = opSha3_def opAddress_def opBalance_def opOrigin_def opCaller_def opCallValue_def opCallDataLoad_def
  opCallDataSize_def opCallDataCopy_def opReturnDataSize_def opReturnDataCopy_def opExtCodeSize_def opCodeSize_def
  opCodeCopy_def opExtCodeCopy_def opExtCodeHash_def opGasprice_def opBlockhash_def opCoinbase_def opTimestamp_def
  opNumber_def opGasLimit_def copy_data_def

lemmas flow_defs = opPop_def opMload_def opMstore_def opMstore8_def opSload_def opSstore_def opJump_def opJumpi_def
  opJumpdest_def opPc_def opMsize_def opGas_def opReturn_def opRevert_def opStop_def opSuicide_def makeLog_def
  makePush_def makeDup_def makeSwap_def

lemma arith_fsafe:
  "fsafe E 0 f (opAdd E r f)" "fsafe E 0 f (opSub E r f)" "fsafe E 0 f (opMul E r f)" "fsafe E 0 f (opDiv E r f)"
  "fsafe E 0 f (opSdiv E r f)" "fsafe E 0 f (opMod E r f)" "fsafe E 0 f (opSmod E r f)" "fsafe E 0 f (opExp E r f)"
  "fsafe E 0 f (opSignExtend E r f)" "fsafe E 0 f (opNot E r f)" "fsafe E 0 f (opLt E r f)" "fsafe E 0 f (opGt E r f)"
  "fsafe E 0 f (opSlt E r f)" "fsafe E 0 f (opSgt E r f)" "fsafe E 0 f (opEq E r f)" "fsafe E 0 f (opIszero E r f)"
  "fsafe E 0 f (opAnd E r f)" "fsafe E 0 f (opOr E r f)" "fsafe E 0 f (opXor E r f)" "fsafe E 0 f (opByte E r f)"
  "fsafe E 0 f (opAddmod E r f)" "fsafe E 0 f (opMulmod E r f)" "fsafe E 0 f (opSHL E r f)" "fsafe E 0 f (opSHR E r f)"
  "fsafe E 0 f (opSAR E r f)"
  by (simp_all add: arith_defs pop2_def pop3_def Let_def)

lemma env_fsafe:
  assumes "keccak_ok (ve_codec E)"
  shows "fsafe E 0 f (opSha3 E r f)" "fsafe E 0 f (opAddress E r f)" "fsafe E 0 f (opBalance E r f)"
    "fsafe E 0 f (opOrigin E r f)" "fsafe E 0 f (opCaller E r f)" "fsafe E 0 f (opCallValue E r f)"
    "fsafe E 0 f (opCallDataLoad E r f)" "fsafe E 0 f (opCallDataSize E r f)" "fsafe E 0 f (opCallDataCopy E r f)"
    "fsafe E 0 f (opReturnDataSize E r f)" "fsafe E 0 f (opReturnDataCopy E r f)" "fsafe E 0 f (opExtCodeSize E r f)"
    "fsafe E 0 f (opCodeSize E r f)" "fsafe E 0 f (opCodeCopy E r f)" "fsafe E 0 f (opExtCodeCopy E r f)"
    "fsafe E 0 f (opExtCodeHash E r f)" "fsafe E 0 f (opGasprice E r f)" "fsafe E 0 f (opBlockhash E r f)"
    "fsafe E 0 f (opCoinbase E r f)" "fsafe E 0 f (opTimestamp E r f)" "fsafe E 0 f (opNumber E r f)"
    "fsafe E 0 f (opGasLimit E r f)"
  by (auto simp: env_defs pop2_def pop3_def Let_def split_beta jstep_ops assms
      intro!: fstep_read fstep_write split: prod.split)

lemma validJumpdest_wp:
  "wp (validJumpdest d c ev) (\<lambda>(b, c', ev'). ct_Gas c' = ct_Gas c \<and> est E ev ev')"
  by (auto simp: validJumpdest_def Let_def split: option.split)

lemma jump_to_fsafe: "fsafe E 0 f (jump_to pos f)"
  unfolding jump_to_def wp_simps
  by (rule wp_mono [OF validJumpdest_wp [of _ _ _ E]]) (auto simp: fstep_def Let_def)

lemma flow_fsafe:
  assumes "keccak_ok (ve_codec E)"
  shows "fsafe E 0 f (opPop E r f)" "fsafe E 0 f (opMload E r f)" "fsafe E 0 f (opMstore E r f)"
    "fsafe E 0 f (opMstore8 E r f)" "fsafe E 0 f (opSload E r f)" "fsafe E 0 f (opSstore E r f)"
    "fsafe E 0 f (opJumpdest E r f)" "fsafe E 0 f (opPc E r f)"
    "fsafe E 0 f (opMsize E r f)" "fsafe E 0 f (opGas E r f)" "fsafe E 0 f (opReturn E r f)" "fsafe E 0 f (opRevert E r f)"
    "fsafe E 0 f (opStop E r f)" "fsafe E 0 f (opSuicide E r f)" "fsafe E 0 f (makeLog n E r f)" "fsafe E 0 f (makePush sz n E r f)"
    "fsafe E 0 f (makeDup n E r f)" "fsafe E 0 f (makeSwap n E r f)"
  by (auto simp: flow_defs pop2_def pop3_def Let_def split_beta jstep_ops assms
      intro!: fstep_read fstep_write split: prod.split)

lemma jump_fsafe: "fsafe E 0 f (opJump E r f)" "fsafe E 0 f (opJumpi E r f)"
proof -
  have "fsafe E 0 f (jump_to x (f\<lparr>fr_stack := st\<rparr>))" for x st
    using jump_to_fsafe [where E = E and f = "f\<lparr>fr_stack := st\<rparr>" and pos = x] by simp
  then show "fsafe E 0 f (opJump E r f)" "fsafe E 0 f (opJumpi E r f)" by (auto simp: opJump_def opJumpi_def pop2_def)
qed


section \<open>The prices\<close>

lemma unat_MaxUint64: "unat MaxUint64 = 2 ^ 64 - 1"
  by (simp add: MaxUint64_def unsigned_minus_1_eq_mask mask_eq_exp_minus_1)

lemma le_MaxUint64: "x \<le> MaxUint64"
  by (simp add: MaxUint64_def)

lemma SafeAdd_exact:
  assumes "SafeAdd x y = (s, False)"
  shows "unat s = unat x + unat y"
proof -
  from assms have s: "x + y = s" and le: "y \<le> MaxUint64 - x" unfolding SafeAdd_def by (simp_all add: not_less)
  from le have "unat y \<le> unat MaxUint64 - unat x" unfolding word_le_nat_alt by (simp add: unat_sub [OF le_MaxUint64])
  then have "unat x + unat y < 2 ^ 64"
    using le_MaxUint64 [of x] unfolding word_le_nat_alt unat_MaxUint64 by simp
  then show ?thesis using unat_add_lem [of x y] s by simp
qed

lemma gas_add_InrD: "gas_add x g = Inr s \<Longrightarrow> \<exists>y. g = Inr y \<and> unat s = unat y + unat x"
  by (auto simp: gas_add_def split: sum.splits prod.splits if_splits dest: SafeAdd_exact)

lemma word_gas_InrD: "word_gas len p g = Inr s \<Longrightarrow> \<exists>y. g = Inr y \<and> unat y \<le> unat s"
  by (auto simp: word_gas_def split: sum.splits prod.splits if_splits dest!: gas_add_InrD)

lemma log_gas_InrD: "log_gas n len g = Inr s \<Longrightarrow> \<exists>y. g = Inr y \<and> unat LogGas + unat y \<le> unat s"
  by (auto simp: log_gas_def split: sum.splits prod.splits if_splits dest!: gas_add_InrD)

text \<open>What a gas function may do: change the costs remembered in memory and machine and the refund, and
  ask for at least a given price.\<close>

definition gas_ok :: "vm_env \<Rightarrow> (frame \<Rightarrow> nat) \<Rightarrow> frame \<Rightarrow> ((vm_error + u64) \<times> frame) outcome \<Rightarrow> bool" where
  "gas_ok E low f g = wp g (\<lambda>(cost, f'). est E (fr_evm f) (fr_evm f') \<and> fr_contract f' = fr_contract f \<and>
     fr_stack f' = fr_stack f \<and> fr_pc f' = fr_pc f \<and> (\<forall>x. cost = Inr x \<longrightarrow> low f' \<le> unat x))"

abbreviation paid :: "frame \<Rightarrow> nat" where "paid f \<equiv> 1"
abbreviation free :: "frame \<Rightarrow> nat" where "free f \<equiv> 0"

lemma const_gas_ok: "0 < n \<Longrightarrow> gas_ok E paid f (constGasFunc n gt E f ms)" "gas_ok E free f (constGasFunc n gt E f ms)"
  by (simp_all add: gas_ok_def constGasFunc_def Suc_le_eq word_gt_0 unat_gt_0)

lemma mem_gas_ok:
  assumes "\<And>g x. k g = Inr x \<Longrightarrow> low \<le> unat x"
  shows "gas_ok E (\<lambda>_. low) f (mem_gas k f ms)"
  using assms by (auto simp: gas_ok_def mem_gas_def split: prod.split)

lemma mem_gas_funcs:
  "gas_ok E paid f (gasCallDataCopy gt E f ms)" "gas_ok E paid f (gasReturnDataCopy gt E f ms)"
  "gas_ok E paid f (gasSha3 gt E f ms)" "gas_ok E paid f (gasCodeCopy gt E f ms)"
  "0 < gt_ExtcodeCopy gt \<Longrightarrow> gas_ok E paid f (gasExtCodeCopy gt E f ms)"
  "gas_ok E paid f (gasMLoad gt E f ms)" "gas_ok E paid f (gasMStore8 gt E f ms)" "gas_ok E paid f (gasMStore gt E f ms)"
  "gas_ok E paid f (gasCreate gt E f ms)" "gas_ok E paid f (gasCreate2 gt E f ms)"
  "gas_ok E paid f (makeGasLog n gt E f ms)"
  "gas_ok E free f (gasReturn gt E f ms)" "gas_ok E free f (gasRevert gt E f ms)"
  by (auto simp: gasCallDataCopy_def gasReturnDataCopy_def gasSha3_def gasCodeCopy_def gasExtCodeCopy_def gasMLoad_def
      gasMStore8_def gasMStore_def gasCreate_def gasCreate2_def makeGasLog_def gasReturn_def gasRevert_def
      gas_ok_def mem_gas_def gas_prices Suc_le_eq word_gt_0 unat_gt_0 unat_eq_0
      split: prod.split dest!: gas_add_InrD word_gas_InrD log_gas_InrD)

lemma DefaultGasTable_sel [simp]:
  "gt_ExtcodeSize DefaultGasTable = 700" "gt_ExtcodeCopy DefaultGasTable = 700" "gt_ExtcodeHash DefaultGasTable = 400"
  "gt_Balance DefaultGasTable = 400" "gt_SLoad DefaultGasTable = 200" "gt_Calls DefaultGasTable = 700"
  "gt_Suicide DefaultGasTable = 5000" "gt_ExpByte DefaultGasTable = 50" "gt_CreateBySuicide DefaultGasTable = 25000"
  by (simp_all add: DefaultGasTable_def)

lemma plain_gas_funcs:
  "gas_ok E paid f (gasExtCodeHash DefaultGasTable E f ms)" "gas_ok E paid f (gasBalance DefaultGasTable E f ms)"
  "gas_ok E paid f (gasExtCodeSize DefaultGasTable E f ms)" "gas_ok E paid f (gasSLoad DefaultGasTable E f ms)"
  "gas_ok E paid f (gasPush gt E f ms)" "gas_ok E paid f (gasSwap gt E f ms)" "gas_ok E paid f (gasDup gt E f ms)"
  by (simp_all add: gas_ok_def gasExtCodeHash_def gasBalance_def gasExtCodeSize_def gasSLoad_def gasPush_def gasSwap_def
      gasDup_def gas_prices)

lemma gasExp_ok: "gas_ok E paid f (gasExp gt E f ms)"
proof -
  have "gas_add GasSlowStep g = Inr x \<Longrightarrow> 1 \<le> unat x" for g x
    using gas_add_InrD [of GasSlowStep g x] by (auto simp: gas_prices)
  then show ?thesis by (simp add: gas_ok_def gasExp_def Let_def)
qed


text \<open>A call pays for the gas it hands on, and with a value for more than the stipend.\<close>

definition stipend :: "frame \<Rightarrow> nat" where
  "stipend f = (case st_Back 2 (fr_stack f) of None \<Rightarrow> 0 | Some v \<Rightarrow> if U256 v \<noteq> 0 then unat CallStipend else 0)"

definition handed_on :: "frame \<Rightarrow> nat" where
  "handed_on f = unat (callGasTemp (fr_evm f))"

definition call_low :: "nat \<Rightarrow> frame \<Rightarrow> nat" where
  "call_low n f = handed_on f + n + 1"

lemma call_gas_wp:
  "wp (call_gas gt f g) (\<lambda>(cost, f'). est E (fr_evm f) (fr_evm f') \<and> fr_contract f' = fr_contract f \<and>
     fr_stack f' = fr_stack f \<and> fr_pc f' = fr_pc f \<and>
     (\<forall>x. cost = Inr x \<longrightarrow> (\<exists>y. g = Inr y \<and> unat x = unat y + handed_on f')))"
  by (auto simp: call_gas_def handed_on_def split: sum.splits dest!: gas_add_InrD)

lemma call_gas_ok:
  assumes "est E (fr_evm f) (fr_evm f1)" "fr_contract f1 = fr_contract f" "fr_stack f1 = fr_stack f" "fr_pc f1 = fr_pc f"
    and "\<And>y. g = Inr y \<Longrightarrow> n < unat y"
  shows "gas_ok E (call_low n) f (call_gas gt f1 g)"
  unfolding gas_ok_def call_low_def by (rule wp_mono [OF call_gas_wp [of _ f1 _ E]]) (use assms est_trans in \<open>fastforce\<close>)

lemma delegate_gas_funcs:
  "gas_ok E (call_low 0) f (gasDelegateCall DefaultGasTable E f ms)"
  "gas_ok E (call_low 0) f (gasStaticCall DefaultGasTable E f ms)"
  unfolding gasDelegateCall_def gasStaticCall_def
  by (auto split: prod.split intro!: call_gas_ok dest!: gas_add_InrD)

lemma call_base:
  assumes "gas_add m (Inr (if (v :: int) \<noteq> 0 then b + CallValueTransferGas else b')) = Inr y"
    and "b = 700 \<or> b = 700 + CallNewAccountGas" "v = 0 \<Longrightarrow> b' = 700"
  shows "(if U256 v \<noteq> 0 then unat CallStipend else 0) < unat y"
proof -
  have "U256 v \<noteq> 0 \<Longrightarrow> v \<noteq> 0" by (auto simp: U256_def)
  moreover have "unat y = unat (if v \<noteq> 0 then b + CallValueTransferGas else b') + unat m"
    using gas_add_InrD [OF assms(1)] by auto
  ultimately show ?thesis using assms(2,3) by (auto simp: gas_prices)
qed


lemma gasCallCode_ok: "gas_ok E (call_low (stipend f)) f (gasCallCode DefaultGasTable E f ms)"
proof (cases "st_Back 2 (fr_stack f)")
  case (Some v)
  obtain r m where m: "memoryGasCost (fr_mem f) ms = (r, m)" by fastforce
  let ?g = "\<lambda>mg. call_gas DefaultGasTable (f\<lparr>fr_mem := m\<rparr>) (gas_add mg (Inr (if v \<noteq> 0 then 700 + CallValueTransferGas else 700)))"
  have "gas_ok E (call_low (stipend f)) f (case r of Inl e \<Rightarrow> Returns (Inl e, f\<lparr>fr_mem := m\<rparr>) | Inr mg \<Rightarrow> ?g mg)"
  proof (cases r)
    case (Inr mg)
    have "gas_ok E (call_low (stipend f)) f (?g mg)"
      by (rule call_gas_ok) (use Some call_base [of mg v 700 700] in \<open>simp_all add: stipend_def\<close>)
    then show ?thesis using Inr by simp
  qed (simp add: gas_ok_def)
  then show ?thesis using Some m by (simp add: gasCallCode_def peek_def of_opt_def obind_def Let_def)
qed (simp add: gas_ok_def gasCallCode_def)

lemma gasCall_ok: "gas_ok E (call_low (stipend f)) f (gasCall DefaultGasTable E f ms)"
proof (cases "st_Back 2 (fr_stack f)"; cases "st_Back 1 (fr_stack f)")
  fix v a assume v: "st_Back 2 (fr_stack f) = Some v" and a: "st_Back 1 (fr_stack f) = Some a"
  obtain e f1 where f1: "(if v \<noteq> 0 then sread (sd_Empty (ve_codec E) (BigToAddressHash a)) f else (False, f)) = (e, f1)"
    by fastforce
  have "f1 = (if v \<noteq> 0 then snd (sread (sd_Empty (ve_codec E) (BigToAddressHash a)) f) else f)"
    using f1 by (metis snd_conv)
  then have f1': "est E (fr_evm f) (fr_evm f1)" "fr_contract f1 = fr_contract f" "fr_stack f1 = fr_stack f" "fr_pc f1 = fr_pc f"
    using fstep_read [of E "sd_Empty (ve_codec E) (BigToAddressHash a)" 0 f f] by (auto simp: jstep_ops fstep_def)
  obtain r m where m: "memoryGasCost (fr_mem f1) ms = (r, m)" by fastforce
  let ?b = "if v \<noteq> 0 \<and> e then 700 + CallNewAccountGas else 700"
  have "gas_ok E (call_low (stipend f)) f
     (case r of Inl e \<Rightarrow> Returns (Inl e, f1\<lparr>fr_mem := m\<rparr>)
      | Inr mg \<Rightarrow> call_gas DefaultGasTable (f1\<lparr>fr_mem := m\<rparr>) (gas_add mg (Inr (if v \<noteq> 0 then ?b + CallValueTransferGas else ?b))))"
    (is "gas_ok E ?low f (case r of Inl e \<Rightarrow> _ e | Inr mg \<Rightarrow> ?g mg)")
  proof (cases r)
    case (Inr mg)
    have "stipend f < unat y" if "gas_add mg (Inr (if v \<noteq> 0 then ?b + CallValueTransferGas else ?b)) = Inr y" for y
      using call_base [OF that] v by (auto simp: stipend_def)
    then have "gas_ok E ?low f (?g mg)" by (intro call_gas_ok) (use f1' in simp_all)
    then show ?thesis using Inr by simp
  qed (use f1' in \<open>simp add: gas_ok_def\<close>)
  then show ?thesis using v a m f1 by (simp add: gasCall_def peek_def of_opt_def obind_def Let_def)
qed (simp_all add: gas_ok_def gasCall_def)

lemma gasSStore_ok: "gas_ok E paid f (gasSStore gt E f ms)"
proof -
  have "fstep E 0 f (snd (sread (sd_GetState (ve_codec E) a k) f))"
    "fstep E 0 f (swrite (sd_AddRefund x) (snd (sread (sd_GetState (ve_codec E) a k) f)))" for a k x
    by (auto intro!: fstep_read fstep_write simp: jstep_ops)
  then show ?thesis
    by (simp add: gas_ok_def gasSStore_def Let_def split_beta fstep_def gas_prices sread_def swrite_def)
qed

lemmas jstep_then = jstep_ops [THEN jstep_trans [rotated]]

lemma gasSuicide_ok: "gas_ok E free f (gasSuicide gt E f ms)"
  by (simp add: gas_ok_def gasSuicide_def Let_def split_beta swrite_def sread_def est_def jstep_then)

section \<open>Calls\<close>

text \<open>\<open>good_runner\<close>: an inner run, started at a given depth, is a step of the machine and gives back at
  most the gas of its contract.\<close>

definition good_runner :: "vm_env \<Rightarrow> nat \<Rightarrow> runner \<Rightarrow> bool" where
  "good_runner E d r \<longleftrightarrow> (\<forall>ev ct input ro. ev_depth ev = d \<longrightarrow>
     wp (r ev ct input ro) (\<lambda>(ret, err, ct', ev'). est E ev ev' \<and> unat (ct_Gas ct') \<le> unat (ct_Gas ct)))"

lemma UseGas_le: "UseGas g ct = (b, ct') \<Longrightarrow> unat (ct_Gas ct') \<le> unat (ct_Gas ct)"
  by (auto simp: UseGas_def unat_sub word_le_nat_alt not_less split: if_splits)

lemma UseGas_paid: "UseGas g ct = (True, ct') \<Longrightarrow> unat (ct_Gas ct') + unat g = unat (ct_Gas ct)"
  by (auto simp: UseGas_def unat_sub word_le_nat_alt not_less split: if_splits)

lemma run_good: "good_runner E d r \<Longrightarrow> good_runner E d (run E r)"
  unfolding good_runner_def run_def RunPrecompiledContract_def
  by (auto split: option.split prod.split dest: UseGas_le)

text \<open>The specification of a call: a step that returns at most the given gas, and leaves the view of
  the state alone when it returns an error.\<close>

definition call_ok :: "vm_env \<Rightarrow> EVM \<Rightarrow> u64 \<Rightarrow> (bytes \<times> u64 \<times> vm_error option \<times> EVM) outcome \<Rightarrow> bool" where
  "call_ok E ev gas m = wp m (\<lambda>(ret, g, err, ev'). est E ev ev' \<and> unat g \<le> unat gas \<and>
     (err \<noteq> None \<longrightarrow> sd_inv (ve_codec E) (ev_StateDB ev) \<longrightarrow>
        abs_state (ve_codec E) (ev_StateDB ev') = abs_state (ve_codec E) (ev_StateDB ev)))"

text \<open>A step that does not change the view, such as a read.\<close>

definition quiet :: "vm_env \<Rightarrow> EVM \<Rightarrow> EVM \<Rightarrow> bool" where
  "quiet E ev ev' \<longleftrightarrow> est E ev ev' \<and> (sd_inv (ve_codec E) (ev_StateDB ev) \<longrightarrow>
     abs_state (ve_codec E) (ev_StateDB ev') = abs_state (ve_codec E) (ev_StateDB ev))"

lemma est_inv: "est E ev ev' \<Longrightarrow> sd_inv (ve_codec E) (ev_StateDB ev) \<Longrightarrow> sd_inv (ve_codec E) (ev_StateDB ev')"
  using ws.step_inv by (auto simp: est_def)

lemma quiet_call_ok: "quiet E ev ev1 \<Longrightarrow> call_ok E ev1 gas m \<Longrightarrow> call_ok E ev gas m"
  unfolding call_ok_def
  apply (erule wp_mono)
  apply (clarsimp simp: quiet_def)
  apply (intro conjI impI)
   apply (erule (1) est_trans)
  apply (simp add: est_inv)
  done

lemma quiet_CanTransfer: "quiet E ev (snd (ev_read (CanTransfer (ve_codec E) a v) ev))"
proof -
  obtain o' s' where g: "getStateObject (ve_codec E) a (ev_StateDB ev) = (o', s')" by fastforce
  show ?thesis using getStateObject_step [OF g] g
    by (simp add: quiet_def ev_read_def CanTransfer_def sd_GetBalance_def est_def)
qed

lemma finish_call_ok:
  assumes snap: "sd_Snapshot (ev_StateDB ev) = (i, s1)" and st: "est E (ev\<lparr>ev_StateDB := s1\<rparr>) ev1"
    and gas: "unat (ct_Gas ct) \<le> unat gas"
  shows "call_ok E ev gas (finish_call E i (ret, err, ct, ev1))"
proof (cases err)
  case None
  then show ?thesis
    using ws.kept [OF snap] st gas by (simp add: call_ok_def finish_call_def est_def)
next
  case (Some e)
  have j: "jstep (ve_codec E) s1 (ev_StateDB ev1)" using st by (simp add: est_def)
  have "unat (ct_Gas (snd (UseGas x ct))) \<le> unat gas" for x
    using UseGas_le [of x ct] gas by (metis le_trans prod.collapse)
  then show ?thesis
    using ws.attempt [OF snap j] st gas Some by (auto simp: call_ok_def finish_call_def est_def Let_def)
qed



lemma call_run:
  assumes snap: "sd_Snapshot (ev_StateDB ev) = (i, s1)" and st: "est E (ev\<lparr>ev_StateDB := s1\<rparr>) ev1"
    and r: "good_runner E (ev_depth ev) r" and gas: "ct_Gas ct = gas"
  shows "call_ok E ev gas (obind (run E r ev1 ct input ro) (finish_call E i))"
proof -
  have "ev_depth ev1 = ev_depth ev" using st by (simp add: est_def)
  then have "wp (run E r ev1 ct input ro) (\<lambda>(ret, err, ct', ev'). est E ev1 ev' \<and> unat (ct_Gas ct') \<le> unat gas)"
    using run_good [OF r] gas by (auto simp: good_runner_def)
  then show ?thesis
    unfolding call_ok_def wp_simps
  proof (rule wp_mono, clarify)
    fix ret err ev' and ct' :: Contract
    assume "est E ev1 ev'" and g: "unat (ct_Gas ct') \<le> unat gas"
    with st have "est E (ev\<lparr>ev_StateDB := s1\<rparr>) ev'" using est_trans by blast
    from finish_call_ok [OF snap this g]
    show "wp (finish_call E i (ret, err, ct', ev')) (\<lambda>(ret, g, err, ev'). est E ev ev' \<and> unat g \<le> unat gas \<and>
      (err \<noteq> None \<longrightarrow> sd_inv (ve_codec E) (ev_StateDB ev) \<longrightarrow>
        abs_state (ve_codec E) (ev_StateDB ev') = abs_state (ve_codec E) (ev_StateDB ev)))"
      by (simp add: call_ok_def)
  qed
qed

lemma est_Transfer: "keccak_ok (ve_codec E) \<Longrightarrow> est E ev (Transfer (ve_codec E) a b v ev)"
  by (auto simp: Transfer_def Let_def split_beta est_def ev_write_def ev_read_def jstep_ops intro!: jstep_then)


lemma est_load_code: "est E ev (snd (load_code E a ct ev))"
  by (simp add: load_code_def Let_def split_beta est_def ev_read_def jstep_then)

lemma est_NewContract: "est E ev (snd (NewContract caller a v g ev))"
  by (simp add: NewContract_def est_def split: ContractRef.split)

lemma contract_gas [simp]:
  "ct_Gas (fst (NewContract caller a v g ev)) = g" "ct_Gas (fst (load_code E a ct ev)) = ct_Gas ct"
  "ct_Gas (AsDelegate p ct) = ct_Gas ct" "ct_Gas (SetCodeOptionalHash a code h ct) = ct_Gas ct"
  by (simp_all add: NewContract_def load_code_def SetCallCode_def Let_def split_beta AsDelegate_def SetCodeOptionalHash_def)

lemma quiet_refl [simp]: "quiet E ev ev" by (simp add: quiet_def)

lemma call_ok_Returns:
  "quiet E ev ev' \<Longrightarrow> call_ok E ev gas (Returns (ret, gas, err, ev'))"
  "est E ev ev' \<Longrightarrow> call_ok E ev gas (Returns (ret, gas, None, ev'))"
  by (auto simp: call_ok_def quiet_def)

lemma depth_CanTransfer [simp]: "ev_depth (snd (ev_read g ev)) = ev_depth ev"
  by (simp add: ev_read_def split_beta)

lemma est_sndI: "(\<And>s. jstep (ve_codec E) s (snd (g s))) \<Longrightarrow> ev_read g ev = (x, ev') \<Longrightarrow> est E ev ev'"
  using est_read by (metis snd_conv)

lemma ev_snapshot: "ev_read sd_Snapshot ev = (i, ev') \<Longrightarrow> \<exists>s. sd_Snapshot (ev_StateDB ev) = (i, s) \<and> ev' = ev\<lparr>ev_StateDB := s\<rparr>"
  by (cases "sd_Snapshot (ev_StateDB ev)") (simp add: ev_read_def)

lemma load_run:
  assumes "ev_read sd_Snapshot ev = (i, ev1)" "est E ev1 ev2" "good_runner E (ev_depth ev) r" "ct_Gas ct = gas"
    "load_code E a ct ev2 = (ct', ev3)" "\<And>ev. est E ev (g ev)"
  shows "call_ok E ev gas (obind (run E r (g ev3) ct' input ro) (finish_call E i))"
proof -
  have "est E ev1 (g ev3)" using assms(2,5,6) est_load_code [of E ev2 a ct] est_trans by (metis snd_conv)
  moreover have "ct_Gas ct' = gas" using assms(4,5) contract_gas(2) by (metis fst_conv)
  ultimately show ?thesis using ev_snapshot [OF assms(1)] call_run assms(3) by blast
qed

text \<open>The parts of a call.\<close>

lemma evm_Call_parts:
  obtains can ev1 i ev2 ex ev3 ev4 ct ev5 ct' ev6 where
    "ev_read (CanTransfer (ve_codec E) (ref_Address caller) v) ev = (can, ev1)" "ev_read sd_Snapshot ev1 = (i, ev2)"
    "ev_read (sd_Exist (ve_codec E) addr) ev2 = (ex, ev3)"
    "ev4 = (if ex then ev3 else ev_write (sd_CreateAccount (ve_codec E) addr) ev3)"
    "NewContract caller addr v gas (Transfer (ve_codec E) (ref_Address caller) addr v ev4) = (ct, ev5)"
    "load_code E addr ct ev5 = (ct', ev6)"
    "evm_Call E r ev caller addr input gas v =
       (if ve_NoRecursion E \<and> ev_depth ev > 0 then Returns ([], gas, None, ev)
        else if ev_depth ev > CallCreateDepth then Returns ([], gas, Some ErrDepth, ev)
        else if \<not> can then Returns ([], gas, Some ErrInsufficientBalance, ev1)
        else if \<not> ex \<and> map_of PrecompiledContracts addr = None \<and> v = 0 then Returns ([], gas, None, ev3)
        else obind (run E r ev6 ct' input False) (finish_call E i))"
proof -
  let ?c = "ve_codec E"
  obtain can ev1 where c1: "ev_read (CanTransfer ?c (ref_Address caller) v) ev = (can, ev1)" by fastforce
  obtain i ev2 where c2: "ev_read sd_Snapshot ev1 = (i, ev2)" by fastforce
  obtain ex ev3 where c3: "ev_read (sd_Exist ?c addr) ev2 = (ex, ev3)" by fastforce
  define ev4 where "ev4 = (if ex then ev3 else ev_write (sd_CreateAccount ?c addr) ev3)"
  obtain ct ev5 where c5: "NewContract caller addr v gas (Transfer ?c (ref_Address caller) addr v ev4) = (ct, ev5)" by fastforce
  obtain ct' ev6 where c6: "load_code E addr ct ev5 = (ct', ev6)" by fastforce
  show ?thesis
    by (rule that [OF c1 c2 c3 ev4_def c5 c6]) (simp only: evm_Call_def c1 c2 c3 c5 c6 Let_def prod.case flip: ev4_def)
qed

lemma evm_Call_ok:
  assumes k: "keccak_ok (ve_codec E)" and r: "ev_depth ev \<le> CallCreateDepth \<Longrightarrow> good_runner E (ev_depth ev) r"
  shows "call_ok E ev gas (evm_Call E r ev caller addr input gas v)"
proof (rule evm_Call_parts [of E caller v ev addr gas r input])
  fix can ev1 i ev2 ex ev3 ev4 ct ev5 ct' ev6
  assume c1: "ev_read (CanTransfer (ve_codec E) (ref_Address caller) v) ev = (can, ev1)" and c2: "ev_read sd_Snapshot ev1 = (i, ev2)"
    and c3: "ev_read (sd_Exist (ve_codec E) addr) ev2 = (ex, ev3)"
    and ev4: "ev4 = (if ex then ev3 else ev_write (sd_CreateAccount (ve_codec E) addr) ev3)"
    and c5: "NewContract caller addr v gas (Transfer (ve_codec E) (ref_Address caller) addr v ev4) = (ct, ev5)"
    and c6: "load_code E addr ct ev5 = (ct', ev6)"
    and eq: "evm_Call E r ev caller addr input gas v =
       (if ve_NoRecursion E \<and> ev_depth ev > 0 then Returns ([], gas, None, ev)
        else if ev_depth ev > CallCreateDepth then Returns ([], gas, Some ErrDepth, ev)
        else if \<not> can then Returns ([], gas, Some ErrInsufficientBalance, ev1)
        else if \<not> ex \<and> map_of PrecompiledContracts addr = None \<and> v = 0 then Returns ([], gas, None, ev3)
        else obind (run E r ev6 ct' input False) (finish_call E i))"
  have q: "quiet E ev ev1" using quiet_CanTransfer c1 by (metis snd_conv)
  have e3: "est E ev2 ev3" by (rule est_sndI [OF _ c3]) (simp add: jstep_ops)
  have "est E ev3 ev4" by (simp add: ev4 est_write jstep_ops k)
  with e3 have "est E ev2 ev4" by (rule est_trans)
  also have "est E ev4 (Transfer (ve_codec E) (ref_Address caller) addr v ev4)" by (rule est_Transfer [OF k])
  also have "est E \<dots> ev5" using est_NewContract [of E _ caller addr v gas] c5 by (metis snd_conv)
  finally have e5: "est E ev2 ev5" .
  have d: "ev_depth ev1 = ev_depth ev" using q by (simp add: quiet_def est_def)
  have run: "call_ok E ev1 gas (obind (run E r ev6 ct' input False) (finish_call E i))" if "ev_depth ev \<le> CallCreateDepth"
    using load_run [OF c2 e5 _ _ c6, of r gas "\<lambda>ev. ev"] r that d contract_gas(1) c5 by (metis est_refl fst_conv)
  have ret: "call_ok E ev1 gas (Returns ([], gas, None, ev3))"
    using ev_snapshot [OF c2] ws.kept e3 by (intro call_ok_Returns(2)) (auto simp: est_def)
  show ?thesis using eq q run ret quiet_call_ok [OF q] by (simp add: call_ok_Returns)
qed

lemma evm_CallCode_ok:
  assumes r: "ev_depth ev \<le> CallCreateDepth \<Longrightarrow> good_runner E (ev_depth ev) r"
  shows "call_ok E ev gas (evm_CallCode E r ev caller addr input gas v)"
proof -
  obtain can ev1 where c1: "ev_read (CanTransfer (ve_codec E) (ref_Address caller) v) ev = (can, ev1)" by fastforce
  obtain i ev2 where c2: "ev_read sd_Snapshot ev1 = (i, ev2)" by fastforce
  obtain ct ev3 where c3: "NewContract caller (ref_Address caller) v gas ev2 = (ct, ev3)" by fastforce
  obtain ct' ev4 where c4: "load_code E addr ct ev3 = (ct', ev4)" by fastforce
  have q: "quiet E ev ev1" using quiet_CanTransfer c1 by (metis snd_conv)
  have e: "est E ev2 ev3" using est_NewContract c3 by (metis snd_conv)
  have d: "ev_depth ev1 = ev_depth ev" using q by (simp add: quiet_def est_def)
  have run: "call_ok E ev1 gas (obind (run E r ev4 ct' input False) (finish_call E i))" if "ev_depth ev \<le> CallCreateDepth"
    using load_run [OF c2 e _ _ c4, of r gas "\<lambda>ev. ev"] r that d contract_gas(1) c3 by (metis est_refl fst_conv)
  then show ?thesis using q quiet_call_ok [OF q] by (simp add: evm_CallCode_def c1 c2 c3 c4 call_ok_Returns)
qed

lemma evm_DelegateCall_ok:
  assumes r: "ev_depth ev \<le> CallCreateDepth \<Longrightarrow> good_runner E (ev_depth ev) r"
  shows "call_ok E ev gas (evm_DelegateCall E r ev caller addr input gas)"
proof (cases caller)
  case (CallerContract parent)
  obtain i ev2 where c2: "ev_read sd_Snapshot ev = (i, ev2)" by fastforce
  obtain ct ev3 where c3: "NewContract caller (ref_Address caller) 0 gas ev2 = (ct, ev3)" by fastforce
  obtain ct' ev4 where c4: "load_code E addr (AsDelegate parent ct) ev3 = (ct', ev4)" by fastforce
  have e: "est E ev2 ev3" using est_NewContract c3 by (metis snd_conv)
  have g: "ct_Gas (AsDelegate parent ct) = gas" using c3 contract_gas(1,3) by (metis fst_conv)
  have run: "call_ok E ev gas (obind (run E r ev4 ct' input False) (finish_call E i))" if "ev_depth ev \<le> CallCreateDepth"
    using load_run [OF c2 e _ g c4, of r "\<lambda>ev. ev"] r that by simp
  then show ?thesis
    using c2 c3 c4 CallerContract by (simp add: evm_DelegateCall_def call_ok_Returns)
qed (simp add: evm_DelegateCall_def call_ok_Returns, simp add: call_ok_def)

lemma evm_StaticCall_ok:
  assumes k: "keccak_ok (ve_codec E)" and r: "ev_depth ev \<le> CallCreateDepth \<Longrightarrow> good_runner E (ev_depth ev) r"
  shows "call_ok E ev gas (evm_StaticCall E r ev caller addr input gas)"
proof -
  let ?g = "ev_write (sd_AddBalance (ve_codec E) addr 0)"
  obtain i ev2 where c2: "ev_read sd_Snapshot ev = (i, ev2)" by fastforce
  obtain ct ev3 where c3: "NewContract caller addr 0 gas ev2 = (ct, ev3)" by fastforce
  obtain ct' ev4 where c4: "load_code E addr ct ev3 = (ct', ev4)" by fastforce
  have e: "est E ev2 ev3" using est_NewContract c3 by (metis snd_conv)
  have g: "ct_Gas ct = gas" using c3 contract_gas(1) by (metis fst_conv)
  have run: "call_ok E ev gas (obind (run E r (?g ev4) ct' input True) (finish_call E i))" if "ev_depth ev \<le> CallCreateDepth"
    using load_run [OF c2 e _ g c4, of r ?g] r that k by (simp add: est_write jstep_ops)
  then show ?thesis by (simp add: evm_StaticCall_def c2 c3 c4 call_ok_Returns)
qed

text \<open>A creation is a step that returns at most the given gas.\<close>

definition create_ok :: "vm_env \<Rightarrow> EVM \<Rightarrow> u64 \<Rightarrow> (bytes \<times> bytes \<times> u64 \<times> vm_error option \<times> EVM) outcome \<Rightarrow> bool" where
  "create_ok E ev gas m = wp m (\<lambda>(ret, addr, g, err, ev'). est E ev ev' \<and> unat g \<le> unat gas)"

lemma est_create_ok: "est E ev ev1 \<Longrightarrow> create_ok E ev1 gas m \<Longrightarrow> create_ok E ev gas m"
  unfolding create_ok_def by (erule wp_mono) (auto intro: est_trans)

lemma finish_create_ok:
  assumes k: "keccak_ok (ve_codec E)" and snap: "sd_Snapshot (ev_StateDB ev) = (i, s1)"
    and st: "est E (ev\<lparr>ev_StateDB := s1\<rparr>) ev1" and gas: "unat (ct_Gas ct) \<le> unat gas"
  shows "create_ok E ev gas (finish_create E i address (ret, err, ct, ev1))"
proof -
  have use: "unat (ct_Gas (snd (UseGas x c))) \<le> unat gas" if "unat (ct_Gas c) \<le> unat gas" for x c
    using UseGas_le [of x c] that by (metis le_trans prod.collapse)
  have st2: "est E (ev\<lparr>ev_StateDB := s1\<rparr>) (ev_write (sd_SetCode (ve_codec E) address ret) ev1)"
    using st est_write [where ev = ev1] jstep_SetCode [OF k] est_trans by blast
  have keep: "est E ev e" if "est E (ev\<lparr>ev_StateDB := s1\<rparr>) e" for e
    using that ws.kept [OF snap] by (simp add: est_def)
  have undo: "est E ev (e\<lparr>ev_StateDB := s\<rparr>)"
    if "est E (ev\<lparr>ev_StateDB := s1\<rparr>) e" "sd_RevertToSnapshot (ve_codec E) i (ev_StateDB e) = Some s" for e s
    using that ws.attempt(1) [OF snap _ that(2)] by (simp add: est_def)
  obtain b c where u: "UseGas (of_nat (length ret) * CreateDataGas) ct = (b, c)" by fastforce
  have c: "unat (ct_Gas c) \<le> unat gas" using use [OF gas] u by (metis snd_conv)
  show ?thesis
    using st st2 keep undo gas c use
    by (auto simp: create_ok_def finish_create_def Let_def u)
qed


lemma create_ok_Returns: "est E ev ev' \<Longrightarrow> unat g \<le> unat gas \<Longrightarrow> create_ok E ev gas (Returns (ret, a, g, err, ev'))"
  by (simp add: create_ok_def)

lemma create_run:
  assumes k: "keccak_ok (ve_codec E)" and snap: "ev_read sd_Snapshot ev = (i, ev1)" and st: "est E ev1 ev2"
    and r: "good_runner E (ev_depth ev) r" and gas: "ct_Gas ct = gas"
  shows "create_ok E ev gas (obind (run E r ev2 ct [] ro) (finish_create E i address))"
proof -
  obtain s where s: "sd_Snapshot (ev_StateDB ev) = (i, s)" "ev1 = ev\<lparr>ev_StateDB := s\<rparr>" using ev_snapshot [OF snap] by blast
  then have "ev_depth ev2 = ev_depth ev" using st by (simp add: est_def)
  then have "wp (run E r ev2 ct [] ro) (\<lambda>(ret, err, ct', ev'). est E ev2 ev' \<and> unat (ct_Gas ct') \<le> unat gas)"
    using run_good [OF r] gas by (auto simp: good_runner_def)
  then show ?thesis
    unfolding create_ok_def wp_simps
    by (rule wp_mono) (use finish_create_ok [OF k s(1)] st s(2) est_trans in \<open>fastforce simp: create_ok_def\<close>)
qed

lemma evm_create_ok:
  assumes k: "keccak_ok (ve_codec E)" and r: "ev_depth ev \<le> CallCreateDepth \<Longrightarrow> good_runner E (ev_depth ev) r"
  shows "create_ok E ev gas (evm_create E r ev caller code hash gas v address)"
proof -
  let ?c = "ve_codec E" and ?self = "ref_Address caller"
  obtain can ev1 where c1: "ev_read (CanTransfer ?c ?self v) ev = (can, ev1)" by fastforce
  obtain nonce ev2 where c2: "ev_read (sd_GetNonce ?c ?self) ev1 = (nonce, ev2)" by fastforce
  define ev2' where "ev2' = ev_write (sd_SetNonce ?c ?self (nonce + 1)) ev2"
  obtain h ev3 where c3: "ev_read (sd_GetCodeHash ?c address) ev2' = (h, ev3)" by fastforce
  obtain n ev4 where c4: "ev_read (sd_GetNonce ?c address) ev3 = (n, ev4)" by fastforce
  obtain i ev5 where c5: "ev_read sd_Snapshot ev4 = (i, ev5)" by fastforce
  define ev6 where "ev6 = ContractCreated ?self address (big_Uint64 v) (nonce + 1)
    (Transfer ?c ?self address v (ev_write (sd_SetNonce ?c address 1) (ev_write (sd_CreateAccount ?c address) ev5)))"
  obtain ct ev7 where c7: "NewContract caller address v gas ev6 = (ct, ev7)" by fastforce
  define ct' where "ct' = SetCodeOptionalHash address code hash ct"
  have e1: "est E ev ev1" using quiet_CanTransfer c1 by (metis snd_conv quiet_def)
  have e2: "est E ev1 ev2" by (rule est_sndI [OF _ c2]) (simp add: jstep_ops)
  have e2': "est E ev2 ev2'" by (simp add: ev2'_def est_write jstep_ops k)
  have e3: "est E ev2' ev3" by (rule est_sndI [OF _ c3]) (simp add: jstep_ops)
  have e4: "est E ev3 ev4" by (rule est_sndI [OF _ c4]) (simp add: jstep_ops)
  have e: "est E ev ev4" using e1 e2 e2' e3 e4 by (meson est_trans)
  have "est E ev5 (ev_write (sd_CreateAccount ?c address) ev5)"
    "est E ev' (ev_write (sd_SetNonce ?c address 1) ev')" for ev' by (simp_all add: est_write jstep_ops k)
  then have "est E ev5 ev6" unfolding ev6_def ContractCreated_def est_fields using est_Transfer [OF k] est_trans by blast
  then have e7: "est E ev5 ev7" using est_NewContract [of E ev6] c7 by (metis est_trans snd_conv)
  have g: "ct_Gas ct' = gas" using c7 contract_gas(1,4) by (metis ct'_def fst_conv)
  have run: "create_ok E ev4 gas (obind (run E r ev7 ct' [] False) (finish_create E i address))" if "ev_depth ev \<le> CallCreateDepth"
    using create_run [OF k c5 e7 _ g] r that e by (simp add: est_def)
  have ret: "create_ok E ev4 gas (Returns ([], address, gas, None, ev7))"
    using ev_snapshot [OF c5] ws.kept e7 by (intro create_ok_Returns) (auto simp: est_def)
  have "evm_create E r ev caller code hash gas v address =
    (if ev_depth ev > CallCreateDepth then Returns ([], ZeroAddressHash, gas, Some ErrDepth, ev)
     else if \<not> can then Returns ([], ZeroAddressHash, gas, Some ErrInsufficientBalance, ev1)
     else if n \<noteq> 0 \<or> h \<noteq> ZeroHash \<and> h \<noteq> BytesToHash (emptyCodeHash ?c)
     then Returns ([], ZeroAddressHash, 0, Some ErrContractAddressCollision, ev4)
     else if ve_NoRecursion E \<and> ev_depth ev7 > 0 then Returns ([], address, gas, None, ev7)
     else obind (run E r ev7 ct' [] False) (finish_create E i address))"
    by (simp only: evm_create_def c1 c2 c3 c4 c5 c7 Let_def prod.case flip: ev2'_def ev6_def ct'_def)
  then show ?thesis using e e1 run ret est_create_ok [OF e] by (simp add: create_ok_Returns)
qed

lemma evm_Create_ok:
  assumes "keccak_ok (ve_codec E)" "ev_depth ev \<le> CallCreateDepth \<Longrightarrow> good_runner E (ev_depth ev) r"
  shows "create_ok E ev gas (evm_Create E r ev caller code gas v)"
    "create_ok E ev gas (evm_Create2 E r ev caller code gas v salt)"
proof -
  obtain n ev1 where c: "ev_read (sd_GetNonce (ve_codec E) (ref_Address caller)) ev = (n, ev1)" by fastforce
  have e: "est E ev ev1" by (rule est_sndI [OF _ c]) (simp add: jstep_ops)
  then have "ev_depth ev1 = ev_depth ev" by (simp add: est_def)
  then show "create_ok E ev gas (evm_Create E r ev caller code gas v)"
    using est_create_ok [OF e evm_create_ok [OF assms(1)]] assms(2) by (simp add: evm_Create_def c)
  show "create_ok E ev gas (evm_Create2 E r ev caller code gas v salt)"
    using evm_create_ok assms by (simp add: evm_Create2_def Let_def)
qed

section \<open>The operations that call\<close>

lemma unat_add_le: "unat (a + b) \<le> unat a + unat (b :: u64)"
  by (simp add: unat_word_ariths)

lemma finish_call_op_fsafe:
  assumes "est E (fr_evm f) ev" "unat g \<le> n"
  shows "fsafe E n f (finish_call_op ro rs f (ret, g, err, ev))"
  using assms unat_add_le [of "ct_Gas (fr_contract f)" g]
  by (auto simp: finish_call_op_def Let_def fstep_def push_def)

lemma wp_of_opt_bind: "wp (obind (of_opt a) g) Q = (\<forall>v. a = Some v \<longrightarrow> wp (g v) Q)"
  by simp

lemma call_op_fsafe:
  assumes "call_ok E (fr_evm f) g m" "unat g \<le> n"
  shows "fsafe E n f (obind m (finish_call_op ro rs (f\<lparr>fr_stack := st\<rparr>)))"
proof -
  let ?f = "f\<lparr>fr_stack := st\<rparr>"
  have "fsafe E n ?f (finish_call_op ro rs ?f x)" if "case x of (ret, g', err, ev') \<Rightarrow> est E (fr_evm f) ev' \<and> unat g' \<le> unat g" for x
    using that assms(2) finish_call_op_fsafe [where f = ?f] by (cases x) simp
  then have "fsafe E n f (finish_call_op ro rs ?f x)" if "case x of (ret, g', err, ev') \<Rightarrow> est E (fr_evm f) ev' \<and> unat g' \<le> unat g" for x
    using that by simp
  then show ?thesis
    using assms(1) unfolding call_ok_def wp_simps by (elim wp_mono) (auto split: prod.splits)
qed

lemma given_gas:
  assumes "fr_stack f = g # a # v # st"
  shows "unat (if U256 v \<noteq> 0 then callGasTemp (fr_evm f) + CallStipend else callGasTemp (fr_evm f)) \<le> handed_on f + stipend f"
  using assms unat_add_le [of "callGasTemp (fr_evm f)" CallStipend] by (simp add: stipend_def st_Back_def handed_on_def)

lemmas pops = pop3_def pop2_def Let_def wp_of_opt_bind wp_pop1

lemma call_ops_fsafe:
  assumes k: "keccak_ok (ve_codec E)"
    and r: "ev_depth (fr_evm f) \<le> CallCreateDepth \<Longrightarrow> good_runner E (ev_depth (fr_evm f)) r"
  shows "fsafe E (handed_on f + stipend f) f (opCall E r f)" "fsafe E (handed_on f + stipend f) f (opCallCode E r f)"
    "fsafe E (handed_on f) f (opDelegateCall E r f)" "fsafe E (handed_on f) f (opStaticCall E r f)"
proof -
  have le: "unat (callGasTemp (fr_evm f)) \<le> handed_on f" by (simp add: handed_on_def)
  note call = call_op_fsafe [OF evm_Call_ok [OF k r]] call_op_fsafe [OF evm_CallCode_ok [OF r]]
    and delegate = call_op_fsafe [OF evm_DelegateCall_ok [OF r] le] call_op_fsafe [OF evm_StaticCall_ok [OF k r] le]
  show "fsafe E (handed_on f + stipend f) f (opCall E r f)" "fsafe E (handed_on f + stipend f) f (opCallCode E r f)"
    unfolding opCall_def opCallCode_def pops
    by (clarsimp simp del: wp_simps(4) split del: if_split, rule call, simp, drule given_gas, simp split: if_splits)+
  show "fsafe E (handed_on f) f (opDelegateCall E r f)" "fsafe E (handed_on f) f (opStaticCall E r f)"
    using delegate by (simp_all add: opDelegateCall_def opStaticCall_def pops del: wp_simps(4))
qed


lemma take_gas_le:
  assumes "take_gas f = (g, f')"
  shows "unat (ct_Gas (fr_contract f')) + unat g \<le> unat (ct_Gas (fr_contract f))" "fr_evm f' = fr_evm f"
proof -
  let ?G = "ct_Gas (fr_contract f)"
  have g: "g = ?G - ?G div 64" using assms by (simp add: take_gas_def Let_def)
  have le: "?G div 64 \<le> ?G" by (simp add: word_le_nat_alt unat_div)
  then have "g \<le> ?G" unfolding g by (simp add: word_le_nat_alt unat_sub)
  then have u: "\<not> ?G < g" "unat (?G - g) + unat g = unat ?G" by (simp_all add: not_less unat_sub word_le_nat_alt)
  have "f' = f\<lparr>fr_contract := snd (UseGas g (fr_contract f))\<rparr>" using assms unfolding g take_gas_def Let_def by simp
  then show "unat (ct_Gas (fr_contract f')) + unat g \<le> unat ?G" "fr_evm f' = fr_evm f" using u by (simp_all add: UseGas_def)
qed

lemma create_op_fsafe:
  assumes t: "take_gas (f\<lparr>fr_stack := st\<rparr>) = (g, f1)" and c: "create_ok E (fr_evm f) g m"
  shows "fsafe E 0 f (obind m (finish_create_op f1))"
proof -
  have "fsafe E 0 f (finish_create_op f1 (res, a, g', err, ev))" if "est E (fr_evm f) ev" "unat g' \<le> unat g" for res a g' err ev
    using that take_gas_le(1) [OF t] unat_add_le [of "ct_Gas (fr_contract f1)" g']
    by (simp add: finish_create_op_def Let_def fstep_def push_def)
  then show ?thesis
    using c unfolding create_ok_def wp_simps by (elim wp_mono) (auto split: prod.splits)
qed

lemma create_ops_fsafe:
  assumes k: "keccak_ok (ve_codec E)"
    and r: "ev_depth (fr_evm f) \<le> CallCreateDepth \<Longrightarrow> good_runner E (ev_depth (fr_evm f)) r"
  shows "fsafe E 0 f (opCreate E r f)" "fsafe E 0 f (opCreate2 E r f)"
proof -
  have e: "fr_evm f1 = fr_evm f" if "take_gas (f\<lparr>fr_stack := st\<rparr>) = (g, f1)" for st g f1
    using take_gas_le(2) [OF that] by simp
  show "fsafe E 0 f (opCreate E r f)" "fsafe E 0 f (opCreate2 E r f)"
    using create_op_fsafe [OF _ evm_Create_ok(1) [OF k r]] create_op_fsafe [OF _ evm_Create_ok(2) [OF k r]] e
    by (auto simp: opCreate_def opCreate2_def pops simp del: wp_simps(4) split: prod.split)
qed

section \<open>The table of operations\<close>

text \<open>\<open>op_good\<close>: an operation gives the contract no more gas than it costs, and less unless it ends the
  run.\<close>

definition op_good :: "vm_env \<Rightarrow> runner \<Rightarrow> nat \<Rightarrow> operation \<Rightarrow> bool" where
  "op_good E r d opn \<longleftrightarrow> (\<exists>low gain. (\<forall>f ms. gas_ok E low f (op_gasCost opn DefaultGasTable E f ms)) \<and>
     (\<forall>f. ev_depth (fr_evm f) = d \<longrightarrow> fsafe E (gain f) f (op_execute opn E r f)) \<and>
     (\<forall>f f'. fr_evm f' = fr_evm f \<longrightarrow> fr_stack f' = fr_stack f \<longrightarrow>
        gain f' \<le> low f \<and> (gain f' < low f \<or> op_halts opn \<or> op_reverts opn)))"

lemma op_paid:
  assumes "\<And>f ms. gas_ok E paid f (op_gasCost opn DefaultGasTable E f ms)"
    "\<And>f. ev_depth (fr_evm f) = d \<Longrightarrow> fsafe E 0 f (op_execute opn E r f)"
  shows "op_good E r d opn"
  using assms unfolding op_good_def by (intro exI [of _ paid] exI [of _ "\<lambda>_. 0"]) simp

lemma op_free:
  assumes "\<And>f ms. gas_ok E free f (op_gasCost opn DefaultGasTable E f ms)"
    "\<And>f. ev_depth (fr_evm f) = d \<Longrightarrow> fsafe E 0 f (op_execute opn E r f)" "op_halts opn \<or> op_reverts opn"
  shows "op_good E r d opn"
  using assms unfolding op_good_def by (intro exI [of _ free] exI [of _ "\<lambda>_. 0"]) simp

lemma gas_ok_mono:
  "gas_ok E low f g \<Longrightarrow> (\<And>f'. fr_stack f' = fr_stack f \<Longrightarrow> low' f' \<le> low f') \<Longrightarrow> gas_ok E low' f g"
  unfolding gas_ok_def by (erule wp_mono) (auto intro: le_trans)

lemma op_call:
  assumes "\<And>f ms. gas_ok E (call_low (n f)) f (op_gasCost opn DefaultGasTable E f ms)"
    "\<And>f. ev_depth (fr_evm f) = d \<Longrightarrow> fsafe E (handed_on f + n f) f (op_execute opn E r f)"
    "\<And>f f'. fr_stack f' = fr_stack f \<Longrightarrow> n f' = n f"
  shows "op_good E r d opn"
proof -
  have "call_low (n f') f' \<le> call_low (n f) f'" if "fr_stack f' = fr_stack f" for f f'
    using assms(3) [OF that] by simp
  then have "gas_ok E (\<lambda>f. call_low (n f) f) f (op_gasCost opn DefaultGasTable E f ms)" for f ms
    by (rule gas_ok_mono [OF assms(1)])
  moreover have "handed_on f' + n f' < call_low (n f) f" if "fr_evm f' = fr_evm f" "fr_stack f' = fr_stack f" for f f'
    using assms(3) [OF that(2)] that(1) by (simp add: call_low_def handed_on_def)
  ultimately show ?thesis
    unfolding op_good_def using assms(2)
    by (intro exI [of _ "\<lambda>f. call_low (n f) f"] exI [of _ "\<lambda>f. handed_on f + n f"]) (simp add: less_imp_le)
qed

lemma oper_sel [simp]:
  "op_execute (oper e g v) = e" "op_gasCost (oper e g v) = g" "op_validateStack (oper e g v) = v"
  "op_memorySize (oper e g v) = None" "op_halts (oper e g v) = False" "op_jumps (oper e g v) = False"
  "op_writes (oper e g v) = False" "op_reverts (oper e g v) = False" "op_returns (oper e g v) = False"
  by (simp_all add: oper_def)

lemma stipend_stack: "fr_stack f' = fr_stack f \<Longrightarrow> stipend f' = stipend f"
  by (simp add: stipend_def)

lemma list_all_simps: "list_all P [x] = P x" "list_all P (x # y # xs) = (P x \<and> list_all P (y # xs))"
  by simp_all

lemma arith_table_good: "list_all (op_good E r d \<circ> snd) arith_table"
  unfolding arith_table_def list_all_simps o_def snd_conv
  by (intro conjI; (rule op_free; simp add: const_gas_ok opStop_def; fail | rule op_paid;
      simp add: arith_fsafe gasExp_ok const_gas_ok gas_prices del: One_nat_def))

lemma env_table_good: "keccak_ok (ve_codec E) \<Longrightarrow> list_all (op_good E r d \<circ> snd) env_table"
  unfolding env_table_def list_all_simps o_def snd_conv
  by (intro conjI; rule op_paid; simp add: env_fsafe mem_gas_funcs plain_gas_funcs const_gas_ok gas_prices del: One_nat_def)

lemma flow_table_good: "keccak_ok (ve_codec E) \<Longrightarrow> list_all (op_good E r d \<circ> snd) flow_table"
  unfolding flow_table_def list_all_simps o_def snd_conv
  by (intro conjI; rule op_paid;
      simp add: flow_fsafe jump_fsafe mem_gas_funcs plain_gas_funcs gasSStore_ok const_gas_ok gas_prices del: One_nat_def)

lemma stack_tables_good:
  assumes "keccak_ok (ve_codec E)"
  shows "list_all (op_good E r d \<circ> snd) push_table" "list_all (op_good E r d \<circ> snd) dup_table"
    "list_all (op_good E r d \<circ> snd) swap_table" "list_all (op_good E r d \<circ> snd) log_table"
  unfolding push_table_def dup_table_def swap_table_def log_table_def list_all_length length_map
  by (auto simp: flow_fsafe assms plain_gas_funcs mem_gas_funcs simp del: One_nat_def intro!: op_paid)

lemma call_tables_good:
  assumes "keccak_ok (ve_codec E)" "d \<le> CallCreateDepth \<Longrightarrow> good_runner E d r"
  shows "list_all (op_good E r d \<circ> snd) call_table" "list_all (op_good E r d \<circ> snd) late_table"
    "list_all (op_good E r d \<circ> snd) shift_table" "list_all (op_good E r d \<circ> snd) last_table"
proof -
  have k: "keccak_ok (ve_codec E)" and r: "ev_depth (fr_evm f) \<le> CallCreateDepth \<Longrightarrow> good_runner E (ev_depth (fr_evm f)) r"
    if "ev_depth (fr_evm f) = d" for f using assms that by simp_all
  show "list_all (op_good E r d \<circ> snd) call_table"
    unfolding call_table_def list_all_simps o_def snd_conv
    apply (intro conjI)
    apply (rule op_paid; simp add: mem_gas_funcs create_ops_fsafe assms r del: One_nat_def)
    apply (rule op_call [where n = stipend]; (erule stipend_stack | simp add: gasCall_ok call_ops_fsafe assms r))
    apply (rule op_call [where n = stipend]; (erule stipend_stack | simp add: gasCallCode_ok call_ops_fsafe assms r))
    apply (rule op_free; simp add: mem_gas_funcs flow_fsafe assms del: One_nat_def)
    apply (rule op_free; simp add: gasSuicide_ok flow_fsafe assms del: One_nat_def)
    done
  show "list_all (op_good E r d \<circ> snd) late_table"
    unfolding late_table_def list_all_simps o_def snd_conv
    apply (intro conjI)
    apply (rule op_call [where n = "\<lambda>_. 0"]; simp add: delegate_gas_funcs call_ops_fsafe assms r del: One_nat_def)
    apply (rule op_call [where n = "\<lambda>_. 0"]; simp add: delegate_gas_funcs call_ops_fsafe assms r del: One_nat_def)
    apply (rule op_paid; simp add: env_fsafe assms const_gas_ok gas_prices del: One_nat_def)
    apply (rule op_paid; simp add: env_fsafe assms mem_gas_funcs del: One_nat_def)
    apply (rule op_free; simp add: mem_gas_funcs flow_fsafe assms del: One_nat_def)
    done
  show "list_all (op_good E r d \<circ> snd) shift_table"
    unfolding shift_table_def list_all_simps o_def snd_conv
    by (intro conjI; rule op_paid; simp add: arith_fsafe const_gas_ok gas_prices del: One_nat_def)
  show "list_all (op_good E r d \<circ> snd) last_table"
    unfolding last_table_def list_all_simps o_def snd_conv
    by (intro conjI; rule op_paid; simp add: env_fsafe create_ops_fsafe assms r mem_gas_funcs plain_gas_funcs del: One_nat_def)
qed

lemma instruction_good:
  assumes "keccak_ok (ve_codec E)" "d \<le> CallCreateDepth \<Longrightarrow> good_runner E d r" "map_of newInstructionSet code = Some opn"
  shows "op_good E r d opn"
proof -
  have "list_all (op_good E r d \<circ> snd) newInstructionSet"
    unfolding newInstructionSet_def list_all_append
    by (intro conjI arith_table_good env_table_good flow_table_good stack_tables_good call_tables_good assms)
  with assms(3) show ?thesis by (auto simp: list_all_iff dest!: map_of_SomeD)
qed

section \<open>Runs\<close>

definition step_ok :: "vm_env \<Rightarrow> frame \<Rightarrow> step \<Rightarrow> bool" where
  "step_ok E f s = (case s of
     Next f' \<Rightarrow> est E (fr_evm f) (fr_evm f') \<and> unat (ct_Gas (fr_contract f')) < unat (ct_Gas (fr_contract f))
   | Halt ret err f' \<Rightarrow> est E (fr_evm f) (fr_evm f') \<and> unat (ct_Gas (fr_contract f')) \<le> unat (ct_Gas (fr_contract f)))"

lemma step_result_ok:
  assumes "est E (fr_evm f) (fr_evm f1)" "unat (ct_Gas (fr_contract f1)) + unat x = unat (ct_Gas (fr_contract f))"
    and "fstep E n f1 f2" "n \<le> unat x" "n < unat x \<or> op_halts opn \<or> op_reverts opn"
  shows "wp (step_result opn (ret, err, f2)) (step_ok E f)"
proof -
  have "est E (fr_evm f) (fr_evm f2)" using assms(1,3) est_trans by (auto simp: fstep_def)
  moreover have "unat (ct_Gas (fr_contract f2)) \<le> unat (ct_Gas (fr_contract f))"
    "n < unat x \<Longrightarrow> unat (ct_Gas (fr_contract f2)) < unat (ct_Gas (fr_contract f))"
    using assms(2-4) by (auto simp: fstep_def)
  ultimately show ?thesis
    using assms(5) by (auto simp: step_result_def Let_def step_ok_def)
qed

lemma run_op_ok:
  assumes "op_good E r (ev_depth (fr_evm f)) opn"
  shows "wp (run_op E r opn ms f) (step_ok E f)"
proof -
  from assms obtain low gain where gas: "gas_ok E low f (op_gasCost opn DefaultGasTable E f ms)"
    and ex: "\<And>f'. ev_depth (fr_evm f') = ev_depth (fr_evm f) \<Longrightarrow> fsafe E (gain f') f' (op_execute opn E r f')"
    and le: "\<And>f f'. fr_evm f' = fr_evm f \<Longrightarrow> fr_stack f' = fr_stack f \<Longrightarrow> gain f' \<le> low f \<and> (gain f' < low f \<or> op_halts opn \<or> op_reverts opn)"
    unfolding op_good_def by blast
  show ?thesis
    unfolding run_op_def wp_simps
  proof (rule wp_mono [OF gas [unfolded gas_ok_def]], clarify)
    fix cost :: "vm_error + u64" and f1 :: frame
    assume e: "est E (fr_evm f) (fr_evm f1)" and c: "fr_contract f1 = fr_contract f" and x: "\<forall>x. cost = Inr x \<longrightarrow> low f1 \<le> unat x"
    show "wp (case cost of Inl e \<Rightarrow> Returns (Halt [] (Some ErrOutOfGas) f1)
       | Inr cost \<Rightarrow> (case UseGas cost (fr_contract f1) of (b, contract) \<Rightarrow>
           let f1 = f1\<lparr>fr_contract := contract\<rparr>
           in if \<not> b then Returns (Halt [] (Some ErrOutOfGas) f1)
              else let f1 = (if ms > 0 then f1\<lparr>fr_mem := mem_Resize ms (fr_mem f1)\<rparr> else f1)
                   in obind (op_execute opn E r f1) (step_result opn))) (step_ok E f)"
    proof (cases cost)
      case (Inr p)
      obtain b ct where u: "UseGas p (fr_contract f1) = (b, ct)" by fastforce
      show ?thesis
      proof (cases b)
        case True
        define f2 where "f2 = (if ms > 0 then f1\<lparr>fr_contract := ct, fr_mem := mem_Resize ms (fr_mem f1)\<rparr> else f1\<lparr>fr_contract := ct\<rparr>)"
        have f2: "fr_evm f2 = fr_evm f1" "fr_stack f2 = fr_stack f1" "fr_contract f2 = ct" by (simp_all add: f2_def)
        have g: "unat (ct_Gas (fr_contract f2)) + unat p = unat (ct_Gas (fr_contract f))" using UseGas_paid u True c f2 by simp
        have d: "ev_depth (fr_evm f2) = ev_depth (fr_evm f)" using e f2 by (simp add: est_def)
        have e2: "est E (fr_evm f) (fr_evm f2)" using e f2 by simp
        have n: "gain f2 \<le> unat p" "gain f2 < unat p \<or> op_halts opn \<or> op_reverts opn"
          using le [OF f2(1,2)] x Inr by (auto intro: le_trans less_le_trans)
        have "wp (obind (op_execute opn E r f2) (step_result opn)) (step_ok E f)"
          unfolding wp_simps
          by (rule wp_mono [OF ex [OF d]]) (use step_result_ok [OF e2 g _ n] in \<open>auto split: prod.splits\<close>)
        then show ?thesis using Inr u True by (cases "ms > 0") (simp_all add: Let_def f2_def)
      qed (use Inr u c e UseGas_le [OF u] in \<open>simp add: Let_def step_ok_def\<close>)
    qed (use c e in \<open>simp add: step_ok_def\<close>)
  qed
qed


lemma enforceRestrictions_wp: "wp (enforceRestrictions code opn f) (\<lambda>_. True)"
  by (simp add: enforceRestrictions_def)

lemma step_memory_wp: "wp (step_memory opn f) (\<lambda>_. True)"
  by (auto simp: step_memory_def split: option.split prod.split)

lemma run_step_ok:
  assumes "keccak_ok (ve_codec E)"
    "ev_depth (fr_evm f) \<le> CallCreateDepth \<Longrightarrow> good_runner E (ev_depth (fr_evm f)) r"
  shows "wp (run_step E r f) (step_ok E f)"
proof -
  have halt: "step_ok E f (Halt [] e f)" for e by (simp add: step_ok_def)
  have op: "wp (run_op E r opn ms f) (step_ok E f)" if "map_of newInstructionSet c = Some opn" for c opn ms
    by (rule run_op_ok) (use instruction_good assms that in blast)
  show ?thesis
    unfolding run_step_def Let_def
    by (auto simp: halt split: option.split sum.split intro!: wp_mono [OF enforceRestrictions_wp] wp_mono [OF step_memory_wp] op)
qed

lemma run_loop_ok:
  assumes k: "keccak_ok (ve_codec E)"
    and r: "d \<le> CallCreateDepth \<Longrightarrow> good_runner E d r"
  shows "ev_depth (fr_evm f) = d \<Longrightarrow> unat (ct_Gas (fr_contract f)) < n \<Longrightarrow>
    wp (run_loop E r n f) (\<lambda>(ret, err, f'). est E (fr_evm f) (fr_evm f') \<and>
      unat (ct_Gas (fr_contract f')) \<le> unat (ct_Gas (fr_contract f)))"
proof (induction n arbitrary: f)
  case (Suc n)
  have "wp (run_step E r f) (step_ok E f)" using run_step_ok [OF k] r Suc.prems(1) by simp
  then have "wp (run_step E r f) (\<lambda>s. wp (case s of Next f \<Rightarrow> run_loop E r n f | Halt ret err f \<Rightarrow> Returns (ret, err, f))
     (\<lambda>(ret, err, f'). est E (fr_evm f) (fr_evm f') \<and> unat (ct_Gas (fr_contract f')) \<le> unat (ct_Gas (fr_contract f))))"
  proof (rule wp_mono)
    fix s assume s: "step_ok E f s"
    show "wp (case s of Next f \<Rightarrow> run_loop E r n f | Halt ret err f \<Rightarrow> Returns (ret, err, f))
     (\<lambda>(ret, err, f'). est E (fr_evm f) (fr_evm f') \<and> unat (ct_Gas (fr_contract f')) \<le> unat (ct_Gas (fr_contract f)))"
    proof (cases s)
      case (Next f1)
      then have "ev_depth (fr_evm f1) = d" "unat (ct_Gas (fr_contract f1)) < n"
        using s Suc.prems by (auto simp: step_ok_def est_def)
      from wp_mono [OF Suc.IH [OF this]] show ?thesis
        using s Next est_trans by (fastforce simp: step_ok_def)
    qed (use s in \<open>simp add: step_ok_def\<close>)
  qed
  then show ?case by simp
qed simp

lemma interpreter_good:
  assumes k: "keccak_ok (ve_codec E)" and r: "Suc d \<le> CallCreateDepth \<Longrightarrow> good_runner E (Suc d) r"
  shows "good_runner E d (interpreter_Run E r)"
  unfolding good_runner_def
proof (intro allI impI)
  fix ev :: EVM and ct :: Contract and input ro assume d: "ev_depth ev = d"
  define sets where "sets = (ro \<and> \<not> ev_readOnly ev)"
  define leave where "leave = (\<lambda>ev :: EVM. ev\<lparr>ev_depth := ev_depth ev - 1, ev_readOnly := (if sets then False else ev_readOnly ev)\<rparr>)"
  define f where "f = \<lparr>fr_pc = 0, fr_contract = ct\<lparr>ct_Input := input\<rparr>, fr_mem = NewMemory, fr_stack = [],
    fr_evm = ev\<lparr>ev_depth := ev_depth ev + 1, ev_readOnly := (ev_readOnly ev \<or> sets), ev_returnData := []\<rparr>\<rparr>"
  have "wp (run_loop E r (unat (ct_Gas ct) + 1) f) (\<lambda>(ret, err, f'). est E (fr_evm f) (fr_evm f') \<and>
      unat (ct_Gas (fr_contract f')) \<le> unat (ct_Gas ct))"
    using run_loop_ok [OF k r, of f "unat (ct_Gas ct) + 1"] d by (simp add: f_def)
  then have run: "wp (run_loop E r (unat (ct_Gas ct) + 1) f) (\<lambda>(ret, err, f').
      est E ev (leave (fr_evm f')) \<and> unat (ct_Gas (fr_contract f')) \<le> unat (ct_Gas ct))"
    by (rule wp_mono) (auto simp: f_def est_def sets_def leave_def)
  have "interpreter_Run E r ev ct input ro =
    (if ct_Code ct = [] then Returns ([], None, ct, leave (fr_evm f))
     else obind (run_loop E r (unat (ct_Gas ct) + 1) f) (\<lambda>(ret, err, f). Returns (ret, err, fr_contract f, leave (fr_evm f))))"
    unfolding interpreter_Run_def Let_def f_def sets_def leave_def by simp
  moreover have "est E ev (leave (fr_evm f))" by (auto simp: leave_def f_def est_def sets_def)
  moreover have "wp (obind (run_loop E r (unat (ct_Gas ct) + 1) f) (\<lambda>(ret, err, f). Returns (ret, err, fr_contract f, leave (fr_evm f))))
      (\<lambda>(ret, err, ct', ev'). est E ev ev' \<and> unat (ct_Gas ct') \<le> unat (ct_Gas ct))"
    unfolding wp_simps(4) by (rule wp_mono [OF run]) auto
  ultimately show "wp (interpreter_Run E r ev ct input ro) (\<lambda>(ret, err, ct', ev'). est E ev ev' \<and> unat (ct_Gas ct') \<le> unat (ct_Gas ct))"
    by (simp del: run_loop.simps wp_simps(4))
qed

lemma Run_at_good:
  assumes "keccak_ok (ve_codec E)"
  shows "depth \<le> CallCreateDepth \<Longrightarrow> CallCreateDepth < depth + levels \<Longrightarrow> good_runner E depth (Run_at E levels)"
proof (induction levels arbitrary: depth)
  case (Suc n)
  have "good_runner E (Suc depth) (Run_at E n)" if "Suc depth \<le> CallCreateDepth"
    using Suc.IH [OF that] Suc.prems(2) by simp
  from interpreter_good [OF assms this]
  have "good_runner E depth (interpreter_Run E (Run_at E n))" by simp
  then show ?case by (simp add: good_runner_def)
qed simp

section \<open>What a call guarantees\<close>

lemma call_levels_good:
  assumes "keccak_ok (ve_codec E)" "ev_depth ev \<le> CallCreateDepth"
  shows "good_runner E (ev_depth ev) (Run_at E call_levels)"
  by (rule Run_at_good) (use assms in \<open>simp_all add: call_levels_def\<close>)

definition sample_env :: vm_env where
  "sample_env =
     \<lparr>ve_codec = sample_state_codec, ve_GetHash = (\<lambda>_. None), ve_Origin = replicate 20 7, ve_GasPrice = 2, ve_Coinbase = replicate 20 1,
      ve_GasLimit = 100000, ve_BlockNumber = 5, ve_Time = 1000, ve_NoRecursion = False, ve_EnablePreimageRecording = False,
      ve_rlp_address_nonce = (\<lambda>a n. a @ le_put 8 n), ve_sha256 = sample_digest, ve_ripemd160 = (\<lambda>b. take 20 (sample_digest b)),
      ve_Ecrecover = (\<lambda>_ _. None), ve_G1_Unmarshal = (\<lambda>_. None), ve_G2_Unmarshal = (\<lambda>_. None), ve_G1_Add = (@),
      ve_G1_ScalarMult = (\<lambda>p _. p), ve_PairingCheck = (\<lambda>_ _. False)\<rparr>"

lemma sample_env_sel [simp]: "ve_codec sample_env = sample_state_codec" "ve_GasPrice sample_env = 2"
  by (simp_all add: sample_env_def)

text \<open>A contract that reverts, \<^verbatim>\<open>PUSH1 0 PUSH1 0 REVERT\<close>, called by a contract with a balance.\<close>

definition sample_machine :: EVM where
  "sample_machine =
     NewEVM (sd_SetCode sample_state_codec (replicate 20 9) [0x60, 0x00, 0x60, 0x00, 0xfd]
               (sd_SetCode sample_state_codec (replicate 20 7) [0x00] sample_sdb))"

definition sample_contract :: Contract where
  "sample_contract =
     \<lparr>ct_CallerAddress = replicate 20 8, ct_self = replicate 20 7, ct_analysis = None, ct_Code = [0x00], ct_CodeHash = replicate 32 5,
      ct_CodeAddr = Some (replicate 20 7), ct_Input = [], ct_Gas = 1000, ct_value = 0\<rparr>"

definition sample_call :: "(bytes \<times> u64 \<times> vm_error option \<times> EVM) outcome" where
  "sample_call = evm_Call sample_env (Run_at sample_env call_levels) sample_machine (CallerContract sample_contract) (replicate 20 9) [] 300 3"

lemma sample_db:
  "sd_inv sample_state_codec sample_sdb" "sd_inv sample_state_codec (sd_SetCode sample_state_codec (replicate 20 7) [0x00] sample_sdb)"
  "sd_inv sample_state_codec (ev_StateDB sample_machine)"
proof -
  obtain s where s: "sd_New None None [] = Inr s" by (simp add: sd_New_def trie_New_def)
  show i1: "sd_inv sample_state_codec sample_sdb"
    using jstep_AddBalance [OF sample_keccak_ok, of s "replicate 20 7" 5] sd_New_inv [OF s, of sample_state_codec] s
    by (simp add: jstep_def sample_sdb_def)
  then show "sd_inv sample_state_codec (sd_SetCode sample_state_codec (replicate 20 7) [0x00] sample_sdb)"
    using jstep_SetCode [OF sample_keccak_ok] by (simp add: jstep_def)
  then show "sd_inv sample_state_codec (ev_StateDB sample_machine)"
    using jstep_SetCode [OF sample_keccak_ok] by (simp add: jstep_def sample_machine_def NewEVM_def)
qed

lemma sample_reverts: "\<exists>ret left ev'. sample_call = Returns (ret, left, Some errExecutionReverted, ev')"
proof -
  have "case sample_call of Returns (ret, left, err, ev) \<Rightarrow> err = Some errExecutionReverted | _ \<Rightarrow> False" by code_simp
  then show ?thesis by (auto split: outcome.splits)
qed

text \<open>C9: Running a contract ends. Whatever the code, the input and the state, a call and a creation from the
  outside end within one level of nesting per call depth and one step per unit of gas: they return or panic, but
  never run on. If they return, they give back at most the gas they got.\<close>

theorem contract_calls_end:
  assumes "keccak_ok (ve_codec E)" "ev_depth ev \<le> CallCreateDepth"
  shows "(case evm_Call E (Run_at E call_levels) ev caller addr input gas v of
            Returns (ret, left, err, ev') \<Rightarrow> unat left \<le> unat gas \<and> ev_depth ev' = ev_depth ev
          | Panics \<Rightarrow> True | OutOfFuel \<Rightarrow> False) \<and>
         (case evm_Create E (Run_at E call_levels) ev caller code gas v of
            Returns (ret, address, left, err, ev') \<Rightarrow> unat left \<le> unat gas \<and> ev_depth ev' = ev_depth ev
          | Panics \<Rightarrow> True | OutOfFuel \<Rightarrow> False)"
  using evm_Call_ok [OF assms(1) call_levels_good [OF assms], of gas caller addr input v]
    evm_Create_ok(1) [OF assms(1) call_levels_good [OF assms], of gas caller code v]
  by (auto simp: call_ok_def create_ok_def wp_def est_def split: outcome.splits)

theorem contract_calls_end_witness:
  "case sample_call of Returns (ret, left, err, ev') \<Rightarrow> unat left \<le> unat (300 :: u64) \<and> ev_depth ev' = 0 | Panics \<Rightarrow> True | OutOfFuel \<Rightarrow> False"
proof -
  have k: "keccak_ok (ve_codec sample_env)" and d: "ev_depth sample_machine = 0"
    using sample_keccak_ok by (simp_all add: sample_machine_def NewEVM_def)
  have "ev_depth sample_machine \<le> CallCreateDepth" by (simp add: d)
  from contract_calls_end [OF k this, where gas = 300 and v = 3 and input = "[]" and code = "[]"
      and caller = "CallerContract sample_contract" and addr = "replicate 20 9", THEN conjunct1, unfolded d] show ?thesis
    by (simp add: sample_call_def)
qed

text \<open>C8: A call that fails leaves no trace in the state: after a call of any of the four kinds that returns an
  error, the accounts with their nonces, balances, code and storage, the refund counter, the logs and the preimages
  are what they were before the call, and the journal is as consistent as before.\<close>

theorem failed_call_restores_state:
  assumes "keccak_ok (ve_codec E)" "ev_depth ev \<le> CallCreateDepth" "sd_inv (ve_codec E) (ev_StateDB ev)"
    and "m \<in> {evm_Call E (Run_at E call_levels) ev caller addr input gas v,
              evm_CallCode E (Run_at E call_levels) ev caller addr input gas v,
              evm_DelegateCall E (Run_at E call_levels) ev caller addr input gas,
              evm_StaticCall E (Run_at E call_levels) ev caller addr input gas}"
    and "m = Returns (ret, left, Some err, ev')"
  shows "abs_state (ve_codec E) (ev_StateDB ev') = abs_state (ve_codec E) (ev_StateDB ev) \<and>
    sd_inv (ve_codec E) (ev_StateDB ev')"
proof -
  note r = call_levels_good [OF assms(1,2)]
  have "call_ok E ev gas m"
    using assms(4) evm_Call_ok [OF assms(1) r] evm_CallCode_ok [OF r] evm_DelegateCall_ok [OF r] evm_StaticCall_ok [OF assms(1) r]
    by blast
  then show ?thesis using assms(3,5) est_inv by (auto simp: call_ok_def)
qed

theorem failed_call_restores_state_witness:
  "\<exists>ret left ev'. sample_call = Returns (ret, left, Some errExecutionReverted, ev') \<and>
     abs_state sample_state_codec (ev_StateDB ev') = abs_state sample_state_codec (ev_StateDB sample_machine)"
proof -
  obtain ret left ev' where m: "sample_call = Returns (ret, left, Some errExecutionReverted, ev')" using sample_reverts by blast
  have "keccak_ok (ve_codec sample_env)" "ev_depth sample_machine \<le> CallCreateDepth" "sd_inv (ve_codec sample_env) (ev_StateDB sample_machine)"
    using sample_keccak_ok sample_db(3) by (simp_all add: sample_machine_def NewEVM_def)
  from failed_call_restores_state [OF this insertI1 m [unfolded sample_call_def]] m show ?thesis by auto
qed

end
