(* ===== verification/State_Accounts.thy ===== *)
theory State_Accounts
  imports World_State
begin

text \<open>
  The writes of the state database as functions of the abstract state: each operation of
  \<^verbatim>\<open>World_State\<close> changes the account it names and nothing else. The balances read from the abstract
  state are the ground for accounting: a change is \<open>pays\<close> when it touches finitely many balances, keeps
  them non-negative and does not raise their sum.
\<close>

section \<open>The account at an address\<close>

definition fresh :: "state_codec \<Rightarrow> tdb \<Rightarrow> AcctView" where
  "fresh c db = obj_view c db (newObject c [] zero_Account)"

definition acct :: "state_codec \<Rightarrow> StateDB \<Rightarrow> bytes \<Rightarrow> AcctView" where
  "acct c s a = (case as_acc (abs_state c s) a of None \<Rightarrow> fresh c (st_db s) | Some v \<Rightarrow> v)"

definition put_acct :: "bytes \<Rightarrow> AcctView \<Rightarrow> AState \<Rightarrow> AState" where
  "put_acct a v A = A\<lparr>as_acc := (as_acc A)(a \<mapsto> v)\<rparr>"

lemma view_newObject: "obj_view c db (newObject c a zero_Account) = fresh c db"
  by (simp add: fresh_def view_simps newObject_def zero_Account_def)

lemma fresh_sel [simp]: "av_nonce (fresh c db) = 0" "av_balance (fresh c db) = 0" "av_code (fresh c db) = []"
  by (simp_all add: fresh_def obj_view_def newObject_def zero_Account_def so_Code_def)

lemma put_put [simp]: "put_acct a v (put_acct a w A) = put_acct a v A"
  by (simp add: put_acct_def)

lemma as_acc_put [simp]: "as_acc (put_acct a v A) b = (if b = a then Some v else as_acc A b)"
  by (simp add: put_acct_def)

lemma put_same: "as_acc A a = Some v \<Longrightarrow> put_acct a v A = A"
  by (simp add: put_acct_def fun_upd_idem)

lemma abs_set:
  "\<not> so_deleted obj \<Longrightarrow> abs_state c (setStateObject obj s) = put_acct (so_address obj) (obj_view c (st_db s) obj) (abs_state c s)"
  by (simp add: abs_setStateObject put_acct_def)

lemma acct_lookup: "lookup c a s = Some obj \<Longrightarrow> acct c s a = obj_view c (st_db s) obj"
  by (simp add: acct_def acc_lookup)

text \<open>\<^verbatim>\<open>getOrNewStateObject\<close> makes sure that the account exists.\<close>

lemma createObject_abs:
  assumes "keccak_ok c" "sd_inv c s" "createObject c a s = (new, prev, s')"
  shows "abs_state c s' = put_acct a (fresh c (st_db s)) (abs_state c s)" "obj_view c (st_db s') new = fresh c (st_db s)"
    "st_db s' = st_db s"
proof -
  obtain r s1 where g: "getStateObject c a s = (r, s1)" by fastforce
  note s1 = getStateObject_step [OF g]
  have v: "(fresh c db)\<lparr>av_nonce := 0\<rparr> = fresh c db" for db by (simp add: fresh_def obj_view_def newObject_def zero_Account_def)
  have s': "s' = setStateObject new (sd_append (case r of None \<Rightarrow> CreateObjectChange a | Some p \<Rightarrow> ResetObjectChange p) s1)"
    and n: "new = so_setNonce 0 (newObject c a zero_Account)"
    using assms(3) g by (auto simp: createObject_def Let_def split: option.splits)
  show "abs_state c s' = put_acct a (fresh c (st_db s)) (abs_state c s)" "obj_view c (st_db s') new = fresh c (st_db s)"
    "st_db s' = st_db s"
    using s1(5) [OF assms(2)] s1(6) by (simp_all add: s' n abs_set obj_view_changes view_newObject v)
qed

lemma getOrNew_abs:
  assumes "keccak_ok c" "sd_inv c s" "getOrNewStateObject c a s = (obj, s')"
  shows "abs_state c s' = put_acct a (acct c s a) (abs_state c s)" "obj_view c (st_db s') obj = acct c s a"
    "st_db s' = st_db s"
proof -
  obtain r s1 where g: "getStateObject c a s = (r, s1)" by fastforce
  note s1 = getStateObject_step [OF g]
  have "abs_state c s' = put_acct a (acct c s a) (abs_state c s) \<and> obj_view c (st_db s') obj = acct c s a \<and> st_db s' = st_db s"
  proof (cases "lookup c a s")
    case None
    then obtain prev where "createObject c a s1 = (obj, prev, s')"
      using assms(3) g s1(1) by (auto simp: getOrNewStateObject_def split: prod.splits)
    from createObject_abs [OF assms(1) s1(3) [OF assms(2)] this] show ?thesis
      using None s1(5,6) assms(2) by (simp add: acct_def abs_state_def)
  next
    case (Some p)
    then have "\<not> so_deleted p" using lookup_wf [of c s a p] assms(2) by (simp add: sd_inv_def)
    then have o: "obj = p" "s' = s1" using assms(3) g s1(1) Some by (auto simp: getOrNewStateObject_def)
    show ?thesis
      using s1(5,6) assms(2) Some acct_lookup [OF Some] acc_lookup [OF Some] by (simp add: o put_same)
  qed
  then show "abs_state c s' = put_acct a (acct c s a) (abs_state c s)" "obj_view c (st_db s') obj = acct c s a" "st_db s' = st_db s"
    by blast+
qed

section \<open>The writes\<close>

lemma writes_abs:
  assumes k: "keccak_ok c" and inv: "sd_inv c s"
  shows "abs_state c (sd_AddBalance c a n s) = put_acct a ((acct c s a)\<lparr>av_balance := av_balance (acct c s a) + n\<rparr>) (abs_state c s)"
    "abs_state c (sd_SubBalance c a n s) = put_acct a ((acct c s a)\<lparr>av_balance := av_balance (acct c s a) - n\<rparr>) (abs_state c s)"
    "abs_state c (sd_SetBalance c a n s) = put_acct a ((acct c s a)\<lparr>av_balance := n\<rparr>) (abs_state c s)"
    "abs_state c (sd_SetNonce c a m s) = put_acct a ((acct c s a)\<lparr>av_nonce := m\<rparr>) (abs_state c s)"
    "abs_state c (sd_SetState c a key v s) =
       put_acct a ((acct c s a)\<lparr>av_store := (av_store (acct c s a))(key := v)\<rparr>) (abs_state c s)"
    "abs_state c (sd_SetCode c a code s) =
       put_acct a ((acct c s a)\<lparr>av_code := code, av_hash := BytesToHash (keccak256 c code)\<rparr>) (abs_state c s)"
proof -
  obtain obj s' where g: "getOrNewStateObject c a s = (obj, s')" by fastforce
  note abs = getOrNew_abs [OF k inv g] and l = getOrNew_step(2) [OF k g inv]
  have "av_balance (obj_view c (st_db s') obj) = ac_Balance (so_data obj)" by (simp add: obj_view_def)
  then have b: "ac_Balance (so_data obj) = av_balance (acct c s a)" using abs(2) by simp
  have touch: "abs_state c (so_touch a t) = abs_state c t" for t
    by (auto simp: so_touch_def Let_def intro!: abs_state_cong simp: lookup_def sd_GetLogs_def split: option.split)
  have keep: "(acct c s a)\<lparr>av_balance := av_balance (acct c s a)\<rparr> = acct c s a" by simp
  have set: "abs_state c (so_SetBalance obj x s') = put_acct a ((acct c s a)\<lparr>av_balance := x\<rparr>) (abs_state c s)" for x
    using l abs by (simp add: so_SetBalance_def abs_set obj_view_changes)
  show "abs_state c (sd_AddBalance c a n s) = put_acct a ((acct c s a)\<lparr>av_balance := av_balance (acct c s a) + n\<rparr>) (abs_state c s)"
    using abs l set by (simp add: sd_AddBalance_def g b touch)
  show "abs_state c (sd_SubBalance c a n s) = put_acct a ((acct c s a)\<lparr>av_balance := av_balance (acct c s a) - n\<rparr>) (abs_state c s)"
    using abs l set by (simp add: sd_SubBalance_def g b)
  show "abs_state c (sd_SetBalance c a n s) = put_acct a ((acct c s a)\<lparr>av_balance := n\<rparr>) (abs_state c s)"
    using set by (simp add: sd_SetBalance_def g)
  show "abs_state c (sd_SetNonce c a m s) = put_acct a ((acct c s a)\<lparr>av_nonce := m\<rparr>) (abs_state c s)"
    using abs l by (simp add: sd_SetNonce_def g abs_set obj_view_changes)
  obtain prev o1 where s1: "so_GetState c (st_db s') key obj = (prev, o1)" by fastforce
  note o1 = so_GetState_same [of c "st_db s'" key obj, unfolded s1 snd_conv]
  have "prev = av_store (acct c s a) key" using s1 abs(2) by (metis AcctView.select_convs(5) fst_conv obj_view_def)
  then show "abs_state c (sd_SetState c a key v s) =
       put_acct a ((acct c s a)\<lparr>av_store := (av_store (acct c s a))(key := v)\<rparr>) (abs_state c s)"
    using abs l o1 by (simp add: sd_SetState_def g s1 [unfolded abs(3)] abs_set obj_view_changes(4) fun_upd_idem)
  obtain prevcode o2 where s2: "so_Code c (st_db s') obj = (prevcode, o2)" by fastforce
  note o2 = so_Code_same [of c "st_db s'" obj, unfolded s2 snd_conv]
  have v: "code = [] \<longrightarrow> code_at c (st_db s') (BytesToHash (keccak256 c code)) = []"
    using k by (simp add: keccak_ok_def BytesToHash_def hash_SetBytes_full code_at_def emptyCodeHash_def)
  show "abs_state c (sd_SetCode c a code s) =
       put_acct a ((acct c s a)\<lparr>av_code := code, av_hash := BytesToHash (keccak256 c code)\<rparr>) (abs_state c s)"
    using abs l o2 v by (simp add: sd_SetCode_def g s2 [unfolded abs(3)] abs_set obj_view_changes(5))
qed


lemma Suicide_abs:
  assumes "sd_inv c s"
  shows "abs_state c (snd (sd_Suicide c a s)) =
    (case as_acc (abs_state c s) a of None \<Rightarrow> abs_state c s
     | Some v \<Rightarrow> put_acct a (v\<lparr>av_suicided := True, av_balance := 0\<rparr>) (abs_state c s))"
proof -
  obtain r s' where g: "getStateObject c a s = (r, s')" by fastforce
  note s' = getStateObject_step [OF g]
  have r: "as_acc (abs_state c s) a = map_option (obj_view c (st_db s)) r" using s'(1) by (simp add: abs_state_def)
  have d: "\<not> so_deleted obj \<and> so_address obj = a" if "r = Some obj" for obj
    using that s'(1) lookup_wf [of c s a obj] assms by (simp add: sd_inv_def)
  show ?thesis
    using r d s'(5) [OF assms] s'(6) by (cases r) (auto simp: sd_Suicide_def g abs_set obj_view_changes so_markSuicided_def)
qed

lemma CreateAccount_abs:
  assumes "keccak_ok c" "sd_inv c s"
  shows "abs_state c (sd_CreateAccount c a s) =
    put_acct a ((fresh c (st_db s))\<lparr>av_balance := av_balance (acct c s a)\<rparr>) (abs_state c s)"
proof -
  obtain new prev s' where cr: "createObject c a s = (new, prev, s')" by (metis prod_cases3)
  note st = createObject_step [OF assms(1) cr] and ab = createObject_abs [OF assms cr]
  have z: "(fresh c (st_db s))\<lparr>av_balance := 0\<rparr> = fresh c (st_db s)"
    by (simp add: fresh_def obj_view_def newObject_def zero_Account_def)
  show ?thesis
  proof (cases prev)
    case None
    then have "as_acc (abs_state c s) a = None" using st(2) by (simp add: abs_state_def)
    then show ?thesis using None ab by (simp add: sd_CreateAccount_def cr acct_def z)
  next
    case (Some p)
    then have "ac_Balance (so_data p) = av_balance (acct c s a)" using st(2) acct_lookup [of c a s p] by (simp add: obj_view_def)
    then show ?thesis using Some ab st(3) by (simp add: sd_CreateAccount_def cr abs_set obj_view_changes)
  qed
qed

lemma other_writes_abs:
  "abs_state c (sd_AddRefund gas s) = (abs_state c s)\<lparr>as_refund := refund s + gas\<rparr>"
  "as_acc (abs_state c (sd_AddLog l s)) = as_acc (abs_state c s)"
  "as_acc (abs_state c (sd_AddPreimage h p s)) = as_acc (abs_state c s)"
  "abs_state c (snd (sd_Snapshot s)) = abs_state c s"
proof -
  show "abs_state c (sd_AddRefund gas s) = (abs_state c s)\<lparr>as_refund := refund s + gas\<rparr>"
    by (auto simp: sd_AddRefund_def abs_state_def lookup_def sd_GetLogs_def sd_append_def split: option.split)
  show "as_acc (abs_state c (sd_AddLog l s)) = as_acc (abs_state c s)"
    "as_acc (abs_state c (sd_AddPreimage h p s)) = as_acc (abs_state c s)"
    "abs_state c (snd (sd_Snapshot s)) = abs_state c s"
    by (auto simp: sd_AddLog_def sd_AddPreimage_def sd_Snapshot_def abs_state_def lookup_def sd_GetLogs_def sd_append_def Let_def
        fun_eq_iff split: option.split)
qed

lemma reads_abs:
  assumes inv: "sd_inv c s"
  shows "abs_state c (snd (sd_Exist c a s)) = abs_state c s" "abs_state c (snd (sd_Empty c a s)) = abs_state c s"
    "abs_state c (snd (sd_GetBalance c a s)) = abs_state c s" "abs_state c (snd (sd_GetNonce c a s)) = abs_state c s"
    "abs_state c (snd (sd_GetCodeHash c a s)) = abs_state c s" "abs_state c (snd (sd_HasSuicided c a s)) = abs_state c s"
    "abs_state c (snd (sd_GetCode c a s)) = abs_state c s" "abs_state c (snd (sd_GetCodeSize c a s)) = abs_state c s"
    "abs_state c (snd (sd_IsContractAddr c a s)) = abs_state c s" "abs_state c (snd (sd_GetState c a k s)) = abs_state c s"
proof -
  obtain r s' where g: "getStateObject c a s = (r, s')" by fastforce
  note s' = getStateObject_step [OF g]
  show "abs_state c (snd (sd_Exist c a s)) = abs_state c s" "abs_state c (snd (sd_Empty c a s)) = abs_state c s"
    "abs_state c (snd (sd_GetBalance c a s)) = abs_state c s" "abs_state c (snd (sd_GetNonce c a s)) = abs_state c s"
    "abs_state c (snd (sd_GetCodeHash c a s)) = abs_state c s" "abs_state c (snd (sd_HasSuicided c a s)) = abs_state c s"
    using s'(5) [OF inv] by (simp_all add: sd_Exist_def sd_Empty_def sd_GetBalance_def sd_GetNonce_def sd_GetCodeHash_def
        sd_HasSuicided_def g)
  have cached: "abs_state c (setStateObject obj' s') = abs_state c s"
    if "r = Some obj" "obj_view c (st_db s') obj' = obj_view c (st_db s') obj" "so_address obj' = so_address obj"
      "so_deleted obj' = so_deleted obj" for obj obj'
  proof -
    have l: "lookup c a s = Some obj" using that(1) s'(1) by simp
    have "\<not> so_deleted obj" "so_address obj = a" using lookup_wf [OF _ l] inv by (simp_all add: sd_inv_def)
    then show ?thesis using that s'(5) [OF inv] s'(6) acc_lookup [OF l] by (simp add: abs_set put_same)
  qed
  show gc: "abs_state c (snd (sd_GetCode c a s)) = abs_state c s"
    using s'(5) [OF inv] cached so_Code_same by (auto simp: sd_GetCode_def g split_beta split: option.split)
  then show "abs_state c (snd (sd_GetCodeSize c a s)) = abs_state c s" "abs_state c (snd (sd_IsContractAddr c a s)) = abs_state c s"
    by (simp_all add: sd_GetCodeSize_def sd_IsContractAddr_def split_beta)
  show "abs_state c (snd (sd_GetState c a k s)) = abs_state c s"
    using s'(5) [OF inv] cached so_GetState_same by (auto simp: sd_GetState_def g split_beta split: option.split)
qed


section \<open>Balances\<close>

definition abal :: "AState \<Rightarrow> bytes \<Rightarrow> int" where
  "abal A a = (case as_acc A a of None \<Rightarrow> 0 | Some v \<Rightarrow> av_balance v)"

definition pays :: "(bytes \<Rightarrow> int) \<Rightarrow> (bytes \<Rightarrow> int) \<Rightarrow> bool" where
  "pays b b' \<longleftrightarrow> (\<forall>a. 0 \<le> b' a) \<and> (\<exists>S. finite S \<and> (\<forall>a. a \<notin> S \<longrightarrow> b' a = b a) \<and> sum b' S \<le> sum b S)"

lemma abal_put [simp]: "abal (put_acct a v A) = (abal A)(a := av_balance v)"
  by (auto simp: abal_def fun_eq_iff)

lemma abal_acct: "av_balance (acct c s a) = abal (abs_state c s) a"
  by (simp add: acct_def abal_def split: option.split)

lemma abal_refund [simp]: "abal (A\<lparr>as_refund := x\<rparr>) = abal A"
  by (simp add: abal_def fun_eq_iff)

lemma pays_refl: "(\<forall>a. 0 \<le> b a) \<Longrightarrow> pays b b"
  by (auto simp: pays_def intro: exI [of _ "{}"])

lemma pays_trans:
  assumes "pays b b1" "pays b1 b2"
  shows "pays b b2"
proof -
  from assms obtain S T where S: "finite S" "\<forall>a. a \<notin> S \<longrightarrow> b1 a = b a" "sum b1 S \<le> sum b S"
    and T: "finite T" "\<forall>a. a \<notin> T \<longrightarrow> b2 a = b1 a" "sum b2 T \<le> sum b1 T" by (auto simp: pays_def)
  have split: "sum f (A \<union> B) = sum f A + sum f (B - A)" if "finite A" "finite B" for A B and f :: "bytes \<Rightarrow> int"
    using that sum.union_disjoint [of A "B - A" f] by simp
  have "sum b1 (T - S) = sum b (T - S)" "sum b2 (S - T) = sum b1 (S - T)" using S(2) T(2) by (auto intro: sum.cong)
  then have "sum b1 (S \<union> T) \<le> sum b (S \<union> T)" "sum b2 (T \<union> S) \<le> sum b1 (T \<union> S)"
    using S(3) T(3) split [OF S(1) T(1)] split [OF T(1) S(1)] by simp_all
  then have "sum b2 (S \<union> T) \<le> sum b (S \<union> T)" by (simp add: Un_commute)
  then show ?thesis using assms(2) S T by (auto simp: pays_def intro!: exI [of _ "S \<union> T"])
qed

lemma pays_transfer:
  assumes "\<forall>a. 0 \<le> b a" "0 \<le> v" "v \<le> b x"
  shows "pays b ((b(x := b x - v))(y := (b(x := b x - v)) y + v))"
  using assms by (auto simp: pays_def intro!: exI [of _ "{x, y}"])

lemma pays_gives_up:
  assumes "\<forall>a. 0 \<le> b a"
  shows "pays b ((b(y := b y + b x))(x := 0))"
  using assms by (cases "x = y") (auto simp: pays_def intro!: exI [of _ "{x, y}"])

end
