(* ===== verification/Evm_Value.thy ===== *)
theory Evm_Value
  imports Evm_Safety State_Accounts
begin

text \<open>
  The money of contracts: running a contract creates no value. Every step keeps the balances non-negative
  and does not raise their sum; the operands on the stack stay non-negative, which the transfers of
  creations rely on. The only transfers that bypass the balances are the records in \<^verbatim>\<open>Transfers\<close>, which are
  turned into transactions later; a call that is reverted does not take its record back.
\<close>

section \<open>Steps of the state that create no value\<close>

definition sd_good :: "state_codec \<Rightarrow> StateDB \<Rightarrow> bool" where
  "sd_good c s \<longleftrightarrow> sd_inv c s \<and> (\<forall>a. 0 \<le> abal (abs_state c s) a)"

definition pstep :: "state_codec \<Rightarrow> StateDB \<Rightarrow> StateDB \<Rightarrow> bool" where
  "pstep c s t \<longleftrightarrow> (sd_good c s \<longrightarrow> jstep c s t \<and> pays (abal (abs_state c s)) (abal (abs_state c t)))"

definition calm :: "state_codec \<Rightarrow> StateDB \<Rightarrow> StateDB \<Rightarrow> bool" where
  "calm c s t \<longleftrightarrow> jstep c s t \<and> (sd_inv c s \<longrightarrow> abal (abs_state c t) = abal (abs_state c s))"

lemma jstep_inv: "jstep c s t \<Longrightarrow> sd_inv c s \<Longrightarrow> sd_inv c t"
  by (simp add: jstep_def)

lemma pstep_good: "pstep c s t \<Longrightarrow> sd_good c s \<Longrightarrow> sd_good c t"
  by (auto simp: pstep_def sd_good_def pays_def intro: jstep_inv)

lemma pstep_trans: "pstep c s t \<Longrightarrow> pstep c t u \<Longrightarrow> pstep c s u"
  using pstep_good [of c s t] unfolding pstep_def by (blast intro: jstep_trans pays_trans)

lemma calm_refl [simp]: "calm c s s" by (simp add: calm_def)

lemma calm_trans: "calm c s t \<Longrightarrow> calm c t u \<Longrightarrow> calm c s u"
  unfolding calm_def by (metis jstep_trans jstep_inv)

lemma calm_pstep: "calm c s t \<Longrightarrow> pstep c s t"
  by (auto simp: calm_def pstep_def sd_good_def intro: pays_refl)

lemma pstep_refl [simp]: "pstep c s s" by (simp add: calm_pstep)

lemma calm_ops:
  "keccak_ok c \<Longrightarrow> calm c s (sd_CreateAccount c a s)" "keccak_ok c \<Longrightarrow> calm c s (sd_SetNonce c a n s)"
  "keccak_ok c \<Longrightarrow> calm c s (sd_SetCode c a code s)" "keccak_ok c \<Longrightarrow> calm c s (sd_SetState c a k v s)"
  "keccak_ok c \<Longrightarrow> calm c s (sd_AddBalance c a 0 s)"
  "calm c s (sd_AddRefund g s)" "calm c s (sd_AddLog l s)" "calm c s (sd_AddPreimage h p s)" "calm c s (snd (sd_Snapshot s))"
  by (auto simp: calm_def jstep_ops writes_abs CreateAccount_abs other_writes_abs abal_acct fun_upd_idem)
     (auto simp: abal_def fun_eq_iff other_writes_abs)

lemma calm_reads:
  "calm c s (snd (sd_Exist c a s))" "calm c s (snd (sd_Empty c a s))" "calm c s (snd (sd_GetBalance c a s))"
  "calm c s (snd (sd_GetNonce c a s))" "calm c s (snd (sd_GetCodeHash c a s))" "calm c s (snd (sd_HasSuicided c a s))"
  "calm c s (snd (sd_GetCode c a s))" "calm c s (snd (sd_GetCodeSize c a s))" "calm c s (snd (sd_IsContractAddr c a s))"
  "calm c s (snd (sd_GetState c a k s))"
  by (simp_all add: calm_def jstep_ops reads_abs)

lemmas calm_then = calm_ops [THEN calm_trans [rotated]] calm_reads [THEN calm_trans [rotated]]
lemmas pstep_calm = calm_ops [THEN calm_pstep] calm_reads [THEN calm_pstep]
lemmas pstep_then = pstep_calm [THEN pstep_trans [rotated]]

interpretation vs: journaled "sd_good c" "pstep c" sd_Snapshot "sd_RevertToSnapshot c" "abs_state c" for c
proof unfold_locales
  fix s t u i s1
  show "pstep c s t \<Longrightarrow> pstep c t u \<Longrightarrow> pstep c s u" by (rule pstep_trans)
  show "pstep c s t \<Longrightarrow> sd_good c s \<Longrightarrow> sd_good c t" by (rule pstep_good)
  show "pstep c s (snd (sd_Snapshot s))" by (rule pstep_calm)
  show "(sd_good c s \<Longrightarrow> pstep c s t) \<Longrightarrow> pstep c s t" by (auto simp: pstep_def)
  show "sd_good c s \<Longrightarrow> sd_Snapshot s = (i, s1) \<Longrightarrow> pstep c s1 t \<Longrightarrow>
    \<exists>u. sd_RevertToSnapshot c i t = Some u \<and> abs_state c u = abs_state c s \<and> pstep c s u"
  proof -
    assume a: "sd_good c s" "sd_Snapshot s = (i, s1)" "pstep c s1 t"
    have "sd_good c s1" using pstep_good [OF pstep_calm(9) a(1)] a(2) by simp
    then have "jstep c s1 t" using a(3) by (simp add: pstep_def)
    then obtain u where "sd_RevertToSnapshot c i t = Some u" "abs_state c u = abs_state c s" "jstep c s u"
      using revert_restores [of c s i s1 t] a(1,2) by (auto simp: sd_good_def)
    then show ?thesis using a(1) pays_refl [of "abal (abs_state c s)"] by (auto simp: sd_good_def pstep_def)
  qed
qed


section \<open>Results\<close>

text \<open>\<open>wlp m P\<close>: if the computation returns, its result satisfies \<open>P\<close>.\<close>

definition wlp :: "'a outcome \<Rightarrow> ('a \<Rightarrow> bool) \<Rightarrow> bool" where
  "wlp m P = (\<forall>x. m = Returns x \<longrightarrow> P x)"

lemma wlp_simps [simp]:
  "wlp (Returns x) P = P x" "wlp Panics P" "wlp OutOfFuel P"
  "wlp (obind m g) Q = wlp m (\<lambda>x. wlp (g x) Q)" "wlp (of_opt a) R = (\<forall>v. a = Some v \<longrightarrow> R v)"
  by (auto simp: wlp_def obind_def of_opt_def split: outcome.split option.splits)

lemma wlp_mono: "wlp m P \<Longrightarrow> (\<And>x. P x \<Longrightarrow> Q x) \<Longrightarrow> wlp m Q"
  by (auto simp: wlp_def)

lemma wlp_True [simp]: "wlp m (\<lambda>x. True)" by (simp add: wlp_def)

lemma wlp_pop1 [simp]: "wlp (pop1 g f) P = (\<forall>x st. fr_stack f = x # st \<longrightarrow> wlp (g x (f\<lparr>fr_stack := st\<rparr>)) P)"
  by (simp add: pop1_def split: list.split)

lemma wlp_ok [simp]: "wlp (ok f) P = P ([], None, f)" by (simp add: ok_def)

lemma wlp_peek [simp]: "wlp (peek n f g) P = (\<forall>v. st_Back n (fr_stack f) = Some v \<longrightarrow> wlp (g v) P)"
  by (simp add: peek_def)

section \<open>Steps of a frame\<close>

text \<open>The pairs of a sender and a recipient with a recorded transfer.\<close>

definition recorded :: "EVM \<Rightarrow> (bytes \<times> bytes) set" where
  "recorded ev = {(a, b). \<exists>l w. map_of (ev_Transfers ev) a = Some l \<and> w \<in> set l \<and> ti_To w = b}"

definition evstep :: "vm_env \<Rightarrow> EVM \<Rightarrow> EVM \<Rightarrow> bool" where
  "evstep E ev ev' \<longleftrightarrow> pstep (ve_codec E) (ev_StateDB ev) (ev_StateDB ev') \<and> recorded ev \<subseteq> recorded ev'"

definition fr_good :: "vm_env \<Rightarrow> frame \<Rightarrow> bool" where
  "fr_good E f \<longleftrightarrow> sd_good (ve_codec E) (ev_StateDB (fr_evm f)) \<and> (\<forall>x \<in> set (fr_stack f). 0 \<le> x) \<and>
     0 \<le> ct_value (fr_contract f)"

definition vres :: "vm_env \<Rightarrow> frame \<Rightarrow> frame \<Rightarrow> bool" where
  "vres E f f' \<longleftrightarrow> evstep E (fr_evm f) (fr_evm f') \<and> (\<forall>x \<in> set (fr_stack f'). 0 \<le> x) \<and> ct_value (fr_contract f') = ct_value (fr_contract f)"

abbreviation vsafe :: "vm_env \<Rightarrow> frame \<Rightarrow> (bytes \<times> vm_error option \<times> frame) outcome \<Rightarrow> bool" where
  "vsafe E f m \<equiv> wlp m (\<lambda>(ret, err, f'). vres E f f')"

lemma evstep_refl [simp]: "evstep E ev ev" by (simp add: evstep_def)

lemma evstep_trans: "evstep E a b \<Longrightarrow> evstep E b c \<Longrightarrow> evstep E a c"
  using pstep_trans by (auto simp: evstep_def)

lemma evstep_fields [simp]:
  "evstep E ev (ev'\<lparr>ev_returnData := x\<rparr>) = evstep E ev ev'" "evstep E ev (ev'\<lparr>callGasTemp := g\<rparr>) = evstep E ev ev'"
  "evstep E ev (ev'\<lparr>ev_jumpdests := j\<rparr>) = evstep E ev ev'" "evstep E ev (ev'\<lparr>ev_ContractCreatedItems := i\<rparr>) = evstep E ev ev'"
  by (simp_all add: evstep_def recorded_def)

lemma fr_good_step: "fr_good E f \<Longrightarrow> vres E f f' \<Longrightarrow> fr_good E f'"
  by (auto simp: fr_good_def vres_def evstep_def dest: pstep_good)

lemma nonneg [simp]:
  "0 \<le> U256 x" "0 \<le> hash_Big b" "0 \<le> big_SetBytes b" "0 \<le> big_bool t"
  by (simp_all add: U256_range hash_Big_def big_SetBytes_def big_bool_def)

lemma exp_nonneg [simp]: "0 \<le> Exp base e"
proof -
  have b: "0 \<le> res \<Longrightarrow> 0 \<le> snd (exp_bits n w base res)" for n w base res
    by (induction n w base res rule: exp_bits.induct) auto
  have "0 \<le> res \<Longrightarrow> 0 \<le> snd (exp_words ws base res)" for ws base res
  proof (induction ws base res rule: exp_words.induct)
    case (2 w ws base res)
    then show ?case using b [of res 64 w base] by (auto simp del: exp_bits.simps split: prod.split)
  qed simp
  then show ?thesis by (simp add: Exp_def)
qed

lemma arith_vsafe:
  assumes "fr_good E f"
  shows "vsafe E f (opAdd E r f)" "vsafe E f (opSub E r f)" "vsafe E f (opMul E r f)" "vsafe E f (opDiv E r f)"
    "vsafe E f (opSdiv E r f)" "vsafe E f (opMod E r f)" "vsafe E f (opSmod E r f)" "vsafe E f (opExp E r f)"
    "vsafe E f (opSignExtend E r f)" "vsafe E f (opNot E r f)" "vsafe E f (opLt E r f)" "vsafe E f (opGt E r f)"
    "vsafe E f (opSlt E r f)" "vsafe E f (opSgt E r f)" "vsafe E f (opEq E r f)" "vsafe E f (opIszero E r f)"
    "vsafe E f (opAnd E r f)" "vsafe E f (opOr E r f)" "vsafe E f (opXor E r f)" "vsafe E f (opByte E r f)"
    "vsafe E f (opAddmod E r f)" "vsafe E f (opMulmod E r f)" "vsafe E f (opSHL E r f)" "vsafe E f (opSHR E r f)"
    "vsafe E f (opSAR E r f)"
  using assms by (auto simp: arith_defs pop2_def pop3_def Let_def fr_good_def vres_def)


lemma vres_upd [simp]:
  "vres E f (f'\<lparr>fr_pc := p\<rparr>) = vres E f f'" "vres E f (f'\<lparr>fr_mem := m\<rparr>) = vres E f f'"
  "vres E f (push v f') = (0 \<le> v \<and> vres E f f')"
  by (auto simp: vres_def push_def)

lemma vres_read: "(\<And>s. pstep (ve_codec E) s (snd (g s))) \<Longrightarrow> vres E f f' \<Longrightarrow> vres E f (snd (sread g f'))"
  using pstep_trans by (fastforce simp: vres_def sread_def evstep_def recorded_def split_beta)

lemma vres_write: "(\<And>s. pstep (ve_codec E) s (g s)) \<Longrightarrow> vres E f f' \<Longrightarrow> vres E f (swrite g f')"
  using pstep_trans by (fastforce simp: vres_def swrite_def evstep_def recorded_def)

lemma vres_popped: "fr_good E f \<Longrightarrow> fr_stack f = xs @ st \<Longrightarrow> vres E f (f\<lparr>fr_stack := st\<rparr>)"
  by (auto simp: fr_good_def vres_def)

lemma vres_pops:
  assumes "fr_good E f"
  shows "vres E f f" "fr_stack f = x1 # st \<Longrightarrow> vres E f (f\<lparr>fr_stack := st\<rparr>)" "fr_stack f = x1 # x2 # st \<Longrightarrow> vres E f (f\<lparr>fr_stack := st\<rparr>)"
    "fr_stack f = x1 # x2 # x3 # st \<Longrightarrow> vres E f (f\<lparr>fr_stack := st\<rparr>)"
    "fr_stack f = x1 # x2 # x3 # x4 # st \<Longrightarrow> vres E f (f\<lparr>fr_stack := st\<rparr>)"
  using assms by (auto simp: fr_good_def vres_def)

lemma balance_nonneg:
  assumes "fr_good E f"
  shows "0 \<le> fst (sread (sd_GetBalance (ve_codec E) a) f)" "0 \<le> fst (sread (sd_GetBalance (ve_codec E) a) (f\<lparr>fr_stack := st\<rparr>))"
  using assms by (auto simp: fr_good_def sd_good_def sread_def split_beta abs_reads(2) abal_def)

lemma env_vsafe:
  assumes "keccak_ok (ve_codec E)" "0 \<le> ve_GasPrice E" "fr_good E f"
  shows "vsafe E f (opSha3 E r f)" "vsafe E f (opAddress E r f)" "vsafe E f (opBalance E r f)"
    "vsafe E f (opOrigin E r f)" "vsafe E f (opCaller E r f)" "vsafe E f (opCallValue E r f)"
    "vsafe E f (opCallDataLoad E r f)" "vsafe E f (opCallDataSize E r f)" "vsafe E f (opCallDataCopy E r f)"
    "vsafe E f (opReturnDataSize E r f)" "vsafe E f (opReturnDataCopy E r f)" "vsafe E f (opExtCodeSize E r f)"
    "vsafe E f (opCodeSize E r f)" "vsafe E f (opCodeCopy E r f)" "vsafe E f (opExtCodeCopy E r f)"
    "vsafe E f (opExtCodeHash E r f)" "vsafe E f (opGasprice E r f)" "vsafe E f (opBlockhash E r f)"
    "vsafe E f (opCoinbase E r f)" "vsafe E f (opTimestamp E r f)" "vsafe E f (opNumber E r f)"
    "vsafe E f (opGasLimit E r f)"
  using assms(2,3) balance_nonneg [OF assms(3)]
  by (auto simp: env_defs pop2_def pop3_def Let_def split_beta pstep_calm assms(1) fr_good_def vres_pops [OF assms(3)]
      intro!: vres_read vres_write split: prod.split)


text \<open>A contract that destroys itself gives its balance away; to itself, the balance is lost.\<close>

lemma suicide_pstep:
  assumes k: "keccak_ok c"
  shows "pstep c s (snd (sd_Suicide c a (sd_AddBalance c b (fst (sd_GetBalance c a s)) (snd (sd_GetBalance c a s)))))"
proof (unfold pstep_def, intro impI conjI)
  assume good: "sd_good c s"
  let ?s1 = "snd (sd_GetBalance c a s)" and ?n = "fst (sd_GetBalance c a s)"
  let ?s2 = "sd_AddBalance c b ?n ?s1"
  have inv: "sd_inv c s" using good by (simp add: sd_good_def)
  have i1: "sd_inv c ?s1" by (rule jstep_inv [OF jstep_reads(3) inv])
  have i2: "sd_inv c ?s2" by (rule jstep_inv [OF jstep_AddBalance [OF k] i1])
  have n: "?n = abal (abs_state c s) a" by (simp add: abs_reads(2) abal_def)
  have b2: "abal (abs_state c ?s2) = (abal (abs_state c s))(b := abal (abs_state c s) b + abal (abs_state c s) a)"
    using writes_abs(1) [OF k i1] reads_abs(3) [OF inv] n by (simp add: abal_acct)
  have "abal (abs_state c (snd (sd_Suicide c a ?s2))) = (abal (abs_state c ?s2))(a := 0)"
    unfolding Suicide_abs [OF i2] by (auto simp: abal_def fun_eq_iff split: option.split)
  then show "pays (abal (abs_state c s)) (abal (abs_state c (snd (sd_Suicide c a ?s2))))"
    using pays_gives_up [of "abal (abs_state c s)" b a] good b2 by (simp add: sd_good_def)
  show "jstep c s (snd (sd_Suicide c a ?s2))"
    by (intro jstep_then) (simp_all add: k)
qed

lemma validJumpdest_wlp:
  "wlp (validJumpdest d c ev) (\<lambda>(b, c', ev'). ct_value c' = ct_value c \<and> evstep E ev ev')"
  by (auto simp: validJumpdest_def Let_def split: option.split)

lemma jump_to_vsafe: "vres E f f' \<Longrightarrow> vsafe E f (jump_to pos f')"
  unfolding jump_to_def wlp_simps
  by (rule wlp_mono [OF validJumpdest_wlp [of _ _ _ E]]) (auto simp: vres_def Let_def intro: evstep_trans)

lemma pop_topics_set: "pop_topics n st = Some (ts, st') \<Longrightarrow> set st' \<subseteq> set st"
  by (induction n st arbitrary: ts rule: pop_topics.induct) auto

lemma flow_vsafe:
  assumes "keccak_ok (ve_codec E)" "fr_good E f"
  shows "vsafe E f (opPop E r f)" "vsafe E f (opMload E r f)" "vsafe E f (opMstore E r f)"
    "vsafe E f (opMstore8 E r f)" "vsafe E f (opSload E r f)" "vsafe E f (opSstore E r f)"
    "vsafe E f (opJumpdest E r f)" "vsafe E f (opPc E r f)"
    "vsafe E f (opMsize E r f)" "vsafe E f (opGas E r f)" "vsafe E f (opReturn E r f)" "vsafe E f (opRevert E r f)"
    "vsafe E f (opStop E r f)" "vsafe E f (makePush sz n E r f)" "vsafe E f (opJump E r f)" "vsafe E f (opJumpi E r f)"
  by (auto simp: flow_defs pop2_def pop3_def Let_def split_beta pstep_calm assms(1) vres_pops [OF assms(2)] jump_to_vsafe
      intro!: vres_read vres_write split: prod.split)

lemma stack_vsafe:
  assumes "fr_good E f"
  shows "vsafe E f (makeDup n E r f)" "vsafe E f (makeSwap n E r f)" "vsafe E f (makeLog n E r f)"
proof -
  have "x \<in> set st \<Longrightarrow> 0 \<le> x" if "st_dup n (fr_stack f) = Some st" for x st
    using assms that by (auto simp: fr_good_def st_dup_def split: if_splits)
  then show "vsafe E f (makeDup n E r f)" by (auto simp: makeDup_def vres_def)
  have "x \<in> set st \<Longrightarrow> 0 \<le> x" if "st_swap (n + 1) (fr_stack f) = Some st" for x st
    using assms that set_swap [of n "fr_stack f" 0] 
    by (cases "fr_stack f = []") (auto simp: fr_good_def st_swap_def simp del: set_swap split: if_splits)
  then show "vsafe E f (makeSwap n E r f)" by (auto simp: makeSwap_def vres_def)
  show "vsafe E f (makeLog n E r f)"
    using assms
    by (auto simp: makeLog_def pop2_def pstep_calm fr_good_def intro!: vres_write split: prod.split)
       (auto simp: vres_def dest!: pop_topics_set)
qed

lemma opSuicide_vsafe:
  assumes "keccak_ok (ve_codec E)" "fr_good E f"
  shows "vsafe E f (opSuicide E r f)"
  using assms suicide_pstep [OF assms(1)]
  by (auto simp: opSuicide_def Let_def sread_def swrite_def split_beta vres_def evstep_def recorded_def fr_good_def)


section \<open>Calls\<close>

definition vgood :: "vm_env \<Rightarrow> runner \<Rightarrow> bool" where
  "vgood E r \<longleftrightarrow> (\<forall>ev ct input ro. sd_good (ve_codec E) (ev_StateDB ev) \<longrightarrow> 0 \<le> ct_value ct \<longrightarrow>
     wlp (r ev ct input ro) (\<lambda>(ret, err, ct', ev'). evstep E ev ev'))"

lemma run_vgood: "vgood E r \<Longrightarrow> vgood E (run E r)"
  unfolding vgood_def run_def by (auto split: option.split prod.split)

abbreviation bal_of :: "vm_env \<Rightarrow> EVM \<Rightarrow> bytes \<Rightarrow> int" where
  "bal_of E ev \<equiv> abal (abs_state (ve_codec E) (ev_StateDB ev))"

text \<open>The transfer of a value the sender has.\<close>

lemma record_keeps: "recorded ev \<subseteq> recorded (ev\<lparr>ev_Transfers := record_transfer a b v (ev_Transfers ev)\<rparr>)"
  "(a, b) \<in> recorded (ev\<lparr>ev_Transfers := record_transfer a b v (ev_Transfers ev)\<rparr>)"
proof -
  have add: "ti_To ` set l' = ti_To ` set l \<and> b \<in> ti_To ` set l" if "add_transfer b v l = Some l'" for l l'
    using that by (induction l arbitrary: l') (auto split: if_splits simp del: image_iff, blast+)
  define l where "l = (case map_of (ev_Transfers ev) a of None \<Rightarrow> [] | Some l \<Rightarrow> l)"
  define l' where "l' = (case add_transfer b v l of Some l' \<Rightarrow> l' | None \<Rightarrow> l @ [\<lparr>ti_From = a, ti_To = b, ti_Value = v\<rparr>])"
  have l': "record_transfer a b v (ev_Transfers ev) = AList.update a l' (ev_Transfers ev)"
    by (simp add: record_transfer_def Let_def l'_def l_def split: option.split)
  have "ti_To ` set l' = insert b (ti_To ` set l)"
    using add [of l] by (cases "add_transfer b v l") (simp_all add: l'_def insert_absorb)
  note l' = l' this
  have rec: "recorded ev' = {(x, y). \<exists>l. map_of (ev_Transfers ev') x = Some l \<and> y \<in> ti_To ` set l}" for ev'
    by (auto simp: recorded_def)
  show "recorded ev \<subseteq> recorded (ev\<lparr>ev_Transfers := record_transfer a b v (ev_Transfers ev)\<rparr>)"
    "(a, b) \<in> recorded (ev\<lparr>ev_Transfers := record_transfer a b v (ev_Transfers ev)\<rparr>)"
    using l' by (auto simp: rec update_conv' l_def simp del: image_iff)
qed

lemma Transfer_evstep:
  assumes k: "keccak_ok (ve_codec E)" and good: "sd_good (ve_codec E) (ev_StateDB ev)" and v: "0 \<le> v" "v \<le> bal_of E ev a"
  shows "evstep E ev (Transfer (ve_codec E) a b v ev)"
proof -
  let ?c = "ve_codec E" and ?s = "ev_StateDB ev"
  let ?s1 = "sd_SubBalance ?c a v ?s"
  let ?s2 = "sd_AddBalance ?c b v ?s1"
  let ?s3 = "snd (sd_IsContractAddr ?c a ?s2)"
  have inv: "sd_inv ?c ?s" using good by (simp add: sd_good_def)
  have i1: "sd_inv ?c ?s1" by (rule jstep_inv [OF jstep_SubBalance [OF k] inv])
  have i2: "sd_inv ?c ?s2" by (rule jstep_inv [OF jstep_AddBalance [OF k] i1])
  have "abal (abs_state ?c ?s3) = ((bal_of E ev)(a := bal_of E ev a - v))(b := ((bal_of E ev)(a := bal_of E ev a - v)) b + v)"
    using reads_abs(9) [OF i2, of a] writes_abs(1) [OF k i1, of b v] writes_abs(2) [OF k inv, of a v] by (simp add: abal_acct)
  moreover have "jstep ?c ?s ?s3" by (intro jstep_then) (simp_all add: k)
  ultimately have "pstep ?c ?s ?s3" using pays_transfer [of "bal_of E ev" v a b] good v by (simp add: pstep_def sd_good_def)
  then show ?thesis
    using record_keeps(1) [of "ev\<lparr>ev_StateDB := ?s3\<rparr>"] by (auto simp: Transfer_def Let_def split_beta evstep_def recorded_def)
qed

lemma finish_call_evstep:
  assumes snap: "ev_read sd_Snapshot ev = (i, ev1)" and st: "evstep E ev1 ev2"
  shows "wlp (finish_call E i (ret, err, ct, ev2)) (\<lambda>(ret, g, err, ev'). evstep E ev ev')"
proof -
  obtain s where s: "sd_Snapshot (ev_StateDB ev) = (i, s)" "ev1 = ev\<lparr>ev_StateDB := s\<rparr>" using ev_snapshot [OF snap] by blast
  have j: "pstep (ve_codec E) s (ev_StateDB ev2)" "recorded ev \<subseteq> recorded ev2" using st s(2) by (simp_all add: evstep_def recorded_def)
  show ?thesis
    using vs.attempt(1) [OF s(1) j(1)] vs.kept [OF s(1) j(1)] j(2)
    by (auto simp: finish_call_def evstep_def recorded_def Let_def split: option.split)
qed


text \<open>Every call continues from a calm state with a contract of non-negative value.\<close>

lemma call_tail:
  assumes snap: "ev_read sd_Snapshot ev = (i, ev1)" and st: "evstep E ev1 ev2" and good: "sd_good (ve_codec E) (ev_StateDB ev)"
    and r: "vgood E r" and v: "0 \<le> ct_value ct"
  shows "wlp (obind (run E r ev2 ct input ro) (finish_call E i)) (\<lambda>(ret, g, err, ev'). evstep E ev ev')"
proof -
  have "evstep E ev ev1" using snap pstep_calm(9) [of "ve_codec E" "ev_StateDB ev"] ev_snapshot [OF snap]
    by (auto simp: evstep_def recorded_def)
  then have "sd_good (ve_codec E) (ev_StateDB ev2)" using st good pstep_good by (meson evstep_def)
  then have "wlp (run E r ev2 ct input ro) (\<lambda>(ret, err, ct', ev'). evstep E ev2 ev')"
    using run_vgood [OF r] v by (simp add: vgood_def)
  then show ?thesis
    unfolding wlp_simps by (rule wlp_mono) (use finish_call_evstep [OF snap] st evstep_trans in \<open>auto split: prod.splits\<close>)
qed

lemma load_code_evstep: "evstep E ev (snd (load_code E a ct ev))" "ct_value (fst (load_code E a ct ev)) = ct_value ct"
  by (simp_all add: load_code_def Let_def split_beta evstep_def ev_read_def pstep_then recorded_def SetCallCode_def)

lemma NewContract_evstep: "evstep E ev (snd (NewContract caller a v g ev))" "ct_value (fst (NewContract caller a v g ev)) = v"
  by (simp_all add: NewContract_def evstep_def recorded_def split: ContractRef.split)

lemma evstep_reads: "(\<And>s. pstep (ve_codec E) s (snd (g s))) \<Longrightarrow> ev_read g ev = (x, ev') \<Longrightarrow> evstep E ev ev'"
  by (auto simp: ev_read_def evstep_def recorded_def split_beta)

lemma evstep_write: "(\<And>s. pstep (ve_codec E) s (g s)) \<Longrightarrow> evstep E ev (ev_write g ev)"
  by (auto simp: ev_write_def evstep_def recorded_def)

definition same_bal :: "vm_env \<Rightarrow> EVM \<Rightarrow> EVM \<Rightarrow> bool" where
  "same_bal E ev ev' \<longleftrightarrow> calm (ve_codec E) (ev_StateDB ev) (ev_StateDB ev') \<and> ev_Transfers ev' = ev_Transfers ev"

lemma same_bal_evstep: "same_bal E ev ev' \<Longrightarrow> evstep E ev ev'"
  by (simp add: same_bal_def evstep_def recorded_def calm_pstep)

lemma same_bal_trans [trans]: "same_bal E a b \<Longrightarrow> same_bal E b c \<Longrightarrow> same_bal E a c"
  using calm_trans by (auto simp: same_bal_def)

lemma same_bal_read: "(\<And>s. calm (ve_codec E) s (snd (g s))) \<Longrightarrow> ev_read g ev = (x, ev') \<Longrightarrow> same_bal E ev ev'"
  by (auto simp: ev_read_def same_bal_def split_beta)

lemma same_bal_write: "(\<And>s. calm (ve_codec E) s (g s)) \<Longrightarrow> same_bal E ev (ev_write g ev)"
  by (auto simp: ev_write_def same_bal_def)

lemma same_bal_Transfer:
  assumes "keccak_ok (ve_codec E)" "sd_good (ve_codec E) (ev_StateDB ev)" "same_bal E ev ev1" "0 \<le> v" "v \<le> bal_of E ev a"
  shows "evstep E ev (Transfer (ve_codec E) a b v ev1)"
proof -
  have "sd_good (ve_codec E) (ev_StateDB ev1)" "bal_of E ev1 = bal_of E ev"
    using assms(2,3) calm_pstep pstep_good by (auto simp: same_bal_def calm_def sd_good_def intro: jstep_inv)
  then show ?thesis using Transfer_evstep [OF assms(1), of ev1 v a b] same_bal_evstep [OF assms(3)] assms(4,5) evstep_trans by metis
qed

lemma CanTransfer_ok:
  assumes "ev_read (CanTransfer (ve_codec E) a v) ev = (can, ev1)"
  shows "same_bal E ev ev1" "can \<Longrightarrow> v \<le> bal_of E ev a"
  using assms by (auto simp: ev_read_def CanTransfer_def split_beta same_bal_def calm_reads abs_reads(2) abal_def)


abbreviation cres :: "vm_env \<Rightarrow> EVM \<Rightarrow> (bytes \<times> u64 \<times> vm_error option \<times> EVM) outcome \<Rightarrow> bool" where
  "cres E ev m \<equiv> wlp m (\<lambda>(ret, g, err, ev'). evstep E ev ev')"

lemma cres_after: "evstep E ev ev1 \<Longrightarrow> cres E ev1 m \<Longrightarrow> cres E ev m"
  by (erule wlp_mono) (auto intro: evstep_trans)

lemma start_contract:
  assumes "NewContract caller a v g ev = (ct, ev1)" "load_code E addr (h ct) ev1 = (ct', ev2)" "ct_value (h ct) = w"
  shows "evstep E ev ev2" "ct_value ct' = w"
proof -
  have "evstep E ev ev1" using NewContract_evstep(1) [of E ev caller a v g] assms(1) by simp
  moreover have "evstep E ev1 ev2" using load_code_evstep(1) [of E ev1 addr "h ct"] assms(2) by simp
  ultimately show "evstep E ev ev2" by (rule evstep_trans)
  show "ct_value ct' = w" using load_code_evstep(2) [of E addr "h ct" ev1] assms(2,3) by simp
qed

lemma NewContract_value: "NewContract caller a v g ev = (ct, ev1) \<Longrightarrow> ct_value ct = v"
  using NewContract_evstep(2) [of caller a v g ev] by simp

lemma same_bal_good: "same_bal E ev ev' \<Longrightarrow> sd_good (ve_codec E) (ev_StateDB ev) \<Longrightarrow> sd_good (ve_codec E) (ev_StateDB ev')"
  unfolding same_bal_def by (blast intro: calm_pstep pstep_good)

lemma evm_Call_evstep:
  assumes k: "keccak_ok (ve_codec E)" and r: "vgood E r" and good: "sd_good (ve_codec E) (ev_StateDB ev)" and v: "0 \<le> v"
  shows "cres E ev (evm_Call E r ev caller addr input gas v)"
proof (rule evm_Call_parts [of E caller v ev addr gas r input])
  fix can ev1 i ev2 ex ev3 ev4 ct ev5 ct' ev6
  assume c1: "ev_read (CanTransfer (ve_codec E) (ref_Address caller) v) ev = (can, ev1)" and c2: "ev_read sd_Snapshot ev1 = (i, ev2)"
    and c3: "ev_read (sd_Exist (ve_codec E) addr) ev2 = (ex, ev3)"
    and ev4: "ev4 = (if ex then ev3 else ev_write (sd_CreateAccount (ve_codec E) addr) ev3)"
    and c5: "NewContract caller addr v gas (Transfer (ve_codec E) (ref_Address caller) addr v ev4) = (ct, ev5)"
    and c6: "load_code E addr ct ev5 = (ct', ev6)"
    and eq: "evm_Call E r ev caller addr input gas v =
       (if ve_NoRecursion E \<and> ev_depth ev > 0 then Returns ([], gas, None, ev)
        else if ev_depth ev > CallCreateDepth then Returns ([], gas, Some ErrDepth, ev)
        else if \<not> can then Returns ([], gas, Some ErrInsufficientBalance, ev1)
        else if \<not> ex \<and> map_of PrecompiledContracts addr = None \<and> v = 0 then Returns ([], gas, None, ev3)
        else obind (run E r ev6 ct' input False) (finish_call E i))"
  note can = CanTransfer_ok [OF c1]
  have e12: "same_bal E ev1 ev2" by (rule same_bal_read [OF _ c2]) (simp add: calm_ops)
  have e23: "same_bal E ev2 ev3" by (rule same_bal_read [OF _ c3]) (simp add: calm_reads)
  have "same_bal E ev3 ev4" unfolding ev4 by (auto simp: same_bal_write calm_ops k) (simp add: same_bal_def)
  with e23 have e24: "same_bal E ev2 ev4" by (rule same_bal_trans)
  have g1: "sd_good (ve_codec E) (ev_StateDB ev1)" by (rule same_bal_good [OF can(1) good])
  then have g2: "sd_good (ve_codec E) (ev_StateDB ev2)" by (rule same_bal_good [OF e12])
  have b2: "bal_of E ev2 = bal_of E ev" using can(1) e12 good g1 by (simp add: same_bal_def calm_def sd_good_def)
  note start = start_contract [where h = "\<lambda>ct. ct", OF c5 c6 NewContract_value [OF c5]]
  have "evstep E ev2 ev6" if can
    by (rule evstep_trans [OF same_bal_Transfer [OF k g2 e24 v] start(1)]) (use can(2) that b2 in simp)
  then have run: "cres E ev1 (obind (run E r ev6 ct' input False) (finish_call E i))" if can
    using call_tail [OF c2 _ g1 r] v start(2) that by (simp del: wlp_simps(4))
  have e: "evstep E ev ev1" "evstep E ev ev3"
    using same_bal_evstep [OF can(1)] same_bal_evstep [OF same_bal_trans [OF can(1) same_bal_trans [OF e12 e23]]] .
  show ?thesis using eq e cres_after [OF e(1) run] by (simp del: wlp_simps(4))
qed

lemma evm_CallCode_evstep:
  assumes r: "vgood E r" and good: "sd_good (ve_codec E) (ev_StateDB ev)" and v: "0 \<le> v"
  shows "cres E ev (evm_CallCode E r ev caller addr input gas v)"
proof -
  obtain can ev1 where c1: "ev_read (CanTransfer (ve_codec E) (ref_Address caller) v) ev = (can, ev1)" by fastforce
  obtain i ev2 where c2: "ev_read sd_Snapshot ev1 = (i, ev2)" by fastforce
  obtain ct ev3 where c3: "NewContract caller (ref_Address caller) v gas ev2 = (ct, ev3)" by fastforce
  obtain ct' ev4 where c4: "load_code E addr ct ev3 = (ct', ev4)" by fastforce
  note can = CanTransfer_ok(1) [OF c1]
  have g1: "sd_good (ve_codec E) (ev_StateDB ev1)" by (rule same_bal_good [OF can good])
  note start = start_contract [where h = "\<lambda>ct. ct", OF c3 c4 NewContract_value [OF c3]]
  have "cres E ev1 (obind (run E r ev4 ct' input False) (finish_call E i))"
    using call_tail [OF c2 start(1) g1 r] v start(2) by simp
  then show ?thesis
    using same_bal_evstep [OF can] cres_after [OF same_bal_evstep [OF can]]
    by (simp add: evm_CallCode_def c1 c2 c3 c4 del: wlp_simps(4))
qed

lemma evm_DelegateCall_evstep:
  assumes r: "vgood E r" and good: "sd_good (ve_codec E) (ev_StateDB ev)" and v: "0 \<le> ct_value parent"
  shows "cres E ev (evm_DelegateCall E r ev (CallerContract parent) addr input gas)"
proof -
  let ?caller = "CallerContract parent"
  obtain i ev2 where c2: "ev_read sd_Snapshot ev = (i, ev2)" by fastforce
  obtain ct ev3 where c3: "NewContract ?caller (ref_Address ?caller) 0 gas ev2 = (ct, ev3)" by fastforce
  obtain ct' ev4 where c4: "load_code E addr (AsDelegate parent ct) ev3 = (ct', ev4)" by fastforce
  have "ct_value (AsDelegate parent ct) = ct_value parent" by (simp add: AsDelegate_def)
  note start = start_contract [where h = "AsDelegate parent", OF c3 c4 this]
  have "cres E ev (obind (run E r ev4 ct' input False) (finish_call E i))"
    using call_tail [OF c2 start(1) good r] v start(2) by simp
  then show ?thesis using c2 c3 c4 by (simp add: evm_DelegateCall_def del: wlp_simps(4))
qed

lemma evm_StaticCall_evstep:
  assumes k: "keccak_ok (ve_codec E)" and r: "vgood E r" and good: "sd_good (ve_codec E) (ev_StateDB ev)"
  shows "cres E ev (evm_StaticCall E r ev caller addr input gas)"
proof -
  let ?g = "ev_write (sd_AddBalance (ve_codec E) addr 0)"
  obtain i ev2 where c2: "ev_read sd_Snapshot ev = (i, ev2)" by fastforce
  obtain ct ev3 where c3: "NewContract caller addr 0 gas ev2 = (ct, ev3)" by fastforce
  obtain ct' ev4 where c4: "load_code E addr ct ev3 = (ct', ev4)" by fastforce
  note start = start_contract [where h = "\<lambda>ct. ct", OF c3 c4 NewContract_value [OF c3]]
  have "evstep E ev4 (?g ev4)" by (rule evstep_write) (simp add: pstep_calm k)
  with start(1) have "evstep E ev2 (?g ev4)" by (rule evstep_trans)
  then have "cres E ev (obind (run E r (?g ev4) ct' input True) (finish_call E i))"
    using call_tail [OF c2 _ good r] start(2) by simp
  then show ?thesis using c2 c3 c4 by (simp add: evm_StaticCall_def del: wlp_simps(4))
qed


abbreviation nres :: "vm_env \<Rightarrow> EVM \<Rightarrow> (bytes \<times> bytes \<times> u64 \<times> vm_error option \<times> EVM) outcome \<Rightarrow> bool" where
  "nres E ev m \<equiv> wlp m (\<lambda>(ret, addr, g, err, ev'). evstep E ev ev')"

lemma nres_after: "evstep E ev ev1 \<Longrightarrow> nres E ev1 m \<Longrightarrow> nres E ev m"
  by (erule wlp_mono) (auto intro: evstep_trans)

lemma finish_create_evstep:
  assumes k: "keccak_ok (ve_codec E)" and snap: "ev_read sd_Snapshot ev = (i, ev1)" and st: "evstep E ev1 ev2"
  shows "nres E ev (finish_create E i address (ret, err, ct, ev2))"
proof -
  obtain s where s: "sd_Snapshot (ev_StateDB ev) = (i, s)" "ev1 = ev\<lparr>ev_StateDB := s\<rparr>" using ev_snapshot [OF snap] by blast
  have st2: "evstep E ev1 (ev_write (sd_SetCode (ve_codec E) address ret) ev2)"
    using evstep_trans [OF st evstep_write] pstep_calm(3) [OF k] by blast
  have keep: "evstep E ev e" if "evstep E ev1 e" for e
    using that vs.kept [OF s(1)] s(2) by (auto simp: evstep_def recorded_def)
  have undo: "evstep E ev (e\<lparr>ev_StateDB := u\<rparr>)"
    if "evstep E ev1 e" "sd_RevertToSnapshot (ve_codec E) i (ev_StateDB e) = Some u" for e u
    using that vs.attempt(1) [OF s(1) _ that(2)] s(2) by (auto simp: evstep_def recorded_def)
  obtain b c where u: "UseGas (of_nat (length ret) * CreateDataGas) ct = (b, c)" by fastforce
  show ?thesis using st st2 keep undo by (auto simp: finish_create_def Let_def u)
qed

lemma evm_create_evstep:
  assumes k: "keccak_ok (ve_codec E)" and r: "vgood E r" and good: "sd_good (ve_codec E) (ev_StateDB ev)" and v: "0 \<le> v"
  shows "nres E ev (evm_create E r ev caller code hash gas v address)"
proof -
  let ?c = "ve_codec E" and ?self = "ref_Address caller"
  obtain can ev1 where c1: "ev_read (CanTransfer ?c ?self v) ev = (can, ev1)" by fastforce
  obtain nonce ev2 where c2: "ev_read (sd_GetNonce ?c ?self) ev1 = (nonce, ev2)" by fastforce
  define ev2' where "ev2' = ev_write (sd_SetNonce ?c ?self (nonce + 1)) ev2"
  obtain h ev3 where c3: "ev_read (sd_GetCodeHash ?c address) ev2' = (h, ev3)" by fastforce
  obtain n ev4 where c4: "ev_read (sd_GetNonce ?c address) ev3 = (n, ev4)" by fastforce
  obtain i ev5 where c5: "ev_read sd_Snapshot ev4 = (i, ev5)" by fastforce
  define ev5' where "ev5' = ev_write (sd_SetNonce ?c address 1) (ev_write (sd_CreateAccount ?c address) ev5)"
  define ev6 where "ev6 = ContractCreated ?self address (big_Uint64 v) (nonce + 1) (Transfer ?c ?self address v ev5')"
  obtain ct ev7 where c7: "NewContract caller address v gas ev6 = (ct, ev7)" by fastforce
  define ct' where "ct' = SetCodeOptionalHash address code hash ct"
  note can = CanTransfer_ok [OF c1]
  have "same_bal E ev1 ev2" by (rule same_bal_read [OF _ c2]) (simp add: calm_reads)
  also have "same_bal E ev2 ev2'" unfolding ev2'_def by (rule same_bal_write) (simp add: calm_ops k)
  also have "same_bal E ev2' ev3" by (rule same_bal_read [OF _ c3]) (simp add: calm_reads)
  also have "same_bal E ev3 ev4" by (rule same_bal_read [OF _ c4]) (simp add: calm_reads)
  finally have e14: "same_bal E ev1 ev4" .
  then have e: "same_bal E ev ev4" by (rule same_bal_trans [OF can(1)])
  have e45: "same_bal E ev4 ev5" by (rule same_bal_read [OF _ c5]) (simp add: calm_ops)
  have e55: "same_bal E ev5 ev5'" unfolding ev5'_def
    by (rule same_bal_trans; rule same_bal_write; simp add: calm_ops k)
  have g: "sd_good ?c (ev_StateDB ev4)" "sd_good ?c (ev_StateDB ev5)"
    using same_bal_good [OF e good] same_bal_good [OF e45] by blast+
  have b: "bal_of E ev5 = bal_of E ev"
    using e e45 good g(1) by (simp add: same_bal_def calm_def sd_good_def)
  have val: "0 \<le> ct_value ct'" using NewContract_value [OF c7] v by (simp add: ct'_def SetCodeOptionalHash_def)
  have t: "evstep E ev5 ev7" if can
  proof -
    have "evstep E ev5 (Transfer ?c ?self address v ev5')" by (rule same_bal_Transfer [OF k g(2) e55 v]) (use can(2) that b in simp)
    then have "evstep E ev5 ev6" by (simp add: ev6_def ContractCreated_def)
    then show ?thesis using NewContract_evstep(1) [of E ev6 caller address v gas] c7 evstep_trans by (metis snd_conv)
  qed
  have run: "nres E ev4 (obind (run E r ev7 ct' [] False) (finish_create E i address))" if can
  proof -
    have "sd_good ?c (ev_StateDB ev7)" using t [OF that] g(2) pstep_good by (meson evstep_def)
    then have "wlp (run E r ev7 ct' [] False) (\<lambda>(ret, err, ct', ev'). evstep E ev7 ev')"
      using run_vgood [OF r] val by (simp add: vgood_def)
    then show ?thesis
      unfolding wlp_simps(4)
      by (rule wlp_mono) (use finish_create_evstep [OF k c5] t [OF that] evstep_trans in \<open>auto split: prod.splits\<close>)
  qed
  have ret: "evstep E ev ev7" if can
    using evstep_trans [OF same_bal_evstep [OF same_bal_trans [OF e e45]] t [OF that]] .
  have "evm_create E r ev caller code hash gas v address =
    (if ev_depth ev > CallCreateDepth then Returns ([], ZeroAddressHash, gas, Some ErrDepth, ev)
     else if \<not> can then Returns ([], ZeroAddressHash, gas, Some ErrInsufficientBalance, ev1)
     else if n \<noteq> 0 \<or> h \<noteq> ZeroHash \<and> h \<noteq> BytesToHash (emptyCodeHash ?c)
     then Returns ([], ZeroAddressHash, 0, Some ErrContractAddressCollision, ev4)
     else if ve_NoRecursion E \<and> ev_depth ev7 > 0 then Returns ([], address, gas, None, ev7)
     else obind (run E r ev7 ct' [] False) (finish_create E i address))"
    by (simp only: evm_create_def c1 c2 c3 c4 c5 c7 Let_def prod.case flip: ev2'_def ev5'_def ev6_def ct'_def)
  then show ?thesis
    using same_bal_evstep [OF can(1)] same_bal_evstep [OF e] ret nres_after [OF same_bal_evstep [OF e] run]
    by (simp del: wlp_simps(4))
qed

lemma evm_Create_evstep:
  assumes "keccak_ok (ve_codec E)" "vgood E r" "sd_good (ve_codec E) (ev_StateDB ev)" "0 \<le> v"
  shows "nres E ev (evm_Create E r ev caller code gas v)" "nres E ev (evm_Create2 E r ev caller code gas v salt)"
proof -
  obtain n ev1 where c: "ev_read (sd_GetNonce (ve_codec E) (ref_Address caller)) ev = (n, ev1)" by fastforce
  have e: "same_bal E ev ev1" by (rule same_bal_read [OF _ c]) (simp add: calm_reads)
  show "nres E ev (evm_Create E r ev caller code gas v)"
    using nres_after [OF same_bal_evstep [OF e] evm_create_evstep [OF assms(1,2) same_bal_good [OF e assms(3)] assms(4)]]
    by (simp add: evm_Create_def c)
  show "nres E ev (evm_Create2 E r ev caller code gas v salt)"
    using evm_create_evstep [OF assms] by (simp add: evm_Create2_def Let_def)
qed

section \<open>The prices\<close>

abbreviation gres :: "vm_env \<Rightarrow> frame \<Rightarrow> ((vm_error + u64) \<times> frame) outcome \<Rightarrow> bool" where
  "gres E f m \<equiv> wlp m (\<lambda>(cost, f'). vres E f f')"

lemmas plain_gas_defs = constGasFunc_def gasCallDataCopy_def gasReturnDataCopy_def makeGasLog_def gasSha3_def gasCodeCopy_def
  gasExtCodeCopy_def gasExtCodeHash_def gasMLoad_def gasMStore8_def gasMStore_def gasCreate_def gasCreate2_def gasBalance_def
  gasExtCodeSize_def gasSLoad_def gasExp_def gasReturn_def gasRevert_def gasPush_def gasSwap_def gasDup_def mem_gas_def

lemma vres_evm [simp]:
  "vres E f (f'\<lparr>fr_evm := (fr_evm f')\<lparr>callGasTemp := t\<rparr>\<rparr>) = vres E f f'"
  "vres E f (f'\<lparr>fr_evm := (fr_evm f')\<lparr>ev_returnData := d\<rparr>\<rparr>) = vres E f f'"
  by (simp_all add: vres_def)

lemma call_gas_gres: "vres E f f' \<Longrightarrow> gres E f (call_gas gt f' g)"
  by (auto simp: call_gas_def split: sum.split)

lemma gas_gres:
  assumes "fr_good E f"
  shows "gres E f (constGasFunc n gt E f ms)" "gres E f (gasCallDataCopy gt E f ms)" "gres E f (gasReturnDataCopy gt E f ms)"
    "gres E f (makeGasLog n gt E f ms)" "gres E f (gasSha3 gt E f ms)" "gres E f (gasCodeCopy gt E f ms)" "gres E f (gasExtCodeCopy gt E f ms)"
    "gres E f (gasExtCodeHash gt E f ms)" "gres E f (gasMLoad gt E f ms)" "gres E f (gasMStore8 gt E f ms)" "gres E f (gasMStore gt E f ms)"
    "gres E f (gasCreate gt E f ms)" "gres E f (gasCreate2 gt E f ms)" "gres E f (gasBalance gt E f ms)" "gres E f (gasExtCodeSize gt E f ms)"
    "gres E f (gasSLoad gt E f ms)" "gres E f (gasExp gt E f ms)" "gres E f (gasReturn gt E f ms)" "gres E f (gasRevert gt E f ms)"
    "gres E f (gasPush gt E f ms)" "gres E f (gasSwap gt E f ms)" "gres E f (gasDup gt E f ms)"
  by (simp_all add: plain_gas_defs Let_def split_beta vres_pops(1) [OF assms])

lemma state_gas_gres:
  assumes "fr_good E f"
  shows "gres E f (gasSStore gt E f ms)" "gres E f (gasSuicide gt E f ms)" "gres E f (gasCall gt E f ms)"
    "gres E f (gasCallCode gt E f ms)" "gres E f (gasDelegateCall gt E f ms)" "gres E f (gasStaticCall gt E f ms)"
  using vres_pops(1) [OF assms]
  by (auto simp: gasSStore_def gasSuicide_def gasCall_def gasCallCode_def gasDelegateCall_def gasStaticCall_def Let_def split_beta
      pstep_calm intro!: vres_read vres_write call_gas_gres split: sum.split)

section \<open>The operations that call\<close>

lemma finish_call_op_vsafe:
  assumes "fr_good E f" "\<forall>x\<in>set st. 0 \<le> x" "evstep E (fr_evm f) ev"
  shows "vsafe E f (finish_call_op ro rs (f\<lparr>fr_stack := st\<rparr>) (ret, g, err, ev))"
  using assms by (auto simp: finish_call_op_def Let_def vres_def push_def)

lemma call_op_vsafe:
  assumes "fr_good E f" "\<forall>x\<in>set st. 0 \<le> x" "cres E (fr_evm f) m"
  shows "vsafe E f (obind m (finish_call_op ro rs (f\<lparr>fr_stack := st\<rparr>)))"
  unfolding wlp_simps(4) by (rule wlp_mono [OF assms(3)]) (use finish_call_op_vsafe [OF assms(1,2)] in \<open>auto split: prod.splits\<close>)

lemma create_op_vsafe:
  assumes "fr_good E f" "\<forall>x\<in>set st. 0 \<le> x" "take_gas (f\<lparr>fr_stack := st\<rparr>) = (g, f1)" "nres E (fr_evm f) m"
  shows "vsafe E f (obind m (finish_create_op f1))"
proof -
  have "fr_stack f1 = st" "ct_value (fr_contract f1) = ct_value (fr_contract f)"
    using assms(3) by (auto simp: take_gas_def Let_def UseGas_def)
  then have "vsafe E f (finish_create_op f1 (res, a, g', err, ev))" if "evstep E (fr_evm f) ev" for res a g' err ev
    using that assms(2) by (simp add: finish_create_op_def Let_def vres_def push_def)
  then show ?thesis unfolding wlp_simps(4) by (intro wlp_mono [OF assms(4)]) (auto split: prod.splits)
qed

lemmas vpops = pop3_def pop2_def Let_def wlp_pop1

lemma wlp_of_opt_bind: "wlp (obind (of_opt a) g) Q = (\<forall>v. a = Some v \<longrightarrow> wlp (g v) Q)"
  by simp

lemma call_ops_vsafe:
  assumes k: "keccak_ok (ve_codec E)" and r: "vgood E r" and f: "fr_good E f"
  shows "vsafe E f (opCall E r f)" "vsafe E f (opCallCode E r f)" "vsafe E f (opDelegateCall E r f)" "vsafe E f (opStaticCall E r f)"
    "vsafe E f (opCreate E r f)" "vsafe E f (opCreate2 E r f)"
proof -
  have good: "sd_good (ve_codec E) (ev_StateDB (fr_evm f))" and v: "0 \<le> ct_value (fr_contract f)"
    and st: "\<forall>x \<in> set (fr_stack f). 0 \<le> x" using f by (simp_all add: fr_good_def)
  have call: "vsafe E f (obind (evm_Call E r (fr_evm f) caller a d g (U256 w)) (finish_call_op ro rs (f\<lparr>fr_stack := s\<rparr>)))"
      "vsafe E f (obind (evm_CallCode E r (fr_evm f) caller a d g (U256 w)) (finish_call_op ro rs (f\<lparr>fr_stack := s\<rparr>)))"
      "vsafe E f (obind (evm_DelegateCall E r (fr_evm f) (CallerContract (fr_contract f)) a d g) (finish_call_op ro rs (f\<lparr>fr_stack := s\<rparr>)))"
      "vsafe E f (obind (evm_StaticCall E r (fr_evm f) caller a d g) (finish_call_op ro rs (f\<lparr>fr_stack := s\<rparr>)))"
    if "\<forall>x\<in>set s. 0 \<le> x" for s caller a d g w ro rs
    by (intro call_op_vsafe [OF f that] evm_Call_evstep [OF k r good] evm_CallCode_evstep [OF r good]
        evm_DelegateCall_evstep [OF r good v] evm_StaticCall_evstep [OF k r good] nonneg)+
  show "vsafe E f (opCall E r f)" "vsafe E f (opCallCode E r f)"
    using st call(1,2) by (auto simp: opCall_def opCallCode_def vpops wlp_of_opt_bind simp del: wlp_simps(4) split del: if_split)
  show "vsafe E f (opDelegateCall E r f)" "vsafe E f (opStaticCall E r f)"
    using st call(3,4) by (auto simp: opDelegateCall_def opStaticCall_def vpops wlp_of_opt_bind simp del: wlp_simps(4))
  have e: "fr_evm f1 = fr_evm f" if "take_gas (f\<lparr>fr_stack := s\<rparr>) = (g, f1)" for s g f1
    using take_gas_le(2) [OF that] by simp
  note create = create_op_vsafe [OF f _ _ evm_Create_evstep(1) [OF k r good]] create_op_vsafe [OF f _ _ evm_Create_evstep(2) [OF k r good]]
  show "vsafe E f (opCreate E r f)" "vsafe E f (opCreate2 E r f)"
    using st create e by (auto simp: opCreate_def opCreate2_def vpops wlp_of_opt_bind simp del: wlp_simps(4) split: prod.split)
qed

section \<open>The stack\<close>

text \<open>\<open>moves a b\<close>: an operation takes \<open>a\<close> operands off the stack and puts \<open>b\<close> results on it.\<close>

definition moves :: "nat \<Rightarrow> nat \<Rightarrow> frame \<Rightarrow> (bytes \<times> vm_error option \<times> frame) outcome \<Rightarrow> bool" where
  "moves a b f m = wlp m (\<lambda>(ret, err, f'). length (fr_stack f') + a = length (fr_stack f) + b)"

lemma sread_stack [simp]: "fr_stack (snd (sread g f)) = fr_stack f" "fr_stack (swrite h f) = fr_stack f"
  by (simp_all add: sread_def swrite_def split_beta)

lemma arith_moves:
  "moves 2 1 f (opAdd E r f)" "moves 2 1 f (opSub E r f)" "moves 2 1 f (opMul E r f)" "moves 2 1 f (opDiv E r f)"
  "moves 2 1 f (opSdiv E r f)" "moves 2 1 f (opMod E r f)" "moves 2 1 f (opSmod E r f)" "moves 2 1 f (opExp E r f)"
  "moves 2 1 f (opLt E r f)" "moves 2 1 f (opGt E r f)"
  "moves 2 1 f (opSlt E r f)" "moves 2 1 f (opSgt E r f)" "moves 2 1 f (opEq E r f)"
  "moves 2 1 f (opAnd E r f)" "moves 2 1 f (opOr E r f)" "moves 2 1 f (opXor E r f)" "moves 2 1 f (opByte E r f)"
  "moves 2 1 f (opSHL E r f)" "moves 2 1 f (opSHR E r f)" "moves 2 1 f (opSAR E r f)"
  "moves 1 1 f (opNot E r f)" "moves 1 1 f (opIszero E r f)" "moves 3 1 f (opAddmod E r f)" "moves 3 1 f (opMulmod E r f)"
  by (auto simp: moves_def arith_defs pop2_def pop3_def Let_def)

lemma opSignExtend_moves: "moves 2 1 f (opSignExtend E r f)"
  by (auto simp: moves_def opSignExtend_def Let_def)

lemma env_moves:
  "moves 2 1 f (opSha3 E r f)" "moves 0 1 f (opAddress E r f)" "moves 1 1 f (opBalance E r f)" "moves 0 1 f (opOrigin E r f)"
  "moves 0 1 f (opCaller E r f)" "moves 0 1 f (opCallValue E r f)" "moves 1 1 f (opCallDataLoad E r f)"
  "moves 0 1 f (opCallDataSize E r f)" "moves 3 0 f (opCallDataCopy E r f)" "moves 0 1 f (opReturnDataSize E r f)"
  "moves 3 0 f (opReturnDataCopy E r f)" "moves 1 1 f (opExtCodeSize E r f)" "moves 0 1 f (opCodeSize E r f)"
  "moves 3 0 f (opCodeCopy E r f)" "moves 4 0 f (opExtCodeCopy E r f)" "moves 1 1 f (opExtCodeHash E r f)"
  "moves 0 1 f (opGasprice E r f)" "moves 1 1 f (opBlockhash E r f)" "moves 0 1 f (opCoinbase E r f)"
  "moves 0 1 f (opTimestamp E r f)" "moves 0 1 f (opNumber E r f)" "moves 0 1 f (opGasLimit E r f)"
  by (auto simp: moves_def env_defs pop2_def pop3_def Let_def split_beta)


lemma pop_topics_length: "pop_topics n st = Some (ts, st') \<Longrightarrow> length st' + n = length st"
  by (induction n st arbitrary: ts rule: pop_topics.induct) auto

lemma jump_to_stack: "wlp (jump_to pos f) (\<lambda>(ret, err, f'). fr_stack f' = fr_stack f)"
  unfolding jump_to_def wlp_simps(4)
  by (rule wlp_mono [OF wlp_True]) (auto simp: Let_def)

lemma flow_moves:
  "moves 1 0 f (opPop E r f)" "moves 1 1 f (opMload E r f)" "moves 2 0 f (opMstore E r f)" "moves 2 0 f (opMstore8 E r f)"
  "moves 1 1 f (opSload E r f)" "moves 2 0 f (opSstore E r f)" "moves 0 0 f (opJumpdest E r f)" "moves 0 1 f (opPc E r f)"
  "moves 0 1 f (opMsize E r f)" "moves 0 1 f (opGas E r f)" "moves 2 0 f (opReturn E r f)" "moves 2 0 f (opRevert E r f)"
  "moves 0 0 f (opStop E r f)" "moves 1 0 f (opSuicide E r f)" "moves 0 1 f (makePush sz n E r f)"
  "moves n (n + 1) f (makeDup n E r f)" "moves (n + 1) (n + 1) f (makeSwap n E r f)" "moves (n + 2) 0 f (makeLog n E r f)"
  by (auto simp: moves_def flow_defs pop2_def pop3_def Let_def split_beta st_dup_def st_swap_def split: if_splits
      dest!: pop_topics_length)

lemma jump_moves: "moves 1 0 f (opJump E r f)" "moves 2 0 f (opJumpi E r f)"
proof -
  have "moves 1 0 f (jump_to x (f\<lparr>fr_stack := st\<rparr>))" if "fr_stack f = x # st" for x st
    unfolding moves_def by (rule wlp_mono [OF jump_to_stack]) (use that in auto)
  moreover have "moves 2 0 f (jump_to x (f\<lparr>fr_stack := st\<rparr>))" if "fr_stack f = x # y # st" for x y st
    unfolding moves_def by (rule wlp_mono [OF jump_to_stack]) (use that in auto)
  ultimately show "moves 1 0 f (opJump E r f)" "moves 2 0 f (opJumpi E r f)"
    by (auto simp: opJump_def opJumpi_def pop2_def moves_def)
qed

lemma call_moves:
  "moves 7 1 f (opCall E r f)" "moves 7 1 f (opCallCode E r f)" "moves 6 1 f (opDelegateCall E r f)" "moves 6 1 f (opStaticCall E r f)"
  "moves 3 1 f (opCreate E r f)" "moves 4 1 f (opCreate2 E r f)"
proof -
  have fin: "wlp (obind m (finish_call_op ro rs (f\<lparr>fr_stack := st\<rparr>))) (\<lambda>(ret, err, f'). length (fr_stack f') = length st + 1)" for m ro rs st
    unfolding wlp_simps(4)
    by (rule wlp_mono [OF wlp_True]) (auto simp: finish_call_op_def Let_def push_def split: prod.split)
  have cre: "wlp (obind m (finish_create_op f1)) (\<lambda>(ret, err, f'). length (fr_stack f') = length st + 1)"
    if "take_gas (f\<lparr>fr_stack := st\<rparr>) = (g, f1)" for m f1 st g
    unfolding wlp_simps(4)
    by (rule wlp_mono [OF wlp_True]) (use that in \<open>auto simp: finish_create_op_def take_gas_def Let_def push_def split: prod.split\<close>)
  show "moves 7 1 f (opCall E r f)" "moves 7 1 f (opCallCode E r f)" "moves 6 1 f (opDelegateCall E r f)" "moves 6 1 f (opStaticCall E r f)"
    using fin
    by (auto simp: moves_def opCall_def opCallCode_def opDelegateCall_def opStaticCall_def vpops wlp_of_opt_bind
        simp del: wlp_simps(4) split del: if_split)
  show "moves 3 1 f (opCreate E r f)" "moves 4 1 f (opCreate2 E r f)"
    using cre by (auto simp: moves_def opCreate_def opCreate2_def vpops wlp_of_opt_bind simp del: wlp_simps(4) split: prod.split)
qed


section \<open>The table of operations\<close>

definition vop :: "vm_env \<Rightarrow> runner \<Rightarrow> operation \<Rightarrow> bool" where
  "vop E r opn \<longleftrightarrow> (\<forall>f. fr_good E f \<longrightarrow> vsafe E f (op_execute opn E r f) \<and> (\<forall>ms. gres E f (op_gasCost opn DefaultGasTable E f ms))) \<and>
     (\<exists>a b. op_validateStack opn = makeStackFunc a b \<and> (\<forall>f. moves a b f (op_execute opn E r f)))"

lemma vop_upd [simp]:
  "vop E r (opn\<lparr>op_memorySize := m\<rparr>) = vop E r opn" "vop E r (opn\<lparr>op_halts := x\<rparr>) = vop E r opn"
  "vop E r (opn\<lparr>op_jumps := x\<rparr>) = vop E r opn" "vop E r (opn\<lparr>op_writes := x\<rparr>) = vop E r opn"
  "vop E r (opn\<lparr>op_reverts := x\<rparr>) = vop E r opn" "vop E r (opn\<lparr>op_returns := x\<rparr>) = vop E r opn"
  by (simp_all add: vop_def)

lemma vop_oper:
  assumes "\<And>f. fr_good E f \<Longrightarrow> vsafe E f (ex E r f)" "\<And>f ms. fr_good E f \<Longrightarrow> gres E f (g DefaultGasTable E f ms)"
    "\<And>f. moves a b f (ex E r f)"
  shows "vop E r (oper ex g (makeStackFunc a b))"
  using assms unfolding vop_def oper_sel by blast

lemma arith_table_vop: "keccak_ok (ve_codec E) \<Longrightarrow> list_all (vop E r \<circ> snd) arith_table"
  unfolding arith_table_def list_all_simps o_def snd_conv vop_upd
  by (intro conjI vop_oper arith_vsafe gas_gres arith_moves opSignExtend_moves flow_moves flow_vsafe)

lemma env_table_vop: "keccak_ok (ve_codec E) \<Longrightarrow> 0 \<le> ve_GasPrice E \<Longrightarrow> list_all (vop E r \<circ> snd) env_table"
  unfolding env_table_def list_all_simps o_def snd_conv vop_upd
  by (intro conjI vop_oper env_vsafe gas_gres env_moves)

lemma flow_table_vop: "keccak_ok (ve_codec E) \<Longrightarrow> list_all (vop E r \<circ> snd) flow_table"
  unfolding flow_table_def list_all_simps o_def snd_conv vop_upd
  by (intro conjI vop_oper flow_vsafe gas_gres state_gas_gres flow_moves jump_moves)

lemma stack_tables_vop:
  assumes "keccak_ok (ve_codec E)"
  shows "list_all (vop E r \<circ> snd) push_table" "list_all (vop E r \<circ> snd) dup_table" "list_all (vop E r \<circ> snd) swap_table"
    "list_all (vop E r \<circ> snd) log_table"
  unfolding push_table_def dup_table_def swap_table_def log_table_def list_all_length length_map makeDupStackFunc_def makeSwapStackFunc_def
  by (auto simp del: upt_Suc intro!: vop_oper flow_vsafe stack_vsafe gas_gres flow_moves [simplified] assms)

lemma call_tables_vop:
  assumes "keccak_ok (ve_codec E)" "0 \<le> ve_GasPrice E" "vgood E r"
  shows "list_all (vop E r \<circ> snd) call_table" "list_all (vop E r \<circ> snd) late_table" "list_all (vop E r \<circ> snd) shift_table"
    "list_all (vop E r \<circ> snd) last_table"
  unfolding call_table_def late_table_def shift_table_def last_table_def list_all_simps o_def snd_conv vop_upd
  by (intro conjI vop_oper arith_vsafe flow_vsafe env_vsafe opSuicide_vsafe call_ops_vsafe gas_gres state_gas_gres arith_moves flow_moves
      env_moves call_moves assms; assumption)+

lemma instruction_vop:
  assumes "keccak_ok (ve_codec E)" "0 \<le> ve_GasPrice E" "vgood E r" "map_of newInstructionSet code = Some opn"
  shows "vop E r opn"
proof -
  have "list_all (vop E r \<circ> snd) newInstructionSet"
    unfolding newInstructionSet_def list_all_append
    by (intro conjI arith_table_vop env_table_vop flow_table_vop stack_tables_vop call_tables_vop assms)
  with assms(4) show ?thesis by (auto simp: list_all_iff dest!: map_of_SomeD)
qed


section \<open>Runs\<close>

text \<open>The state of a run as the interpreter keeps it: at most 1024 operands, none of them negative.\<close>

definition fr_typed :: "vm_env \<Rightarrow> frame \<Rightarrow> bool" where
  "fr_typed E f \<longleftrightarrow> fr_good E f \<and> length (fr_stack f) \<le> StackLimit"

fun step_frame :: "step \<Rightarrow> frame" where
  "step_frame (Next f) = f"
| "step_frame (Halt ret err f) = f"

lemma gas_stack: "wlp (op_gasCost opn DefaultGasTable E f ms) (\<lambda>(cost, f'). fr_stack f' = fr_stack f)"
  if "op_good E r d opn"
proof -
  from that obtain low where "gas_ok E low f (op_gasCost opn DefaultGasTable E f ms)" unfolding op_good_def by blast
  then show ?thesis by (auto simp: gas_ok_def wp_def wlp_def split: outcome.splits)
qed

lemma vres_trans: "vres E f g \<Longrightarrow> vres E g h \<Longrightarrow> vres E f h"
  using evstep_trans by (auto simp: vres_def)

lemma run_op_vres:
  assumes v: "vop E r opn" and g: "op_good E r d opn" and f: "fr_good E f" and st: "op_validateStack opn (fr_stack f) = None"
  shows "wlp (run_op E r opn ms f) (\<lambda>s. vres E f (step_frame s) \<and>
     (length (fr_stack f) \<le> StackLimit \<longrightarrow> length (fr_stack (step_frame s)) \<le> StackLimit))"
proof -
  from v obtain a b where ab: "op_validateStack opn = makeStackFunc a b" "\<And>f. moves a b f (op_execute opn E r f)"
    and ex: "\<And>f. fr_good E f \<Longrightarrow> vsafe E f (op_execute opn E r f)" and gas: "gres E f (op_gasCost opn DefaultGasTable E f ms)"
    using f unfolding vop_def by blast
  have lim: "a \<le> length (fr_stack f)" "length (fr_stack f) + b \<le> a + StackLimit"
    using st by (auto simp: ab(1) makeStackFunc_def st_require_def split: if_splits)
  have "wlp (op_gasCost opn DefaultGasTable E f ms) (\<lambda>(cost, f'). vres E f f' \<and> fr_stack f' = fr_stack f)"
    using gas gas_stack [OF g] by (auto simp: wlp_def)
  then show ?thesis
    unfolding run_op_def wlp_simps(4)
  proof (rule wlp_mono, clarify)
    fix cost :: "vm_error + u64" and f1 :: frame
    assume f1: "vres E f f1" and s1: "fr_stack f1 = fr_stack f"
    have step: "wlp (obind (op_execute opn E r f2) (step_result opn)) (\<lambda>s. vres E f (step_frame s) \<and>
        (length (fr_stack f) \<le> StackLimit \<longrightarrow> length (fr_stack (step_frame s)) \<le> StackLimit))"
      if f2: "vres E f f2" "fr_stack f2 = fr_stack f" for f2
    proof -
      have "wlp (op_execute opn E r f2) (\<lambda>(ret, err, f'). vres E f2 f' \<and> length (fr_stack f') + a = length (fr_stack f) + b)"
        using ex [OF fr_good_step [OF f f2(1)]] ab(2) [of f2] f2(2) by (auto simp: wlp_def moves_def)
      then show ?thesis
        unfolding wlp_simps(4)
        by (rule wlp_mono) (use lim vres_trans [OF f2(1)] in \<open>auto simp: step_result_def Let_def split: prod.splits\<close>)
    qed
    have up: "vres E f (f1\<lparr>fr_contract := snd (UseGas x (fr_contract f1))\<rparr>)" for x
      using f1 by (simp add: vres_def UseGas_def)
    show "wlp (case cost of Inl e \<Rightarrow> Returns (Halt [] (Some ErrOutOfGas) f1)
       | Inr cost \<Rightarrow> (case UseGas cost (fr_contract f1) of (b, contract) \<Rightarrow>
           let f1 = f1\<lparr>fr_contract := contract\<rparr>
           in if \<not> b then Returns (Halt [] (Some ErrOutOfGas) f1)
              else let f1 = (if ms > 0 then f1\<lparr>fr_mem := mem_Resize ms (fr_mem f1)\<rparr> else f1)
                   in obind (op_execute opn E r f1) (step_result opn)))
      (\<lambda>s. vres E f (step_frame s) \<and> (length (fr_stack f) \<le> StackLimit \<longrightarrow> length (fr_stack (step_frame s)) \<le> StackLimit))"
      using f1 s1 up step by (simp add: split_beta Let_def split: sum.split del: wlp_simps(4))
  qed
qed


lemma run_step_vres:
  assumes k: "keccak_ok (ve_codec E)" and p: "0 \<le> ve_GasPrice E" and r: "vgood E r" and f: "fr_good E f"
  shows "wlp (run_step E r f) (\<lambda>s. vres E f (step_frame s) \<and>
     (length (fr_stack f) \<le> StackLimit \<longrightarrow> length (fr_stack (step_frame s)) \<le> StackLimit))"
proof -
  have "op_good E r (CallCreateDepth + 1) opn" if "map_of newInstructionSet code = Some opn" for code opn
    by (rule instruction_good [OF k _ that]) simp
  note op = run_op_vres [OF instruction_vop [OF k p r] this f]
  show ?thesis
    unfolding run_step_def Let_def
    by (auto simp: vres_pops(1) [OF f] op split: option.split sum.split intro!: wlp_mono [OF wlp_True])
qed

lemma run_loop_vres:
  assumes k: "keccak_ok (ve_codec E)" and p: "0 \<le> ve_GasPrice E" and r: "vgood E r"
  shows "fr_good E f \<Longrightarrow> vsafe E f (run_loop E r n f)"
proof (induction n arbitrary: f)
  case (Suc n)
  have "wlp (run_step E r f) (\<lambda>s. vres E f (step_frame s))"
    by (rule wlp_mono [OF run_step_vres [OF k p r Suc.prems]]) simp
  then have "wlp (run_step E r f) (\<lambda>s. vsafe E f (case s of Next f \<Rightarrow> run_loop E r n f | Halt ret err f \<Rightarrow> Returns (ret, err, f)))"
  proof (rule wlp_mono)
    fix s assume s: "vres E f (step_frame s)"
    show "vsafe E f (case s of Next f \<Rightarrow> run_loop E r n f | Halt ret err f \<Rightarrow> Returns (ret, err, f))"
    proof (cases s)
      case (Next f1)
      then have v: "vres E f f1" using s by simp
      from wlp_mono [OF Suc.IH [OF fr_good_step [OF Suc.prems v]]] show ?thesis
        using Next vres_trans [OF v] by (auto split: prod.splits)
    qed (use s in simp)
  qed
  then show ?case using vres_pops(1) [OF Suc.prems] by simp
qed simp

lemma Run_at_vgood:
  assumes "keccak_ok (ve_codec E)" "0 \<le> ve_GasPrice E"
  shows "vgood E (Run_at E n)"
proof (induction n)
  case (Suc n)
  show ?case
    unfolding vgood_def
  proof (intro allI impI)
    fix ev :: EVM and ct :: Contract and input ro
    assume good: "sd_good (ve_codec E) (ev_StateDB ev)" and v: "0 \<le> ct_value ct"
    define leave where "leave = (\<lambda>ev' :: EVM. ev'\<lparr>ev_depth := ev_depth ev' - 1,
      ev_readOnly := (if ro \<and> \<not> ev_readOnly ev then False else ev_readOnly ev')\<rparr>)"
    define f where "f = \<lparr>fr_pc = 0, fr_contract = ct\<lparr>ct_Input := input\<rparr>, fr_mem = NewMemory, fr_stack = [],
      fr_evm = ev\<lparr>ev_depth := ev_depth ev + 1, ev_readOnly := (ev_readOnly ev \<or> ro \<and> \<not> ev_readOnly ev), ev_returnData := []\<rparr>\<rparr>"
    have eq: "Run_at E (Suc n) ev ct input ro = (if ct_Code ct = [] then Returns ([], None, ct, leave (fr_evm f))
       else obind (run_loop E (Run_at E n) (unat (ct_Gas ct) + 1) f) (\<lambda>(ret, err, f). Returns (ret, err, fr_contract f, leave (fr_evm f))))"
      unfolding Run_at.simps interpreter_Run_def Let_def f_def leave_def by simp
    have lv: "evstep E ev (leave ev')" if "evstep E (fr_evm f) ev'" for ev'
      using that by (simp add: leave_def f_def evstep_def recorded_def)
    have "fr_good E f" using good v by (simp add: f_def fr_good_def)
    from run_loop_vres [OF assms Suc.IH this, of "unat (ct_Gas ct) + 1"]
    have "wlp (obind (run_loop E (Run_at E n) (unat (ct_Gas ct) + 1) f) (\<lambda>(ret, err, f). Returns (ret, err, fr_contract f, leave (fr_evm f))))
       (\<lambda>(ret, err, ct', ev'). evstep E ev ev')"
      unfolding wlp_simps(4) by (rule wlp_mono) (use lv in \<open>auto simp: vres_def\<close>)
    then show "wlp (Run_at E (Suc n) ev ct input ro) (\<lambda>(ret, err, ct', ev'). evstep E ev ev')"
      unfolding eq using lv [of "fr_evm f"] by (simp del: wlp_simps(4) run_loop.simps)
  qed
qed (simp add: vgood_def)

section \<open>What a run does to the money\<close>

text \<open>The balance of every account, as \<^verbatim>\<open>GetBalance\<close> returns it.\<close>

definition balances :: "vm_env \<Rightarrow> EVM \<Rightarrow> bytes \<Rightarrow> int" where
  "balances E ev a = fst (sd_GetBalance (ve_codec E) a (ev_StateDB ev))"

lemma balances_abal: "balances E ev = bal_of E ev"
  by (simp add: balances_def abs_reads(2) abal_def fun_eq_iff)

lemma good_balances: "sd_inv (ve_codec E) (ev_StateDB ev) \<Longrightarrow> \<forall>a. 0 \<le> balances E ev a \<Longrightarrow> sd_good (ve_codec E) (ev_StateDB ev)"
  by (simp add: sd_good_def balances_abal)

lemma evstep_pays: "evstep E ev ev' \<Longrightarrow> sd_good (ve_codec E) (ev_StateDB ev) \<Longrightarrow> pays (balances E ev) (balances E ev')"
  by (simp add: evstep_def pstep_def balances_abal)

text \<open>C7: Contracts create no value. Start a call or a creation, with any code and input, in a state in which no
  balance is negative, and with a value that is not negative. Whatever it does, with inner calls, creations,
  self-destruction and errors, when it returns no balance is negative, only finitely many balances have
  changed, and their sum is not larger than before.\<close>

theorem contracts_create_no_value:
  assumes "keccak_ok (ve_codec E)" "0 \<le> ve_GasPrice E" "sd_inv (ve_codec E) (ev_StateDB ev)" "\<forall>a. 0 \<le> balances E ev a" "0 \<le> v"
  shows "(case evm_Call E (Run_at E call_levels) ev caller addr input gas v of
            Returns (ret, left, err, ev') \<Rightarrow> (\<forall>a. 0 \<le> balances E ev' a) \<and>
              (\<exists>S. finite S \<and> (\<forall>a. a \<notin> S \<longrightarrow> balances E ev' a = balances E ev a) \<and> sum (balances E ev') S \<le> sum (balances E ev) S)
          | Panics \<Rightarrow> True | OutOfFuel \<Rightarrow> True) \<and>
         (case evm_Create E (Run_at E call_levels) ev caller code gas v of
            Returns (ret, address, left, err, ev') \<Rightarrow> (\<forall>a. 0 \<le> balances E ev' a) \<and>
              (\<exists>S. finite S \<and> (\<forall>a. a \<notin> S \<longrightarrow> balances E ev' a = balances E ev a) \<and> sum (balances E ev') S \<le> sum (balances E ev) S)
          | Panics \<Rightarrow> True | OutOfFuel \<Rightarrow> True)"
proof -
  note good = good_balances [OF assms(3,4)] and r = Run_at_vgood [OF assms(1,2), of call_levels]
  show ?thesis
    using evm_Call_evstep [OF assms(1) r good assms(5), of caller addr input gas]
      evm_Create_evstep(1) [OF assms(1) r good assms(5), of caller code gas] evstep_pays [OF _ good]
    by (auto simp: wlp_def pays_def split: outcome.splits)
qed

text \<open>The balances of the example: five for the caller, nothing else.\<close>

lemma sample_balances: "balances sample_env sample_machine = (\<lambda>_. 0)(replicate 20 7 := 5)"
proof -
  let ?c = sample_state_codec
  obtain s where s: "sd_New None None [] = Inr s" by (simp add: sd_New_def trie_New_def)
  then have "stateObjects s = []" "st_trie s = None" by (auto simp: sd_New_def trie_New_def Let_def split: sum.splits)
  moreover have "trie_obj ?c d None a = None" for d a by (simp add: trie_obj_def trie_Get_def key_fuel_def)
  ultimately have "as_acc (abs_state ?c s) a = None" for a by (simp add: abs_state_def lookup_def)
  then have "abal (abs_state ?c s) = (\<lambda>_. 0)" by (simp add: abal_def fun_eq_iff)
  then have "abal (abs_state ?c sample_sdb) = (\<lambda>_. 0)(replicate 20 7 := 5)"
    using writes_abs(1) [OF sample_keccak_ok sd_New_inv [OF s], of "replicate 20 7" 5] s by (simp add: sample_sdb_def abal_acct)
  then show ?thesis
    using writes_abs(6) [OF sample_keccak_ok sample_db(1)] writes_abs(6) [OF sample_keccak_ok sample_db(2)]
    by (simp add: balances_abal sample_machine_def NewEVM_def abal_acct fun_upd_idem)
qed

theorem contracts_create_no_value_witness:
  "\<exists>ret left err ev'. sample_call = Returns (ret, left, err, ev') \<and> (\<forall>a. 0 \<le> balances sample_env ev' a)"
proof -
  obtain ret left ev' where m: "sample_call = Returns (ret, left, Some errExecutionReverted, ev')" using sample_reverts by blast
  have "keccak_ok (ve_codec sample_env)" "0 \<le> ve_GasPrice sample_env" "sd_inv (ve_codec sample_env) (ev_StateDB sample_machine)"
    "\<forall>a. 0 \<le> balances sample_env sample_machine a" "(0 :: int) \<le> 3"
    using sample_keccak_ok sample_db(3) by (simp_all add: sample_balances)
  from contracts_create_no_value [OF this, THEN conjunct1, of "CallerContract sample_contract" "replicate 20 9" "[]" 300] m
  show ?thesis by (auto simp: sample_call_def)
qed

text \<open>The contracts among the accounts: those with code.\<close>

lemma IsContractAddr_abs:
  "fst (sd_IsContractAddr c a s) = (case as_acc (abs_state c s) a of None \<Rightarrow> False | Some v \<Rightarrow> av_code v \<noteq> [])"
  using abs_reads(4) [of c a s] by (simp add: sd_IsContractAddr_def sd_GetCodeSize_def split_beta split: option.splits)

lemma Transfer_records:
  assumes k: "keccak_ok c" and inv: "sd_inv c (ev_StateDB ev)" and ct: "fst (sd_IsContractAddr c a (ev_StateDB ev))" and v: "0 < big_Uint64 v"
  shows "(a, b) \<in> recorded (Transfer c a b v ev)"
proof -
  let ?s1 = "sd_SubBalance c a v (ev_StateDB ev)"
  have i1: "sd_inv c ?s1" by (rule jstep_inv [OF jstep_SubBalance [OF k] inv])
  have "fst (sd_IsContractAddr c a (sd_AddBalance c b v ?s1))"
    using ct writes_abs(1) [OF k i1, of b v] writes_abs(2) [OF k inv, of a v]
    by (auto simp: IsContractAddr_abs acct_def split: option.splits)
  then show ?thesis
    using v record_keeps(2) [where a = a and b = b and v = "big_Uint64 v"
      and ev = "ev\<lparr>ev_StateDB := snd (sd_IsContractAddr c a (sd_AddBalance c b v ?s1))\<rparr>"]
    by (simp add: Transfer_def Let_def split_beta)
qed

lemma tail_records:
  assumes "vgood E r" "sd_good (ve_codec E) (ev_StateDB ev)" "0 \<le> ct_value ct"
  shows "wlp (obind (run E r ev ct input ro) (finish_call E i)) (\<lambda>(ret, g, err, ev'). recorded ev \<subseteq> recorded ev')"
proof -
  have "wlp (run E r ev ct input ro) (\<lambda>(ret, err, ct', ev'). evstep E ev ev')"
    using run_vgood [OF assms(1)] assms(2,3) by (simp add: vgood_def)
  then show ?thesis
    unfolding wlp_simps by (rule wlp_mono) (auto simp: finish_call_def evstep_def recorded_def Let_def split: option.split)
qed


text \<open>The start of a call, up to the run of the code: a recorded transfer of the value, as a step of the machine.\<close>

lemma Call_start_records:
  fixes ev6 :: EVM
  assumes k: "keccak_ok (ve_codec E)" and good: "sd_good (ve_codec E) (ev_StateDB ev)" and v: "0 \<le> v" "0 < big_Uint64 v"
    and ct: "fst (sd_IsContractAddr (ve_codec E) a (ev_StateDB ev))" and a: "a = ref_Address caller"
    and c1: "ev_read (CanTransfer (ve_codec E) a v) ev = (True, ev1)" and c2: "ev_read sd_Snapshot ev1 = (i, ev2)"
    and c3: "ev_read (sd_Exist (ve_codec E) addr) ev2 = (ex, ev3)"
    and ev4: "ev4 = (if ex then ev3 else ev_write (sd_CreateAccount (ve_codec E) addr) ev3)"
    and c5: "NewContract caller addr v gas (Transfer (ve_codec E) a addr v ev4) = (ct0, ev5)"
    and c6: "load_code E addr ct0 ev5 = (ct', ev6)"
  shows "(a, addr) \<in> recorded ev6" "evstep E ev ev6" "ct_value ct' = v"
proof -
  let ?c = "ve_codec E"
  note can = CanTransfer_ok [OF c1 [unfolded a]] and start = start_contract [where h = "\<lambda>ct. ct", OF c5 c6 NewContract_value [OF c5]]
  have e12: "same_bal E ev1 ev2" by (rule same_bal_read [OF _ c2]) (simp add: calm_ops)
  have e23: "same_bal E ev2 ev3" by (rule same_bal_read [OF _ c3]) (simp add: calm_reads)
  have e34: "same_bal E ev3 ev4" unfolding ev4 by (auto simp: same_bal_write calm_ops k) (simp add: same_bal_def)
  have e2: "same_bal E ev ev2" by (rule same_bal_trans [OF can(1) e12])
  have e4: "same_bal E ev ev4" by (rule same_bal_trans [OF e2 same_bal_trans [OF e23 e34]])
  have i2: "sd_inv ?c (ev_StateDB ev2)" and i3: "sd_inv ?c (ev_StateDB ev3)" and i4: "sd_inv ?c (ev_StateDB ev4)"
    using same_bal_good [OF e2 good] same_bal_good [OF e4 good] same_bal_good [OF same_bal_trans [OF e2 e23] good]
    by (simp_all add: sd_good_def)
  have "abs_state ?c (ev_StateDB ev2) = abs_state ?c (ev_StateDB ev)"
    using c1 c2 good reads_abs(3) [of ?c "ev_StateDB ev" a] other_writes_abs(4)
    by (auto simp: ev_read_def CanTransfer_def split_beta sd_good_def)
  moreover have "abs_state ?c (ev_StateDB ev3) = abs_state ?c (ev_StateDB ev2)" "ex = fst (sd_Exist ?c addr (ev_StateDB ev2))"
    using c3 reads_abs(1) [OF i2, of addr] by (auto simp: ev_read_def split_beta)
  ultimately have "fst (sd_IsContractAddr ?c a (ev_StateDB ev4))"
    using ct CreateAccount_abs [OF k i3, of addr]
    by (auto simp: ev4 ev_write_def IsContractAddr_abs abs_reads(1) split: option.splits)
  then have "(a, addr) \<in> recorded (Transfer ?c a addr v ev4)" by (rule Transfer_records [OF k i4 _ v(2)])
  then show "(a, addr) \<in> recorded ev6" using start(1) by (auto simp: evstep_def)
  show "evstep E ev ev6" by (rule evstep_trans [OF same_bal_Transfer [OF k good e4 v(1)] start(1)]) (use can(2) a in simp)
  show "ct_value ct' = v" by (rule start(2))
qed

lemma Call_records:
  assumes k: "keccak_ok (ve_codec E)" and r: "vgood E r" and good: "sd_good (ve_codec E) (ev_StateDB ev)" and v: "0 \<le> v" "0 < big_Uint64 v"
    and ct: "fst (sd_IsContractAddr (ve_codec E) (ref_Address caller) (ev_StateDB ev))"
    and ret: "evm_Call E r ev caller addr input gas v = Returns (ret, left, Some err, ev')"
    and err: "err \<noteq> ErrDepth" "err \<noteq> ErrInsufficientBalance"
  shows "(ref_Address caller, addr) \<in> recorded ev'"
proof (rule evm_Call_parts [of E caller v ev addr gas r input])
  fix can ev1 i ev2 ex ev3 ev4 ct0 ev5 ct' ev6
  assume c1: "ev_read (CanTransfer (ve_codec E) (ref_Address caller) v) ev = (can, ev1)" and c2: "ev_read sd_Snapshot ev1 = (i, ev2)"
    and c3: "ev_read (sd_Exist (ve_codec E) addr) ev2 = (ex, ev3)"
    and ev4: "ev4 = (if ex then ev3 else ev_write (sd_CreateAccount (ve_codec E) addr) ev3)"
    and c5: "NewContract caller addr v gas (Transfer (ve_codec E) (ref_Address caller) addr v ev4) = (ct0, ev5)"
    and c6: "load_code E addr ct0 ev5 = (ct', ev6)"
    and eq: "evm_Call E r ev caller addr input gas v =
       (if ve_NoRecursion E \<and> ev_depth ev > 0 then Returns ([], gas, None, ev)
        else if ev_depth ev > CallCreateDepth then Returns ([], gas, Some ErrDepth, ev)
        else if \<not> can then Returns ([], gas, Some ErrInsufficientBalance, ev1)
        else if \<not> ex \<and> map_of PrecompiledContracts addr = None \<and> v = 0 then Returns ([], gas, None, ev3)
        else obind (run E r ev6 ct' input False) (finish_call E i))"
  have tail: can "obind (run E r ev6 ct' input False) (finish_call E i) = Returns (ret, left, Some err, ev')"
    using ret err eq by (auto split: if_splits)
  have c1': "ev_read (CanTransfer (ve_codec E) (ref_Address caller) v) ev = (True, ev1)" using c1 tail(1) by simp
  note st = Call_start_records [OF k good v ct refl c1' c2 c3 ev4 c5 c6]
  have "sd_good (ve_codec E) (ev_StateDB ev6)" "0 \<le> ct_value ct'" using st(2,3) v(1) good pstep_good by (auto simp: evstep_def)
  from tail_records [OF r this, of input False i] show ?thesis using tail(2) st(1) by (auto simp: wlp_def)
qed

text \<open>C11: The record of transfers that a block's internal transactions are made from is not undone with a
  call. When a contract calls an address with a value and the call fails, other than for its depth or the
  balance, the state is what it was, so nothing was paid, but the transfer from the contract to that address
  stays in the record, \<^verbatim>\<open>EVM.Transfers\<close>.\<close>

theorem reverted_transfer_stays_recorded:
  assumes "keccak_ok (ve_codec E)" "0 \<le> ve_GasPrice E" "ev_depth ev \<le> CallCreateDepth" "sd_inv (ve_codec E) (ev_StateDB ev)"
    and "\<forall>a. 0 \<le> balances E ev a" "0 \<le> v" "0 < big_Uint64 v"
    and "fst (sd_IsContractAddr (ve_codec E) (ref_Address caller) (ev_StateDB ev))"
    and "evm_Call E (Run_at E call_levels) ev caller addr input gas v = Returns (ret, left, Some err, ev')"
    and "err \<noteq> ErrDepth" "err \<noteq> ErrInsufficientBalance"
  shows "abs_state (ve_codec E) (ev_StateDB ev') = abs_state (ve_codec E) (ev_StateDB ev) \<and>
    (\<exists>l w. map_of (ev_Transfers ev') (ref_Address caller) = Some l \<and> w \<in> set l \<and> ti_To w = addr)"
proof -
  have "(ref_Address caller, addr) \<in> recorded ev'"
    using Call_records [OF assms(1) Run_at_vgood [OF assms(1,2)] good_balances [OF assms(4,5)] assms(6-11)] .
  moreover have "call_ok E ev gas (evm_Call E (Run_at E call_levels) ev caller addr input gas v)"
    by (rule evm_Call_ok [OF assms(1) call_levels_good [OF assms(1,3)]])
  ultimately show ?thesis using assms(4,9) by (auto simp: recorded_def call_ok_def)
qed

theorem reverted_transfer_stays_recorded_witness:
  "\<exists>ret left ev'. sample_call = Returns (ret, left, Some errExecutionReverted, ev') \<and>
     (\<exists>l w. map_of (ev_Transfers ev') (replicate 20 7) = Some l \<and> w \<in> set l \<and> ti_To w = replicate 20 9)"
proof -
  obtain ret left ev' where m: "sample_call = Returns (ret, left, Some errExecutionReverted, ev')" using sample_reverts by blast
  have a: "ref_Address (CallerContract sample_contract) = replicate 20 7" by (simp add: sample_contract_def)
  have "fst (sd_IsContractAddr (ve_codec sample_env) (ref_Address (CallerContract sample_contract)) (ev_StateDB sample_machine))" by code_simp
  moreover have "ev_depth sample_machine \<le> CallCreateDepth" "0 < big_Uint64 3"
    by (simp_all add: sample_machine_def NewEVM_def big_Uint64_def)
  moreover have "keccak_ok (ve_codec sample_env)" "0 \<le> ve_GasPrice sample_env" "sd_inv (ve_codec sample_env) (ev_StateDB sample_machine)"
    "\<forall>a. 0 \<le> balances sample_env sample_machine a" "(0 :: int) \<le> 3"
    using sample_keccak_ok sample_db(3) by (simp_all add: sample_balances)
  ultimately have "\<exists>l w. map_of (ev_Transfers ev') (replicate 20 7) = Some l \<and> w \<in> set l \<and> ti_To w = replicate 20 9"
    using reverted_transfer_stays_recorded [OF _ _ _ _ _ _ _ _ m [unfolded sample_call_def]] unfolding a by simp
  with m show ?thesis by blast
qed


text \<open>C10: Every instruction keeps the frame of a run well formed. If the state database is consistent, no
  balance, no word of the stack and no value carried by the contract is negative, and the stack has at most
  \<^verbatim>\<open>StackLimit\<close> words, then all of that holds again after one step of the interpreter, whichever
  instruction it was, whether it went on, stopped or failed, and whatever code its inner calls ran.\<close>

theorem instructions_keep_frame:
  assumes "keccak_ok (ve_codec E)" "0 \<le> ve_GasPrice E" "fr_typed E f" "run_step E (Run_at E n) f = Returns s"
  shows "fr_typed E (step_frame s)"
proof -
  have f: "fr_good E f" "length (fr_stack f) \<le> StackLimit" using assms(3) by (simp_all add: fr_typed_def)
  have "vres E f (step_frame s)" "length (fr_stack (step_frame s)) \<le> StackLimit"
    using run_step_vres [OF assms(1,2) Run_at_vgood [OF assms(1,2), of n] f(1)] f(2) assms(4) by (simp_all add: wlp_def)
  then show ?thesis using fr_good_step [OF f(1)] by (simp add: fr_typed_def)
qed

text \<open>The frame of the example contract at its first instruction, and that frame after it.\<close>

definition sample_frame :: frame where
  "sample_frame = \<lparr>fr_pc = 0, fr_contract = sample_contract\<lparr>ct_Code := [0x60, 0x05, 0x00]\<rparr>, fr_mem = NewMemory, fr_stack = [3], fr_evm = sample_machine\<rparr>"

theorem instructions_keep_frame_witness:
  "\<exists>f. run_step sample_env (Run_at sample_env call_levels) sample_frame = Returns (Next f) \<and> fr_stack f = [5, 3] \<and> fr_typed sample_env f"
proof -
  have "case run_step sample_env (Run_at sample_env call_levels) sample_frame of Returns (Next f) \<Rightarrow> fr_stack f = [5, 3] | _ \<Rightarrow> False"
    by code_simp
  then obtain f where f: "run_step sample_env (Run_at sample_env call_levels) sample_frame = Returns (Next f)" "fr_stack f = [5, 3]"
    by (auto split: outcome.splits step.splits)
  have "sd_good (ve_codec sample_env) (ev_StateDB sample_machine)" 
    by (rule good_balances) (use sample_db(3) in \<open>simp_all add: sample_balances\<close>)
  then have "fr_typed sample_env sample_frame"
    by (simp add: sample_frame_def fr_typed_def fr_good_def sample_contract_def StackLimit_def)
  with instructions_keep_frame [OF _ _ this f(1)] f sample_keccak_ok show ?thesis by auto
qed

end
