(* ===== verification/Tx_Generate.thy ===== *)
theory Tx_Generate
  imports Tx_Logic
begin

text \<open>
  Building, signing and reporting the change of a transaction in one call, the \<^verbatim>\<open>New...WithUtxos\<close>
  functions of \<^verbatim>\<open>src/core/txlogic/tx_generate.go\<close>, and the parameters of a contract run taken from a
  transaction, \<^verbatim>\<open>VMTransaction\<close> of \<^verbatim>\<open>src/core/types/transaction_vm.go\<close>. The address of the account is
  the argument \<open>addr\<close>. The lemmas show that the reported change is an output of the signed transaction.
\<close>

section \<open>Change\<close>

text \<open>\<^verbatim>\<open>txlogic.NewUtxoWrap\<close> and \<^verbatim>\<open>NewTokenUtxoWrap\<close>\<close>

definition NewAddrUtxoWrap :: "bytes \<Rightarrow> u32 \<Rightarrow> u64 \<Rightarrow> UtxoWrap" where
  "NewAddrUtxoWrap addrHash height v = NewUtxoWrap v (PayToPubKeyHashScript addrHash) height"

definition NewIssueTokenUtxoWrap :: "bytes \<Rightarrow> TokenTag \<Rightarrow> u32 \<Rightarrow> UtxoWrap" where
  "NewIssueTokenUtxoWrap addrHash tag height = NewUtxoWrap 0 (ScriptPubKey (MakeIssueTokenVout addrHash tag)) height"

definition NewTokenUtxoWrap :: "bytes \<Rightarrow> OutPoint \<Rightarrow> u32 \<Rightarrow> u64 \<Rightarrow> UtxoWrap" where
  "NewTokenUtxoWrap addrHash tid height v = NewUtxoWrap 0 (ScriptPubKey (MakeTokenVout addrHash tid v)) height"

text \<open>The change output of a signed transaction, if there is change: its last output. The hash of the
  transaction is cached on the way.\<close>

definition report_change ::
  "('sig, 'pk) crypto_ops \<Rightarrow> bytes \<Rightarrow> u64 \<Rightarrow> Transaction \<Rightarrow> Transaction \<times> PbUtxo option" where
  "report_change c addr changeAmt tx =
     (if changeAmt > 0 then
        (let (txHash, tx) = TxHash c tx;
             idx = of_nat (length (Vout tx)) - 1
         in (tx, Some (MakePbUtxo (NewOutPoint txHash idx) (NewAddrUtxoWrap addr 0 changeAmt))))
      else (tx, None))"

text \<open>A dropped error leaves an amount of zero.\<close>

definition amount_or_zero :: "tx_error + u64 \<Rightarrow> u64" where
  "amount_or_zero r = (case r of Inl _ \<Rightarrow> 0 | Inr a \<Rightarrow> a)"

section \<open>Signed transactions\<close>

definition NewTxWithUtxos ::
  "('sig, 'pk) crypto_ops \<Rightarrow> Account \<Rightarrow> bytes \<Rightarrow> bytes list \<Rightarrow> PbUtxo list \<Rightarrow> u64 list \<Rightarrow>
     tx_error + (Transaction \<times> PbUtxo option)" where
  "NewTxWithUtxos c fromAcc addr toAddrs utxos amounts =
     (case MakeUnsignedTx addr toAddrs amounts utxos of Inl e \<Rightarrow> Inl e | Inr tx \<Rightarrow>
     (case SignTxWithUtxos c tx utxos fromAcc of Inl e \<Rightarrow> Inl e | Inr tx \<Rightarrow>
        Inr (report_change c addr (amount_or_zero (calcChangeAmount amounts utxos)) tx)))"

definition NewSplitAddrTxWithUtxos ::
  "('sig, 'pk) crypto_ops \<Rightarrow> Account \<Rightarrow> bytes \<Rightarrow> bytes list \<Rightarrow> u32 list \<Rightarrow> PbUtxo list \<Rightarrow>
     tx_error + (Transaction \<times> PbUtxo option)" where
  "NewSplitAddrTxWithUtxos c acc addr addrs weights utxos =
     (if length addrs \<noteq> length weights then Inl ErrInvalidArguments
      else case MakeUnsignedSplitAddrTx c addr addrs weights utxos of Inl e \<Rightarrow> Inl e | Inr tx \<Rightarrow>
     (case SignTxWithUtxos c tx utxos acc of Inl e \<Rightarrow> Inl e | Inr tx \<Rightarrow>
        Inr (report_change c addr (amount_or_zero (calcChangeAmount [] utxos)) tx)))"

text \<open>The token is named by the outpoint of its issue.\<close>

definition NewTokenIssueTxWithUtxos ::
  "('sig, 'pk) crypto_ops \<Rightarrow> Account \<Rightarrow> bytes \<Rightarrow> bytes \<Rightarrow> TokenTag \<Rightarrow> PbUtxo list \<Rightarrow>
     tx_error + (Transaction \<times> OutPoint \<times> PbUtxo option)" where
  "NewTokenIssueTxWithUtxos c fromAcc addr to tag utxos =
     (case MakeUnsignedTokenIssueTx addr to tag utxos of Inl e \<Rightarrow> Inl e | Inr (tx, issueOutIndex) \<Rightarrow>
     (case SignTxWithUtxos c tx utxos fromAcc of Inl e \<Rightarrow> Inl e | Inr tx \<Rightarrow>
        (let (txHash, tx) = TxHash c tx;
             (tx, change) = report_change c addr (amount_or_zero (calcChangeAmount [] utxos)) tx
         in Inr (tx, NewOutPoint txHash issueOutIndex, change))))"

text \<open>The coins and the tokens left over: the last output and the one before it.\<close>

definition report_changes ::
  "('sig, 'pk) crypto_ops \<Rightarrow> bytes \<Rightarrow> OutPoint \<Rightarrow> u64 \<Rightarrow> u64 \<Rightarrow> Transaction \<Rightarrow> Transaction \<times> PbUtxo option \<times> PbUtxo option"
where
  "report_changes c addr tid changeAmt tokenRemain tx =
     (let (txHash, tx) = (if changeAmt > 0 \<or> tokenRemain > 0 then TxHash c tx else (None, tx));
          last = of_nat (length (Vout tx)) - 1;
          boxChange = (if changeAmt > 0
            then Some (MakePbUtxo (NewOutPoint txHash last) (NewAddrUtxoWrap addr 0 changeAmt)) else None);
          idx = (if changeAmt > 0 then last - 1 else last);
          tokenChange = (if tokenRemain > 0
            then Some (MakePbUtxo (NewOutPoint txHash idx) (NewTokenUtxoWrap addr tid 0 tokenRemain)) else None)
      in (tx, boxChange, tokenChange))"

definition NewTokenTransferTxWithUtxos ::
  "('sig, 'pk) crypto_ops \<Rightarrow> (byte \<Rightarrow> u64) \<Rightarrow> Account \<Rightarrow> bytes \<Rightarrow> bytes list \<Rightarrow> u64 list \<Rightarrow> OutPoint \<Rightarrow> PbUtxo list \<Rightarrow>
     tx_error + (Transaction \<times> PbUtxo option \<times> PbUtxo option)" where
  "NewTokenTransferTxWithUtxos c pow10 fromAcc addr to amounts tid utxos =
     (if length to \<noteq> length amounts then Inl ErrInvalidArguments
      else case MakeUnsignedTokenTransferTx pow10 addr to amounts tid utxos of Inl e \<Rightarrow> Inl e | Inr tx \<Rightarrow>
     (case SignTxWithUtxos c tx utxos fromAcc of Inl e \<Rightarrow> Inl e | Inr tx \<Rightarrow>
        Inr (report_changes c addr tid (amount_or_zero (calcChangeAmount [] utxos))
               (amount_or_zero (calcTokenChangeAmount pow10 tid amounts utxos)) tx)))"

definition NewContractTxWithUtxos ::
  "('sig, 'pk) crypto_ops \<Rightarrow> Account \<Rightarrow> bytes \<Rightarrow> bytes option \<Rightarrow> u64 \<Rightarrow> u64 \<Rightarrow> u64 \<Rightarrow> bytes \<Rightarrow> PbUtxo list \<Rightarrow>
     tx_error + (Transaction \<times> PbUtxo option)" where
  "NewContractTxWithUtxos c fromAcc addr contractAddr amount gasLimit nonce byteCode utxos =
     (case MakeUnsignedContractCallTx (Some addr) contractAddr amount gasLimit nonce byteCode utxos of Inl e \<Rightarrow> Inl e | Inr tx \<Rightarrow>
     (case SignTxWithUtxos c tx utxos fromAcc of Inl e \<Rightarrow> Inl e | Inr tx \<Rightarrow>
     (case calcContractChangeAmount gasLimit amount utxos of Inl e \<Rightarrow> Inl e | Inr changeAmt \<Rightarrow>
        Inr (report_change c addr changeAmt tx))))"

section \<open>Contract runs\<close>

text \<open>A transaction as the virtual machine sees it. The \<^verbatim>\<open>With\<close> methods set a field and return the receiver.\<close>

record VMTransaction =
  vt_version :: "32 word"
  vt_from :: "bytes option"
  vt_to :: "bytes option"
  vt_originTx :: "bytes option"
  vt_value :: int
  vt_gasPrice :: int
  vt_gas :: u64
  vt_nonce :: u64
  vt_code :: bytes
  vt_typ :: ContractType

definition NewVMTransaction ::
  "int \<Rightarrow> u64 \<Rightarrow> u64 \<Rightarrow> u64 \<Rightarrow> bytes option \<Rightarrow> ContractType \<Rightarrow> bytes \<Rightarrow> VMTransaction" where
  "NewVMTransaction v gas gasPrice nonce hash typ' code =
     \<lparr>vt_version = VMVersion, vt_from = None, vt_to = None, vt_originTx = hash, vt_value = v, vt_gasPrice = uint gasPrice,
      vt_gas = gas, vt_nonce = nonce, vt_code = code, vt_typ = typ'\<rparr>"

definition WithFrom :: "bytes option \<Rightarrow> VMTransaction \<Rightarrow> VMTransaction" where
  "WithFrom from tx = tx\<lparr>vt_from := from\<rparr>"

definition WithTo :: "bytes option \<Rightarrow> VMTransaction \<Rightarrow> VMTransaction" where
  "WithTo to tx = tx\<lparr>vt_to := to\<rparr>"

section \<open>The reported change is an output\<close>

text \<open>A wallet utxo stands for the output at its index in the transaction of its hash.\<close>

definition pays_change :: "('sig, 'pk) crypto_ops \<Rightarrow> Transaction \<Rightarrow> PbUtxo \<Rightarrow> bool" where
  "pays_change c tx u \<longleftrightarrow> fst (TxHash c tx) = Some (pb_Hash (pu_OutPoint u)) \<and>
     unat (pb_Index (pu_OutPoint u)) < length (Vout tx) \<and>
     pu_TxOut u = Some (Vout tx ! unat (pb_Index (pu_OutPoint u))) \<and> \<not> pu_IsSpent u"

lemma sign_keeps: "SignTxWithUtxos c tx utxos acc = Inr tx' \<Longrightarrow> Vout tx' = Vout tx"
  using sign_loop_spec [of c acc 0 utxos tx tx'] by (simp add: SignTxWithUtxos_def same_unsigned_def)

lemma TxHash_again: "TxHash c tx = (h, tx') \<Longrightarrow> h \<noteq> None \<Longrightarrow> TxHash c tx' = (h, tx') \<and> Vout tx' = Vout tx"
  by (auto simp: TxHash_def split: option.splits)

lemma TxHash_fails: "TxHash c tx = (None, tx') \<Longrightarrow> tx' = tx"
  by (auto simp: TxHash_def split: option.splits)

lemma MakePbUtxo_new:
  "\<not> pu_IsSpent (MakePbUtxo op (NewAddrUtxoWrap a h v))" "\<not> pu_IsSpent (MakePbUtxo op (NewTokenUtxoWrap a tid h v))"
  by (simp_all add: NewAddrUtxoWrap_def NewTokenUtxoWrap_def MakePbUtxo_def IsSpent_def NewUtxoWrap_def Let_def spent_def modified_def)

lemma p2pkh_not_token:
  assumes "length h = Ripemd160Size"
  shows "\<not> IsTokenIssue (PayToPubKeyHashScript h)" "\<not> IsTokenTransfer (PayToPubKeyHashScript h)"
proof -
  have "parse [] = []" by (simp add: parse_def parse_from.simps)
  then show "\<not> IsTokenIssue (PayToPubKeyHashScript h)" "\<not> IsTokenTransfer (PayToPubKeyHashScript h)"
    using p2pkh_prefix [OF assms, of "[]"] by (auto simp: IsTokenIssue_def IsTokenTransfer_def Let_def)
qed

lemma MakePbUtxo_coins:
  "length a = Ripemd160Size \<Longrightarrow> pu_TxOut (MakePbUtxo op (NewAddrUtxoWrap a h v)) = Some (MakeVout a v)"
  by (simp add: MakePbUtxo_def NewAddrUtxoWrap_def MakeVout_def p2pkh_not_token NewUtxoWrap_def Let_def)

lemma MakePbUtxo_tokens:
  "pu_TxOut (MakePbUtxo op (NewTokenUtxoWrap a tid h v)) = Some (MakeTokenVout a tid v)"
  by (simp add: MakePbUtxo_def NewTokenUtxoWrap_def MakeTokenVout_def NewUtxoWrap_def Let_def)

lemma last_index:
  assumes "0 < n" "n < 2 ^ 32"
  shows "unat (of_nat n - 1 :: u32) = n - 1"
proof -
  have "of_nat n - 1 = (of_nat (n - 1) :: u32)" using assms(1) by (simp add: of_nat_diff)
  then show ?thesis using assms by (simp only:) (rule unat_of_nat_less, simp)
qed

text \<open>An output of the transaction at a known index, as the change report describes it.\<close>

lemma pays_changeI:
  assumes "TxHash c tx = (Some h, tx)" "pu_OutPoint u = ConvOutPoint (NewOutPoint (Some h) i)" "unat i < length (Vout tx)"
    "pu_TxOut u = Some (Vout tx ! unat i)" "\<not> pu_IsSpent u"
  shows "pays_change c tx u"
  using assms by (simp add: pays_change_def ConvOutPoint_def NewOutPoint_def)

lemma report_change_pays:
  assumes "report_change c addr amt tx = (tx', Some u)" "Vout tx = outs @ change_vout addr amt" "length (Vout tx) < 2 ^ 32"
    and "length addr = Ripemd160Size" "fst (TxHash c tx') \<noteq> None"
  shows "pays_change c tx' u"
proof -
  have amt: "0 < amt" using assms(1) by (auto simp: report_change_def split: if_splits)
  obtain h tx1 where h: "TxHash c tx = (h, tx1)" by (cases "TxHash c tx")
  with assms(1) amt have tx': "tx' = tx1"
    and u: "u = MakePbUtxo (NewOutPoint h (of_nat (length (Vout tx1)) - 1)) (NewAddrUtxoWrap addr 0 amt)"
    by (auto simp: report_change_def)
  have "h \<noteq> None" using assms(5) h TxHash_fails [of c tx tx1] tx' by (cases h) auto
  with TxHash_again [OF h] obtain d where d: "h = Some d" "TxHash c tx' = (Some d, tx')" and out: "Vout tx' = Vout tx"
    using tx' by auto
  have vout: "Vout tx = outs @ [MakeVout addr amt]" using assms(2) amt by (simp add: change_vout_def)
  then have i: "unat (of_nat (length (Vout tx)) - 1 :: u32) = length outs" using last_index [of "length (Vout tx)"] assms(3) by simp
  show ?thesis
  proof (rule pays_changeI [OF d(2)])
    show "pu_OutPoint u = ConvOutPoint (NewOutPoint (Some d) (of_nat (length (Vout tx)) - 1))"
      using u d(1) out tx' by (simp add: MakePbUtxo_def Let_def)
    show "pu_TxOut u = Some (Vout tx' ! unat (of_nat (length (Vout tx)) - 1 :: u32))"
      unfolding i out u using assms(4) by (simp add: MakePbUtxo_coins vout)
  qed (use i out vout u in \<open>simp_all add: MakePbUtxo_new\<close>)
qed

lemma NewTxWithUtxos_change:
  assumes "NewTxWithUtxos c acc addr to utxos amounts = Inr (tx, Some u)"
    and "length addr = Ripemd160Size" "length to + 1 < 2 ^ 32" "fst (TxHash c tx) \<noteq> None"
  shows "pays_change c tx u"
proof -
  obtain amt tx1 where ch: "calcChangeAmount amounts utxos = Inr amt"
    and tx1: "SignTxWithUtxos c (new_transaction\<lparr>Vin := utxo_vins utxos, Vout := map2 MakeVout to amounts @ change_vout addr amt\<rparr>)
        utxos acc = Inr tx1"
    and r: "report_change c addr amt tx1 = (tx, Some u)"
    using assms(1) by (auto simp: NewTxWithUtxos_def MakeUnsignedTx_def amount_or_zero_def split: sum.splits if_splits)
  have "Vout tx1 = map2 MakeVout to amounts @ change_vout addr amt" using sign_keeps [OF tx1] by simp
  moreover from this have "length (Vout tx1) < 2 ^ 32" using assms(3) by (auto simp: change_vout_def min_def)
  ultimately show ?thesis using report_change_pays [OF r _ _ assms(2,4)] by blast
qed

text \<open>A token transfer reports the coins and the tokens left over; both are outputs of the
  signed transaction, the tokens before the coins.\<close>

lemma report_changes_pay:
  assumes "report_changes c addr tid amt rest tx = (tx', boxChange, tokenChange)"
    and vout: "Vout tx = outs @ (if rest > 0 then [MakeTokenVout addr tid rest] else []) @ change_vout addr amt"
    and "length (Vout tx) < 2 ^ 32" "length addr = Ripemd160Size" "fst (TxHash c tx') \<noteq> None"
  shows "\<forall>u\<in>set_option boxChange \<union> set_option tokenChange. pays_change c tx' u"
proof (cases "amt > 0 \<or> rest > 0")
  case True
  obtain h tx1 where h: "TxHash c tx = (h, tx1)" by (cases "TxHash c tx")
  let ?n = "length (Vout tx1)"
  let ?last = "of_nat ?n - 1 :: u32"
  from assms(1) True h have tx': "tx' = tx1"
    and box: "boxChange = (if amt > 0 then Some (MakePbUtxo (NewOutPoint h ?last) (NewAddrUtxoWrap addr 0 amt)) else None)"
    and tok: "tokenChange = (if rest > 0 then Some (MakePbUtxo (NewOutPoint h (if amt > 0 then ?last - 1 else ?last))
        (NewTokenUtxoWrap addr tid 0 rest)) else None)"
    by (simp_all add: report_changes_def Let_def)
  have "h \<noteq> None" using assms(5) h TxHash_fails [of c tx tx1] tx' by (cases h) auto
  with TxHash_again [OF h] obtain d where d: "h = Some d" "TxHash c tx' = (Some d, tx')" and out: "Vout tx' = Vout tx"
    using tx' by auto
  have n: "?n = length (Vout tx)" "?n < 2 ^ 32" using out tx' assms(3) by simp_all
  have last: "unat ?last = ?n - 1" if "0 < ?n" using last_index [OF that] n by simp
  have before: "unat (?last - 1) = ?n - 2" if "1 < ?n"
    using last_index [of "?n - 1"] that n by (simp add: of_nat_diff numeral_2_eq_2)
  have pb: "pu_OutPoint (MakePbUtxo op w) = ConvOutPoint op" for op w by (simp add: MakePbUtxo_def Let_def)
  have "pays_change c tx' u" if "boxChange = Some u" for u
    using that box d last n out vout assms(4) tx'
    by (intro pays_changeI [OF d(2), of _ ?last])
      (auto simp: pb MakePbUtxo_coins change_vout_def nth_append MakePbUtxo_new split: if_splits)
  moreover have "pays_change c tx' u" if "tokenChange = Some u" for u
    using that tok d last before n out vout tx'
    by (intro pays_changeI [OF d(2), of _ "if amt > 0 then ?last - 1 else ?last"])
      (auto simp: pb MakePbUtxo_tokens change_vout_def nth_append MakePbUtxo_new split: if_splits)
  ultimately show ?thesis by (auto simp: elem_set)
next
  case False
  with assms(1) show ?thesis by (simp add: report_changes_def)
qed

lemma NewTokenTransferTxWithUtxos_change:
  assumes "NewTokenTransferTxWithUtxos c pow10 acc addr to amounts tid utxos = Inr (tx, boxChange, tokenChange)"
    and "length addr = Ripemd160Size" "length to + 2 < 2 ^ 32" "fst (TxHash c tx) \<noteq> None"
  shows "\<forall>u\<in>set_option boxChange \<union> set_option tokenChange. pays_change c tx u"
proof -
  let ?amt = "amount_or_zero (calcChangeAmount [] utxos)" and ?rest = "amount_or_zero (calcTokenChangeAmount pow10 tid amounts utxos)"
  let ?outs = "map2 (\<lambda>addr amt. MakeTokenVout addr tid amt) to amounts"
  from assms(1) obtain tx0 tx1 where tx0: "MakeUnsignedTokenTransferTx pow10 addr to amounts tid utxos = Inr tx0"
    and tx1: "SignTxWithUtxos c tx0 utxos acc = Inr tx1" and r: "report_changes c addr tid ?amt ?rest tx1 = (tx, boxChange, tokenChange)"
    by (auto simp: NewTokenTransferTxWithUtxos_def split: sum.splits if_splits)
  have "Vout tx0 = ?outs @ (if ?rest > 0 then [MakeTokenVout addr tid ?rest] else []) @ change_vout addr ?amt"
    using tx0 by (auto simp: MakeUnsignedTokenTransferTx_def amount_or_zero_def split: sum.splits if_splits)
  then have vout: "Vout tx1 = ?outs @ (if ?rest > 0 then [MakeTokenVout addr tid ?rest] else []) @ change_vout addr ?amt"
    using sign_keeps [OF tx1] by simp
  moreover from this have "length (Vout tx1) < 2 ^ 32" using assms(3) by (auto simp: change_vout_def min_def)
  ultimately show ?thesis using report_changes_pay [OF r _ _ assms(2,4)] by blast
qed

end
