(* ===== verification/Spec2Isabelle.thy ===== *)
theory Spec2Isabelle
  imports Script_Exec Tx_Compress Tx_Logic Db_Keys Bloom Block_Types Merkle Chain_Common Utxo_Set Tx_Validate Script_Validator Evm_Value Tx_Generate
begin

text \<open>
  A verification development for boxd, a block chain node written in Go: unspent transaction outputs
  guarded by scripts, tokens, split addresses and contracts whose accounts live in a world state.
  The definitions are a shallow embedding of the Go functions, one per function and with its name, in
  the order of the source; the theories follow the packages.

  \<^bold>\<open>Conventions.\<close> \<^verbatim>\<open>[]byte\<close> is a list of 8 bit words, unsigned integers are words of their width
  (arithmetic wraps as in Go), \<^verbatim>\<open>int\<close> is \<^typ>\<open>nat\<close> where it counts or indexes and \<^typ>\<open>int\<close>
  with the wrap-around written out where it can overflow. Structs are records, pointers tested for nil
  are options, maps are association lists, errors are values of a sum type, and a run time panic is an
  explicit value (\<^term>\<open>None\<close> or an error constructor), so that its absence can be proved. Code outside
  the repository (digests, elliptic curves, protobuf and RLP encodings, RocksDB) is a parameter of
  the definitions that use it; what is assumed of it is a named hypothesis of the theorem, and a witness
  instantiates it.

  \<^bold>\<open>Bytes and data types.\<close> \<^verbatim>\<open>Boxd_Prelude\<close> has the machine integers, Go slices and the shared
  lemmas; \<^verbatim>\<open>Byte_Codec\<close> the writers and readers of \<^verbatim>\<open>util/bytes.go\<close> and \<^verbatim>\<open>util/common.go\<close>, with the
  locale \<open>codec\<close> that states what a writer and reader promise each other and is interpreted for every
  pair. \<^verbatim>\<open>Chain_Types\<close> models hashes, addresses, transactions and outputs of \<^verbatim>\<open>core/types\<close>,
  \<^verbatim>\<open>Block_Types\<close> blocks, receipts and logs, \<^verbatim>\<open>Bloom\<close> the Murmur hash and the filters of
  \<^verbatim>\<open>util/bloom\<close>, \<^verbatim>\<open>Merkle\<close> the array algorithm of \<^verbatim>\<open>util/merkle.go\<close>. Shown: round trips of every codec
  and of the block message, no false negatives of a filter, the array is the recursive tree.

  \<^bold>\<open>Scripts.\<close> \<^verbatim>\<open>Opcode\<close>, \<^verbatim>\<open>Script_Base\<close> (builder and parser), \<^verbatim>\<open>Script_Class\<close> (templates,
  recognisers, parameter readers, tokens, split addresses, contracts) and \<^verbatim>\<open>Script_Exec\<close> (stack,
  interpreter, signature digests) model the package \<^verbatim>\<open>script\<close>. Shown: parsing inverts building, the
  recognisers accept exactly the templates, and what it takes to unlock each kind of output, for a multiple
  signature lock with whatever pushes the unlocking script makes; and that
  validation of the concatenated scripts lets an unlocking script swallow the locking script.

  \<^bold>\<open>Transactions.\<close> \<^verbatim>\<open>Tx_Logic\<close> models \<^verbatim>\<open>core/txlogic\<close>: building, fees, signing, classification;
  \<^verbatim>\<open>Tx_Generate\<close> the functions on top of it that build, report the change and sign in one go, and the
  contract transaction of \<^verbatim>\<open>core/types/transaction_vm.go\<close>. Shown: signed inputs validate, payments pay exactly
  the demanded fee, the reported change is an unspent output of the transaction.

  \<^bold>\<open>Storage.\<close> \<^verbatim>\<open>Kv_Store\<close> models \<^verbatim>\<open>storage/memdb\<close> and has the locale \<open>kv_store\<close>, the contract of
  \<^verbatim>\<open>storage/operations.go\<close> its clients rely on; \<^verbatim>\<open>Db_Keys\<close> the keys of the chain's tables,
  \<^verbatim>\<open>Tx_Compress\<close> the storage format of outputs, \<^verbatim>\<open>State_Trie\<close> the Merkle Patricia trie of
  \<^verbatim>\<open>core/trie\<close>. Shown: exclusion of transactions, injectivity of the keys, round trips of the
  formats, and that the trie implements a map that keeps its history.

  \<^bold>\<open>Chain.\<close> \<^verbatim>\<open>Chain_Common\<close>, \<^verbatim>\<open>Utxo_Set\<close>, \<^verbatim>\<open>Tx_Validate\<close> and \<^verbatim>\<open>Script_Validator\<close> model \<^verbatim>\<open>common.go\<close>,
  \<^verbatim>\<open>utxoset.go\<close> and \<^verbatim>\<open>validate.go\<close> of \<^verbatim>\<open>core/chain\<close>; the concurrent validator is a step relation of its
  goroutines and channels. Shown: valid transactions conserve the supply, disconnecting a block undoes
  connecting it on every output that the block did not create, also for blocks whose transactions spend each
  other and for a set loaded from the database, what is written to the database reads back, the parallel validator agrees with a
  sequential one and terminates.

  \<^bold>\<open>World state.\<close> \<^verbatim>\<open>World_State\<close> models \<^verbatim>\<open>core/worldstate\<close>: state objects cached in front of the trie,
  journal, snapshots, finalise, commit and copies. Shown: every operation of \<^verbatim>\<open>vm.StateDB\<close> and
  \<^verbatim>\<open>SetBalance\<close> is undone by its journal entries, so a revert restores the accounts, refund, logs and
  preimages of its snapshot and leaves the tries and tables alone; the utxo trie is outside the journal, as
  in the code. \<^verbatim>\<open>State_Accounts\<close> describes the same operations as updates of one abstract account.

  \<^bold>\<open>Contracts.\<close> The package \<^verbatim>\<open>vm\<close> in four theories: \<^verbatim>\<open>Evm_Base\<close> (256 bit arithmetic, stack, memory,
  jump destinations), \<^verbatim>\<open>Evm_Gas\<close> (prices), \<^verbatim>\<open>Evm_Ops\<close> (the operations on a frame) and \<^verbatim>\<open>Evm_Run\<close> (calls,
  creations, precompiled contracts, the table of operations, the interpreter). An execution has a value of
  \<open>outcome\<close>: it returns, panics, or runs out of fuel. \<^verbatim>\<open>Evm_Safety\<close> has a calculus of total correctness
  over it and the locale \<open>journaled\<close>, the contract of snapshots, interpreted for the world state; shown: every call
  ends and gives back at most its gas, and a failed call leaves the accounts as they were. \<^verbatim>\<open>Evm_Value\<close> has the
  partial correctness counterpart; shown: whatever contracts do they create no value, every instruction keeps
  its frame well formed, and the record of transfers is not reverted with a failed call.

  \<^bold>\<open>Bounds and fuel.\<close> Loops over data are structural. The trie operations follow digests through a
  table and carry fuel, \<open>key_fuel\<close>: two more than the number of nibbles of the key; the refinement theorem
  shows that it is never used up on a table written by the trie itself. A run of a contract is given
  one level per call depth the code allows and two more (\<open>call_levels\<close>), and one more step of the interpreter
  loop than it has gas; termination is the theorem that this is enough for any code, since every operation
  that goes on costs gas.

  \<^bold>\<open>Not modelled.\<close> Network, RPC, command line, logging and metrics are I/O. The protobuf code is
  generated. RocksDB and the curve and digest libraries are not part of the repository. The contract ABI
  works by reflection on Go types. The consensus, the transaction pool, the wallet, block synchronisation and
  the object \<^verbatim>\<open>BlockChain\<close> that drives the components above are left out, as is the state processor that
  turns recorded transfers into transactions. The depth of the Merkle tree, a floating point logarithm in the
  code, is the exact one; mutexes of data with one user at a time are not modelled.
\<close>

end
